(* ===== verification/Prelude.thy ===== *)
theory Prelude
  imports Complex_Main "HOL-Library.Char_ord" "HOL-Library.List_Lexorder"
begin

text \<open>
  The prelude: what the TypeScript sources use of the language and its standard library, and the
  generic lemmas the components share.

  \<^item> JavaScript strings are lists of code units below 256 (\<^typ>\<open>string\<close>); \<open>js_trim\<close>, \<open>starts_with\<close>,
    \<open>nat_str\<close> (template literals of a count) and the lexicographic order of the library stand for
    \<open>trim\<close>, \<open>startsWith\<close>, \<open>String(n)\<close> and \<open><=\<close> on strings.
  \<^item> Numbers of the language are rationals (\<open>js_safe_int\<close> is \<open>Number.isSafeInteger\<close>); JSON values are
    trees; a property that may be \<open>undefined\<close> is an \<^typ>\<open>'a option\<close>.
  \<^item> A throwing function returns \<open>Inl\<close> of its error; \<open>attempt\<close> is sequencing.
  \<^item> SQLite tables are lists of rows in rowid order, read and written through a key.
  \<^item> \<open>reach\<close> and the locale \<open>invariant_system\<close> lift one-step preservation to every reachable state.
\<close>

named_theorems row_simps \<open>rewriting of keyed table reads after writes\<close>
named_theorems res_splits \<open>inversion of sequenced results\<close>

subsection \<open>Results\<close>

fun attempt :: "'e + 'a \<Rightarrow> ('a \<Rightarrow> 'e + 'b) \<Rightarrow> 'e + 'b" where
  "attempt (Inl e) k = Inl e"
| "attempt (Inr x) k = k x"

lemma attempt_Inr_iff [res_splits]: "attempt r k = Inr y \<longleftrightarrow> (\<exists>x. r = Inr x \<and> k x = Inr y)"
  by (cases r) auto

lemma attempt_Inl_iff [res_splits]:
  "attempt r k = Inl e \<longleftrightarrow> r = Inl e \<or> (\<exists>x. r = Inr x \<and> k x = Inl e)"
  by (cases r) auto

lemma attempt_InrE:
  assumes "attempt r k = Inr y"
  obtains x where "r = Inr x" and "k x = Inr y"
  using assms by (auto simp: attempt_Inr_iff)

lemma ex_unit: "(\<exists>u::unit. P u) \<longleftrightarrow> P ()"
  by auto

lemma guard_Inr [simp]: "(if c then Inl e else r) = Inr y \<longleftrightarrow> \<not> c \<and> r = Inr y"
  by auto

text \<open>A loop over a list whose body may throw: the first error ends it.\<close>

fun each :: "('a \<Rightarrow> 's \<Rightarrow> 'e + 's) \<Rightarrow> 'a list \<Rightarrow> 's \<Rightarrow> 'e + 's" where
  "each f [] s = Inr s"
| "each f (x # xs) s = attempt (f x s) (each f xs)"

lemma each_invariant:
  assumes "\<And>x s s'. x \<in> set xs \<Longrightarrow> P s \<Longrightarrow> f x s = Inr s' \<Longrightarrow> P s'"
    and "P s" and "each f xs s = Inr s'"
  shows "P s'"
  using assms
proof (induction xs arbitrary: s)
  case Nil
  then show ?case by simp
next
  case (Cons x xs)
  from Cons.prems(3) obtain t where t: "f x s = Inr t" and rest: "each f xs t = Inr s'"
    by (auto simp: attempt_Inr_iff)
  have "P t" by (rule Cons.prems(1) [OF _ Cons.prems(2) t]) simp
  moreover have "\<And>x s s'. x \<in> set xs \<Longrightarrow> P s \<Longrightarrow> f x s = Inr s' \<Longrightarrow> P s'"
    by (rule Cons.prems(1)) simp_all
  ultimately show ?case using rest by (blast intro: Cons.IH)
qed

text \<open>\<open>v ?? d\<close>.\<close>

definition or_else :: "'a option \<Rightarrow> 'a \<Rightarrow> 'a" where
  "or_else v d = (case v of None \<Rightarrow> d | Some x \<Rightarrow> x)"

fun map_res :: "('a \<Rightarrow> 'e + 'b) \<Rightarrow> 'a list \<Rightarrow> 'e + 'b list" where
  "map_res f [] = Inr []"
| "map_res f (x # xs) = attempt (f x) (\<lambda>y. attempt (map_res f xs) (\<lambda>ys. Inr (y # ys)))"

lemma map_res_total: "(\<And>x. x \<in> set xs \<Longrightarrow> f (g x) = Inr x) \<Longrightarrow> map_res f (map g xs) = Inr xs"
  by (induction xs) auto

lemma map_res_length: "map_res f xs = Inr ys \<Longrightarrow> length ys = length xs"
  by (induction xs arbitrary: ys) (auto simp: attempt_Inr_iff)

lemma map_res_set: "map_res f xs = Inr ys \<Longrightarrow> y \<in> set ys \<Longrightarrow> \<exists>x\<in>set xs. f x = Inr y"
  by (induction xs arbitrary: ys) (auto simp: attempt_Inr_iff)

subsection \<open>Strings\<close>

definition js_space :: "char \<Rightarrow> bool" where
  "js_space c \<longleftrightarrow> c \<in> {CHR 0x09, CHR 0x0A, CHR 0x0B, CHR 0x0C, CHR 0x0D, CHR '' '', CHR 0xA0}"

definition js_trim :: "string \<Rightarrow> string" where
  "js_trim s = rev (dropWhile js_space (rev (dropWhile js_space s)))"

abbreviation js_blank :: "string \<Rightarrow> bool" where
  "js_blank s \<equiv> js_trim s = []"

lemma js_blank_iff: "js_blank s \<longleftrightarrow> (\<forall>c\<in>set s. js_space c)"
proof -
  have "js_blank s \<longleftrightarrow> (\<forall>c\<in>set (dropWhile js_space s). js_space c)"
    by (simp add: js_trim_def)
  also have "\<dots> \<longleftrightarrow> (\<forall>c\<in>set s. js_space c)"
    by (metis dropWhile_eq_Nil_conv hd_dropWhile list.set_sel(1) set_dropWhileD)
  finally show ?thesis .
qed

lemma js_blank_Cons [simp]: "js_blank (c # cs) \<longleftrightarrow> js_space c \<and> js_blank cs"
  by (simp add: js_blank_iff)

lemma js_trim_Nil [simp]: "js_trim [] = []"
  by (simp add: js_trim_def)

lemma hd_dropWhile_not: "dropWhile P xs = y # ys \<Longrightarrow> \<not> P y"
  by (induction xs) (auto split: if_splits)

lemma dropWhile_rev_idem:
  "dropWhile P (rev (dropWhile P (rev (dropWhile P s)))) = rev (dropWhile P (rev (dropWhile P s)))"
proof (cases "rev (dropWhile P (rev (dropWhile P s)))")
  case Nil
  then show ?thesis by (simp only: dropWhile.simps rev_is_Nil_conv rev.simps)
next
  case (Cons y ys)
  have "\<exists>zs. dropWhile P s = rev (dropWhile P (rev (dropWhile P s))) @ zs"
  proof -
    have "rev (dropWhile P s) = takeWhile P (rev (dropWhile P s)) @ dropWhile P (rev (dropWhile P s))"
      by simp
    then have "dropWhile P s
        = rev (dropWhile P (rev (dropWhile P s))) @ rev (takeWhile P (rev (dropWhile P s)))"
      by (metis rev_append rev_rev_ident)
    then show ?thesis ..
  qed
  with Cons obtain zs where "dropWhile P s = y # zs" by auto
  then have "\<not> P y" by (rule hd_dropWhile_not)
  with Cons show ?thesis by simp
qed

lemma js_trim_idem [simp]: "js_trim (js_trim s) = js_trim s"
  by (simp add: js_trim_def dropWhile_rev_idem)

lemma js_trim_no_space:
  assumes "\<And>c. c \<in> set s \<Longrightarrow> \<not> js_space c"
  shows "js_trim s = s"
proof -
  have keep: "dropWhile js_space xs = xs" if "set xs \<subseteq> set s" for xs
    using assms that by (cases xs) auto
  show ?thesis by (simp add: js_trim_def keep)
qed

definition starts_with :: "string \<Rightarrow> string \<Rightarrow> bool" where
  "starts_with p s \<longleftrightarrow> take (length p) s = p"

lemma starts_with_append [simp]: "starts_with p (p @ s)"
  by (simp add: starts_with_def)

lemma starts_with_iff: "starts_with p s \<longleftrightarrow> (\<exists>r. s = p @ r)"
  by (metis append_take_drop_id append_eq_conv_conj starts_with_def)

fun nat_str :: "nat \<Rightarrow> string" where
  "nat_str n = (if n < 10 then [char_of (48 + n)] else nat_str (n div 10) @ [char_of (48 + n mod 10)])"

declare nat_str.simps [simp del]

definition str_nat :: "string \<Rightarrow> nat" where
  "str_nat = foldl (\<lambda>n c. 10 * n + (of_char c - 48)) 0"

lemma str_nat_nat_str: "str_nat (nat_str n) = n"
proof (induction n rule: nat_str.induct)
  case (1 n)
  show ?case
  proof (cases "n < 10")
    case True
    then show ?thesis
      by (subst nat_str.simps) (simp add: str_nat_def of_char_of take_bit_eq_mod)
  next
    case False
    have digit: "(of_char (char_of (48 + n mod 10) :: char) :: nat) = 48 + n mod 10"
      by (simp add: of_char_of take_bit_eq_mod)
    from False 1 have "str_nat (nat_str (n div 10)) = n div 10" by simp
    with False digit show ?thesis
      by (subst nat_str.simps) (simp add: str_nat_def)
  qed
qed

lemma inj_nat_str: "inj nat_str"
  by (rule inj_on_inverseI [of _ str_nat]) (rule str_nat_nat_str)

lemma nat_str_eq_iff [simp]: "nat_str m = nat_str n \<longleftrightarrow> m = n"
  using inj_nat_str by (auto simp: inj_def)

lemma nat_str_not_Nil [simp]: "nat_str n \<noteq> []"
  by (subst nat_str.simps) simp

subsection \<open>Numbers and JSON values\<close>

definition js_safe_int :: "rat \<Rightarrow> bool" where
  "js_safe_int r \<longleftrightarrow> of_int \<lfloor>r\<rfloor> = r \<and> \<bar>r\<bar> \<le> 9007199254740991"

lemma js_safe_int_of_int [simp]: "js_safe_int (of_int i) \<longleftrightarrow> \<bar>i\<bar> \<le> 9007199254740991"
proof -
  have "\<bar>(of_int i :: rat)\<bar> \<le> 9007199254740991 \<longleftrightarrow> (of_int \<bar>i\<bar> :: rat) \<le> of_int 9007199254740991"
    by simp
  also have "\<dots> \<longleftrightarrow> \<bar>i\<bar> \<le> 9007199254740991"
    by (simp only: of_int_le_iff)
  finally show ?thesis by (simp add: js_safe_int_def)
qed

lemma js_safe_int_nonneg_floor:
  "js_safe_int r \<Longrightarrow> 0 \<le> r \<Longrightarrow> \<exists>n. r = of_nat n"
proof -
  assume "js_safe_int r" and "0 \<le> r"
  then have "r = of_int \<lfloor>r\<rfloor>" and "0 \<le> \<lfloor>r\<rfloor>"
    by (auto simp only: js_safe_int_def zero_le_floor)
  then have "r = of_nat (nat \<lfloor>r\<rfloor>)" by (metis of_int_of_nat_eq nat_0_le)
  then show ?thesis ..
qed

datatype json =
    JNull
  | JBool bool
  | JNum rat
  | JStr string
  | JArr "json list"
  | JObj "(string \<times> json) list"

text \<open>\<open>{a: x, ...(c ? {b: y} : {})}\<close>: an object literal with conditional spreads.\<close>

abbreviation spread_if :: "bool \<Rightarrow> (string \<times> json) list \<Rightarrow> (string \<times> json) list" where
  "spread_if c fs \<equiv> (if c then fs else [])"

definition spread_some :: "string \<Rightarrow> ('a \<Rightarrow> json) \<Rightarrow> 'a option \<Rightarrow> (string \<times> json) list" where
  "spread_some k enc v = (case v of None \<Rightarrow> [] | Some x \<Rightarrow> [(k, enc x)])"

definition or_null :: "('a \<Rightarrow> json) \<Rightarrow> 'a option \<Rightarrow> json" where
  "or_null enc v = (case v of None \<Rightarrow> JNull | Some x \<Rightarrow> enc x)"

lemma spread_some_simps [simp]:
  "spread_some k enc None = []"
  "spread_some k enc (Some x) = [(k, enc x)]"
  by (simp_all add: spread_some_def)

lemma or_null_simps [simp]:
  "or_null enc None = JNull"
  "or_null enc (Some x) = enc x"
  by (simp_all add: or_null_def)

text \<open>Reading a property of an event payload: anything that is not an object reads as \<open>{}\<close>.\<close>

definition payload_get :: "json \<Rightarrow> string \<Rightarrow> json option" where
  "payload_get p k = (case p of JObj fs \<Rightarrow> map_of fs k | _ \<Rightarrow> None)"

text \<open>The payload reads the dispatch layer writes as \<open>typeof v === 'string' && v !== '' ? v : null\<close>.\<close>

definition payload_str :: "json \<Rightarrow> string \<Rightarrow> string option" where
  "payload_str p k = (case payload_get p k of Some (JStr s) \<Rightarrow> if s = [] then None else Some s | _ \<Rightarrow> None)"

subsection \<open>Tables\<close>

text \<open>\<open>SELECT * FROM t WHERE key = k\<close> on a primary key, and \<open>UPDATE t SET ... WHERE key = k\<close>.\<close>

definition row_find :: "('r \<Rightarrow> 'k) \<Rightarrow> 'k \<Rightarrow> 'r list \<Rightarrow> 'r option" where
  "row_find key k rows = find (\<lambda>r. key r = k) rows"

definition row_update :: "('r \<Rightarrow> 'k) \<Rightarrow> 'k \<Rightarrow> ('r \<Rightarrow> 'r) \<Rightarrow> 'r list \<Rightarrow> 'r list" where
  "row_update key k f rows = map (\<lambda>r. if key r = k then f r else r) rows"

lemma row_find_SomeD: "row_find key k rows = Some r \<Longrightarrow> r \<in> set rows \<and> key r = k"
  by (auto simp: row_find_def find_Some_iff)

lemma row_find_None_iff: "row_find key k rows = None \<longleftrightarrow> k \<notin> key ` set rows"
  by (auto simp: row_find_def find_None_iff)

lemma row_find_None_ball: "row_find key k rows = None \<longleftrightarrow> (\<forall>r\<in>set rows. key r \<noteq> k)"
  by (auto simp: row_find_def find_None_iff)

lemma row_find_None_append [row_simps]:
  "row_find key k (rows @ [r]) = (case row_find key k rows of
     None \<Rightarrow> if key r = k then Some r else None | Some x \<Rightarrow> Some x)"
  by (induction rows) (auto simp: row_find_def)

lemma row_find_distinct:
  "distinct (map key rows) \<Longrightarrow> r \<in> set rows \<Longrightarrow> row_find key (key r) rows = Some r"
  by (induction rows) (auto simp: row_find_def image_iff)

lemma row_update_keys [row_simps]:
  "(\<And>r. key (f r) = key r) \<Longrightarrow> map key (row_update key k f rows) = map key rows"
  by (simp add: row_update_def)

lemma row_update_find [row_simps]:
  "(\<And>r. key (f r) = key r) \<Longrightarrow>
   row_find key j (row_update key k f rows) =
     (if j = k then map_option f (row_find key j rows) else row_find key j rows)"
  by (induction rows) (auto simp: row_find_def row_update_def)

lemma row_put_find [row_simps]:
  "key r' = k \<Longrightarrow> row_find key j (row_update key k (\<lambda>_. r') rows) =
     (if j = k then map_option (\<lambda>_. r') (row_find key k rows) else row_find key j rows)"
  by (induction rows) (auto simp: row_find_def row_update_def)

lemma row_update_set_iff:
  "r \<in> set (row_update key k f rows) \<longleftrightarrow>
     (\<exists>x\<in>set rows. r = (if key x = k then f x else x))"
  unfolding row_update_def set_map image_iff by (rule refl)

lemma row_update_length [simp]: "length (row_update key k f rows) = length rows"
  by (simp add: row_update_def)

lemma row_update_absent: "k \<notin> key ` set rows \<Longrightarrow> row_update key k f rows = rows"
  unfolding row_update_def by (rule map_idI) auto

text \<open>The last row in rowid order: \<open>ORDER BY rowid DESC LIMIT 1\<close>.\<close>

definition newest :: "('r \<Rightarrow> bool) \<Rightarrow> 'r list \<Rightarrow> 'r option" where
  "newest p rows = find p (rev rows)"

lemma newest_SomeD: "newest p rows = Some r \<Longrightarrow> r \<in> set rows \<and> p r"
  by (auto simp: newest_def find_Some_iff) (metis nth_mem length_rev set_rev)

lemma newest_None_iff: "newest p rows = None \<longleftrightarrow> (\<forall>r\<in>set rows. \<not> p r)"
  by (auto simp: newest_def find_None_iff)

text \<open>\<open>SELECT MAX(col)\<close>: NULL on no rows.\<close>

definition max_of :: "('r \<Rightarrow> 'n::linorder) \<Rightarrow> 'r list \<Rightarrow> 'n option" where
  "max_of f rows = (case rows of [] \<Rightarrow> None | r # rs \<Rightarrow> Some (fold (\<lambda>x m. max m (f x)) rs (f r)))"

lemma fold_max_ge:
  fixes f :: "'r \<Rightarrow> 'n::linorder"
  shows "m \<le> fold (\<lambda>x m. max m (f x)) rs m"
proof (induction rs arbitrary: m)
  case (Cons x xs)
  have "m \<le> max m (f x)" by simp
  also have "\<dots> \<le> fold (\<lambda>x m. max m (f x)) xs (max m (f x))" by (rule Cons.IH)
  finally show ?case by simp
qed simp

lemma fold_max_mem:
  fixes f :: "'r \<Rightarrow> 'n::linorder"
  shows "r \<in> set rs \<Longrightarrow> f r \<le> fold (\<lambda>x m. max m (f x)) rs m"
proof (induction rs arbitrary: m)
  case Nil
  then show ?case by simp
next
  case (Cons x xs)
  then show ?case
    using fold_max_ge [of "max m (f x)" f xs] by (auto intro: order_trans [OF max.cobounded2])
qed

lemma max_of_ge: "max_of f rows = Some m \<Longrightarrow> r \<in> set rows \<Longrightarrow> f r \<le> m"
  by (auto simp: max_of_def fold_max_ge fold_max_mem split: list.splits)

lemma fold_max_in:
  fixes f :: "'r \<Rightarrow> 'n::linorder"
  shows "fold (\<lambda>x m. max m (f x)) rs m = m \<or> (\<exists>r\<in>set rs. fold (\<lambda>x m. max m (f x)) rs m = f r)"
proof (induction rs arbitrary: m)
  case (Cons x xs)
  then show ?case using Cons [of "max m (f x)"] by (auto simp: max_def)
qed simp

lemma max_of_mem: "max_of f rows = Some m \<Longrightarrow> \<exists>r\<in>set rows. f r = m"
  using fold_max_in [of f "tl rows" "f (hd rows)"] by (cases rows) (auto simp: max_of_def)

lemma max_of_None_iff [simp]: "max_of f rows = None \<longleftrightarrow> rows = []"
  by (simp add: max_of_def split: list.splits)

lemma map_eq_via:
  assumes "map g xs = map g ys" and "\<And>a b. g a = g b \<Longrightarrow> f a = f b"
  shows "map f xs = map f ys"
  using assms(1)
proof (induction xs arbitrary: ys)
  case Nil
  then show ?case by simp
next
  case (Cons x xs)
  then obtain y zs where "ys = y # zs" and "g x = g y" and "map g xs = map g zs"
    by (cases ys) auto
  with Cons.IH [of zs] assms(2) [of x y] show ?case by simp
qed

text \<open>\<open>Array.prototype.sort\<close> with a comparator is the stable sort of a consistent one.\<close>

fun js_insert :: "('a \<Rightarrow> 'a \<Rightarrow> int) \<Rightarrow> 'a \<Rightarrow> 'a list \<Rightarrow> 'a list" where
  "js_insert compare x [] = [x]"
| "js_insert compare x (y # ys) = (if compare x y \<le> 0 then x # y # ys else y # js_insert compare x ys)"

definition js_sort :: "('a \<Rightarrow> 'a \<Rightarrow> int) \<Rightarrow> 'a list \<Rightarrow> 'a list" where
  "js_sort compare xs = foldr (js_insert compare) xs []"

lemma set_js_insert [simp]: "set (js_insert compare x ys) = insert x (set ys)"
  by (induction ys) auto

lemma set_js_sort [simp]: "set (js_sort compare xs) = set xs"
  by (induction xs) (simp_all add: js_sort_def)

lemma length_js_insert [simp]: "length (js_insert compare x ys) = Suc (length ys)"
  by (induction ys) auto

lemma length_js_sort [simp]: "length (js_sort compare xs) = length xs"
  by (induction xs) (simp_all add: js_sort_def)

lemma js_insert_key:
  fixes key :: "'a \<Rightarrow> 'k::linorder"
  assumes "\<And>y. y \<in> set ys \<Longrightarrow> compare x y \<le> 0 \<longleftrightarrow> key x \<le> key y"
  shows "js_insert compare x ys = insort_key key x ys"
  using assms by (induction ys) auto

lemma js_sort_key:
  fixes key :: "'a \<Rightarrow> 'k::linorder"
  assumes "distinct xs"
    and "\<And>x y. x \<in> set xs \<Longrightarrow> y \<in> set xs \<Longrightarrow> x \<noteq> y \<Longrightarrow> compare x y \<le> 0 \<longleftrightarrow> key x \<le> key y"
  shows "js_sort compare xs = sort_key key xs"
  using assms
proof (induction xs)
  case Nil
  then show ?case by (simp add: js_sort_def)
next
  case (Cons x xs)
  have "js_sort compare xs = sort_key key xs"
    by (rule Cons.IH) (use Cons.prems in auto)
  moreover have "js_insert compare x (sort_key key xs) = insort_key key x (sort_key key xs)"
    by (rule js_insert_key) (use Cons.prems in auto)
  ultimately show ?case by (simp add: js_sort_def)
qed

subsection \<open>Reachable states\<close>

inductive reach :: "('s \<Rightarrow> bool) \<Rightarrow> ('s \<Rightarrow> 's \<Rightarrow> bool) \<Rightarrow> 's \<Rightarrow> bool"
  for init :: "'s \<Rightarrow> bool" and step :: "'s \<Rightarrow> 's \<Rightarrow> bool" where
  reach_init: "init s \<Longrightarrow> reach init step s"
| reach_step: "reach init step s \<Longrightarrow> step s t \<Longrightarrow> reach init step t"

locale invariant_system =
  fixes init :: "'s \<Rightarrow> bool" and step :: "'s \<Rightarrow> 's \<Rightarrow> bool" and inv :: "'s \<Rightarrow> bool"
  assumes inv_init: "init s \<Longrightarrow> inv s"
    and inv_step: "inv s \<Longrightarrow> step s t \<Longrightarrow> inv t"
begin

lemma reach_inv: "reach init step s \<Longrightarrow> inv s"
  by (induction rule: reach.induct) (auto intro: inv_init inv_step)

lemma steps_inv: "step\<^sup>*\<^sup>* s t \<Longrightarrow> inv s \<Longrightarrow> inv t"
  by (induction rule: rtranclp_induct) (auto intro: inv_step)

end

end
