(* ===== verification/Job_States.thy ===== *)
theory Job_States
  imports Prelude
begin

text \<open>
  The ledger state machines of \<^verbatim>\<open>src/src/ledger/states.ts\<close>: the job, review-round, lens and obligation
  statuses, their transition tables, the terminal sets, the string predicates of the parsers and
  \<open>assertTransition\<close>, which every status write of the ledger calls. The locale \<open>transition_machine\<close>
  is the contract the writers rely on (a table that is total and empty exactly at the terminal
  statuses); it is interpreted on the four tables of the code.
\<close>

subsection \<open>Statuses and their names\<close>

datatype job_status =
    Dispatched | Working | Delivered | In_review | Blocked | Parked | Merged | Done | Binned

definition JOB_STATUSES :: "job_status list" where
  "JOB_STATUSES = [Dispatched, Working, Delivered, In_review, Blocked, Parked, Merged, Done, Binned]"

fun job_status_name :: "job_status \<Rightarrow> string" where
  "job_status_name Dispatched = ''dispatched''"
| "job_status_name Working = ''working''"
| "job_status_name Delivered = ''delivered''"
| "job_status_name In_review = ''in-review''"
| "job_status_name Blocked = ''blocked''"
| "job_status_name Parked = ''parked''"
| "job_status_name Merged = ''merged''"
| "job_status_name Done = ''done''"
| "job_status_name Binned = ''binned''"

definition TERMINAL_JOB_STATUS_LIST :: "job_status list" where
  "TERMINAL_JOB_STATUS_LIST = [Merged, Done, Binned]"

fun JOB_TRANSITIONS :: "job_status \<Rightarrow> job_status list option" where
  "JOB_TRANSITIONS Dispatched = Some [Working, Blocked, Parked, Binned]"
| "JOB_TRANSITIONS Working = Some [Delivered, In_review, Blocked, Parked, Done, Binned]"
| "JOB_TRANSITIONS Delivered = Some [Working, In_review, Blocked, Parked, Done, Binned]"
| "JOB_TRANSITIONS In_review = Some [Working, Blocked, Parked, Merged, Done, Binned]"
| "JOB_TRANSITIONS Blocked = Some [Dispatched, Working, In_review, Parked, Binned]"
| "JOB_TRANSITIONS Parked = Some [Dispatched, Working, In_review, Blocked, Binned]"
| "JOB_TRANSITIONS Merged = Some []"
| "JOB_TRANSITIONS Done = Some []"
| "JOB_TRANSITIONS Binned = Some []"

datatype round_status = R_pending | R_live | R_verdict_posted | R_aborted

definition ROUND_STATUSES :: "round_status list" where
  "ROUND_STATUSES = [R_pending, R_live, R_verdict_posted, R_aborted]"

fun round_status_name :: "round_status \<Rightarrow> string" where
  "round_status_name R_pending = ''pending''"
| "round_status_name R_live = ''live''"
| "round_status_name R_verdict_posted = ''verdict-posted''"
| "round_status_name R_aborted = ''aborted''"

definition ROUND_TERMINAL :: "round_status list" where
  "ROUND_TERMINAL = [R_verdict_posted, R_aborted]"

fun ROUND_TRANSITIONS :: "round_status \<Rightarrow> round_status list option" where
  "ROUND_TRANSITIONS R_pending = Some [R_live, R_aborted]"
| "ROUND_TRANSITIONS R_live = Some [R_verdict_posted, R_aborted]"
| "ROUND_TRANSITIONS R_verdict_posted = Some []"
| "ROUND_TRANSITIONS R_aborted = Some []"

definition ROUND_VERDICTS :: "string list" where
  "ROUND_VERDICTS = [''approved'', ''changes-requested'', ''commented'']"

datatype lens_state = L_pending | L_live | L_done | L_error

definition LENS_STATES :: "lens_state list" where
  "LENS_STATES = [L_pending, L_live, L_done, L_error]"

fun lens_state_name :: "lens_state \<Rightarrow> string" where
  "lens_state_name L_pending = ''pending''"
| "lens_state_name L_live = ''live''"
| "lens_state_name L_done = ''done''"
| "lens_state_name L_error = ''error''"

fun LENS_TRANSITIONS :: "lens_state \<Rightarrow> lens_state list option" where
  "LENS_TRANSITIONS L_pending = Some [L_live, L_error, L_done]"
| "LENS_TRANSITIONS L_live = Some [L_done, L_error]"
| "LENS_TRANSITIONS L_done = Some []"
| "LENS_TRANSITIONS L_error = Some []"

datatype obligation_state = O_open | O_waiting | O_settled | O_suspended | O_closed

definition OBLIGATION_STATES :: "obligation_state list" where
  "OBLIGATION_STATES = [O_open, O_waiting, O_settled, O_suspended, O_closed]"

fun obligation_state_name :: "obligation_state \<Rightarrow> string" where
  "obligation_state_name O_open = ''open''"
| "obligation_state_name O_waiting = ''waiting''"
| "obligation_state_name O_settled = ''settled''"
| "obligation_state_name O_suspended = ''suspended''"
| "obligation_state_name O_closed = ''closed''"

definition OBLIGATION_TERMINAL :: "obligation_state list" where
  "OBLIGATION_TERMINAL = [O_settled, O_closed]"

fun OBLIGATION_TRANSITIONS :: "obligation_state \<Rightarrow> obligation_state list option" where
  "OBLIGATION_TRANSITIONS O_open = Some [O_waiting, O_settled, O_suspended, O_closed]"
| "OBLIGATION_TRANSITIONS O_waiting = Some [O_open, O_settled, O_suspended, O_closed]"
| "OBLIGATION_TRANSITIONS O_settled = Some []"
| "OBLIGATION_TRANSITIONS O_suspended = Some [O_open, O_closed]"
| "OBLIGATION_TRANSITIONS O_closed = Some []"

subsection \<open>The transition assertion and the predicates\<close>

datatype state_error =
    Illegal_status string string                      \<comment> \<open>machine, from\<close>
  | Illegal_transition string string string "string list" \<comment> \<open>machine, from, to, legal\<close>
  | Closeout_not_admitted string string                \<comment> \<open>from, to\<close>

definition assertTransition ::
  "string \<Rightarrow> ('a \<Rightarrow> string) \<Rightarrow> 'a \<Rightarrow> 'a \<Rightarrow> ('a \<Rightarrow> 'a list option) \<Rightarrow> state_error + unit" where
  "assertTransition machine name from to legal =
     (case legal from of
        None \<Rightarrow> Inl (Illegal_status machine (name from))
      | Some allowed \<Rightarrow>
          if to \<notin> set allowed
          then Inl (Illegal_transition machine (name from) (name to) (map name allowed))
          else Inr ())"

definition isJobTerminal :: "job_status \<Rightarrow> bool" where
  "isJobTerminal status \<longleftrightarrow> status \<in> set TERMINAL_JOB_STATUS_LIST"

definition isTerminalJobStatus :: "string \<Rightarrow> bool" where
  "isTerminalJobStatus value \<longleftrightarrow> value \<in> set (map job_status_name TERMINAL_JOB_STATUS_LIST)"

definition TERMINAL_JOB_STATUSES :: "job_status list" where
  "TERMINAL_JOB_STATUSES = filter isJobTerminal JOB_STATUSES"

definition isRoundTerminal :: "round_status \<Rightarrow> bool" where
  "isRoundTerminal status \<longleftrightarrow> status \<in> set ROUND_TERMINAL"

definition assertJobTransition :: "job_status \<Rightarrow> job_status \<Rightarrow> state_error + unit" where
  "assertJobTransition from to = assertTransition ''job'' job_status_name from to JOB_TRANSITIONS"

definition assertAdminCloseoutTransition :: "job_status \<Rightarrow> job_status \<Rightarrow> state_error + unit" where
  "assertAdminCloseoutTransition from to =
     (if from = Parked \<and> to = Done then Inr ()
      else Inl (Closeout_not_admitted (job_status_name from) (job_status_name to)))"

definition assertRoundTransition :: "round_status \<Rightarrow> round_status \<Rightarrow> state_error + unit" where
  "assertRoundTransition from to =
     assertTransition ''round'' round_status_name from to ROUND_TRANSITIONS"

definition assertLensTransition :: "lens_state \<Rightarrow> lens_state \<Rightarrow> state_error + unit" where
  "assertLensTransition from to = assertTransition ''lens'' lens_state_name from to LENS_TRANSITIONS"

definition isJobStatus :: "string \<Rightarrow> bool" where
  "isJobStatus value \<longleftrightarrow> value \<in> set (map job_status_name JOB_STATUSES)"

definition isRoundStatus :: "string \<Rightarrow> bool" where
  "isRoundStatus value \<longleftrightarrow> value \<in> set (map round_status_name ROUND_STATUSES)"

definition isRoundVerdict :: "string \<Rightarrow> bool" where
  "isRoundVerdict value \<longleftrightarrow> value \<in> set ROUND_VERDICTS"

definition isLensState :: "string \<Rightarrow> bool" where
  "isLensState value \<longleftrightarrow> value \<in> set (map lens_state_name LENS_STATES)"

definition isObligationState :: "string \<Rightarrow> bool" where
  "isObligationState value \<longleftrightarrow> value \<in> set (map obligation_state_name OBLIGATION_STATES)"

definition isObligationTerminal :: "obligation_state \<Rightarrow> bool" where
  "isObligationTerminal state \<longleftrightarrow> state \<in> set OBLIGATION_TERMINAL"

definition assertObligationTransition :: "obligation_state \<Rightarrow> obligation_state \<Rightarrow> state_error + unit" where
  "assertObligationTransition from to =
     assertTransition ''obligation'' obligation_state_name from to OBLIGATION_TRANSITIONS"

text \<open>Reading a stored status column back: the row mappers refuse a name outside the list.\<close>

definition status_of_name :: "('a \<Rightarrow> string) \<Rightarrow> 'a list \<Rightarrow> string \<Rightarrow> 'a option" where
  "status_of_name name statuses value = find (\<lambda>s. name s = value) statuses"

subsection \<open>Rewriting\<close>

lemma isJobTerminal_simps [simp]:
  "isJobTerminal s \<longleftrightarrow> s = Merged \<or> s = Done \<or> s = Binned"
  by (auto simp: isJobTerminal_def TERMINAL_JOB_STATUS_LIST_def)

lemma isObligationTerminal_simps [simp]:
  "isObligationTerminal s \<longleftrightarrow> s = O_settled \<or> s = O_closed"
  by (auto simp: isObligationTerminal_def OBLIGATION_TERMINAL_def)

lemma isRoundTerminal_simps [simp]:
  "isRoundTerminal s \<longleftrightarrow> s = R_verdict_posted \<or> s = R_aborted"
  by (auto simp: isRoundTerminal_def ROUND_TERMINAL_def)

lemma assertTransition_Inr:
  "assertTransition machine name from to legal = Inr u \<longleftrightarrow> (\<exists>ss. legal from = Some ss \<and> to \<in> set ss)"
  by (auto simp: assertTransition_def split: option.splits)

lemma job_status_name_inj [simp]: "job_status_name s = job_status_name t \<longleftrightarrow> s = t"
  by (cases s; cases t) simp_all

lemma obligation_state_name_inj [simp]: "obligation_state_name s = obligation_state_name t \<longleftrightarrow> s = t"
  by (cases s; cases t) simp_all

subsection \<open>The contract of a transition table\<close>

locale transition_machine =
  fixes legal :: "'a \<Rightarrow> 'a list option" and terminal :: "'a \<Rightarrow> bool"
  assumes legal_total: "legal s \<noteq> None"
    and terminal_iff: "terminal s \<longleftrightarrow> legal s = Some []"
begin

definition step :: "'a \<Rightarrow> 'a \<Rightarrow> bool" where
  "step s t \<longleftrightarrow> (\<exists>ss. legal s = Some ss \<and> t \<in> set ss)"

lemma assert_iff_step: "assertTransition machine name s t legal = Inr () \<longleftrightarrow> step s t"
  by (simp add: assertTransition_Inr step_def)

lemma never_unknown: "assertTransition machine name s t legal \<noteq> Inl (Illegal_status m f)"
  using legal_total [of s] by (auto simp: assertTransition_def split: option.splits if_splits)

lemma terminal_final: "terminal s \<Longrightarrow> \<not> step s t"
  by (simp add: terminal_iff step_def)

lemma terminal_absorbing: "step\<^sup>*\<^sup>* s t \<Longrightarrow> terminal s \<Longrightarrow> t = s"
  by (induction rule: converse_rtranclp_induct) (auto dest: terminal_final)

lemma progress: "\<not> terminal s \<Longrightarrow> \<exists>t. step s t"
proof -
  assume "\<not> terminal s"
  then obtain ss where "legal s = Some ss" and "ss \<noteq> []"
    using legal_total [of s] terminal_iff [of s] by auto
  then show ?thesis by (auto simp: step_def intro: exI [of _ "hd ss"])
qed

end

interpretation job: transition_machine JOB_TRANSITIONS isJobTerminal
  by unfold_locales (case_tac s; simp)+

interpretation round: transition_machine ROUND_TRANSITIONS isRoundTerminal
  by unfold_locales (case_tac s; simp)+

interpretation lens: transition_machine LENS_TRANSITIONS "\<lambda>s. s \<in> {L_done, L_error}"
  by unfold_locales (case_tac s; simp)+

interpretation obligation: transition_machine OBLIGATION_TRANSITIONS isObligationTerminal
  by unfold_locales (case_tac s; simp)+

lemma assertJobTransition_iff: "assertJobTransition s t = Inr () \<longleftrightarrow> job.step s t"
  by (simp add: assertJobTransition_def job.assert_iff_step)

lemma assertObligationTransition_iff: "assertObligationTransition s t = Inr () \<longleftrightarrow> obligation.step s t"
  by (simp add: assertObligationTransition_def obligation.assert_iff_step)

lemma obligation_step_simps [simp]:
  "obligation.step s t \<longleftrightarrow>
     (case s of O_open \<Rightarrow> t \<noteq> O_open | O_waiting \<Rightarrow> t \<noteq> O_waiting
      | O_suspended \<Rightarrow> t = O_open \<or> t = O_closed | _ \<Rightarrow> False)"
  by (cases s; cases t) (simp_all add: obligation.step_def)

lemma assertObligationTransition_Inr:
  "assertObligationTransition s t = Inr u \<longleftrightarrow> obligation.step s t"
  using assertObligationTransition_iff [of s t] by simp

lemma assertJobTransition_Inr: "assertJobTransition s t = Inr u \<longleftrightarrow> job.step s t"
  using assertJobTransition_iff [of s t] by simp

lemma job_step_not_terminal: "job.step s t \<Longrightarrow> \<not> isJobTerminal s"
  using job.terminal_final by blast

text \<open>Every recoverable status can return to work, and every live status can be binned.\<close>

lemma job_step_binned: "\<not> isJobTerminal s \<Longrightarrow> job.step s Binned"
  by (cases s) (simp_all add: job.step_def)

lemma job_steps_merged_from_live:
  assumes "\<not> isJobTerminal s"
  shows "job.step\<^sup>*\<^sup>* s Merged"
proof -
  have "job.step In_review Merged" and "job.step Working In_review" by (simp_all add: job.step_def)
  moreover have "s = Working \<or> s = In_review \<or> job.step s Working"
    using assms by (cases s) (simp_all add: job.step_def)
  ultimately show ?thesis
    by (auto intro: converse_rtranclp_into_rtranclp r_into_rtranclp)
qed

lemma job_step_eq: "job.step = (\<lambda>a b. assertJobTransition a b = Inr ())"
  by (intro ext) (simp add: assertJobTransition_iff)

subsection \<open>Properties\<close>

text \<open>C34. The job machine: a terminal status is final whatever sequence of accepted transitions is
  tried; from every other status the lane can be binned at once and can still reach \<open>merged\<close>; and
  the audited closeout edge \<open>parked -> done\<close> is admitted by its own assertion and by no generic
  write.\<close>

theorem job_machine:
  "(isJobTerminal s \<longrightarrow> (\<forall>t. (\<lambda>a b. assertJobTransition a b = Inr ())\<^sup>*\<^sup>* s t \<longrightarrow> t = s))
   \<and> (\<not> isJobTerminal s \<longrightarrow> assertJobTransition s Binned = Inr ()
        \<and> (\<lambda>a b. assertJobTransition a b = Inr ())\<^sup>*\<^sup>* s Merged)
   \<and> (assertAdminCloseoutTransition s t = Inr () \<longleftrightarrow> s = Parked \<and> t = Done)
   \<and> assertJobTransition Parked Done
       = Inl (Illegal_transition ''job'' ''parked'' ''done''
              [''dispatched'', ''working'', ''in-review'', ''blocked'', ''binned''])"
proof -
  have final: "isJobTerminal s \<longrightarrow> (\<forall>t. job.step\<^sup>*\<^sup>* s t \<longrightarrow> t = s)"
    using job.terminal_absorbing by blast
  have live: "\<not> isJobTerminal s \<longrightarrow> job.step s Binned \<and> job.step\<^sup>*\<^sup>* s Merged"
    using job_step_binned job_steps_merged_from_live by blast
  have generic: "assertJobTransition Parked Done
      = Inl (Illegal_transition ''job'' ''parked'' ''done''
              [''dispatched'', ''working'', ''in-review'', ''blocked'', ''binned''])"
    by (simp add: assertJobTransition_def assertTransition_def)
  show ?thesis
    using final live unfolding assertJobTransition_iff generic assertAdminCloseoutTransition_def by auto
qed

theorem job_machine_witness:
  "\<not> (\<lambda>a b. assertJobTransition a b = Inr ())\<^sup>*\<^sup>* Done Merged
   \<and> assertJobTransition Blocked Binned = Inr ()
   \<and> (\<lambda>a b. assertJobTransition a b = Inr ())\<^sup>*\<^sup>* Blocked Merged"
  using job_machine [of Done] job_machine [of Blocked] by auto

end
