(* ===== verification/Pipeline_Domain.thy ===== *)
theory Pipeline_Domain
  imports Job_States
begin

text \<open>
  The pure vocabulary and evaluator of the pipeline queue, \<^verbatim>\<open>src/src/ledger/pipeline.ts\<close>: entry states,
  milestones and records, the validators and codecs, the order, and the evaluation that admission and
  the board share (holds, deferrals, prerequisite cycles, milestones, exclusive scopes, capacity).
  Message texts are constructors with the same fields. The two depth-first walks over the prerequisite
  graph terminate because every call visits a new entry, and are characterised by reachability.
\<close>

subsection \<open>Vocabulary\<close>

datatype pipeline_state = P_waiting | P_ready | P_admitting | P_admitted | P_failed | P_cancelled

definition PIPELINE_STATES :: "pipeline_state list" where
  "PIPELINE_STATES = [P_waiting, P_ready, P_admitting, P_admitted, P_failed, P_cancelled]"

fun pipeline_state_name :: "pipeline_state \<Rightarrow> string" where
  "pipeline_state_name P_waiting = ''waiting''"
| "pipeline_state_name P_ready = ''ready''"
| "pipeline_state_name P_admitting = ''admitting''"
| "pipeline_state_name P_admitted = ''admitted''"
| "pipeline_state_name P_failed = ''failed''"
| "pipeline_state_name P_cancelled = ''cancelled''"

definition isPipelineState :: "string \<Rightarrow> bool" where
  "isPipelineState value \<longleftrightarrow> value \<in> set (map pipeline_state_name PIPELINE_STATES)"

datatype pipeline_milestone = M_admitted | M_delivered | M_merged | M_done

definition PIPELINE_MILESTONES :: "pipeline_milestone list" where
  "PIPELINE_MILESTONES = [M_admitted, M_delivered, M_merged, M_done]"

fun pipeline_milestone_name :: "pipeline_milestone \<Rightarrow> string" where
  "pipeline_milestone_name M_admitted = ''admitted''"
| "pipeline_milestone_name M_delivered = ''delivered''"
| "pipeline_milestone_name M_merged = ''merged''"
| "pipeline_milestone_name M_done = ''done''"

definition isPipelineMilestone :: "string \<Rightarrow> bool" where
  "isPipelineMilestone value \<longleftrightarrow> value \<in> set (map pipeline_milestone_name PIPELINE_MILESTONES)"

definition PIPELINE_PRIORITY_MIN :: int where "PIPELINE_PRIORITY_MIN = 0"
definition PIPELINE_PRIORITY_MAX :: int where "PIPELINE_PRIORITY_MAX = 9"
definition PIPELINE_PRIORITY_DEFAULT :: rat where "PIPELINE_PRIORITY_DEFAULT = 5"

record pipeline_prerequisite =
  pr_id :: string
  pr_milestone :: pipeline_milestone

record pipeline_claim =
  pc_holder :: string
  pc_since :: string

record pipeline_entry =
  pe_id :: string
  pe_repoPath :: string
  pe_repo :: string
  pe_title :: string
  pe_briefing :: string
  pe_briefingHash :: string
  pe_priority :: int
  pe_enqueueSeq :: nat
  pe_state :: pipeline_state
  pe_holdReason :: "string option"
  pe_prerequisites :: "pipeline_prerequisite list"
  pe_exclusiveScopes :: "string list"
  pe_requestId :: string
  pe_payloadHash :: string
  pe_jobId :: "string option"
  pe_claim :: "pipeline_claim option"
  pe_failureReason :: "string option"
  pe_failureCount :: nat
  pe_deferReason :: "string option"
  pe_reconcileNote :: "string option"
  pe_queuedAt :: string
  pe_claimedAt :: "string option"
  pe_admittedAt :: "string option"
  pe_updatedAt :: string

subsection \<open>Validation and codecs\<close>

datatype pipeline_error =
    Bad_priority rat
  | Not_an_object string
  | Not_an_array string
  | Missing_field string string          \<comment> \<open>what, key\<close>
  | Padded string                        \<comment> \<open>what\<close>
  | Unsafe_id string
  | Unknown_milestone string
  | Listed_twice string
  | Bad_scope
  | Scope_too_long
  | Not_projected string pipeline_state  \<comment> \<open>an admitted or cancelled entry was evaluated\<close>

definition validatePipelinePriority :: "rat \<Rightarrow> pipeline_error + int" where
  "validatePipelinePriority value =
     (if \<not> js_safe_int value \<or> value < of_int PIPELINE_PRIORITY_MIN \<or> of_int PIPELINE_PRIORITY_MAX < value
      then Inl (Bad_priority value) else Inr \<lfloor>value\<rfloor>)"

definition ascii_alnum :: "char \<Rightarrow> bool" where
  "ascii_alnum c \<longleftrightarrow> (CHR ''A'' \<le> c \<and> c \<le> CHR ''Z'') \<or> (CHR ''a'' \<le> c \<and> c \<le> CHR ''z'')
     \<or> (CHR ''0'' \<le> c \<and> c \<le> CHR ''9'')"

text \<open>\<open>/^[A-Za-z0-9][A-Za-z0-9._-]*$/u\<close>\<close>

fun record_id_pattern :: "string \<Rightarrow> bool" where
  "record_id_pattern [] \<longleftrightarrow> False"
| "record_id_pattern (c # cs) \<longleftrightarrow> ascii_alnum c \<and> list_all (\<lambda>d. ascii_alnum d \<or> d \<in> set ''._-'') cs"

definition isSafePipelineRecordId :: "string \<Rightarrow> nat \<Rightarrow> bool" where
  "isSafePipelineRecordId value maxLength \<longleftrightarrow>
     0 < length value \<and> length value \<le> maxLength \<and> record_id_pattern value
     \<and> value \<noteq> ''.'' \<and> value \<noteq> ''..''"

definition pl_asRecord :: "json \<Rightarrow> string \<Rightarrow> pipeline_error + (string \<times> json) list" where
  "pl_asRecord value what = (case value of JObj fs \<Rightarrow> Inr fs | _ \<Rightarrow> Inl (Not_an_object what))"

definition pl_reqStr :: "(string \<times> json) list \<Rightarrow> string \<Rightarrow> string \<Rightarrow> pipeline_error + string" where
  "pl_reqStr source key what = (case map_of source key of
     Some (JStr s) \<Rightarrow> if js_blank s then Inl (Missing_field what key) else Inr s
   | _ \<Rightarrow> Inl (Missing_field what key))"

text \<open>The body of the parse loop; \<open>seen\<close> is the set of ids met so far.\<close>

definition parse_prerequisite ::
  "string list \<Rightarrow> json \<Rightarrow> pipeline_error + pipeline_prerequisite" where
  "parse_prerequisite seen entry =
     attempt (pl_asRecord entry ''pipeline prerequisite'') (\<lambda>fields.
     attempt (pl_reqStr fields ''id'' ''pipeline prerequisite'') (\<lambda>pid.
     if pid \<noteq> js_trim pid then Inl (Padded ''pipeline prerequisite id'') else
     if \<not> isSafePipelineRecordId pid 128 then Inl (Unsafe_id pid) else
     attempt (pl_reqStr fields ''milestone'' ''pipeline prerequisite'') (\<lambda>milestone.
     case status_of_name pipeline_milestone_name PIPELINE_MILESTONES milestone of
       None \<Rightarrow> Inl (Unknown_milestone milestone)
     | Some m \<Rightarrow> if pid \<in> set seen then Inl (Listed_twice pid)
                 else Inr \<lparr>pr_id = pid, pr_milestone = m\<rparr>)))"

fun parse_prerequisites :: "string list \<Rightarrow> json list \<Rightarrow> pipeline_error + pipeline_prerequisite list" where
  "parse_prerequisites seen [] = Inr []"
| "parse_prerequisites seen (e # es) =
     attempt (parse_prerequisite seen e) (\<lambda>p.
     attempt (parse_prerequisites (pr_id p # seen) es) (\<lambda>ps. Inr (p # ps)))"

definition parsePipelinePrerequisites :: "json \<Rightarrow> pipeline_error + pipeline_prerequisite list" where
  "parsePipelinePrerequisites raw = (case raw of
     JArr es \<Rightarrow> parse_prerequisites [] es
   | _ \<Rightarrow> Inl (Not_an_array ''pipeline prerequisites''))"

definition encode_prerequisites :: "pipeline_prerequisite list \<Rightarrow> json" where
  "encode_prerequisites ps = JArr (map (\<lambda>p.
     JObj [(''id'', JStr (pr_id p)), (''milestone'', JStr (pipeline_milestone_name (pr_milestone p)))]) ps)"

definition validatePipelinePrerequisites ::
  "pipeline_prerequisite list \<Rightarrow> pipeline_error + pipeline_prerequisite list" where
  "validatePipelinePrerequisites prerequisites = parsePipelinePrerequisites (encode_prerequisites prerequisites)"

fun parse_scopes :: "string list \<Rightarrow> json list \<Rightarrow> pipeline_error + string list" where
  "parse_scopes seen [] = Inr []"
| "parse_scopes seen (e # es) = (case e of
     JStr entry \<Rightarrow>
       if js_blank entry then Inl Bad_scope
       else if entry \<noteq> js_trim entry then Inl (Padded ''pipeline exclusive scope'')
       else if 200 < length entry then Inl Scope_too_long
       else if entry \<in> set seen then Inl (Listed_twice entry)
       else attempt (parse_scopes (entry # seen) es) (\<lambda>ss. Inr (entry # ss))
   | _ \<Rightarrow> Inl Bad_scope)"

definition parseExclusiveScopes :: "json \<Rightarrow> pipeline_error + string list" where
  "parseExclusiveScopes raw = (case raw of
     JArr es \<Rightarrow> parse_scopes [] es | _ \<Rightarrow> Inl (Not_an_array ''pipeline exclusive scopes''))"

definition validateExclusiveScopes :: "string list \<Rightarrow> pipeline_error + string list" where
  "validateExclusiveScopes scopes = parseExclusiveScopes (JArr (map JStr scopes))"

text \<open>A claim column that is NULL or empty is \<open>None\<close>.\<close>

definition parsePipelineClaim :: "json option \<Rightarrow> pipeline_error + pipeline_claim option" where
  "parsePipelineClaim raw = (case raw of
     None \<Rightarrow> Inr None
   | Some value \<Rightarrow>
       attempt (pl_asRecord value ''pipeline claim'') (\<lambda>fields.
       attempt (pl_reqStr fields ''holder'' ''pipeline claim'') (\<lambda>holder.
       attempt (pl_reqStr fields ''since'' ''pipeline claim'') (\<lambda>since.
       Inr (Some \<lparr>pc_holder = holder, pc_since = since\<rparr>)))))"

definition encode_pipeline_claim :: "pipeline_claim \<Rightarrow> json" where
  "encode_pipeline_claim c = JObj [(''holder'', JStr (pc_holder c)), (''since'', JStr (pc_since c))]"

subsection \<open>Order\<close>

text \<open>\<open>a || b || c\<close> on differences; \<open>compare\<close> stands for \<open>String.prototype.localeCompare\<close>.\<close>

type_synonym order_key = "int \<times> nat \<times> string"  \<comment> \<open>priority, enqueueSeq, id\<close>

fun pipelineOrder :: "(string \<Rightarrow> string \<Rightarrow> int) \<Rightarrow> order_key \<Rightarrow> order_key \<Rightarrow> int" where
  "pipelineOrder compare (priority, enqueueSeq, i) (priority', enqueueSeq', i') =
     (let byPriority = priority - priority'; bySeq = int enqueueSeq - int enqueueSeq'
      in if byPriority \<noteq> 0 then byPriority
         else if bySeq \<noteq> 0 then bySeq
         else compare i i')"

subsection \<open>The prerequisite walks\<close>

text \<open>\<open>new Map(entries.map(e => [e.id, e]))\<close>: the last entry of an id.\<close>

definition by_id :: "pipeline_entry list \<Rightarrow> string \<Rightarrow> pipeline_entry option" where
  "by_id entries i = newest (\<lambda>e. pe_id e = i) entries"

definition prerequisite_ids :: "pipeline_entry \<Rightarrow> string list" where
  "prerequisite_ids e = map pr_id (pe_prerequisites e)"

definition walkable :: "pipeline_entry \<Rightarrow> bool" where
  "walkable e \<longleftrightarrow> pe_state e \<notin> {P_admitted, P_failed, P_cancelled}"

lemma by_id_mem: "by_id entries i = Some e \<Longrightarrow> i \<in> pe_id ` set entries"
  by (auto simp: by_id_def dest: newest_SomeD)

lemma card_unvisited_less:
  assumes "by_id entries i = Some e" and "i \<notin> V"
  shows "card (pe_id ` set entries - insert i V) < card (pe_id ` set entries - V)"
proof (rule psubset_card_mono)
  show "pe_id ` set entries - insert i V \<subset> pe_id ` set entries - V"
    using by_id_mem [OF assms(1)] assms(2) by auto
qed simp

text \<open>
  \<open>prerequisiteCyclePath\<close>: the second list is the loop over the prerequisites still to walk, \<open>path\<close>
  is both the path array and the \<open>onPath\<close> set of the code, which are pushed and popped together;
  \<open>None\<close> is a walk that returned false and restored the path.
\<close>

function cycle_walk ::
  "string \<Rightarrow> pipeline_entry list \<Rightarrow> string list \<Rightarrow> string list \<Rightarrow> string list option" where
  "cycle_walk target entries path [] = None"
| "cycle_walk target entries path (i # is) =
     (if i = target then Some (path @ [i])
      else if i \<in> set path then cycle_walk target entries path is
      else case by_id entries i of
             None \<Rightarrow> cycle_walk target entries path is
           | Some current \<Rightarrow>
               if \<not> walkable current
               then cycle_walk target entries path is
               else (case cycle_walk target entries (path @ [i]) (prerequisite_ids current) of
                       Some found \<Rightarrow> Some found
                     | None \<Rightarrow> cycle_walk target entries path is))"
  by pat_completeness auto

termination
  by (relation "measures [\<lambda>(t, entries, path, is). card (pe_id ` set entries - set path),
                          \<lambda>(t, entries, path, is). length is]")
     (auto simp: card_unvisited_less)

definition prerequisiteCyclePath :: "pipeline_entry \<Rightarrow> pipeline_entry list \<Rightarrow> string list option" where
  "prerequisiteCyclePath entry entries =
     cycle_walk (pe_id entry) entries [pe_id entry] (prerequisite_ids entry)"

text \<open>
  \<open>wouldCreatePipelineCycle\<close>: the \<open>visiting\<close> set only grows and a hit ends every enclosing loop, so
  the recursive walk is a search over one work list: the prerequisites of the entry just visited come
  before the rest of the enclosing loops.
\<close>

function cycle_search :: "string \<Rightarrow> pipeline_entry list \<Rightarrow> string list \<Rightarrow> string list \<Rightarrow> bool" where
  "cycle_search target entries visiting [] \<longleftrightarrow> False"
| "cycle_search target entries visiting (i # is) \<longleftrightarrow>
     (if i = target then True
      else if i \<in> set visiting then cycle_search target entries visiting is
      else case by_id entries i of
             None \<Rightarrow> cycle_search target entries visiting is
           | Some current \<Rightarrow> cycle_search target entries (i # visiting) (prerequisite_ids current @ is))"
  by pat_completeness auto

termination
  by (relation "measures [\<lambda>(t, entries, visiting, is). card (pe_id ` set entries - set visiting),
                          \<lambda>(t, entries, visiting, is). length is]")
     (auto simp: card_unvisited_less)

definition wouldCreatePipelineCycle ::
  "string \<Rightarrow> pipeline_prerequisite list \<Rightarrow> pipeline_entry list \<Rightarrow> bool" where
  "wouldCreatePipelineCycle entryId prerequisites existing =
     cycle_search entryId existing [] (map pr_id prerequisites)"

subsection \<open>Evaluation\<close>

record capacity_view =
  cv_capacity :: nat
  cv_occupied :: nat
  cv_queued :: nat
  cv_available :: nat

record pipeline_context =
  cx_entries :: "pipeline_entry list"
  cx_jobStatusOf :: "string \<Rightarrow> job_status option"
  cx_jobDeliveredOf :: "string \<Rightarrow> bool"
  cx_jobStartedOf :: "string \<Rightarrow> bool"
  cx_capacity :: capacity_view

datatype wait_reason =
    Owner_hold string
  | Deferred string
  | Dependency_cycle "string list"
  | Not_enqueued string
  | Prerequisite_cancelled string
  | Prerequisite_failed string
  | Unmet string pipeline_milestone string  \<comment> \<open>prerequisite, milestone, its position now\<close>
  | Scope_held string string                \<comment> \<open>scope, holder\<close>
  | Behind_older nat
  | Waiting_slot nat nat                    \<comment> \<open>occupied, capacity\<close>
  | Claim_in_flight
  | Admission_failure string

record pipeline_evaluation =
  ev_state :: pipeline_state
  ev_reason :: "wait_reason option"

definition dependency_status :: "pipeline_entry \<Rightarrow> pipeline_context \<Rightarrow> job_status option" where
  "dependency_status dependency ctx = (case pe_jobId dependency of
     None \<Rightarrow> None | Some j \<Rightarrow> cx_jobStatusOf ctx j)"

fun milestoneReached :: "pipeline_milestone \<Rightarrow> pipeline_entry \<Rightarrow> pipeline_context \<Rightarrow> bool" where
  "milestoneReached M_admitted dependency ctx \<longleftrightarrow> pe_state dependency = P_admitted
     \<and> (case pe_jobId dependency of None \<Rightarrow> False | Some j \<Rightarrow> cx_jobStartedOf ctx j)"
| "milestoneReached M_delivered dependency ctx \<longleftrightarrow>
     dependency_status dependency ctx \<in> Some ` {Delivered, In_review, Merged, Done}
     \<and> (case pe_jobId dependency of None \<Rightarrow> False | Some j \<Rightarrow> cx_jobDeliveredOf ctx j)"
| "milestoneReached M_merged dependency ctx \<longleftrightarrow> dependency_status dependency ctx = Some Merged"
| "milestoneReached M_done dependency ctx \<longleftrightarrow> dependency_status dependency ctx = Some Done"

definition describeUnmetMilestone ::
  "pipeline_prerequisite \<Rightarrow> pipeline_entry \<Rightarrow> pipeline_context \<Rightarrow> wait_reason" where
  "describeUnmetMilestone prerequisite dependency ctx =
     (if pr_milestone prerequisite = M_admitted
      then Unmet (pr_id prerequisite) M_admitted (pipeline_state_name (pe_state dependency))
      else Unmet (pr_id prerequisite) (pr_milestone prerequisite)
             (case dependency_status dependency ctx of
                None \<Rightarrow> pipeline_state_name (pe_state dependency) | Some s \<Rightarrow> job_status_name s))"

definition heldExclusiveScopes :: "pipeline_entry \<Rightarrow> (string \<Rightarrow> job_status option) \<Rightarrow> string list" where
  "heldExclusiveScopes entry jobStatusOf =
     (if pe_exclusiveScopes entry = [] then []
      else if pe_state entry = P_admitting then pe_exclusiveScopes entry
      else case (pe_state entry, pe_jobId entry) of
             (P_admitted, Some j) \<Rightarrow> (case jobStatusOf j of
                Some status \<Rightarrow> if \<not> isJobTerminal status then pe_exclusiveScopes entry else []
              | None \<Rightarrow> [])
           | _ \<Rightarrow> [])"

fun conflictingScopeHolder ::
  "pipeline_entry \<Rightarrow> pipeline_entry list \<Rightarrow> (string \<Rightarrow> job_status option) \<Rightarrow> (string \<times> string) option" where
  "conflictingScopeHolder entry [] jobStatusOf = None"
| "conflictingScopeHolder entry (other # others) jobStatusOf =
     (if pe_exclusiveScopes entry = [] then None
      else if pe_id other = pe_id entry then conflictingScopeHolder entry others jobStatusOf
      else case find (\<lambda>scope. scope \<in> set (heldExclusiveScopes other jobStatusOf)) (pe_exclusiveScopes entry) of
             Some scope \<Rightarrow> Some (pe_id other, scope)
           | None \<Rightarrow> conflictingScopeHolder entry others jobStatusOf)"

fun prerequisite_wait ::
  "pipeline_context \<Rightarrow> pipeline_prerequisite list \<Rightarrow> wait_reason option" where
  "prerequisite_wait ctx [] = None"
| "prerequisite_wait ctx (p # ps) = (case by_id (cx_entries ctx) (pr_id p) of
     None \<Rightarrow> Some (Not_enqueued (pr_id p))
   | Some dependency \<Rightarrow>
       if pe_state dependency = P_cancelled then Some (Prerequisite_cancelled (pr_id p))
       else if pe_state dependency = P_failed then Some (Prerequisite_failed (pr_id p))
       else if \<not> milestoneReached (pr_milestone p) dependency ctx
       then Some (describeUnmetMilestone p dependency ctx)
       else prerequisite_wait ctx ps)"

text \<open>An absent hold or deferral is NULL or the empty string.\<close>

definition present :: "string option \<Rightarrow> bool" where
  "present v \<longleftrightarrow> v \<noteq> None \<and> v \<noteq> Some []"

definition pipelineBlockingReason :: "pipeline_entry \<Rightarrow> pipeline_context \<Rightarrow> wait_reason option" where
  "pipelineBlockingReason entry ctx =
     (if present (pe_holdReason entry) then Some (Owner_hold (the (pe_holdReason entry)))
      else if present (pe_deferReason entry) then Some (Deferred (the (pe_deferReason entry)))
      else case prerequisiteCyclePath entry (cx_entries ctx) of
             Some cycle \<Rightarrow> Some (Dependency_cycle cycle)
           | None \<Rightarrow> (case prerequisite_wait ctx (pe_prerequisites entry) of
               Some r \<Rightarrow> Some r
             | None \<Rightarrow> (case conflictingScopeHolder entry (cx_entries ctx) (cx_jobStatusOf ctx) of
                 Some (holder, scope) \<Rightarrow> Some (Scope_held scope holder)
               | None \<Rightarrow> None)))"

definition evaluatePipelineEntry ::
  "pipeline_entry \<Rightarrow> pipeline_context \<Rightarrow> pipeline_error + pipeline_evaluation" where
  "evaluatePipelineEntry entry ctx =
     (if pe_state entry = P_failed
      then Inr \<lparr>ev_state = P_failed,
                ev_reason = Some (Admission_failure (case pe_failureReason entry of
                              None \<Rightarrow> ''admission failed'' | Some r \<Rightarrow> r))\<rparr>
      else if pe_state entry = P_admitting
      then Inr \<lparr>ev_state = P_admitting, ev_reason = Some Claim_in_flight\<rparr>
      else if pe_state entry = P_admitted \<or> pe_state entry = P_cancelled
      then Inl (Not_projected (pe_id entry) (pe_state entry))
      else case pipelineBlockingReason entry ctx of
             Some r \<Rightarrow> Inr \<lparr>ev_state = P_waiting, ev_reason = Some r\<rparr>
           | None \<Rightarrow>
               if 0 < cv_queued (cx_capacity ctx)
               then Inr \<lparr>ev_state = P_ready, ev_reason = Some (Behind_older (cv_queued (cx_capacity ctx)))\<rparr>
               else if cv_available (cx_capacity ctx) < 1
               then Inr \<lparr>ev_state = P_ready,
                         ev_reason = Some (Waiting_slot (cv_occupied (cx_capacity ctx)) (cv_capacity (cx_capacity ctx)))\<rparr>
               else Inr \<lparr>ev_state = P_ready, ev_reason = None\<rparr>)"

subsection \<open>Reachability in the prerequisite graph\<close>

text \<open>Edges out of the entries that satisfy \<open>live\<close> and are not in \<open>V\<close>.\<close>

definition edges_avoiding ::
  "(pipeline_entry \<Rightarrow> bool) \<Rightarrow> pipeline_entry list \<Rightarrow> string set \<Rightarrow> (string \<times> string) set" where
  "edges_avoiding live entries V =
     {(a, b). a \<notin> V \<and> (\<exists>e. by_id entries a = Some e \<and> live e \<and> b \<in> set (prerequisite_ids e))}"

definition prerequisite_graph :: "pipeline_entry list \<Rightarrow> (string \<times> string) set" where
  "prerequisite_graph entries = edges_avoiding (\<lambda>_. True) entries {}"

lemma edges_avoiding_insert:
  "edges_avoiding live entries (insert v V) = {(a, b) \<in> edges_avoiding live entries V. a \<noteq> v}"
  by (auto simp: edges_avoiding_def)

lemma edges_avoiding_mono: "edges_avoiding live entries (insert v V) \<subseteq> edges_avoiding live entries V"
  by (auto simp: edges_avoiding_insert)

lemma edges_avoiding_graph: "edges_avoiding live entries V \<subseteq> prerequisite_graph entries"
  by (auto simp: prerequisite_graph_def edges_avoiding_def)

lemma no_edge_stays: "(i, t) \<in> E\<^sup>* \<Longrightarrow> i \<notin> Domain E \<Longrightarrow> t = i"
  by (metis DomainI converse_rtranclE)

text \<open>A path can be cut at its last visit of \<open>v\<close>.\<close>

lemma cut_at:
  assumes "(i, t) \<in> (edges_avoiding live entries V)\<^sup>*"
  shows "(i, t) \<in> (edges_avoiding live entries (insert v V))\<^sup>*
     \<or> (\<exists>p. (v, p) \<in> edges_avoiding live entries V
           \<and> (p, t) \<in> (edges_avoiding live entries (insert v V))\<^sup>*)"
  using assms
proof (induction rule: converse_rtrancl_induct)
  case base
  then show ?case by simp
next
  case (step a b)
  show ?case
  proof (cases "a = v")
    case True
    with step show ?thesis by blast
  next
    case False
    with step.hyps(1) have "(a, b) \<in> edges_avoiding live entries (insert v V)"
      by (simp add: edges_avoiding_insert)
    with step.IH show ?thesis by (auto intro: converse_rtrancl_into_rtrancl)
  qed
qed

lemma cut_or_through:
  assumes "(j, t) \<in> (edges_avoiding live entries V)\<^sup>*"
  shows "(j, t) \<in> (edges_avoiding live entries (insert v V))\<^sup>* \<or> (v, t) \<in> (edges_avoiding live entries V)\<^sup>*"
  using cut_at [OF assms, of v]
proof
  assume "\<exists>p. (v, p) \<in> edges_avoiding live entries V
            \<and> (p, t) \<in> (edges_avoiding live entries (insert v V))\<^sup>*"
  then obtain p where "(v, p) \<in> edges_avoiding live entries V"
    and "(p, t) \<in> (edges_avoiding live entries V)\<^sup>*"
    using rtrancl_mono [OF edges_avoiding_mono] by blast
  then show ?thesis by (blast intro: converse_rtrancl_into_rtrancl)
qed simp

lemma cut_at_start:
  assumes "(v, t) \<in> (edges_avoiding live entries V)\<^sup>*" and "v \<noteq> t"
  shows "\<exists>p. (v, p) \<in> edges_avoiding live entries V
           \<and> (p, t) \<in> (edges_avoiding live entries (insert v V))\<^sup>*"
proof -
  have "v \<notin> Domain (edges_avoiding live entries (insert v V))"
    by (auto simp: edges_avoiding_def)
  with assms(2) have "(v, t) \<notin> (edges_avoiding live entries (insert v V))\<^sup>*"
    using no_edge_stays by metis
  with cut_at [OF assms(1), of v] show ?thesis by blast
qed

lemma expand_reach:
  assumes "by_id entries v = Some e" and "live e" and "v \<notin> V" and "v \<noteq> t"
  shows "(v, t) \<in> (edges_avoiding live entries V)\<^sup>* \<longleftrightarrow>
     (\<exists>p\<in>set (prerequisite_ids e). (p, t) \<in> (edges_avoiding live entries (insert v V))\<^sup>*)"
proof
  assume "(v, t) \<in> (edges_avoiding live entries V)\<^sup>*"
  from cut_at_start [OF this assms(4)] obtain p where
    "(v, p) \<in> edges_avoiding live entries V" and "(p, t) \<in> (edges_avoiding live entries (insert v V))\<^sup>*"
    by blast
  then show "\<exists>p\<in>set (prerequisite_ids e). (p, t) \<in> (edges_avoiding live entries (insert v V))\<^sup>*"
    using assms(1) by (auto simp: edges_avoiding_def)
next
  assume "\<exists>p\<in>set (prerequisite_ids e). (p, t) \<in> (edges_avoiding live entries (insert v V))\<^sup>*"
  then obtain p where p: "p \<in> set (prerequisite_ids e)"
    and reach: "(p, t) \<in> (edges_avoiding live entries (insert v V))\<^sup>*" by blast
  have "(v, p) \<in> edges_avoiding live entries V"
    using assms(1-3) p by (auto simp: edges_avoiding_def)
  moreover have "(p, t) \<in> (edges_avoiding live entries V)\<^sup>*"
    using reach rtrancl_mono [OF edges_avoiding_mono] by blast
  ultimately show "(v, t) \<in> (edges_avoiding live entries V)\<^sup>*"
    by (rule converse_rtrancl_into_rtrancl)
qed

lemma stuck_reach:
  assumes "v \<in> V \<or> by_id entries v = None \<or> (\<exists>e. by_id entries v = Some e \<and> \<not> live e)" and "v \<noteq> t"
  shows "(v, t) \<notin> (edges_avoiding live entries V)\<^sup>*"
proof -
  have "v \<notin> Domain (edges_avoiding live entries V)"
    using assms(1) by (auto simp: edges_avoiding_def)
  with assms(2) show ?thesis using no_edge_stays by metis
qed

lemma cycle_search_iff:
  "cycle_search target entries visiting is \<longleftrightarrow>
     (\<exists>i\<in>set is. (i, target) \<in> (edges_avoiding (\<lambda>_. True) entries (set visiting))\<^sup>*)"
proof (induction target entries visiting "is" rule: cycle_search.induct)
  case (1 target entries visiting)
  then show ?case by simp
next
  case (2 target entries visiting i "is")
  let ?R = "edges_avoiding (\<lambda>_. True) entries (set visiting)"
  let ?R' = "edges_avoiding (\<lambda>_. True) entries (insert i (set visiting))"
  consider (hit) "i = target"
    | (stuck) "i \<noteq> target" "i \<in> set visiting \<or> by_id entries i = None"
    | (visit) e where "i \<noteq> target" "i \<notin> set visiting" "by_id entries i = Some e"
    by (cases "by_id entries i") auto
  then show ?case
  proof cases
    case hit
    then show ?thesis by auto
  next
    case stuck
    then have "(i, target) \<notin> ?R\<^sup>*" using stuck_reach by metis
    with stuck 2 show ?thesis by (cases "by_id entries i") auto
  next
    case (visit e)
    then have here: "(i, target) \<in> ?R\<^sup>* \<longleftrightarrow> (\<exists>p\<in>set (prerequisite_ids e). (p, target) \<in> ?R'\<^sup>*)"
      by (intro expand_reach) auto
    have cut: "(j, target) \<in> ?R\<^sup>* \<Longrightarrow> (j, target) \<in> ?R'\<^sup>* \<or> (i, target) \<in> ?R\<^sup>*" for j
      by (rule cut_or_through)
    have mono: "(j, target) \<in> ?R'\<^sup>* \<Longrightarrow> (j, target) \<in> ?R\<^sup>*" for j
      using rtrancl_mono [OF edges_avoiding_mono] by blast
    have rest: "(\<exists>j\<in>set is. (j, target) \<in> ?R\<^sup>*) \<Longrightarrow>
        (i, target) \<in> ?R\<^sup>* \<or> (\<exists>j\<in>set is. (j, target) \<in> ?R'\<^sup>*)"
      using cut by blast
    have widen: "(\<exists>j\<in>set is. (j, target) \<in> ?R'\<^sup>*) \<Longrightarrow> (\<exists>j\<in>set is. (j, target) \<in> ?R\<^sup>*)"
      using mono by blast
    have "cycle_search target entries visiting (i # is)
        = cycle_search target entries (i # visiting) (prerequisite_ids e @ is)"
      using visit by simp
    also have "\<dots> \<longleftrightarrow> (\<exists>j\<in>set (prerequisite_ids e @ is). (j, target) \<in> ?R'\<^sup>*)"
      using 2 visit by simp
    also have "\<dots> \<longleftrightarrow> (\<exists>j\<in>set (i # is). (j, target) \<in> ?R\<^sup>*)"
      using here rest widen by auto
    finally show ?thesis .
  qed
qed

lemma wouldCreatePipelineCycle_reach:
  "wouldCreatePipelineCycle i prerequisites existing \<longleftrightarrow>
     (\<exists>p\<in>set prerequisites. (pr_id p, i) \<in> (prerequisite_graph existing)\<^sup>*)"
  by (simp add: wouldCreatePipelineCycle_def cycle_search_iff prerequisite_graph_def)

text \<open>The walk of \<open>prerequisiteCyclePath\<close> finds a path exactly when one exists, and the path is real.\<close>

lemma avoid_target:
  "(p, t) \<in> (edges_avoiding live entries V)\<^sup>* \<Longrightarrow> (p, t) \<in> (edges_avoiding live entries (insert t V))\<^sup>*"
proof (induction rule: converse_rtrancl_induct)
  case base
  then show ?case by simp
next
  case (step a b)
  then show ?case
    by (cases "a = t") (auto simp: edges_avoiding_insert intro: converse_rtrancl_into_rtrancl)
qed

lemma cycle_walk_None_iff:
  "cycle_walk target entries path is \<noteq> None \<longleftrightarrow>
     (\<exists>i\<in>set is. (i, target) \<in> (edges_avoiding walkable entries (set path))\<^sup>*)"
proof (induction target entries path "is" rule: cycle_walk.induct)
  case (1 target entries path)
  then show ?case by simp
next
  case (2 target entries path i "is")
  let ?R = "edges_avoiding walkable entries (set path)"
  consider (hit) "i = target"
    | (stuck) "i \<noteq> target"
        "i \<in> set path \<or> by_id entries i = None \<or> (\<exists>e. by_id entries i = Some e \<and> \<not> walkable e)"
    | (visit) e where "i \<noteq> target" "i \<notin> set path" "by_id entries i = Some e" "walkable e"
    by (cases "by_id entries i") auto
  then show ?case
  proof cases
    case hit
    then show ?thesis by auto
  next
    case stuck
    then have "(i, target) \<notin> ?R\<^sup>*" using stuck_reach by metis
    with stuck 2 show ?thesis by (cases "by_id entries i") auto
  next
    case (visit e)
    then have "(i, target) \<in> ?R\<^sup>* \<longleftrightarrow>
        (\<exists>p\<in>set (prerequisite_ids e). (p, target) \<in> (edges_avoiding walkable entries (insert i (set path)))\<^sup>*)"
      by (intro expand_reach) auto
    with visit 2 show ?thesis
      by (auto simp: insert_commute split: option.splits)
  qed
qed

definition real_path :: "string \<Rightarrow> pipeline_entry list \<Rightarrow> string list \<Rightarrow> string list \<Rightarrow> string list \<Rightarrow> bool" where
  "real_path target entries path is found \<longleftrightarrow>
     (\<exists>q. found = path @ q @ [target] \<and> hd (q @ [target]) \<in> set is
        \<and> successively (\<lambda>a b. (a, b) \<in> prerequisite_graph entries) (q @ [target]))"

lemma real_path_later: "real_path target entries path is found \<Longrightarrow> real_path target entries path (i # is) found"
  by (auto simp: real_path_def)

lemma real_path_hit: "real_path target entries path (target # is) (path @ [target])"
  by (auto simp: real_path_def intro: exI [of _ "[]"])

lemma real_path_extend:
  assumes "by_id entries i = Some e"
    and "real_path target entries (path @ [i]) (prerequisite_ids e) found"
  shows "real_path target entries path (i # is) found"
proof -
  from assms(2) obtain q where
    q: "found = (path @ [i]) @ q @ [target]" "hd (q @ [target]) \<in> set (prerequisite_ids e)"
      "successively (\<lambda>a b. (a, b) \<in> prerequisite_graph entries) (q @ [target])"
    by (auto simp: real_path_def)
  have "(i, hd (q @ [target])) \<in> prerequisite_graph entries"
    using assms(1) q(2) by (auto simp: prerequisite_graph_def edges_avoiding_def)
  with q(3) have "successively (\<lambda>a b. (a, b) \<in> prerequisite_graph entries) ((i # q) @ [target])"
    by (cases q) auto
  with q(1) show ?thesis unfolding real_path_def by (intro exI [of _ "i # q"]) auto
qed

lemma cycle_walk_sound:
  "cycle_walk target entries path is = Some found \<Longrightarrow> real_path target entries path is found"
proof (induction target entries path "is" arbitrary: found rule: cycle_walk.induct)
  case (1 target entries path)
  then show ?case by simp
next
  case (2 target entries path i "is")
  then show ?case
    by (simp split: if_splits option.splits)
      (blast intro: real_path_hit real_path_later real_path_extend)+
qed

lemma prerequisiteCyclePath_None_iff:
  "prerequisiteCyclePath entry entries = None \<longleftrightarrow>
     (\<forall>p\<in>set (prerequisite_ids entry). (p, pe_id entry) \<notin> (edges_avoiding walkable entries {})\<^sup>*)"
proof -
  have "(p, pe_id entry) \<in> (edges_avoiding walkable entries {pe_id entry})\<^sup>* \<longleftrightarrow>
        (p, pe_id entry) \<in> (edges_avoiding walkable entries {})\<^sup>*" for p
    using avoid_target [of p "pe_id entry" walkable entries "{}"] rtrancl_mono [OF edges_avoiding_mono]
    by blast
  then show ?thesis
    using cycle_walk_None_iff [of "pe_id entry" entries "[pe_id entry]" "prerequisite_ids entry"]
    by (auto simp: prerequisiteCyclePath_def)
qed

lemma acyclic_no_cycle_path:
  assumes "acyclic (prerequisite_graph entries)" and "by_id entries (pe_id entry) = Some entry"
  shows "prerequisiteCyclePath entry entries = None"
  unfolding prerequisiteCyclePath_None_iff
proof (intro ballI notI)
  fix p assume p: "p \<in> set (prerequisite_ids entry)"
    and reach: "(p, pe_id entry) \<in> (edges_avoiding walkable entries {})\<^sup>*"
  have "(pe_id entry, p) \<in> prerequisite_graph entries"
    using assms(2) p by (auto simp: prerequisite_graph_def edges_avoiding_def)
  moreover have "(p, pe_id entry) \<in> (prerequisite_graph entries)\<^sup>*"
    using reach rtrancl_mono [OF edges_avoiding_graph] by blast
  ultimately have "(pe_id entry, pe_id entry) \<in> (prerequisite_graph entries)\<^sup>+"
    by (rule rtrancl_into_trancl2)
  with assms(1) show False by (simp add: acyclic_def)
qed

text \<open>Accepting an entry whose prerequisites cannot reach it keeps the graph acyclic.\<close>

lemma by_id_append: "by_id (entries @ [e]) i = (if pe_id e = i then Some e else by_id entries i)"
  by (simp add: by_id_def newest_def)

lemma reach_without_fan: "(p, n) \<in> (G \<union> {n} \<times> A)\<^sup>* \<Longrightarrow> (p, n) \<in> G\<^sup>*"
proof (induction rule: converse_rtrancl_induct)
  case base
  then show ?case by simp
next
  case (step a b)
  then show ?case by (cases "a = n") (auto intro: converse_rtrancl_into_rtrancl)
qed

lemma acyclic_fan:
  assumes "acyclic G" and "finite A" and "\<forall>p\<in>A. (p, n) \<notin> G\<^sup>*"
  shows "acyclic (G \<union> {n} \<times> A)"
  using assms(2,3)
proof (induction A rule: finite_induct)
  case empty
  then show ?case using assms(1) by simp
next
  case (insert p A)
  from insert.prems have "(p, n) \<notin> G\<^sup>*" by simp
  then have "(p, n) \<notin> (G \<union> {n} \<times> A)\<^sup>*" by (rule contrapos_nn) (rule reach_without_fan)
  moreover have "acyclic (G \<union> {n} \<times> A)"
    by (rule insert.IH) (use insert.prems in simp)
  moreover have "G \<union> {n} \<times> insert p A = insert (n, p) (G \<union> {n} \<times> A)" by auto
  ultimately show ?case by (simp only: acyclic_insert simp_thms)
qed

lemma prerequisite_graph_append:
  assumes "pe_id e \<notin> pe_id ` set entries"
  shows "prerequisite_graph (entries @ [e]) =
     prerequisite_graph entries \<union> {pe_id e} \<times> set (prerequisite_ids e)"
proof -
  have "by_id entries (pe_id e) = None"
    using assms by (simp add: by_id_def newest_None_iff image_iff) metis
  then show ?thesis by (auto simp: prerequisite_graph_def edges_avoiding_def by_id_append split: if_splits)
qed

lemma acyclic_append:
  assumes "acyclic (prerequisite_graph entries)" and "pe_id e \<notin> pe_id ` set entries"
    and "\<not> wouldCreatePipelineCycle (pe_id e) (pe_prerequisites e) entries"
  shows "acyclic (prerequisite_graph (entries @ [e]))"
  unfolding prerequisite_graph_append [OF assms(2)]
  using assms(1,3)
  by (intro acyclic_fan) (auto simp: wouldCreatePipelineCycle_reach prerequisite_ids_def)

lemma prerequisite_graph_cong:
  assumes "map (\<lambda>e. (pe_id e, pe_prerequisites e)) entries = map (\<lambda>e. (pe_id e, pe_prerequisites e)) entries'"
  shows "prerequisite_graph entries = prerequisite_graph entries'"
proof -
  have look: "map_option pe_prerequisites (by_id xs i)
      = map_option snd (find (\<lambda>x. fst x = i) (rev (map (\<lambda>e. (pe_id e, pe_prerequisites e)) xs)))" for xs i
  proof -
    have "map_option pe_prerequisites (find (\<lambda>e. pe_id e = i) ys)
        = map_option snd (find (\<lambda>x. fst x = i) (map (\<lambda>e. (pe_id e, pe_prerequisites e)) ys))" for ys
      by (induction ys) auto
    from this [of "rev xs"] show ?thesis by (simp add: by_id_def newest_def rev_map)
  qed
  have edge: "(a, b) \<in> prerequisite_graph xs \<longleftrightarrow>
      (\<exists>ps. map_option pe_prerequisites (by_id xs a) = Some ps \<and> b \<in> pr_id ` set ps)" for a b xs
    by (auto simp: prerequisite_graph_def edges_avoiding_def prerequisite_ids_def)
  have "map_option pe_prerequisites (by_id entries i) = map_option pe_prerequisites (by_id entries' i)" for i
    unfolding look assms by (rule refl)
  then have "(a, b) \<in> prerequisite_graph entries \<longleftrightarrow> (a, b) \<in> prerequisite_graph entries'" for a b
    unfolding edge by simp
  then show ?thesis by (auto simp: set_eq_iff)
qed

subsection \<open>What an executable entry satisfies\<close>

lemma heldExclusiveScopes_set:
  "set (heldExclusiveScopes e f) = (if pe_state e = P_admitting \<or> (pe_state e = P_admitted
      \<and> (\<exists>j s. pe_jobId e = Some j \<and> f j = Some s \<and> \<not> isJobTerminal s)) then set (pe_exclusiveScopes e) else {})"
  by (auto simp: heldExclusiveScopes_def split: option.splits pipeline_state.splits)

lemma conflictingScopeHolder_None_iff:
  "conflictingScopeHolder entry others f = None \<longleftrightarrow>
     (\<forall>o'\<in>set others. pe_id o' \<noteq> pe_id entry \<longrightarrow>
        set (heldExclusiveScopes o' f) \<inter> set (pe_exclusiveScopes entry) = {})"
  by (induction others) (auto simp: find_None_iff find_Some_iff split: option.splits)

lemma prerequisite_wait_None_iff:
  "prerequisite_wait ctx ps = None \<longleftrightarrow>
     (\<forall>p\<in>set ps. \<exists>d. by_id (cx_entries ctx) (pr_id p) = Some d
        \<and> pe_state d \<notin> {P_cancelled, P_failed} \<and> milestoneReached (pr_milestone p) d ctx)"
  by (induction ps) (auto split: option.splits)

lemma pipelineBlockingReason_None_iff:
  "pipelineBlockingReason entry ctx = None \<longleftrightarrow>
     \<not> present (pe_holdReason entry) \<and> \<not> present (pe_deferReason entry)
     \<and> prerequisiteCyclePath entry (cx_entries ctx) = None
     \<and> prerequisite_wait ctx (pe_prerequisites entry) = None
     \<and> conflictingScopeHolder entry (cx_entries ctx) (cx_jobStatusOf ctx) = None"
  by (auto simp: pipelineBlockingReason_def split: option.splits)

lemma evaluate_ready_iff:
  "evaluatePipelineEntry entry ctx = Inr \<lparr>ev_state = P_ready, ev_reason = None\<rparr> \<longleftrightarrow>
     pe_state entry \<in> {P_waiting, P_ready} \<and> pipelineBlockingReason entry ctx = None
     \<and> cv_queued (cx_capacity ctx) = 0 \<and> 1 \<le> cv_available (cx_capacity ctx)"
  by (cases "pe_state entry") (auto simp: evaluatePipelineEntry_def split: option.splits)

subsection \<open>Codecs\<close>

lemma milestone_of_name [simp]:
  "status_of_name pipeline_milestone_name PIPELINE_MILESTONES (pipeline_milestone_name m) = Some m"
  by (cases m) (simp_all add: status_of_name_def PIPELINE_MILESTONES_def)

lemma safe_id_no_space: "isSafePipelineRecordId i n \<Longrightarrow> c \<in> set i \<Longrightarrow> \<not> js_space c"
  by (cases i)
    (auto simp: isSafePipelineRecordId_def list_all_iff ascii_alnum_def js_space_def less_eq_char_def)

lemma safe_id_trim: "isSafePipelineRecordId i n \<Longrightarrow> js_trim i = i"
  by (rule js_trim_no_space) (rule safe_id_no_space)

lemma safe_id_not_Nil: "isSafePipelineRecordId i n \<Longrightarrow> i \<noteq> []"
  by (auto simp: isSafePipelineRecordId_def)

lemma milestone_name_trim [simp]: "js_trim (pipeline_milestone_name m) \<noteq> []"
  by (cases m) (simp_all add: js_blank_iff js_space_def)

lemma parse_prerequisite_encoded:
  "parse_prerequisite seen (JObj [(''id'', JStr (pr_id p)),
      (''milestone'', JStr (pipeline_milestone_name (pr_milestone p)))]) = Inr q \<longleftrightarrow>
     q = p \<and> isSafePipelineRecordId (pr_id p) 128 \<and> pr_id p \<notin> set seen"
  using safe_id_trim [of "pr_id p" 128] safe_id_not_Nil [of "pr_id p" 128]
  by (cases p) (auto simp: parse_prerequisite_def pl_asRecord_def pl_reqStr_def)

lemma parse_prerequisites_encoded:
  "parse_prerequisites seen (map (\<lambda>p. JObj [(''id'', JStr (pr_id p)),
      (''milestone'', JStr (pipeline_milestone_name (pr_milestone p)))]) ps) = Inr qs \<longleftrightarrow>
     qs = ps \<and> (\<forall>p\<in>set ps. isSafePipelineRecordId (pr_id p) 128)
     \<and> distinct (map pr_id ps) \<and> set (map pr_id ps) \<inter> set seen = {}"
proof (induction ps arbitrary: seen qs)
  case Nil
  then show ?case by auto
next
  case (Cons p ps)
  show ?case
    by (auto simp: attempt_Inr_iff parse_prerequisite_encoded Cons.IH)
qed

lemma validatePipelinePrerequisites_iff:
  "validatePipelinePrerequisites ps = Inr qs \<longleftrightarrow>
     qs = ps \<and> (\<forall>p\<in>set ps. isSafePipelineRecordId (pr_id p) 128) \<and> distinct (map pr_id ps)"
  by (simp add: validatePipelinePrerequisites_def parsePipelinePrerequisites_def
      encode_prerequisites_def parse_prerequisites_encoded)

lemma parse_prerequisites_valid:
  "parse_prerequisites seen es = Inr ps \<Longrightarrow>
     (\<forall>p\<in>set ps. isSafePipelineRecordId (pr_id p) 128) \<and> distinct (map pr_id ps)
     \<and> set (map pr_id ps) \<inter> set seen = {}"
proof (induction es arbitrary: seen ps)
  case Nil
  then show ?case by simp
next
  case (Cons e es)
  from Cons.prems obtain p qs where p: "parse_prerequisite seen e = Inr p"
    and qs: "parse_prerequisites (pr_id p # seen) es = Inr qs" and ps: "ps = p # qs"
    by (auto simp: attempt_Inr_iff)
  from p have "isSafePipelineRecordId (pr_id p) 128 \<and> pr_id p \<notin> set seen"
    by (auto simp: parse_prerequisite_def attempt_Inr_iff split: option.splits if_splits)
  with Cons.IH [OF qs] ps show ?case by auto
qed

lemma parsePipelinePrerequisites_valid:
  "parsePipelinePrerequisites raw = Inr ps \<Longrightarrow> validatePipelinePrerequisites ps = Inr ps"
  using parse_prerequisites_valid
  by (fastforce simp: parsePipelinePrerequisites_def validatePipelinePrerequisites_iff split: json.splits)

lemma parse_scopes_iff:
  "parse_scopes seen es = Inr ss \<longleftrightarrow>
     es = map JStr ss \<and> (\<forall>s\<in>set ss. \<not> js_blank s \<and> js_trim s = s \<and> length s \<le> 200)
     \<and> distinct ss \<and> set ss \<inter> set seen = {}"
proof (induction es arbitrary: seen ss)
  case Nil
  then show ?case by auto
next
  case (Cons e es)
  show ?case
    by (cases ss) (auto simp: attempt_Inr_iff Cons.IH split: json.splits)
qed

lemma parseExclusiveScopes_iff:
  "parseExclusiveScopes raw = Inr ss \<longleftrightarrow>
     raw = JArr (map JStr ss) \<and> (\<forall>s\<in>set ss. \<not> js_blank s \<and> js_trim s = s \<and> length s \<le> 200) \<and> distinct ss"
  by (auto simp: parseExclusiveScopes_def parse_scopes_iff split: json.splits)

lemma validateExclusiveScopes_Inr: "validateExclusiveScopes ss = Inr ts \<Longrightarrow> ts = ss"
  by (auto simp: validateExclusiveScopes_def parseExclusiveScopes_iff inj_map_eq_map inj_def)

lemma parsePipelineClaim_encode:
  "\<not> js_blank (pc_holder c) \<Longrightarrow> \<not> js_blank (pc_since c) \<Longrightarrow>
   parsePipelineClaim (Some (encode_pipeline_claim c)) = Inr (Some c)"
  by (cases c) (simp add: parsePipelineClaim_def encode_pipeline_claim_def pl_asRecord_def pl_reqStr_def)

lemma validatePipelinePriority_Inr:
  "validatePipelinePriority v = Inr n \<longleftrightarrow> v = of_int n \<and> 0 \<le> n \<and> n \<le> 9"
proof
  assume "validatePipelinePriority v = Inr n"
  then have n: "n = \<lfloor>v\<rfloor>" and int: "of_int \<lfloor>v\<rfloor> = v" and range: "0 \<le> v" "v \<le> 9"
    by (auto simp: validatePipelinePriority_def js_safe_int_def PIPELINE_PRIORITY_MIN_def
        PIPELINE_PRIORITY_MAX_def split: if_splits)
  from int n range show "v = of_int n \<and> 0 \<le> n \<and> n \<le> 9" by auto
next
  assume "v = of_int n \<and> 0 \<le> n \<and> n \<le> 9"
  then show "validatePipelinePriority v = Inr n"
    by (auto simp: validatePipelinePriority_def PIPELINE_PRIORITY_MIN_def PIPELINE_PRIORITY_MAX_def)
qed

subsection \<open>Properties\<close>

text \<open>C28. An entry is executable now, with no wait reason at all, exactly when it is waiting or ready,
  carries no hold and no deferral, cannot reach itself through prerequisites that are still queued,
  has every prerequisite enqueued, neither cancelled nor failed, at its milestone, shares no exclusive
  scope with another entry that holds it, and the shared budget has a free slot and nobody queued.\<close>

theorem pipeline_entry_ready:
  "evaluatePipelineEntry entry ctx = Inr \<lparr>ev_state = P_ready, ev_reason = None\<rparr> \<longleftrightarrow>
     pe_state entry \<in> {P_waiting, P_ready}
     \<and> \<not> present (pe_holdReason entry) \<and> \<not> present (pe_deferReason entry)
     \<and> (\<forall>p\<in>set (pe_prerequisites entry).
          (pr_id p, pe_id entry) \<notin> (edges_avoiding walkable (cx_entries ctx) {})\<^sup>*)
     \<and> (\<forall>p\<in>set (pe_prerequisites entry). \<exists>d. by_id (cx_entries ctx) (pr_id p) = Some d
          \<and> pe_state d \<notin> {P_cancelled, P_failed} \<and> milestoneReached (pr_milestone p) d ctx)
     \<and> (\<forall>e\<in>set (cx_entries ctx). pe_id e \<noteq> pe_id entry \<longrightarrow>
          set (heldExclusiveScopes e (cx_jobStatusOf ctx)) \<inter> set (pe_exclusiveScopes entry) = {})
     \<and> cv_queued (cx_capacity ctx) = 0 \<and> 1 \<le> cv_available (cx_capacity ctx)"
  unfolding evaluate_ready_iff pipelineBlockingReason_None_iff prerequisiteCyclePath_None_iff
    prerequisite_wait_None_iff conflictingScopeHolder_None_iff
  by (auto simp: prerequisite_ids_def)

definition sample_entry :: "string \<Rightarrow> pipeline_prerequisite list \<Rightarrow> pipeline_entry" where
  "sample_entry i ps = \<lparr>pe_id = i, pe_repoPath = ''/r'', pe_repo = ''r'', pe_title = ''t'', pe_briefing = ''b'',
     pe_briefingHash = ''h'', pe_priority = 5, pe_enqueueSeq = 1, pe_state = P_waiting, pe_holdReason = None,
     pe_prerequisites = ps, pe_exclusiveScopes = [''db''], pe_requestId = i, pe_payloadHash = ''p'',
     pe_jobId = None, pe_claim = None, pe_failureReason = None, pe_failureCount = 0, pe_deferReason = None,
     pe_reconcileNote = None, pe_queuedAt = ''t0'', pe_claimedAt = None, pe_admittedAt = None,
     pe_updatedAt = ''t0''\<rparr>"

definition sample_context :: "pipeline_context" where
  "sample_context = \<lparr>cx_entries =
       [(sample_entry ''a'' []) \<lparr>pe_state := P_admitted, pe_jobId := Some ''j-1''\<rparr>,
        sample_entry ''b'' [\<lparr>pr_id = ''a'', pr_milestone = M_merged\<rparr>]],
     cx_jobStatusOf = (\<lambda>_. Some Merged), cx_jobDeliveredOf = (\<lambda>_. True), cx_jobStartedOf = (\<lambda>_. True),
     cx_capacity = \<lparr>cv_capacity = 4, cv_occupied = 3, cv_queued = 0, cv_available = 1\<rparr>\<rparr>"

theorem pipeline_entry_ready_witness:
  "(''a'', ''b'') \<notin> (edges_avoiding walkable (cx_entries sample_context) {})\<^sup>*
   \<and> milestoneReached M_merged ((sample_entry ''a'' []) \<lparr>pe_state := P_admitted, pe_jobId := Some ''j-1''\<rparr>)
       sample_context"
proof -
  have "evaluatePipelineEntry (sample_entry ''b'' [\<lparr>pr_id = ''a'', pr_milestone = M_merged\<rparr>]) sample_context
      = Inr \<lparr>ev_state = P_ready, ev_reason = None\<rparr>"
    by (simp add: evaluatePipelineEntry_def pipelineBlockingReason_def prerequisiteCyclePath_def
        heldExclusiveScopes_def present_def sample_entry_def sample_context_def by_id_def newest_def
        walkable_def prerequisite_ids_def dependency_status_def)
  then show ?thesis
    unfolding pipeline_entry_ready by (simp add: sample_entry_def sample_context_def by_id_def newest_def)
qed

text \<open>C29. The two walks over the prerequisite graph decide reachability: the enqueue check answers yes
  exactly when a planned prerequisite reaches the new id, and the board's cycle path is absent exactly
  when the entry cannot reach itself through queued entries; a path it does report starts and ends at
  the entry and follows real prerequisite edges.\<close>

theorem pipeline_cycle_walks:
  "(wouldCreatePipelineCycle i ps entries \<longleftrightarrow>
      (\<exists>p\<in>set ps. (pr_id p, i) \<in> (prerequisite_graph entries)\<^sup>*))
   \<and> (prerequisiteCyclePath entry entries = None \<longleftrightarrow>
      (\<forall>p\<in>set (prerequisite_ids entry). (p, pe_id entry) \<notin> (edges_avoiding walkable entries {})\<^sup>*))
   \<and> (prerequisiteCyclePath entry entries = Some path \<longrightarrow> by_id entries (pe_id entry) = Some entry \<longrightarrow>
      2 \<le> length path \<and> hd path = pe_id entry \<and> last path = pe_id entry
      \<and> successively (\<lambda>a b. (a, b) \<in> prerequisite_graph entries) path)"
proof (intro conjI impI)
  show "wouldCreatePipelineCycle i ps entries \<longleftrightarrow>
      (\<exists>p\<in>set ps. (pr_id p, i) \<in> (prerequisite_graph entries)\<^sup>*)"
    by (rule wouldCreatePipelineCycle_reach)
  show "prerequisiteCyclePath entry entries = None \<longleftrightarrow>
      (\<forall>p\<in>set (prerequisite_ids entry). (p, pe_id entry) \<notin> (edges_avoiding walkable entries {})\<^sup>*)"
    by (rule prerequisiteCyclePath_None_iff)
next
  assume some: "prerequisiteCyclePath entry entries = Some path"
    and here: "by_id entries (pe_id entry) = Some entry"
  then have "real_path (pe_id entry) entries [] [pe_id entry] path"
    by (intro real_path_extend [OF here]) (simp add: cycle_walk_sound prerequisiteCyclePath_def)
  moreover from cycle_walk_sound [OF some [unfolded prerequisiteCyclePath_def]]
  obtain q where q: "path = [pe_id entry] @ q @ [pe_id entry]" by (auto simp: real_path_def)
  ultimately show "2 \<le> length path" "hd path = pe_id entry" "last path = pe_id entry"
    "successively (\<lambda>a b. (a, b) \<in> prerequisite_graph entries) path"
    by (auto simp: real_path_def)
qed

theorem pipeline_cycle_walks_witness:
  "successively (\<lambda>a b. (a, b) \<in> prerequisite_graph
       [sample_entry ''a'' [\<lparr>pr_id = ''b'', pr_milestone = M_done\<rparr>],
        sample_entry ''b'' [\<lparr>pr_id = ''a'', pr_milestone = M_done\<rparr>]]) [''a'', ''b'', ''a'']"
  using pipeline_cycle_walks [of _ _ "[sample_entry ''a'' [\<lparr>pr_id = ''b'', pr_milestone = M_done\<rparr>],
        sample_entry ''b'' [\<lparr>pr_id = ''a'', pr_milestone = M_done\<rparr>]]"
      "sample_entry ''a'' [\<lparr>pr_id = ''b'', pr_milestone = M_done\<rparr>]" "[''a'', ''b'', ''a'']"]
  by (simp add: prerequisiteCyclePath_def sample_entry_def by_id_def newest_def walkable_def prerequisite_ids_def)

text \<open>Prerequisite lists and scope lists are accepted unchanged or refused: a list survives
  validation exactly when its ids satisfy the identity contract of enqueue and are distinct (so it can
  never wait on an id that cannot be enqueued), whatever JSON value is parsed yields a list that
  validates to itself, and exclusive scopes are distinct unpadded non-empty names of at most 200
  characters.\<close>

theorem pipeline_codecs:
  "(validatePipelinePrerequisites ps = Inr qs \<longleftrightarrow>
      qs = ps \<and> (\<forall>p\<in>set ps. isSafePipelineRecordId (pr_id p) 128) \<and> distinct (map pr_id ps))
   \<and> (parsePipelinePrerequisites raw = Inr ps \<longrightarrow> validatePipelinePrerequisites ps = Inr ps)
   \<and> (validateExclusiveScopes ss = Inr ts \<longleftrightarrow>
      ts = ss \<and> (\<forall>s\<in>set ss. \<not> js_blank s \<and> js_trim s = s \<and> length s \<le> 200) \<and> distinct ss)"
proof -
  have "validateExclusiveScopes ss = Inr ts \<longleftrightarrow>
      ts = ss \<and> (\<forall>s\<in>set ss. \<not> js_blank s \<and> js_trim s = s \<and> length s \<le> 200) \<and> distinct ss"
    by (auto simp: validateExclusiveScopes_def parseExclusiveScopes_iff inj_map_eq_map inj_def)
  then show ?thesis
    using validatePipelinePrerequisites_iff parsePipelinePrerequisites_valid by blast
qed

theorem pipeline_codecs_witness:
  "validatePipelinePrerequisites [\<lparr>pr_id = ''q-1.a'', pr_milestone = M_merged\<rparr>]
     = Inr [\<lparr>pr_id = ''q-1.a'', pr_milestone = M_merged\<rparr>]
   \<and> validateExclusiveScopes [''db'', ''db''] \<noteq> Inr [''db'', ''db'']"
  using pipeline_codecs [of "[\<lparr>pr_id = ''q-1.a'', pr_milestone = M_merged\<rparr>]"
      "[\<lparr>pr_id = ''q-1.a'', pr_milestone = M_merged\<rparr>]" JNull "[''db'', ''db'']" "[''db'', ''db'']"]
  by (simp add: isSafePipelineRecordId_def ascii_alnum_def less_eq_char_def)

end
