(* ===== verification/Obligation_Domain.thy ===== *)
theory Obligation_Domain
  imports Job_States
begin

text \<open>
  The typed vocabulary of durable follow-through obligations, \<^verbatim>\<open>src/src/ledger/obligations.ts\<close>: steps,
  categories, the discriminated unions of next actions, wake conditions, authorities and settlements,
  the closed firing-rule registry, the resolution of a blocker context, identities, due selection,
  claims and the JSON codecs of the rows. The platform's \<open>Date.parse\<close> and \<open>toISOString\<close> and its
  hash are fields of a record, so no property depends on how they are computed.
\<close>

record platform =
  plat_parse_date :: "string \<Rightarrow> int option"  \<comment> \<open>\<open>Date.parse\<close>; None is NaN\<close>
  plat_to_iso :: "int \<Rightarrow> string"             \<comment> \<open>\<open>new Date(ms).toISOString()\<close>\<close>
  plat_sha256 :: "string \<Rightarrow> string"          \<comment> \<open>\<open>createHash('sha256')\<close> of a text, hex\<close>
  plat_digest :: "json \<Rightarrow> string"            \<comment> \<open>the same of \<open>JSON.stringify\<close> of a value\<close>
  plat_compare :: "string \<Rightarrow> string \<Rightarrow> int"  \<comment> \<open>\<open>localeCompare\<close>\<close>

subsection \<open>Identity vocabulary\<close>

datatype logical_step = S_implementation | S_review | S_verification | S_audit | S_operation

definition OBLIGATION_LOGICAL_STEPS :: "logical_step list" where
  "OBLIGATION_LOGICAL_STEPS = [S_implementation, S_review, S_verification, S_audit, S_operation]"

fun logical_step_name :: "logical_step \<Rightarrow> string" where
  "logical_step_name S_implementation = ''implementation''"
| "logical_step_name S_review = ''review''"
| "logical_step_name S_verification = ''verification''"
| "logical_step_name S_audit = ''audit''"
| "logical_step_name S_operation = ''operation''"

definition isObligationLogicalStep :: "string \<Rightarrow> bool" where
  "isObligationLogicalStep value \<longleftrightarrow> value \<in> set (map logical_step_name OBLIGATION_LOGICAL_STEPS)"

datatype known_category =
    C_owner_hold | C_provider_wait | C_quality_gate | C_verification_failure | C_review_verdict
  | C_lane_unavailable | C_restart_recovery | C_phase_completion

definition KNOWN_BLOCKER_CATEGORIES :: "known_category list" where
  "KNOWN_BLOCKER_CATEGORIES = [C_owner_hold, C_provider_wait, C_quality_gate, C_verification_failure,
     C_review_verdict, C_lane_unavailable, C_restart_recovery, C_phase_completion]"

fun known_category_name :: "known_category \<Rightarrow> string" where
  "known_category_name C_owner_hold = ''owner-hold''"
| "known_category_name C_provider_wait = ''provider-wait''"
| "known_category_name C_quality_gate = ''quality-gate''"
| "known_category_name C_verification_failure = ''verification-failure''"
| "known_category_name C_review_verdict = ''review-verdict''"
| "known_category_name C_lane_unavailable = ''lane-unavailable''"
| "known_category_name C_restart_recovery = ''restart-recovery''"
| "known_category_name C_phase_completion = ''phase-completion''"

datatype category = Known known_category | Unknown

fun categoryKey :: "category \<Rightarrow> string" where
  "categoryKey (Known c) = ''known:'' @ known_category_name c"
| "categoryKey Unknown = ''unknown''"

definition SILAS_MECHANICAL_ACTIONS :: "string list" where
  "SILAS_MECHANICAL_ACTIONS = [''register-pr'', ''request-review'', ''hand-back-ruling'']"

subsection \<open>Discriminated unions\<close>

datatype next_action =
    Silas_mechanical string   \<comment> \<open>action id, checked against the closed list\<close>
  | Gru_decision string
  | Owner_decision string
  | External_wait string

datatype wake_condition = Wake_event string | Wake_receipt string | Wake_sweep

datatype authority =
    Accepted_operation string string  \<comment> \<open>operationId, version\<close>
  | Chief_ruling string string        \<comment> \<open>rulingRef, version\<close>
  | Owner_ruling string string

datatype settlement =
    Executed_action string nat string     \<comment> \<open>action, evidenceEventSeq, evidenceEventKind\<close>
  | Accepted_evidence string nat string   \<comment> \<open>gate, evidenceEventSeq, evidenceEventKind\<close>
  | Superseded "string option" string     \<comment> \<open>byObligationId, reason\<close>
  | Cancelled string
  | Job_terminal job_status

record receipt_correlation =
  rc_requestId :: "string option"
  rc_minionId :: "string option"

record recorded_receipt =
  rr_kind :: string
  rr_eventSeq :: int
  rr_at :: string
  rr_applied :: bool

record obligation_claim =
  oc_requestId :: string
  oc_holder :: string
  oc_generation :: int
  oc_expiresAt :: "string option"

datatype claim_disposition = Released | Superseded_expired_reconciled | Plan_revision | Terminal_close

fun claim_disposition_name :: "claim_disposition \<Rightarrow> string" where
  "claim_disposition_name Released = ''released''"
| "claim_disposition_name Superseded_expired_reconciled = ''superseded-expired-reconciled''"
| "claim_disposition_name Plan_revision = ''plan-revision''"
| "claim_disposition_name Terminal_close = ''terminal-close''"

definition CLAIM_LOG_DISPOSITIONS :: "claim_disposition list" where
  "CLAIM_LOG_DISPOSITIONS = [Released, Superseded_expired_reconciled, Plan_revision, Terminal_close]"

record claim_log_entry =
  le_requestId :: string
  le_holder :: string
  le_generation :: int
  le_expiresAt :: "string option"
  le_disposition :: claim_disposition
  le_at :: string
  le_proof :: "string option"
  le_supersededByRequest :: "string option"

datatype obligation_error =
    Bad_watermark rat
  | Bad_timestamp string string          \<comment> \<open>what, value\<close>
  | Unknown_firing_rule string
  | No_firing_rule string
  | Rule_category_mismatch string string string
  | Unlisted_action string
  | Action_needs_authority string
  | Blank_incident_key
  | Not_object string
  | Not_array string
  | Bad_field string string              \<comment> \<open>what, key\<close>
  | Unknown_kind string string           \<comment> \<open>what, value\<close>
  | Empty_correlation
  | Handoff_too_long
  | Blank_job_id
  | Bad_handoff_generation int

subsection \<open>Firing rules\<close>

record firing_rule =
  fr_id :: string
  fr_category :: category
  fr_nextAction :: next_action
  fr_wakeCondition :: wake_condition

definition FIRING_RULE_IDS :: "string list" where
  "FIRING_RULE_IDS = [''owner-hold-needs-owner'', ''provider-wait-external'', ''quality-gate-gru-decision'',
     ''verification-failure-gru-decision'', ''review-verdict-gru-decision'', ''lane-unavailable-gru-decision'',
     ''restart-recovery-gru-decision'', ''phase-completion-gru-decision'', ''unknown-triage-gru'']"

definition sweep_rule :: "string \<Rightarrow> category \<Rightarrow> next_action \<Rightarrow> firing_rule" where
  "sweep_rule i c a = \<lparr>fr_id = i, fr_category = c, fr_nextAction = a, fr_wakeCondition = Wake_sweep\<rparr>"

text \<open>Decision labels are ASCII renderings: the code's em dash is \<open>--\<close>.\<close>

definition FIRING_RULES :: "firing_rule list" where
  "FIRING_RULES = [
     sweep_rule ''owner-hold-needs-owner'' (Known C_owner_hold)
       (Owner_decision ''owner hold: resolve or release the hold''),
     sweep_rule ''provider-wait-external'' (Known C_provider_wait)
       (External_wait ''external provider dependency recovers (PR132 owns the wait)''),
     sweep_rule ''quality-gate-gru-decision'' (Known C_quality_gate)
       (Gru_decision ''quality gate outcome requires a ruling''),
     sweep_rule ''verification-failure-gru-decision'' (Known C_verification_failure)
       (Gru_decision ''failed verification requires a recovery ruling''),
     sweep_rule ''review-verdict-gru-decision'' (Known C_review_verdict)
       (Gru_decision ''review verdict follow-through requires a ruling''),
     sweep_rule ''lane-unavailable-gru-decision'' (Known C_lane_unavailable)
       (Gru_decision ''lane unavailability requires a recovery ruling''),
     sweep_rule ''restart-recovery-gru-decision'' (Known C_restart_recovery)
       (Gru_decision ''inspect exact request/native progress; guarded fresh successor or concrete reserved owner decision''),
     sweep_rule ''phase-completion-gru-decision'' (Known C_phase_completion)
       (Gru_decision ''bounded phase completed on a still-blocked lane -- rule on the follow-through''),
     sweep_rule ''unknown-triage-gru'' Unknown
       (Gru_decision ''triage: blocker category unclassified'')]"

definition defaultFiringRule :: "category \<Rightarrow> obligation_error + firing_rule" where
  "defaultFiringRule c = (case find (\<lambda>r. categoryKey (fr_category r) = categoryKey c) FIRING_RULES of
     None \<Rightarrow> Inl (No_firing_rule (categoryKey c)) | Some r \<Rightarrow> Inr r)"

definition isFiringRuleId :: "string \<Rightarrow> bool" where
  "isFiringRuleId value \<longleftrightarrow> value \<in> set FIRING_RULE_IDS"

subsection \<open>Blocker contexts\<close>

definition canonicalIsoTimestamp :: "platform \<Rightarrow> string \<Rightarrow> string \<Rightarrow> obligation_error + string" where
  "canonicalIsoTimestamp plat value what = (case plat_parse_date plat value of
     None \<Rightarrow> Inl (Bad_timestamp what value) | Some parsed \<Rightarrow> Inr (plat_to_iso plat parsed))"

record blocker_context =
  bc_logicalStep :: logical_step
  bc_category :: category
  bc_incidentKey :: "string option"
  bc_description :: "string option"
  bc_observedAtSeq :: rat
  bc_nextAction :: "next_action option"
  bc_authority :: "authority option"
  bc_wakeCondition :: "wake_condition option"
  bc_dueAt :: "string option"
  bc_receiptKind :: "string option"
  bc_deadlineAt :: "string option"
  bc_receiptCorrelation :: "receipt_correlation option"
  bc_firingRule :: "string option"

record resolved_obligation =
  ro_id :: string
  ro_jobId :: string
  ro_logicalStep :: logical_step
  ro_incidentKey :: string
  ro_category :: category
  ro_nextAction :: next_action
  ro_wakeCondition :: wake_condition
  ro_authority :: "authority option"
  ro_firingRule :: string
  ro_description :: "string option"
  ro_dueAt :: "string option"
  ro_receiptKind :: "string option"
  ro_deadlineAt :: "string option"
  ro_receiptCorrelation :: "receipt_correlation option"

definition obligationId :: "string \<Rightarrow> logical_step \<Rightarrow> string \<Rightarrow> string" where
  "obligationId jobId logicalStep incidentKey =
     jobId @ '':'' @ logical_step_name logicalStep @ '':'' @ incidentKey"

definition choose_rule :: "blocker_context \<Rightarrow> obligation_error + firing_rule" where
  "choose_rule context = (case bc_firingRule context of
     Some i \<Rightarrow> (case find (\<lambda>r. fr_id r = i) FIRING_RULES of
                  None \<Rightarrow> Inl (Unknown_firing_rule i) | Some r \<Rightarrow> Inr r)
   | None \<Rightarrow> defaultFiringRule (bc_category context))"

definition check_next_action :: "next_action \<Rightarrow> authority option \<Rightarrow> obligation_error + unit" where
  "check_next_action nextAction auth = (case nextAction of
     Silas_mechanical action \<Rightarrow>
       if action \<notin> set SILAS_MECHANICAL_ACTIONS then Inl (Unlisted_action action)
       else if auth = None then Inl (Action_needs_authority action) else Inr ()
   | _ \<Rightarrow> Inr ())"

definition optional_iso :: "platform \<Rightarrow> string option \<Rightarrow> string \<Rightarrow> obligation_error + string option" where
  "optional_iso plat v what = (case v of
     None \<Rightarrow> Inr None | Some s \<Rightarrow> attempt (canonicalIsoTimestamp plat s what) (\<lambda>t. Inr (Some t)))"

definition resolveObligation ::
  "platform \<Rightarrow> blocker_context \<Rightarrow> string \<Rightarrow> obligation_error + resolved_obligation" where
  "resolveObligation plat context jobId =
     (if bc_observedAtSeq context < 0 \<or> \<not> js_safe_int (bc_observedAtSeq context)
      then Inl (Bad_watermark (bc_observedAtSeq context)) else
      attempt (choose_rule context) (\<lambda>rule.
      if categoryKey (fr_category rule) \<noteq> categoryKey (bc_category context)
      then Inl (Rule_category_mismatch (fr_id rule) (categoryKey (fr_category rule)) (categoryKey (bc_category context)))
      else
      let nextAction = or_else (bc_nextAction context) (fr_nextAction rule);
          incidentKey = or_else (bc_incidentKey context) (categoryKey (bc_category context)) in
      attempt (check_next_action nextAction (bc_authority context)) (\<lambda>_.
      if js_blank incidentKey then Inl Blank_incident_key else
      attempt (optional_iso plat (bc_dueAt context) ''blocker context dueAt'') (\<lambda>dueAt.
      attempt (optional_iso plat (bc_deadlineAt context) ''blocker context deadlineAt'') (\<lambda>deadlineAt.
      Inr \<lparr>ro_id = obligationId jobId (bc_logicalStep context) incidentKey,
           ro_jobId = jobId,
           ro_logicalStep = bc_logicalStep context,
           ro_incidentKey = incidentKey,
           ro_category = bc_category context,
           ro_nextAction = nextAction,
           ro_wakeCondition = or_else (bc_wakeCondition context) (fr_wakeCondition rule),
           ro_authority = bc_authority context,
           ro_firingRule = fr_id rule,
           ro_description = (case bc_description context of
              None \<Rightarrow> None | Some d \<Rightarrow> if js_blank d then None else Some d),
           ro_dueAt = dueAt,
           ro_receiptKind = bc_receiptKind context,
           ro_deadlineAt = deadlineAt,
           ro_receiptCorrelation = bc_receiptCorrelation context\<rparr>)))))"

subsection \<open>Routing and due selection\<close>

datatype attention_routing = Needs_owner | Action_required | Machine_silas | External_passive

fun obligationRouting :: "next_action \<Rightarrow> attention_routing" where
  "obligationRouting (Owner_decision d) = Needs_owner"
| "obligationRouting (Gru_decision d) = Action_required"
| "obligationRouting (Silas_mechanical a) = Machine_silas"
| "obligationRouting (External_wait c) = External_passive"

record due_view =
  dv_id :: string
  dv_state :: obligation_state
  dv_nextAction :: next_action
  dv_dueAt :: "string option"
  dv_deadlineAt :: "string option"

record due_selection =
  ds_due :: "due_view list"
  ds_missedDeadlines :: "due_view list"

text \<open>Timestamps are canonical ISO strings; \<open><=\<close> on them is the lexicographic order.\<close>

definition selectDueObligations :: "due_view list \<Rightarrow> string \<Rightarrow> due_selection" where
  "selectDueObligations obligations nowIso =
     \<lparr>ds_due = filter (\<lambda>row. dv_state row = O_open
        \<and> (case dv_dueAt row of None \<Rightarrow> True | Some d \<Rightarrow> d \<le> nowIso)) obligations,
      ds_missedDeadlines = filter (\<lambda>row. dv_state row = O_waiting
        \<and> (case dv_deadlineAt row of None \<Rightarrow> False | Some d \<Rightarrow> d \<le> nowIso)) obligations\<rparr>"

subsection \<open>Codecs\<close>

definition ob_asRecord :: "json \<Rightarrow> string \<Rightarrow> obligation_error + (string \<times> json) list" where
  "ob_asRecord value what = (case value of JObj fs \<Rightarrow> Inr fs | _ \<Rightarrow> Inl (Not_object what))"

definition ob_reqStr :: "(string \<times> json) list \<Rightarrow> string \<Rightarrow> string \<Rightarrow> obligation_error + string" where
  "ob_reqStr source key what = (case map_of source key of
     Some (JStr s) \<Rightarrow> if js_blank s then Inl (Bad_field what key) else Inr s
   | _ \<Rightarrow> Inl (Bad_field what key))"

definition optStr :: "(string \<times> json) list \<Rightarrow> string \<Rightarrow> string option" where
  "optStr source key = (case map_of source key of
     Some (JStr s) \<Rightarrow> if s \<noteq> [] then Some s else None | _ \<Rightarrow> None)"

definition reqSeq :: "(string \<times> json) list \<Rightarrow> string \<Rightarrow> string \<Rightarrow> obligation_error + nat" where
  "reqSeq source key what = (case map_of source key of
     Some (JNum v) \<Rightarrow> if \<not> js_safe_int v \<or> v < 0 then Inl (Bad_field what key) else Inr (nat \<lfloor>v\<rfloor>)
   | _ \<Rightarrow> Inl (Bad_field what key))"

text \<open>\<open>typeof v !== 'number' || !Number.isSafeInteger(v)\<close>\<close>

definition reqInt :: "(string \<times> json) list \<Rightarrow> string \<Rightarrow> string \<Rightarrow> obligation_error + int" where
  "reqInt source key what = (case map_of source key of
     Some (JNum v) \<Rightarrow> if \<not> js_safe_int v then Inl (Bad_field what key) else Inr \<lfloor>v\<rfloor>
   | _ \<Rightarrow> Inl (Bad_field what key))"

definition parseCategory :: "json \<Rightarrow> obligation_error + category" where
  "parseCategory raw =
     attempt (ob_asRecord raw ''obligation category'') (\<lambda>fields.
     if map_of fields ''kind'' = Some (JStr ''unknown'') then Inr Unknown
     else if map_of fields ''kind'' \<noteq> Some (JStr ''known'') then Inl (Unknown_kind ''obligation category'' ''kind'')
     else attempt (ob_reqStr fields ''category'' ''obligation category'') (\<lambda>c.
       case status_of_name known_category_name KNOWN_BLOCKER_CATEGORIES c of
         None \<Rightarrow> Inl (Unknown_kind ''obligation category'' c) | Some k \<Rightarrow> Inr (Known k)))"

definition parseNextAction :: "json \<Rightarrow> obligation_error + next_action" where
  "parseNextAction raw =
     attempt (ob_asRecord raw ''obligation next action'') (\<lambda>fields.
     attempt (ob_reqStr fields ''kind'' ''obligation next action'') (\<lambda>kind.
     if kind = ''silas-mechanical'' then
       attempt (ob_reqStr fields ''action'' ''silas-mechanical next action'') (\<lambda>action.
       if action \<notin> set SILAS_MECHANICAL_ACTIONS then Inl (Unlisted_action action)
       else Inr (Silas_mechanical action))
     else if kind = ''gru-decision'' then
       attempt (ob_reqStr fields ''decision'' ''gru-decision next action'') (\<lambda>d. Inr (Gru_decision d))
     else if kind = ''owner-decision'' then
       attempt (ob_reqStr fields ''decision'' ''owner-decision next action'') (\<lambda>d. Inr (Owner_decision d))
     else if kind = ''external-wait'' then
       attempt (ob_reqStr fields ''condition'' ''external-wait next action'') (\<lambda>c. Inr (External_wait c))
     else Inl (Unknown_kind ''obligation next action'' kind)))"

definition parseWakeCondition :: "json \<Rightarrow> obligation_error + wake_condition" where
  "parseWakeCondition raw =
     attempt (ob_asRecord raw ''obligation wake condition'') (\<lambda>fields.
     attempt (ob_reqStr fields ''kind'' ''obligation wake condition'') (\<lambda>kind.
     if kind = ''event'' then
       attempt (ob_reqStr fields ''eventKind'' ''event wake condition'') (\<lambda>k. Inr (Wake_event k))
     else if kind = ''receipt'' then
       attempt (ob_reqStr fields ''receiptKind'' ''receipt wake condition'') (\<lambda>k. Inr (Wake_receipt k))
     else if kind = ''sweep'' then Inr Wake_sweep
     else Inl (Unknown_kind ''obligation wake condition'' kind)))"

text \<open>Nullable columns: \<open>None\<close> is NULL or the empty text.\<close>

definition parseAuthority :: "json option \<Rightarrow> obligation_error + authority option" where
  "parseAuthority raw = (case raw of None \<Rightarrow> Inr None | Some value \<Rightarrow>
     attempt (ob_asRecord value ''obligation authority'') (\<lambda>fields.
     attempt (ob_reqStr fields ''source'' ''obligation authority'') (\<lambda>source.
     attempt (ob_reqStr fields ''version'' ''obligation authority'') (\<lambda>version.
     if source = ''accepted-operation'' then
       attempt (ob_reqStr fields ''operationId'' ''accepted-operation authority'') (\<lambda>op.
       Inr (Some (Accepted_operation op version)))
     else if source = ''chief-ruling'' \<or> source = ''owner-ruling'' then
       attempt (ob_reqStr fields ''rulingRef'' (source @ '' authority'')) (\<lambda>ref.
       Inr (Some (if source = ''chief-ruling'' then Chief_ruling ref version else Owner_ruling ref version)))
     else Inl (Unknown_kind ''obligation authority'' source)))))"

definition parseSettlement :: "json \<Rightarrow> obligation_error + settlement" where
  "parseSettlement raw =
     attempt (ob_asRecord raw ''obligation settlement'') (\<lambda>fields.
     attempt (ob_reqStr fields ''kind'' ''obligation settlement'') (\<lambda>kind.
     if kind = ''executed-action'' then
       attempt (ob_reqStr fields ''action'' ''executed-action settlement'') (\<lambda>action.
       attempt (reqSeq fields ''evidenceEventSeq'' ''executed-action settlement'') (\<lambda>seq.
       attempt (ob_reqStr fields ''evidenceEventKind'' ''executed-action settlement'') (\<lambda>k.
       Inr (Executed_action action seq k))))
     else if kind = ''accepted-evidence'' then
       attempt (ob_reqStr fields ''gate'' ''accepted-evidence settlement'') (\<lambda>gate.
       attempt (reqSeq fields ''evidenceEventSeq'' ''accepted-evidence settlement'') (\<lambda>seq.
       attempt (ob_reqStr fields ''evidenceEventKind'' ''accepted-evidence settlement'') (\<lambda>k.
       Inr (Accepted_evidence gate seq k))))
     else if kind = ''superseded'' then
       attempt (ob_reqStr fields ''reason'' ''superseded settlement'') (\<lambda>reason.
       Inr (Superseded (optStr fields ''byObligationId'') reason))
     else if kind = ''cancelled'' then
       attempt (ob_reqStr fields ''reason'' ''cancelled settlement'') (\<lambda>reason. Inr (Cancelled reason))
     else if kind = ''job-terminal'' then
       attempt (ob_reqStr fields ''jobStatus'' ''job-terminal settlement'') (\<lambda>s.
       case status_of_name job_status_name TERMINAL_JOB_STATUSES s of
         None \<Rightarrow> Inl (Unknown_kind ''job-terminal settlement'' s) | Some st \<Rightarrow> Inr (Job_terminal st))
     else Inl (Unknown_kind ''obligation settlement'' kind)))"

text \<open>\<open>if (expiresAt !== null) canonicalIsoTimestamp(expiresAt, ...)\<close>: checked, not replaced.\<close>

definition check_optional_iso :: "platform \<Rightarrow> string option \<Rightarrow> string \<Rightarrow> obligation_error + unit" where
  "check_optional_iso plat v what = attempt (optional_iso plat v what) (\<lambda>_. Inr ())"

definition parseClaim :: "platform \<Rightarrow> json option \<Rightarrow> obligation_error + obligation_claim option" where
  "parseClaim plat raw = (case raw of None \<Rightarrow> Inr None | Some value \<Rightarrow>
     attempt (ob_asRecord value ''obligation claim'') (\<lambda>fields.
     attempt (reqInt fields ''generation'' ''obligation claim'') (\<lambda>generation.
     attempt (check_optional_iso plat (optStr fields ''expiresAt'') ''obligation claim expiresAt'') (\<lambda>_.
     attempt (ob_reqStr fields ''requestId'' ''obligation claim'') (\<lambda>requestId.
     attempt (ob_reqStr fields ''holder'' ''obligation claim'') (\<lambda>holder.
     Inr (Some \<lparr>oc_requestId = requestId, oc_holder = holder, oc_generation = generation,
                oc_expiresAt = optStr fields ''expiresAt''\<rparr>)))))))"

definition parse_claim_log_entry :: "platform \<Rightarrow> json \<Rightarrow> obligation_error + claim_log_entry" where
  "parse_claim_log_entry plat entry =
     attempt (ob_asRecord entry ''claim log entry'') (\<lambda>fields.
     attempt (reqInt fields ''generation'' ''claim log entry'') (\<lambda>generation.
     attempt (ob_reqStr fields ''disposition'' ''claim log entry'') (\<lambda>disposition.
     case status_of_name claim_disposition_name CLAIM_LOG_DISPOSITIONS disposition of
       None \<Rightarrow> Inl (Unknown_kind ''claim log entry'' disposition)
     | Some d \<Rightarrow>
     attempt (check_optional_iso plat (optStr fields ''expiresAt'') ''claim log entry expiresAt'') (\<lambda>_.
     attempt (ob_reqStr fields ''requestId'' ''claim log entry'') (\<lambda>requestId.
     attempt (ob_reqStr fields ''holder'' ''claim log entry'') (\<lambda>holder.
     attempt (ob_reqStr fields ''at'' ''claim log entry'') (\<lambda>stamp.
     attempt (canonicalIsoTimestamp plat stamp ''claim log entry at'') (\<lambda>stamp'.
     Inr \<lparr>le_requestId = requestId, le_holder = holder, le_generation = generation,
          le_expiresAt = optStr fields ''expiresAt'', le_disposition = d, le_at = stamp',
          le_proof = optStr fields ''proof'',
          le_supersededByRequest = optStr fields ''supersededByRequest''\<rparr>))))))))"

definition parseClaimLog :: "platform \<Rightarrow> json \<Rightarrow> obligation_error + claim_log_entry list" where
  "parseClaimLog plat raw = (case raw of
     JArr es \<Rightarrow> map_res (parse_claim_log_entry plat) es | _ \<Rightarrow> Inl (Not_array ''obligation claim log''))"

definition parse_receipt :: "json \<Rightarrow> obligation_error + recorded_receipt" where
  "parse_receipt entry =
     attempt (ob_asRecord entry ''recorded receipt'') (\<lambda>fields.
     attempt (reqInt fields ''eventSeq'' ''recorded receipt'') (\<lambda>seq.
     attempt (ob_reqStr fields ''kind'' ''recorded receipt'') (\<lambda>kind.
     attempt (ob_reqStr fields ''at'' ''recorded receipt'') (\<lambda>stamp.
     Inr \<lparr>rr_kind = kind, rr_eventSeq = seq, rr_at = stamp,
          rr_applied = (map_of fields ''applied'' = Some (JBool True))\<rparr>))))"

definition parseReceipts :: "json \<Rightarrow> obligation_error + recorded_receipt list" where
  "parseReceipts raw = (case raw of
     JArr es \<Rightarrow> map_res parse_receipt es | _ \<Rightarrow> Inl (Not_array ''obligation recorded receipts''))"

definition parseReceiptCorrelation :: "json option \<Rightarrow> obligation_error + receipt_correlation option" where
  "parseReceiptCorrelation raw = (case raw of None \<Rightarrow> Inr None | Some value \<Rightarrow>
     attempt (ob_asRecord value ''obligation receipt correlation'') (\<lambda>fields.
     if optStr fields ''requestId'' = None \<and> optStr fields ''minionId'' = None then Inl Empty_correlation
     else Inr (Some \<lparr>rc_requestId = optStr fields ''requestId'', rc_minionId = optStr fields ''minionId''\<rparr>)))"

text \<open>What \<open>JSON.stringify\<close> writes of each value.\<close>

fun category_json :: "category \<Rightarrow> json" where
  "category_json (Known c) = JObj [(''kind'', JStr ''known''), (''category'', JStr (known_category_name c))]"
| "category_json Unknown = JObj [(''kind'', JStr ''unknown'')]"

fun next_action_json :: "next_action \<Rightarrow> json" where
  "next_action_json (Silas_mechanical a) = JObj [(''kind'', JStr ''silas-mechanical''), (''action'', JStr a)]"
| "next_action_json (Gru_decision d) = JObj [(''kind'', JStr ''gru-decision''), (''decision'', JStr d)]"
| "next_action_json (Owner_decision d) = JObj [(''kind'', JStr ''owner-decision''), (''decision'', JStr d)]"
| "next_action_json (External_wait c) = JObj [(''kind'', JStr ''external-wait''), (''condition'', JStr c)]"

fun wake_condition_json :: "wake_condition \<Rightarrow> json" where
  "wake_condition_json (Wake_event k) = JObj [(''kind'', JStr ''event''), (''eventKind'', JStr k)]"
| "wake_condition_json (Wake_receipt k) = JObj [(''kind'', JStr ''receipt''), (''receiptKind'', JStr k)]"
| "wake_condition_json Wake_sweep = JObj [(''kind'', JStr ''sweep'')]"

fun authority_json :: "authority \<Rightarrow> json" where
  "authority_json (Accepted_operation i v) =
     JObj [(''source'', JStr ''accepted-operation''), (''operationId'', JStr i), (''version'', JStr v)]"
| "authority_json (Chief_ruling r v) =
     JObj [(''source'', JStr ''chief-ruling''), (''rulingRef'', JStr r), (''version'', JStr v)]"
| "authority_json (Owner_ruling r v) =
     JObj [(''source'', JStr ''owner-ruling''), (''rulingRef'', JStr r), (''version'', JStr v)]"

fun settlement_json :: "settlement \<Rightarrow> json" where
  "settlement_json (Executed_action a s k) = JObj [(''kind'', JStr ''executed-action''), (''action'', JStr a),
     (''evidenceEventSeq'', JNum (of_nat s)), (''evidenceEventKind'', JStr k)]"
| "settlement_json (Accepted_evidence g s k) = JObj [(''kind'', JStr ''accepted-evidence''), (''gate'', JStr g),
     (''evidenceEventSeq'', JNum (of_nat s)), (''evidenceEventKind'', JStr k)]"
| "settlement_json (Superseded b r) = JObj [(''kind'', JStr ''superseded''),
     (''byObligationId'', or_null JStr b), (''reason'', JStr r)]"
| "settlement_json (Cancelled r) = JObj [(''kind'', JStr ''cancelled''), (''reason'', JStr r)]"
| "settlement_json (Job_terminal s) = JObj [(''kind'', JStr ''job-terminal''), (''jobStatus'', JStr (job_status_name s))]"

definition claim_json :: "obligation_claim \<Rightarrow> json" where
  "claim_json c = JObj [(''requestId'', JStr (oc_requestId c)), (''holder'', JStr (oc_holder c)),
     (''generation'', JNum (of_int (oc_generation c))), (''expiresAt'', or_null JStr (oc_expiresAt c))]"

definition claim_log_entry_json :: "claim_log_entry \<Rightarrow> json" where
  "claim_log_entry_json e = JObj [(''requestId'', JStr (le_requestId e)), (''holder'', JStr (le_holder e)),
     (''generation'', JNum (of_int (le_generation e))), (''expiresAt'', or_null JStr (le_expiresAt e)),
     (''disposition'', JStr (claim_disposition_name (le_disposition e))), (''at'', JStr (le_at e)),
     (''proof'', or_null JStr (le_proof e)), (''supersededByRequest'', or_null JStr (le_supersededByRequest e))]"

definition receipt_json :: "recorded_receipt \<Rightarrow> json" where
  "receipt_json r = JObj [(''kind'', JStr (rr_kind r)), (''eventSeq'', JNum (of_int (rr_eventSeq r))),
     (''at'', JStr (rr_at r)), (''applied'', JBool (rr_applied r))]"

definition correlation_json :: "receipt_correlation \<Rightarrow> json" where
  "correlation_json c = JObj (spread_some ''requestId'' JStr (rc_requestId c) @ spread_some ''minionId'' JStr (rc_minionId c))"

subsection \<open>Phase handoffs and report closure\<close>

record handoff_intent =
  hi_decision :: string   \<comment> \<open>the kind is always \<open>gru-decision\<close>\<close>

definition MAX_COMPLETION_HANDOFF_DECISION :: nat where "MAX_COMPLETION_HANDOFF_DECISION = 500"

definition parseCompletionHandoffIntent :: "json \<Rightarrow> obligation_error + handoff_intent" where
  "parseCompletionHandoffIntent raw = (case raw of
     JObj fs \<Rightarrow>
       if map_of fs ''kind'' \<noteq> Some (JStr ''gru-decision'') then Inl (Unknown_kind ''completion_handoff'' ''kind'')
       else (case map_of fs ''decision'' of
         Some (JStr decision) \<Rightarrow>
           if js_blank decision then Inl (Bad_field ''completion_handoff'' ''decision'')
           else if MAX_COMPLETION_HANDOFF_DECISION < length (js_trim decision) then Inl Handoff_too_long
           else Inr \<lparr>hi_decision = js_trim decision\<rparr>
       | _ \<Rightarrow> Inl (Bad_field ''completion_handoff'' ''decision''))
   | _ \<Rightarrow> Inl (Not_object ''completion_handoff''))"

datatype handoff_source = H_dispatch | H_silas_directive | H_silas_rebrief

definition PHASE_HANDOFF_SOURCES :: "handoff_source list" where
  "PHASE_HANDOFF_SOURCES = [H_dispatch, H_silas_directive, H_silas_rebrief]"

fun handoff_source_name :: "handoff_source \<Rightarrow> string" where
  "handoff_source_name H_dispatch = ''dispatch''"
| "handoff_source_name H_silas_directive = ''silas-directive''"
| "handoff_source_name H_silas_rebrief = ''silas-rebrief''"

definition isPhaseHandoffSource :: "string \<Rightarrow> bool" where
  "isPhaseHandoffSource value \<longleftrightarrow> value \<in> set (map handoff_source_name PHASE_HANDOFF_SOURCES)"

datatype handoff_state = H_awaiting | H_completed | H_closed

definition PHASE_HANDOFF_STATES :: "handoff_state list" where
  "PHASE_HANDOFF_STATES = [H_awaiting, H_completed, H_closed]"

fun handoff_state_name :: "handoff_state \<Rightarrow> string" where
  "handoff_state_name H_awaiting = ''awaiting''"
| "handoff_state_name H_completed = ''completed''"
| "handoff_state_name H_closed = ''closed''"

definition isPhaseHandoffState :: "string \<Rightarrow> bool" where
  "isPhaseHandoffState value \<longleftrightarrow> value \<in> set (map handoff_state_name PHASE_HANDOFF_STATES)"

record phase_handoff =
  ph_phaseId :: string
  ph_jobId :: string
  ph_source :: handoff_source
  ph_requestId :: "string option"
  ph_generation :: nat
  ph_decision :: string
  ph_state :: handoff_state
  ph_intentSeq :: nat
  ph_minionId :: "string option"
  ph_completionSeq :: "nat option"
  ph_obligationId :: "string option"
  ph_notificationId :: "string option"
  ph_closeReason :: "string option"
  ph_createdAt :: string
  ph_updatedAt :: string

definition phaseHandoffId :: "string \<Rightarrow> handoff_source \<Rightarrow> int \<Rightarrow> obligation_error + string" where
  "phaseHandoffId jobId source generation =
     (if js_blank jobId then Inl Blank_job_id
      else if \<not> js_safe_int (of_int generation) \<or> generation < 1 then Inl (Bad_handoff_generation generation)
      else Inr (''phase-handoff:'' @ jobId @ '':'' @ handoff_source_name source @ '':'' @ nat_str (nat generation)))"

datatype report_deliverable = D_review | D_artifact | D_investigation

definition REPORT_DELIVERABLES :: "report_deliverable list" where
  "REPORT_DELIVERABLES = [D_review, D_artifact, D_investigation]"

fun report_deliverable_name :: "report_deliverable \<Rightarrow> string" where
  "report_deliverable_name D_review = ''review''"
| "report_deliverable_name D_artifact = ''artifact''"
| "report_deliverable_name D_investigation = ''investigation''"

definition isReportDeliverable :: "string \<Rightarrow> bool" where
  "isReportDeliverable value \<longleftrightarrow> value \<in> set (map report_deliverable_name REPORT_DELIVERABLES)"

fun reportLogicalStep :: "report_deliverable \<Rightarrow> logical_step" where
  "reportLogicalStep D_review = S_review"
| "reportLogicalStep D_artifact = S_verification"
| "reportLogicalStep D_investigation = S_audit"

definition reportIncidentKey :: "string \<Rightarrow> string" where
  "reportIncidentKey jobId = ''report:'' @ jobId"

datatype report_outcome = Acted | Dismissed | Superseded_report

fun report_outcome_name :: "report_outcome \<Rightarrow> string" where
  "report_outcome_name Acted = ''acted''"
| "report_outcome_name Dismissed = ''dismissed''"
| "report_outcome_name Superseded_report = ''superseded''"

definition REPORT_DISPOSITION_OUTCOMES :: "report_outcome list" where
  "REPORT_DISPOSITION_OUTCOMES = [Acted, Dismissed, Superseded_report]"

definition isReportDispositionOutcome :: "string \<Rightarrow> bool" where
  "isReportDispositionOutcome value \<longleftrightarrow> value \<in> set (map report_outcome_name REPORT_DISPOSITION_OUTCOMES)"

definition REPORT_DISPOSITION_EVENT :: string where "REPORT_DISPOSITION_EVENT = ''job.report-disposition''"
definition REPORT_SUPERSEDED_EVENT :: string where "REPORT_SUPERSEDED_EVENT = ''report.superseded''"
definition REPORT_BACKFILL_EVENT :: string where "REPORT_BACKFILL_EVENT = ''report.backfilled''"

subsection \<open>The registry and resolution\<close>

lemma known_category_name_inj [simp]: "known_category_name a = known_category_name b \<longleftrightarrow> a = b"
  by (cases a; cases b) simp_all

lemma categoryKey_inj [simp]: "categoryKey a = categoryKey b \<longleftrightarrow> a = b"
  by (cases a; cases b) simp_all

lemma defaultFiringRule_total: "\<exists>r\<in>set FIRING_RULES. defaultFiringRule c = Inr r \<and> fr_category r = c"
proof (cases c)
  case (Known k)
  then show ?thesis by (cases k) (simp_all add: defaultFiringRule_def FIRING_RULES_def sweep_rule_def)
next
  case Unknown
  then show ?thesis by (simp add: defaultFiringRule_def FIRING_RULES_def sweep_rule_def)
qed

lemma firing_rules_attention_only:
  "r \<in> set FIRING_RULES \<Longrightarrow> obligationRouting (fr_nextAction r) \<noteq> Machine_silas"
  by (auto simp: FIRING_RULES_def sweep_rule_def)

lemma choose_rule_mem: "choose_rule context = Inr r \<Longrightarrow> r \<in> set FIRING_RULES"
  using defaultFiringRule_total [of "bc_category context"]
  by (auto simp: choose_rule_def find_Some_iff split: option.splits)

lemma firing_rule_ids: "map fr_id FIRING_RULES = FIRING_RULE_IDS"
  by (simp add: FIRING_RULES_def FIRING_RULE_IDS_def sweep_rule_def)

lemma optional_iso_Inr:
  "optional_iso plat v what = Inr w \<longleftrightarrow> (case v of None \<Rightarrow> w = None
     | Some s \<Rightarrow> \<exists>ms. plat_parse_date plat s = Some ms \<and> w = Some (plat_to_iso plat ms))"
  by (auto simp: optional_iso_def canonicalIsoTimestamp_def split: option.splits)

lemma check_next_action_mechanical:
  "check_next_action a auth = Inr u \<Longrightarrow> obligationRouting a = Machine_silas \<Longrightarrow> auth \<noteq> None"
  by (cases a) (auto simp: check_next_action_def split: if_splits)

lemma resolveObligation_InrD:
  assumes "resolveObligation plat context jobId = Inr r"
  shows "0 \<le> bc_observedAtSeq context \<and> js_safe_int (bc_observedAtSeq context)"
    and "ro_id r = obligationId jobId (ro_logicalStep r) (ro_incidentKey r)"
    and "ro_jobId r = jobId" and "ro_logicalStep r = bc_logicalStep context"
    and "\<not> js_blank (ro_incidentKey r)" and "ro_category r = bc_category context"
    and "ro_authority r = bc_authority context"
    and "\<exists>rule\<in>set FIRING_RULES. fr_id rule = ro_firingRule r \<and> fr_category rule = ro_category r
           \<and> ro_nextAction r = or_else (bc_nextAction context) (fr_nextAction rule)"
    and "check_next_action (ro_nextAction r) (ro_authority r) = Inr ()"
    and "ro_incidentKey r = or_else (bc_incidentKey context) (categoryKey (bc_category context))"
    and "optional_iso plat (bc_dueAt context) ''blocker context dueAt'' = Inr (ro_dueAt r)"
    and "optional_iso plat (bc_deadlineAt context) ''blocker context deadlineAt'' = Inr (ro_deadlineAt r)"
  using assms by (auto simp: resolveObligation_def attempt_Inr_iff Let_def dest: choose_rule_mem)

lemma logical_step_name_no_colon: "CHR '':'' \<notin> set (logical_step_name s)"
  by (cases s) simp_all

lemma logical_step_name_inj [simp]: "logical_step_name a = logical_step_name b \<longleftrightarrow> a = b"
  by (cases a; cases b) simp_all

lemma split_at_colon:
  assumes "CHR '':'' \<notin> set a" and "CHR '':'' \<notin> set b"
  shows "a @ CHR '':'' # x = b @ CHR '':'' # y \<longleftrightarrow> a = b \<and> x = y"
proof
  assume eq: "a @ CHR '':'' # x = b @ CHR '':'' # y"
  have take: "takeWhile (\<lambda>c. c \<noteq> CHR '':'') (u @ CHR '':'' # v) = u" if "CHR '':'' \<notin> set u" for u v
    using that by (subst takeWhile_append2) auto
  from eq have "a = b" using take assms by metis
  with eq show "a = b \<and> x = y" by simp
qed simp

lemma obligationId_inj:
  assumes "CHR '':'' \<notin> set j" and "CHR '':'' \<notin> set j'"
  shows "obligationId j s k = obligationId j' s' k' \<longleftrightarrow> j = j' \<and> s = s' \<and> k = k'"
  using split_at_colon [OF assms] split_at_colon [OF logical_step_name_no_colon logical_step_name_no_colon]
  by (auto simp: obligationId_def)

subsection \<open>Codecs read back what they accepted\<close>

lemma ob_asRecord_Inr: "ob_asRecord v what = Inr fs \<longleftrightarrow> v = JObj fs"
  by (auto simp: ob_asRecord_def split: json.splits)

lemma ob_reqStr_Inr: "ob_reqStr fs k what = Inr s \<longleftrightarrow> map_of fs k = Some (JStr s) \<and> \<not> js_blank s"
  by (auto simp: ob_reqStr_def split: option.splits json.splits)

lemma reqSeq_Inr:
  "reqSeq fs k what = Inr n \<longleftrightarrow> map_of fs k = Some (JNum (of_nat n)) \<and> js_safe_int (of_nat n)"
proof
  assume "reqSeq fs k what = Inr n"
  then obtain v where v: "map_of fs k = Some (JNum v)" "js_safe_int v" "0 \<le> v" "n = nat \<lfloor>v\<rfloor>"
    by (auto simp: reqSeq_def split: option.splits json.splits if_splits)
  from js_safe_int_nonneg_floor [OF v(2,3)] obtain m where "v = of_nat m" ..
  with v show "map_of fs k = Some (JNum (of_nat n)) \<and> js_safe_int (of_nat n)" by simp
qed (simp add: reqSeq_def)

lemma reqInt_Inr:
  "reqInt fs k what = Inr i \<longleftrightarrow> map_of fs k = Some (JNum (of_int i)) \<and> js_safe_int (of_int i)"
  by (auto simp: reqInt_def js_safe_int_def split: option.splits json.splits if_splits)

lemma optStr_not_Nil: "optStr fs k \<noteq> Some []"
  by (auto simp: optStr_def split: option.splits json.splits)

lemma optStr_here [simp]: "v \<noteq> Some [] \<Longrightarrow> optStr ((k, or_null JStr v) # fs) k = v"
  by (cases v) (auto simp: optStr_def)

lemma optStr_later [simp]: "k \<noteq> k' \<Longrightarrow> optStr ((k', j) # fs) k = optStr fs k"
  by (simp add: optStr_def)

lemmas codec_simps = ob_asRecord_Inr ob_reqStr_Inr reqSeq_Inr reqInt_Inr attempt_Inr_iff

lemma known_category_of_name [simp]:
  "status_of_name known_category_name KNOWN_BLOCKER_CATEGORIES (known_category_name c) = Some c"
  by (cases c) (simp_all add: status_of_name_def KNOWN_BLOCKER_CATEGORIES_def)

lemma known_category_name_visible [simp]: "js_trim (known_category_name c) \<noteq> []"
  by (cases c) (simp_all add: js_blank_iff js_space_def)

lemma parseCategory_encode: "parseCategory (category_json c) = Inr c"
  by (cases c) (simp_all add: parseCategory_def ob_asRecord_def ob_reqStr_def)

lemmas codec_eval = ob_asRecord_def ob_reqStr_def reqSeq_def reqInt_def js_space_def

fun next_action_ok :: "next_action \<Rightarrow> bool" where
  "next_action_ok (Silas_mechanical a) \<longleftrightarrow> a \<in> set SILAS_MECHANICAL_ACTIONS"
| "next_action_ok (Gru_decision d) \<longleftrightarrow> \<not> js_blank d"
| "next_action_ok (Owner_decision d) \<longleftrightarrow> \<not> js_blank d"
| "next_action_ok (External_wait c) \<longleftrightarrow> \<not> js_blank c"

lemma parseNextAction_ok: "parseNextAction j = Inr a \<Longrightarrow> next_action_ok a"
  by (auto simp: parseNextAction_def codec_simps split: if_splits)

lemma parseNextAction_encode: "next_action_ok a \<Longrightarrow> parseNextAction (next_action_json a) = Inr a"
  by (cases a) (auto simp: parseNextAction_def codec_eval SILAS_MECHANICAL_ACTIONS_def)

fun wake_condition_ok :: "wake_condition \<Rightarrow> bool" where
  "wake_condition_ok (Wake_event k) \<longleftrightarrow> \<not> js_blank k"
| "wake_condition_ok (Wake_receipt k) \<longleftrightarrow> \<not> js_blank k"
| "wake_condition_ok Wake_sweep \<longleftrightarrow> True"

lemma parseWakeCondition_ok: "parseWakeCondition j = Inr w \<Longrightarrow> wake_condition_ok w"
  by (auto simp: parseWakeCondition_def codec_simps split: if_splits)

lemma parseWakeCondition_encode: "wake_condition_ok w \<Longrightarrow> parseWakeCondition (wake_condition_json w) = Inr w"
  by (cases w) (auto simp: parseWakeCondition_def codec_eval)

fun authority_ok :: "authority \<Rightarrow> bool" where
  "authority_ok (Accepted_operation i v) \<longleftrightarrow> \<not> js_blank i \<and> \<not> js_blank v"
| "authority_ok (Chief_ruling r v) \<longleftrightarrow> \<not> js_blank r \<and> \<not> js_blank v"
| "authority_ok (Owner_ruling r v) \<longleftrightarrow> \<not> js_blank r \<and> \<not> js_blank v"

lemma parseAuthority_ok: "parseAuthority j = Inr (Some a) \<Longrightarrow> authority_ok a"
proof -
  assume "parseAuthority j = Inr (Some a)"
  then obtain fs source version where
    body: "(if source = ''accepted-operation'' then
       attempt (ob_reqStr fs ''operationId'' ''accepted-operation authority'') (\<lambda>op.
       Inr (Some (Accepted_operation op version)))
     else if source = ''chief-ruling'' \<or> source = ''owner-ruling'' then
       attempt (ob_reqStr fs ''rulingRef'' (source @ '' authority'')) (\<lambda>ref.
       Inr (Some (if source = ''chief-ruling'' then Chief_ruling ref version else Owner_ruling ref version)))
     else Inl (Unknown_kind ''obligation authority'' source)) = Inr (Some a)"
    and version: "\<not> js_blank version"
    by (cases j) (simp_all add: parseAuthority_def, simp only: codec_simps, blast)
  consider "source = ''accepted-operation''" | "source = ''chief-ruling''" | "source = ''owner-ruling''"
    | "source \<notin> {''accepted-operation'', ''chief-ruling'', ''owner-ruling''}" by blast
  then show "authority_ok a"
    using body version by cases (auto simp: codec_simps)
qed

lemma parseAuthority_encode: "authority_ok a \<Longrightarrow> parseAuthority (Some (authority_json a)) = Inr (Some a)"
  by (cases a) (auto simp: parseAuthority_def codec_eval)

lemma terminal_status_of_name:
  "status_of_name job_status_name TERMINAL_JOB_STATUSES v = Some s \<longleftrightarrow>
     v = job_status_name s \<and> isJobTerminal s"
  by (cases s) (auto simp: status_of_name_def TERMINAL_JOB_STATUSES_def JOB_STATUSES_def)

fun settlement_ok :: "settlement \<Rightarrow> bool" where
  "settlement_ok (Executed_action a s k) \<longleftrightarrow> \<not> js_blank a \<and> js_safe_int (of_nat s) \<and> \<not> js_blank k"
| "settlement_ok (Accepted_evidence g s k) \<longleftrightarrow> \<not> js_blank g \<and> js_safe_int (of_nat s) \<and> \<not> js_blank k"
| "settlement_ok (Superseded b r) \<longleftrightarrow> b \<noteq> Some [] \<and> \<not> js_blank r"
| "settlement_ok (Cancelled r) \<longleftrightarrow> \<not> js_blank r"
| "settlement_ok (Job_terminal s) \<longleftrightarrow> isJobTerminal s"

lemma parseSettlement_ok: "parseSettlement j = Inr s \<Longrightarrow> settlement_ok s"
  by (auto simp: parseSettlement_def codec_simps terminal_status_of_name optStr_not_Nil
      split: if_splits option.splits)

lemma job_status_name_visible [simp]: "js_trim (job_status_name s) \<noteq> []"
  by (cases s) (simp_all add: js_space_def)

lemma parseSettlement_encode: "settlement_ok s \<Longrightarrow> parseSettlement (settlement_json s) = Inr s"
proof (cases s)
  case (Job_terminal st)
  assume "settlement_ok s"
  with Job_terminal have "status_of_name job_status_name TERMINAL_JOB_STATUSES (job_status_name st) = Some st"
    by (simp add: terminal_status_of_name)
  with Job_terminal show ?thesis by (simp add: parseSettlement_def codec_eval)
qed (auto simp: parseSettlement_def codec_eval)

text \<open>\<open>Date.parse\<close> reads back what \<open>toISOString\<close> prints.\<close>

definition iso_platform :: "platform \<Rightarrow> bool" where
  "iso_platform plat \<longleftrightarrow> (\<forall>s t. plat_parse_date plat s = Some t \<longrightarrow>
     plat_parse_date plat (plat_to_iso plat t) = Some t \<and> \<not> js_blank (plat_to_iso plat t))"

definition claim_ok :: "platform \<Rightarrow> obligation_claim \<Rightarrow> bool" where
  "claim_ok plat c \<longleftrightarrow> \<not> js_blank (oc_requestId c) \<and> \<not> js_blank (oc_holder c)
     \<and> js_safe_int (of_int (oc_generation c)) \<and> oc_expiresAt c \<noteq> Some []
     \<and> check_optional_iso plat (oc_expiresAt c) ''obligation claim expiresAt'' = Inr ()"

lemma parseClaim_ok: "parseClaim plat j = Inr (Some c) \<Longrightarrow> claim_ok plat c"
  by (auto simp: parseClaim_def claim_ok_def codec_simps optStr_not_Nil split: option.splits)

lemma parseClaim_encode: "claim_ok plat c \<Longrightarrow> parseClaim plat (Some (claim_json c)) = Inr (Some c)"
  by (cases c) (simp add: parseClaim_def claim_ok_def claim_json_def codec_eval)

lemma disposition_of_name [simp]:
  "status_of_name claim_disposition_name CLAIM_LOG_DISPOSITIONS (claim_disposition_name d) = Some d"
  by (cases d) (simp_all add: status_of_name_def CLAIM_LOG_DISPOSITIONS_def)

lemma disposition_name_visible [simp]: "js_trim (claim_disposition_name d) \<noteq> []"
  by (cases d) (simp_all add: js_space_def)

definition log_entry_ok :: "platform \<Rightarrow> claim_log_entry \<Rightarrow> bool" where
  "log_entry_ok plat e \<longleftrightarrow> \<not> js_blank (le_requestId e) \<and> \<not> js_blank (le_holder e)
     \<and> js_safe_int (of_int (le_generation e)) \<and> le_expiresAt e \<noteq> Some []
     \<and> check_optional_iso plat (le_expiresAt e) ''claim log entry expiresAt'' = Inr ()
     \<and> \<not> js_blank (le_at e) \<and> canonicalIsoTimestamp plat (le_at e) ''claim log entry at'' = Inr (le_at e)
     \<and> le_proof e \<noteq> Some [] \<and> le_supersededByRequest e \<noteq> Some []"

lemma parse_claim_log_entry_ok:
  "iso_platform plat \<Longrightarrow> parse_claim_log_entry plat j = Inr e \<Longrightarrow> log_entry_ok plat e"
  by (auto simp: parse_claim_log_entry_def log_entry_ok_def codec_simps optStr_not_Nil iso_platform_def
      canonicalIsoTimestamp_def split: option.splits)

lemma parse_claim_log_entry_encode:
  "log_entry_ok plat e \<Longrightarrow> parse_claim_log_entry plat (claim_log_entry_json e) = Inr e"
  by (cases e) (simp add: parse_claim_log_entry_def log_entry_ok_def claim_log_entry_json_def codec_eval)

definition receipt_ok :: "recorded_receipt \<Rightarrow> bool" where
  "receipt_ok r \<longleftrightarrow> \<not> js_blank (rr_kind r) \<and> js_safe_int (of_int (rr_eventSeq r)) \<and> \<not> js_blank (rr_at r)"

lemma parse_receipt_ok: "parse_receipt j = Inr r \<Longrightarrow> receipt_ok r"
  by (auto simp: parse_receipt_def receipt_ok_def codec_simps)

lemma parse_receipt_encode: "receipt_ok r \<Longrightarrow> parse_receipt (receipt_json r) = Inr r"
  by (cases r) (simp add: parse_receipt_def receipt_ok_def receipt_json_def codec_eval)

definition correlation_ok :: "receipt_correlation \<Rightarrow> bool" where
  "correlation_ok c \<longleftrightarrow> rc_requestId c \<noteq> Some [] \<and> rc_minionId c \<noteq> Some []
     \<and> (rc_requestId c \<noteq> None \<or> rc_minionId c \<noteq> None)"

lemma parseReceiptCorrelation_ok: "parseReceiptCorrelation j = Inr (Some c) \<Longrightarrow> correlation_ok c"
  by (cases j) (auto simp: parseReceiptCorrelation_def correlation_ok_def codec_simps optStr_not_Nil split: if_split_asm)

lemma parseReceiptCorrelation_encode:
  assumes "correlation_ok c"
  shows "parseReceiptCorrelation (Some (correlation_json c)) = Inr (Some c)"
proof -
  have request: "optStr (spread_some ''requestId'' JStr (rc_requestId c) @ spread_some ''minionId'' JStr (rc_minionId c))
      ''requestId'' = rc_requestId c"
    and minion: "optStr (spread_some ''requestId'' JStr (rc_requestId c) @ spread_some ''minionId'' JStr (rc_minionId c))
      ''minionId'' = rc_minionId c"
    using assms
    by (cases "rc_requestId c"; cases "rc_minionId c"; simp add: optStr_def correlation_ok_def)+
  from assms have "rc_requestId c \<noteq> None \<or> rc_minionId c \<noteq> None" by (simp add: correlation_ok_def)
  then show ?thesis
    unfolding parseReceiptCorrelation_def correlation_json_def ob_asRecord_def
    by (simp only: option.case json.case attempt.simps request minion) auto
qed

lemma map_res_again:
  assumes "map_res f js = Inr xs" and "\<And>j x. f j = Inr x \<Longrightarrow> f (g x) = Inr x"
  shows "map_res f (map g xs) = Inr xs"
  using assms(2) map_res_set [OF assms(1)] by (intro map_res_total) blast

subsection \<open>Properties\<close>

lemma default_context_resolves:
  assumes "bc_nextAction c = None" and "bc_firingRule c = None" and "bc_incidentKey c = None"
    and "bc_dueAt c = None" and "bc_deadlineAt c = None"
    and "0 \<le> bc_observedAtSeq c" and "js_safe_int (bc_observedAtSeq c)"
  shows "\<exists>r. resolveObligation plat c j = Inr r"
proof -
  obtain rule where rule: "rule \<in> set FIRING_RULES" "choose_rule c = Inr rule" "fr_category rule = bc_category c"
    using defaultFiringRule_total [of "bc_category c"] assms(2) by (auto simp: choose_rule_def)
  have "check_next_action (fr_nextAction rule) (bc_authority c) = Inr ()"
    using firing_rules_attention_only [OF rule(1)]
    by (cases "fr_nextAction rule") (auto simp: check_next_action_def)
  moreover have "\<not> js_blank (categoryKey (bc_category c))"
    by (cases "bc_category c") (simp_all add: js_space_def)
  ultimately show ?thesis
    using assms rule by (simp add: resolveObligation_def or_else_def optional_iso_def Let_def not_less)
qed

text \<open>C33. A blocker context never mints execution authority: what it resolves to is a machine action
  only when the caller itself supplied that action, the action is in the closed list and the context
  carries typed authority; the rule recorded is registered for the category observed; and a context
  that overrides nothing always resolves, whatever its category, to an obligation that only asks for
  attention.\<close>

theorem obligation_resolution:
  "(resolveObligation plat c j = Inr r \<longrightarrow>
      (obligationRouting (ro_nextAction r) = Machine_silas \<longrightarrow>
         bc_authority c \<noteq> None \<and> ro_authority r = bc_authority c \<and> bc_nextAction c = Some (ro_nextAction r)
         \<and> ro_nextAction r \<in> Silas_mechanical ` set SILAS_MECHANICAL_ACTIONS)
      \<and> (\<exists>rule\<in>set FIRING_RULES. fr_id rule = ro_firingRule r \<and> fr_category rule = bc_category c))
   \<and> (bc_nextAction c = None \<and> bc_firingRule c = None \<and> bc_incidentKey c = None
      \<and> bc_dueAt c = None \<and> bc_deadlineAt c = None
      \<and> 0 \<le> bc_observedAtSeq c \<and> js_safe_int (bc_observedAtSeq c) \<longrightarrow>
      (\<exists>q. resolveObligation plat c j = Inr q \<and> obligationRouting (ro_nextAction q) \<noteq> Machine_silas))"
proof (intro conjI impI)
  assume r: "resolveObligation plat c j = Inr r"
  note D = resolveObligation_InrD [OF r]
  from D(8) D(6) show "\<exists>rule\<in>set FIRING_RULES. fr_id rule = ro_firingRule r \<and> fr_category rule = bc_category c"
    by auto
  assume silas: "obligationRouting (ro_nextAction r) = Machine_silas"
  from check_next_action_mechanical [OF D(9) silas] D(7) show "bc_authority c \<noteq> None" by simp
  from D(7) show "ro_authority r = bc_authority c" .
  from D(8) silas firing_rules_attention_only show "bc_nextAction c = Some (ro_nextAction r)"
    by (auto simp: or_else_def split: option.splits)
  from D(9) silas show "ro_nextAction r \<in> Silas_mechanical ` set SILAS_MECHANICAL_ACTIONS"
    by (cases "ro_nextAction r") (auto simp: check_next_action_def split: if_splits)
next
  assume c: "bc_nextAction c = None \<and> bc_firingRule c = None \<and> bc_incidentKey c = None
      \<and> bc_dueAt c = None \<and> bc_deadlineAt c = None \<and> 0 \<le> bc_observedAtSeq c \<and> js_safe_int (bc_observedAtSeq c)"
  then obtain q where q: "resolveObligation plat c j = Inr q"
    using default_context_resolves by blast
  from resolveObligation_InrD(8) [OF q] c have "obligationRouting (ro_nextAction q) \<noteq> Machine_silas"
    by (auto simp: or_else_def dest: firing_rules_attention_only)
  with q show "\<exists>q. resolveObligation plat c j = Inr q \<and> obligationRouting (ro_nextAction q) \<noteq> Machine_silas"
    by blast
qed

definition sample_platform :: platform where
  "sample_platform = \<lparr>plat_parse_date = (\<lambda>s. if s = ''2026-01-01T00:00:00.000Z'' then Some 1767225600000 else None),
     plat_to_iso = (\<lambda>_. ''2026-01-01T00:00:00.000Z''), plat_sha256 = (\<lambda>s. s),
     plat_digest = (\<lambda>_. ''d''), plat_compare = (\<lambda>_ _. 0)\<rparr>"

definition sample_blocker :: blocker_context where
  "sample_blocker = \<lparr>bc_logicalStep = S_review, bc_category = Known C_review_verdict, bc_incidentKey = None,
     bc_description = None, bc_observedAtSeq = 7, bc_nextAction = None, bc_authority = None,
     bc_wakeCondition = None, bc_dueAt = None, bc_receiptKind = None, bc_deadlineAt = None,
     bc_receiptCorrelation = None, bc_firingRule = None\<rparr>"

lemma js_safe_int_numeral [simp]: "js_safe_int (numeral n) \<longleftrightarrow> numeral n \<le> (9007199254740991 :: int)"
  using js_safe_int_of_int [of "numeral n"] by simp

theorem obligation_resolution_witness:
  "(\<exists>q. resolveObligation sample_platform sample_blocker ''j-1'' = Inr q
      \<and> obligationRouting (ro_nextAction q) \<noteq> Machine_silas)
   \<and> (\<exists>rule\<in>set FIRING_RULES. fr_id rule = ''review-verdict-gru-decision'' \<and> fr_category rule = Known C_review_verdict)"
proof -
  let ?r = "\<lparr>ro_id = ''j-1:review:known:review-verdict'', ro_jobId = ''j-1'', ro_logicalStep = S_review,
       ro_incidentKey = ''known:review-verdict'', ro_category = Known C_review_verdict,
       ro_nextAction = Gru_decision ''review verdict follow-through requires a ruling'',
       ro_wakeCondition = Wake_sweep, ro_authority = None, ro_firingRule = ''review-verdict-gru-decision'',
       ro_description = None, ro_dueAt = None, ro_receiptKind = None, ro_deadlineAt = None,
       ro_receiptCorrelation = None\<rparr>"
  have r: "resolveObligation sample_platform sample_blocker ''j-1'' = Inr ?r"
    by (simp add: resolveObligation_def sample_blocker_def choose_rule_def defaultFiringRule_def
        FIRING_RULES_def sweep_rule_def check_next_action_def or_else_def optional_iso_def obligationId_def
        js_space_def Let_def)
  have "\<exists>rule\<in>set FIRING_RULES. fr_id rule = ro_firingRule ?r \<and> fr_category rule = bc_category sample_blocker"
    using obligation_resolution [of sample_platform sample_blocker "''j-1''" ?r] r by blast
  with r show ?thesis by (simp add: sample_blocker_def)
qed

text \<open>C38. Every row codec reads back what it accepted: re-encoding a parsed category, next action, wake
  condition, authority, settlement, claim, claim log, receipt list or receipt correlation gives a column
  that parses to the same value.\<close>

theorem obligation_codecs:
  assumes "iso_platform plat"
  shows "parseCategory (category_json c) = Inr c
   \<and> (parseNextAction j = Inr a \<longrightarrow> parseNextAction (next_action_json a) = Inr a)
   \<and> (parseWakeCondition j = Inr w \<longrightarrow> parseWakeCondition (wake_condition_json w) = Inr w)
   \<and> (parseAuthority oj = Inr (Some auth) \<longrightarrow> parseAuthority (Some (authority_json auth)) = Inr (Some auth))
   \<and> (parseSettlement j = Inr s \<longrightarrow> parseSettlement (settlement_json s) = Inr s)
   \<and> (parseClaim plat oj = Inr (Some cl) \<longrightarrow> parseClaim plat (Some (claim_json cl)) = Inr (Some cl))
   \<and> (parseClaimLog plat j = Inr es \<longrightarrow> parseClaimLog plat (JArr (map claim_log_entry_json es)) = Inr es)
   \<and> (parseReceipts j = Inr rs \<longrightarrow> parseReceipts (JArr (map receipt_json rs)) = Inr rs)
   \<and> (parseReceiptCorrelation oj = Inr (Some rc) \<longrightarrow>
        parseReceiptCorrelation (Some (correlation_json rc)) = Inr (Some rc))"
proof -
  have log: "parseClaimLog plat j = Inr es \<longrightarrow> parseClaimLog plat (JArr (map claim_log_entry_json es)) = Inr es"
    using map_res_again [of "parse_claim_log_entry plat" _ es claim_log_entry_json]
      parse_claim_log_entry_ok [OF assms] parse_claim_log_entry_encode
    by (cases j) (auto simp: parseClaimLog_def)
  have receipts: "parseReceipts j = Inr rs \<longrightarrow> parseReceipts (JArr (map receipt_json rs)) = Inr rs"
    using map_res_again [of parse_receipt _ rs receipt_json] parse_receipt_ok parse_receipt_encode
    by (cases j) (auto simp: parseReceipts_def)
  show ?thesis
    by (intro conjI parseCategory_encode log receipts)
      (blast intro: parseNextAction_encode parseWakeCondition_encode parseAuthority_encode parseSettlement_encode
         parseClaim_encode parseReceiptCorrelation_encode
       dest: parseNextAction_ok parseWakeCondition_ok parseAuthority_ok parseSettlement_ok parseClaim_ok
         parseReceiptCorrelation_ok)+
qed

theorem obligation_codecs_witness:
  "iso_platform sample_platform
   \<and> parseSettlement (settlement_json (Executed_action ''merge'' 12 ''pr.merged'')) = Inr (Executed_action ''merge'' 12 ''pr.merged'')"
proof
  show iso: "iso_platform sample_platform"
    by (simp add: iso_platform_def sample_platform_def js_space_def)
  have "parseSettlement (JObj [(''evidenceEventSeq'', JNum 12), (''kind'', JStr ''executed-action''),
      (''action'', JStr ''merge''), (''evidenceEventKind'', JStr ''pr.merged'')])
      = Inr (Executed_action ''merge'' 12 ''pr.merged'')"
    by (simp add: parseSettlement_def codec_eval js_safe_int_def)
  with obligation_codecs [OF iso, of Unknown]
  show "parseSettlement (settlement_json (Executed_action ''merge'' 12 ''pr.merged''))
      = Inr (Executed_action ''merge'' 12 ''pr.merged'')"
    by blast
qed

end
