(* ===== verification/Notification_Domain.thy ===== *)
theory Notification_Domain
  imports Prelude
begin

text \<open>
  Typed owner-decision metadata, \<^verbatim>\<open>src/src/ledger/notification-decision.ts\<close>: the reserved classes, the
  strict parser of a decision at the write boundary, the tolerant parser of a stored column, and the
  kinds whose producer may withdraw an undecided proposal.
\<close>

datatype reserved_class = Scope_design | Authority_cost | Destructive | Merge_decision | Lessons

definition OWNER_RESERVED_CLASSES :: "reserved_class list" where
  "OWNER_RESERVED_CLASSES = [Scope_design, Authority_cost, Destructive, Merge_decision, Lessons]"

fun reserved_class_name :: "reserved_class \<Rightarrow> string" where
  "reserved_class_name Scope_design = ''scope-design''"
| "reserved_class_name Authority_cost = ''authority-cost''"
| "reserved_class_name Destructive = ''destructive''"
| "reserved_class_name Merge_decision = ''merge''"
| "reserved_class_name Lessons = ''lessons''"

fun OWNER_RESERVED_CLASS_LABELS :: "reserved_class \<Rightarrow> string" where
  "OWNER_RESERVED_CLASS_LABELS Scope_design = ''scope or design tradeoff''"
| "OWNER_RESERVED_CLASS_LABELS Authority_cost = ''authority or cost beyond delegation''"
| "OWNER_RESERVED_CLASS_LABELS Destructive = ''destructive or irreversible choice''"
| "OWNER_RESERVED_CLASS_LABELS Merge_decision = ''merge decision''"
| "OWNER_RESERVED_CLASS_LABELS Lessons = ''lesson proposal''"

record decision_option =
  do_id :: string
  do_label :: string
  do_consequence :: string

record notification_decision =
  nd_question :: string
  nd_context :: string
  nd_recommendation :: "string option"
  nd_ifNothing :: "string option"
  nd_reservedClass :: reserved_class
  nd_whyNotDelegable :: string
  nd_options :: "decision_option list"
  nd_discussion :: bool

definition PRODUCER_WITHDRAWABLE_KINDS :: "string list" where
  "PRODUCER_WITHDRAWABLE_KINDS = [''vector.raid-proposal'', ''onboarding.proposal'', ''worktree.repo-mismatch'',
     ''disk.reclaim-proposal'', ''owner-approval.directive-abandon'', ''owner-approval.rebrief-abandon'',
     ''owner-approval.recovery-owner-resolution'', ''owner-approval.recovery-owner-stop'']"

definition PRODUCER_WITHDRAWABLE_PREFIXES :: "string list" where
  "PRODUCER_WITHDRAWABLE_PREFIXES = [''worktree-sweep-paused:'']"

definition producerWithdrawable :: "string \<Rightarrow> bool" where
  "producerWithdrawable kind \<longleftrightarrow> kind \<in> set PRODUCER_WITHDRAWABLE_KINDS
     \<or> list_ex (\<lambda>p. starts_with p kind) PRODUCER_WITHDRAWABLE_PREFIXES"

datatype decision_error =
    Not_text string
  | Control_characters string
  | Many_lines string
  | Blank_text string
  | Too_long string nat
  | Not_list
  | Too_many_options
  | Not_decision_object
  | Bad_slug string
  | Duplicate_option string
  | Bad_reserved_class
  | Bad_discussion
  | No_options

definition lower_alnum :: "char \<Rightarrow> bool" where
  "lower_alnum c \<longleftrightarrow> (CHR ''a'' \<le> c \<and> c \<le> CHR ''z'') \<or> (CHR ''0'' \<le> c \<and> c \<le> CHR ''9'')"

text \<open>\<open>/^[a-z0-9][a-z0-9-]{0,63}$/\<close>\<close>

fun OPTION_ID :: "string \<Rightarrow> bool" where
  "OPTION_ID [] \<longleftrightarrow> False"
| "OPTION_ID (c # cs) \<longleftrightarrow> lower_alnum c \<and> length cs \<le> 63 \<and> list_all (\<lambda>d. lower_alnum d \<or> d = CHR ''-'') cs"

definition hasControlChars :: "string \<Rightarrow> bool" where
  "hasControlChars value \<longleftrightarrow> list_ex (\<lambda>c. c = CHR 0x7F \<or> (c < CHR 0x20 \<and> c \<noteq> CHR 0x09 \<and> c \<noteq> CHR 0x0A)) value"

text \<open>The argument is the property read: \<open>None\<close> is \<open>undefined\<close>.\<close>

definition boundedString :: "json option \<Rightarrow> string \<Rightarrow> nat \<Rightarrow> bool \<Rightarrow> decision_error + string" where
  "boundedString value what limit allowNewlines = (case value of
     Some (JStr s) \<Rightarrow>
       if hasControlChars s then Inl (Control_characters what)
       else if \<not> allowNewlines \<and> CHR 0x0A \<in> set s then Inl (Many_lines what)
       else if js_blank s then Inl (Blank_text what)
       else if limit < length (js_trim s) then Inl (Too_long what limit)
       else Inr (js_trim s)
   | _ \<Rightarrow> Inl (Not_text what))"

definition boundedOptionalString :: "json option \<Rightarrow> string \<Rightarrow> nat \<Rightarrow> decision_error + string option" where
  "boundedOptionalString value what limit = (case value of
     None \<Rightarrow> Inr None
   | Some JNull \<Rightarrow> Inr None
   | Some (JStr s) \<Rightarrow>
       if js_blank s then Inr None
       else attempt (boundedString (Some (JStr (js_trim s))) what limit True) (\<lambda>t. Inr (Some t))
   | _ \<Rightarrow> Inl (Not_text what))"

definition parse_option :: "string list \<Rightarrow> json \<Rightarrow> decision_error + decision_option" where
  "parse_option seen entry = (case entry of
     JObj fs \<Rightarrow>
       attempt (boundedString (map_of fs ''id'') ''decision option id'' 64 False) (\<lambda>i.
       if \<not> OPTION_ID i then Inl (Bad_slug i)
       else if i \<in> set seen then Inl (Duplicate_option i)
       else attempt (boundedString (map_of fs ''label'') ''decision option label'' 120 False) (\<lambda>label.
         attempt (boundedString (map_of fs ''consequence'') ''decision option consequence'' 400 True) (\<lambda>consequence.
         Inr \<lparr>do_id = i, do_label = label, do_consequence = consequence\<rparr>)))
   | _ \<Rightarrow> Inl Not_decision_object)"

fun parse_options :: "string list \<Rightarrow> json list \<Rightarrow> decision_error + decision_option list" where
  "parse_options seen [] = Inr []"
| "parse_options seen (e # es) =
     attempt (parse_option seen e) (\<lambda>opt.
     attempt (parse_options (do_id opt # seen) es) (\<lambda>opts. Inr (opt # opts)))"

definition parseDecisionOptions :: "json option \<Rightarrow> decision_error + decision_option list" where
  "parseDecisionOptions value = (case value of
     Some (JArr es) \<Rightarrow> if 4 < length es then Inl Too_many_options else parse_options [] es
   | _ \<Rightarrow> Inl Not_list)"

definition parse_reserved :: "json option \<Rightarrow> decision_error + reserved_class" where
  "parse_reserved v = (case v of
     Some (JStr c) \<Rightarrow> (case find (\<lambda>k. reserved_class_name k = c) OWNER_RESERVED_CLASSES of
       None \<Rightarrow> Inl Bad_reserved_class | Some reserved \<Rightarrow> Inr reserved)
   | _ \<Rightarrow> Inl Bad_reserved_class)"

definition parse_discussion :: "json option \<Rightarrow> decision_error + bool" where
  "parse_discussion v = (case v of
     None \<Rightarrow> Inr False | Some (JBool b) \<Rightarrow> Inr b | _ \<Rightarrow> Inl Bad_discussion)"

definition parse_option_list :: "json option \<Rightarrow> bool \<Rightarrow> decision_error + decision_option list" where
  "parse_option_list v discussion = (case v of
     Some (JArr es) \<Rightarrow> if es = [] \<and> \<not> discussion then Inl No_options else parseDecisionOptions v
   | _ \<Rightarrow> Inl Not_list)"

definition parseNotificationDecision :: "json \<Rightarrow> decision_error + notification_decision" where
  "parseNotificationDecision value = (case value of
     JObj fs \<Rightarrow>
       attempt (boundedString (map_of fs ''question'') ''decision.question'' 300 False) (\<lambda>question.
       attempt (boundedString (map_of fs ''context'') ''decision.context'' 600 True) (\<lambda>ctx.
       attempt (boundedOptionalString (map_of fs ''recommendation'') ''decision.recommendation'' 300) (\<lambda>recommendation.
       attempt (boundedOptionalString (map_of fs ''ifNothing'') ''decision.ifNothing'' 300) (\<lambda>ifNothing.
       attempt (parse_reserved (map_of fs ''reservedClass'')) (\<lambda>reserved.
       attempt (boundedString (map_of fs ''whyNotDelegable'') ''decision.whyNotDelegable'' 400 True) (\<lambda>why.
       attempt (parse_discussion (map_of fs ''discussion'')) (\<lambda>discussion.
       attempt (parse_option_list (map_of fs ''options'') discussion) (\<lambda>options.
       Inr \<lparr>nd_question = question, nd_context = ctx, nd_recommendation = recommendation,
            nd_ifNothing = ifNothing, nd_reservedClass = reserved, nd_whyNotDelegable = why,
            nd_options = options, nd_discussion = discussion\<rparr>))))))))
   | _ \<Rightarrow> Inl Not_decision_object)"

definition parseStoredNotificationDecision :: "json option \<Rightarrow> notification_decision option" where
  "parseStoredNotificationDecision stored = (case stored of
     None \<Rightarrow> None
   | Some value \<Rightarrow> (case parseNotificationDecision value of Inl e \<Rightarrow> None | Inr d \<Rightarrow> Some d))"

definition option_json :: "decision_option \<Rightarrow> json" where
  "option_json opt = JObj [(''id'', JStr (do_id opt)), (''label'', JStr (do_label opt)),
     (''consequence'', JStr (do_consequence opt))]"

definition serializeNotificationDecision :: "notification_decision \<Rightarrow> json" where
  "serializeNotificationDecision d = JObj (
     [(''question'', JStr (nd_question d)), (''context'', JStr (nd_context d)),
      (''recommendation'', or_null JStr (nd_recommendation d))]
     @ spread_some ''ifNothing'' JStr (nd_ifNothing d)
     @ [(''reservedClass'', JStr (reserved_class_name (nd_reservedClass d))),
        (''whyNotDelegable'', JStr (nd_whyNotDelegable d)),
        (''options'', JArr (map option_json (nd_options d))), (''discussion'', JBool (nd_discussion d))])"

subsection \<open>A parsed decision reads back\<close>

definition text_ok :: "nat \<Rightarrow> bool \<Rightarrow> string \<Rightarrow> bool" where
  "text_ok limit allowNewlines s \<longleftrightarrow> \<not> hasControlChars s \<and> (allowNewlines \<or> CHR 0x0A \<notin> set s)
     \<and> \<not> js_blank s \<and> js_trim s = s \<and> length s \<le> limit"

lemma set_js_trim: "set (js_trim s) \<subseteq> set s"
  by (auto simp: js_trim_def dest!: set_dropWhileD)

lemma boundedString_Inr: "boundedString v what n nl = Inr s \<Longrightarrow> text_ok n nl s"
  using set_js_trim
  by (fastforce simp: boundedString_def text_ok_def hasControlChars_def list_ex_iff
      split: option.splits json.splits if_splits)

lemma boundedString_text_ok: "text_ok n nl s \<Longrightarrow> boundedString (Some (JStr s)) what n nl = Inr s"
  by (auto simp: boundedString_def text_ok_def)

lemma boundedOptionalString_Inr:
  "boundedOptionalString v what n = Inr s \<Longrightarrow> (case s of None \<Rightarrow> True | Some t \<Rightarrow> text_ok n True t)"
  by (auto simp: boundedOptionalString_def attempt_Inr_iff dest: boundedString_Inr
      split: option.splits json.splits if_splits)

lemma boundedOptionalString_text_ok:
  "(case s of None \<Rightarrow> True | Some t \<Rightarrow> text_ok n True t) \<Longrightarrow> boundedOptionalString (Some (or_null JStr s)) what n = Inr s"
  by (cases s) (auto simp: boundedOptionalString_def boundedString_text_ok text_ok_def boundedString_def)

definition option_ok :: "decision_option \<Rightarrow> bool" where
  "option_ok opt \<longleftrightarrow> text_ok 64 False (do_id opt) \<and> OPTION_ID (do_id opt)
     \<and> text_ok 120 False (do_label opt) \<and> text_ok 400 True (do_consequence opt)"

lemma parse_option_Inr: "parse_option seen e = Inr opt \<Longrightarrow> option_ok opt \<and> do_id opt \<notin> set seen"
proof (cases e)
  case (JObj fs)
  assume "parse_option seen e = Inr opt"
  with JObj obtain i label consequence where
    "boundedString (map_of fs ''id'') ''decision option id'' 64 False = Inr i" "OPTION_ID i" "i \<notin> set seen"
    "boundedString (map_of fs ''label'') ''decision option label'' 120 False = Inr label"
    "boundedString (map_of fs ''consequence'') ''decision option consequence'' 400 True = Inr consequence"
    "opt = \<lparr>do_id = i, do_label = label, do_consequence = consequence\<rparr>"
    by (auto simp: parse_option_def attempt_Inr_iff split: if_splits)
  then show ?thesis by (auto simp: option_ok_def dest!: boundedString_Inr)
qed (simp_all add: parse_option_def)

lemma parse_option_encode:
  "option_ok opt \<Longrightarrow> do_id opt \<notin> set seen \<Longrightarrow> parse_option seen (option_json opt) = Inr opt"
  by (cases opt) (simp add: parse_option_def option_ok_def option_json_def boundedString_text_ok)

lemma parse_options_Inr:
  "parse_options seen es = Inr opts \<Longrightarrow>
     parse_options seen (map option_json opts) = Inr opts \<and> length opts = length es \<and> list_all option_ok opts
     \<and> distinct (map do_id opts)  \<and> set (map do_id opts) \<inter> set seen = {}"
proof (induction es arbitrary: seen opts)
  case Nil
  then show ?case by simp
next
  case (Cons e es)
  then obtain opt rest where e: "parse_option seen e = Inr opt"
    and es: "parse_options (do_id opt # seen) es = Inr rest" and opts: "opts = opt # rest"
    by (auto simp: attempt_Inr_iff)
  from parse_option_Inr [OF e] Cons.IH [OF es] opts show ?case
    by (auto simp: parse_option_encode)
qed

lemma reserved_class_of_name [simp]:
  "find (\<lambda>k. reserved_class_name k = reserved_class_name c) OWNER_RESERVED_CLASSES = Some c"
  by (cases c) (simp_all add: OWNER_RESERVED_CLASSES_def)

definition decision_ok :: "notification_decision \<Rightarrow> bool" where
  "decision_ok d \<longleftrightarrow> text_ok 300 False (nd_question d) \<and> text_ok 600 True (nd_context d)
     \<and> (case nd_recommendation d of None \<Rightarrow> True | Some t \<Rightarrow> text_ok 300 True t)
     \<and> (case nd_ifNothing d of None \<Rightarrow> True | Some t \<Rightarrow> text_ok 300 True t)
     \<and> text_ok 400 True (nd_whyNotDelegable d) \<and> (nd_options d = [] \<longrightarrow> nd_discussion d)
     \<and> length (nd_options d) \<le> 4 \<and> distinct (map do_id (nd_options d)) \<and> list_all option_ok (nd_options d)
     \<and> parse_options [] (map option_json (nd_options d)) = Inr (nd_options d)"

lemma parseDecisionOptions_Inr:
  "parseDecisionOptions v = Inr opts \<Longrightarrow> length opts \<le> 4 \<and> distinct (map do_id opts) \<and> list_all option_ok opts
     \<and> parse_options [] (map option_json opts) = Inr opts"
proof -
  assume "parseDecisionOptions v = Inr opts"
  then obtain es where "length es \<le> 4" and es: "parse_options [] es = Inr opts"
    by (auto simp: parseDecisionOptions_def not_less split: option.splits json.splits if_splits)
  with parse_options_Inr [OF es] show ?thesis by simp
qed

lemma parse_option_list_Inr:
  assumes "parse_option_list v discussion = Inr opts"
  shows "opts = [] \<longrightarrow> discussion" and "length opts \<le> 4" and "distinct (map do_id opts)"
    and "list_all option_ok opts" and "parse_options [] (map option_json opts) = Inr opts"
proof -
  from assms obtain es where es: "v = Some (JArr es)" "es = [] \<longrightarrow> discussion"
    and opts: "parseDecisionOptions (Some (JArr es)) = Inr opts"
    by (auto simp: parse_option_list_def split: option.splits json.splits if_splits)
  from opts have "parse_options [] es = Inr opts"
    by (simp add: parseDecisionOptions_def split: if_splits)
  with parse_options_Inr have "length opts = length es" by blast
  with es(2) show "opts = [] \<longrightarrow> discussion" by auto
  from parseDecisionOptions_Inr [OF opts] show "length opts \<le> 4" and "distinct (map do_id opts)"
    and "list_all option_ok opts" and "parse_options [] (map option_json opts) = Inr opts"
    by simp_all
qed

lemma parseNotificationDecision_ok:
  assumes "parseNotificationDecision v = Inr d"
  shows "decision_ok d"
proof -
  from assms obtain fs q c r n k w disc opts where parts:
    "boundedString (map_of fs ''question'') ''decision.question'' 300 False = Inr q"
    "boundedString (map_of fs ''context'') ''decision.context'' 600 True = Inr c"
    "boundedOptionalString (map_of fs ''recommendation'') ''decision.recommendation'' 300 = Inr r"
    "boundedOptionalString (map_of fs ''ifNothing'') ''decision.ifNothing'' 300 = Inr n"
    "boundedString (map_of fs ''whyNotDelegable'') ''decision.whyNotDelegable'' 400 True = Inr w"
    "parse_option_list (map_of fs ''options'') disc = Inr opts"
    "d = \<lparr>nd_question = q, nd_context = c, nd_recommendation = r, nd_ifNothing = n, nd_reservedClass = k,
         nd_whyNotDelegable = w, nd_options = opts, nd_discussion = disc\<rparr>"
    by (cases v) (simp_all add: parseNotificationDecision_def attempt_Inr_iff, blast)
  from parts(7) boundedString_Inr [OF parts(1)] boundedString_Inr [OF parts(2)] boundedString_Inr [OF parts(5)]
    boundedOptionalString_Inr [OF parts(3)] boundedOptionalString_Inr [OF parts(4)] parse_option_list_Inr [OF parts(6)]
  show ?thesis by (simp add: decision_ok_def)
qed

lemma boundedOptionalString_absent: "boundedOptionalString None what n = Inr None"
  by (simp add: boundedOptionalString_def)

lemma parseNotificationDecision_encode:
  assumes "decision_ok d"
  shows "parseNotificationDecision (serializeNotificationDecision d) = Inr d"
proof -
  let ?fs = "[(''question'', JStr (nd_question d)), (''context'', JStr (nd_context d)),
      (''recommendation'', or_null JStr (nd_recommendation d))]
     @ spread_some ''ifNothing'' JStr (nd_ifNothing d)
     @ [(''reservedClass'', JStr (reserved_class_name (nd_reservedClass d))),
        (''whyNotDelegable'', JStr (nd_whyNotDelegable d)),
        (''options'', JArr (map option_json (nd_options d))), (''discussion'', JBool (nd_discussion d))]"
  have look: "map_of ?fs ''question'' = Some (JStr (nd_question d))"
    "map_of ?fs ''context'' = Some (JStr (nd_context d))"
    "map_of ?fs ''recommendation'' = Some (or_null JStr (nd_recommendation d))"
    "map_of ?fs ''ifNothing'' = map_option JStr (nd_ifNothing d)"
    "map_of ?fs ''reservedClass'' = Some (JStr (reserved_class_name (nd_reservedClass d)))"
    "map_of ?fs ''whyNotDelegable'' = Some (JStr (nd_whyNotDelegable d))"
    "map_of ?fs ''options'' = Some (JArr (map option_json (nd_options d)))"
    "map_of ?fs ''discussion'' = Some (JBool (nd_discussion d))"
    by (cases "nd_ifNothing d"; simp)+
  have silent: "boundedOptionalString (map_option JStr (nd_ifNothing d)) ''decision.ifNothing'' 300 = Inr (nd_ifNothing d)"
    using assms boundedOptionalString_text_ok [of 300 "nd_ifNothing d"]
    by (cases "nd_ifNothing d") (auto simp: decision_ok_def boundedOptionalString_absent)
  have options: "parse_option_list (Some (JArr (map option_json (nd_options d)))) (nd_discussion d) = Inr (nd_options d)"
    using assms by (auto simp: decision_ok_def parse_option_list_def parseDecisionOptions_def)
  show ?thesis
    using assms
    unfolding serializeNotificationDecision_def parseNotificationDecision_def json.case look
    by (simp add: decision_ok_def boundedString_text_ok boundedOptionalString_text_ok silent options
        parse_reserved_def parse_discussion_def)
qed

text \<open>C39. Owner decisions survive storage: whatever decision the write boundary accepts is read back
  unchanged from its stored column, has one to four options unless it is marked for discussion, at most
  four in any case, all with distinct slug ids, and a malformed column reads as no typed decision.\<close>

theorem decision_roundtrip:
  "(parseNotificationDecision v = Inr d \<longrightarrow>
      parseStoredNotificationDecision (Some (serializeNotificationDecision d)) = Some d
      \<and> (nd_options d = [] \<longrightarrow> nd_discussion d) \<and> length (nd_options d) \<le> 4
      \<and> distinct (map do_id (nd_options d)) \<and> (\<forall>opt\<in>set (nd_options d). OPTION_ID (do_id opt)))
   \<and> (parseNotificationDecision v = Inl e \<longrightarrow> parseStoredNotificationDecision (Some v) = None)"
proof -
  have "parseNotificationDecision v = Inr d \<Longrightarrow>
      parseStoredNotificationDecision (Some (serializeNotificationDecision d)) = Some d
      \<and> (nd_options d = [] \<longrightarrow> nd_discussion d) \<and> length (nd_options d) \<le> 4
      \<and> distinct (map do_id (nd_options d)) \<and> (\<forall>opt\<in>set (nd_options d). OPTION_ID (do_id opt))"
    using parseNotificationDecision_ok [of v d] parseNotificationDecision_encode [of d]
    by (auto simp: parseStoredNotificationDecision_def decision_ok_def option_ok_def list_all_iff)
  then show ?thesis by (simp add: parseStoredNotificationDecision_def)
qed

definition sample_decision :: notification_decision where
  "sample_decision = \<lparr>nd_question = ''Merge?'', nd_context = ''PR 7'', nd_recommendation = None,
     nd_ifNothing = Some ''it waits'', nd_reservedClass = Merge_decision, nd_whyNotDelegable = ''owner only'',
     nd_options = [\<lparr>do_id = ''merge-now'', do_label = ''Merge'', do_consequence = ''lands''\<rparr>], nd_discussion = False\<rparr>"

theorem decision_roundtrip_witness:
  "parseStoredNotificationDecision (Some (serializeNotificationDecision sample_decision)) = Some sample_decision"
proof -
  have "parseNotificationDecision (JObj [(''options'', JArr [JObj [(''id'', JStr ''merge-now''),
        (''label'', JStr ''Merge''), (''consequence'', JStr '' lands '')]]), (''question'', JStr ''Merge?''),
      (''context'', JStr ''PR 7''), (''ifNothing'', JStr ''it waits''), (''reservedClass'', JStr ''merge''),
      (''whyNotDelegable'', JStr ''owner only'')]) = Inr sample_decision"
    by (simp add: parseNotificationDecision_def sample_decision_def boundedString_def boundedOptionalString_def
        hasControlChars_def js_trim_def js_space_def parse_reserved_def parse_discussion_def parse_option_list_def
        parseDecisionOptions_def parse_option_def lower_alnum_def OWNER_RESERVED_CLASSES_def less_eq_char_def
        less_char_def)
  with decision_roundtrip show ?thesis by blast
qed

end
