(* ===== verification/Ledger.thy ===== *)
theory Ledger
  imports Pipeline_Domain Obligation_Domain Notification_Domain
begin

text \<open>
  The durable state and its plumbing, \<^verbatim>\<open>src/src/ledger/api.ts\<close>: the tables the modelled operations read
  and write, the environment of an operation (one clock reading, the platform, and the parts of the
  ledger API that are not modelled, as functions of the ledger), \<open>transaction\<close>, \<open>appendEvent\<close>, the
  event and job reads, \<open>createJob\<close> with its reservation and family checks, and the one write of a
  job status.

  An operation is a function from a ledger to \<open>ledger_error + ledger \<times> result\<close>. A throw inside a
  transaction rolls it back, so its caller keeps the old ledger: \<open>transaction\<close> states this once.
\<close>

subsection \<open>Rows\<close>

record event =
  er_seq :: nat
  er_ts :: string
  er_kind :: string
  er_agentId :: "string option"
  er_jobId :: "string option"
  er_roundId :: "string option"
  er_lens :: "string option"
  er_payload :: json

record job_record =
  jb_id :: string
  jb_repo :: string
  jb_title :: string
  jb_displayName :: "string option"
  jb_deliverable :: "string option"
  jb_commissioner :: "string option"
  jb_targetRef :: "string option"
  jb_targetSha :: "string option"
  jb_parentJobId :: "string option"
  jb_status :: job_status
  jb_baseBranch :: "string option"
  jb_prUrl :: "string option"
  jb_note :: "string option"
  jb_briefing :: "string option"
  jb_createdAt :: string
  jb_updatedAt :: string

record agent_row =
  ag_id :: string
  ag_role :: string
  ag_jobId :: "string option"
  ag_parentage :: "string option"

record directive_row =
  dr_requestId :: string
  dr_jobId :: string
  dr_state :: string

record notification_record =
  nf_id :: string
  nf_ts :: string
  nf_kind :: string
  nf_routing :: string
  nf_severity :: string
  nf_title :: string
  nf_detail :: "string option"
  nf_agentId :: "string option"
  nf_shownAt :: "string option"
  nf_shownBy :: "string option"
  nf_ackedAt :: "string option"
  nf_ackedBy :: "string option"
  nf_resolvedAt :: "string option"
  nf_resolvedBy :: "string option"
  nf_resolutionDetail :: "string option"
  nf_decision :: "notification_decision option"
  nf_decidedAt :: "string option"
  nf_decidedBy :: "string option"
  nf_decidedOption :: "string option"

record obligation_record =
  ob_id :: string
  ob_jobId :: string
  ob_logicalStep :: string
  ob_incidentKey :: string
  ob_generation :: nat
  ob_category :: category
  ob_nextAction :: next_action
  ob_wakeCondition :: wake_condition
  ob_authority :: "authority option"
  ob_firingRule :: string
  ob_description :: "string option"
  ob_state :: obligation_state
  ob_settlement :: "settlement option"
  ob_dueAt :: "string option"
  ob_receiptKind :: "string option"
  ob_deadlineAt :: "string option"
  ob_recordedReceipts :: "recorded_receipt list"
  ob_observations :: nat
  ob_planRevision :: nat
  ob_firstOriginSeq :: nat
  ob_lastOriginSeq :: nat
  ob_supersededBy :: "string option"
  ob_claim :: "obligation_claim option"
  ob_claimLog :: "claim_log_entry list"
  ob_receiptCorrelation :: "receipt_correlation option"
  ob_createdAt :: string
  ob_updatedAt :: string

text \<open>\<open>lg_seq\<close> is the AUTOINCREMENT counter of the events table.\<close>

record ledger =
  lg_seq :: nat
  lg_events :: "event list"
  lg_jobs :: "job_record list"
  lg_agents :: "agent_row list"
  lg_directives :: "directive_row list"
  lg_notifications :: "notification_record list"
  lg_obligations :: "obligation_record list"
  lg_pipeline :: "pipeline_entry list"

datatype ledger_error =
    State_error state_error
  | Obligation_error obligation_error
  | Pipeline_error pipeline_error
  | Bad_input string
  | Record_not_found string
  | Stale_continuation string
  | Claim_held string
  | Pipeline_conflict string
  | Malformed_row string
  | Gate_duty string
  | Live_work string "string list"
  | Decision_refusal string
  | Job_parent_error string

definition lift_error :: "('e \<Rightarrow> ledger_error) \<Rightarrow> 'e + 'a \<Rightarrow> ledger_error + 'a" where
  "lift_error f r = (case r of Inl e \<Rightarrow> Inl (f e) | Inr x \<Rightarrow> Inr x)"

lemma lift_error_Inr [simp]: "lift_error f r = Inr x \<longleftrightarrow> r = Inr x"
  by (cases r) (auto simp: lift_error_def)

lemma lift_error_apply [simp]: "lift_error f (Inr x) = Inr x" "lift_error f (Inl e) = Inl (f e)"
  by (simp_all add: lift_error_def)

record env =
  en_plat :: platform
  en_now :: string                                    \<comment> \<open>\<open>nowIso()\<close>\<close>
  en_doneBlockers :: "ledger \<Rightarrow> string \<Rightarrow> string list"
  en_liveProducerBlockers :: "ledger \<Rightarrow> string \<Rightarrow> string list"
  en_candidateDelivery :: "ledger \<Rightarrow> string \<Rightarrow> event option"
  en_gateDutyCompleted :: "ledger \<Rightarrow> obligation_record \<Rightarrow> json \<Rightarrow> nat \<Rightarrow> bool"

subsection \<open>Transactions and events\<close>

text \<open>The state after the transaction, the events published to the bus, and the outcome.\<close>

definition transaction ::
  "(ledger \<Rightarrow> ledger_error + ledger \<times> 'a) \<Rightarrow> ledger \<Rightarrow> ledger \<times> event list \<times> (ledger_error + 'a)" where
  "transaction write L = (case write L of
     Inl e \<Rightarrow> (L, [], Inl e)
   | Inr (L', x) \<Rightarrow> (L', drop (length (lg_events L)) (lg_events L'), Inr x))"

definition appendEvent ::
  "env \<Rightarrow> string \<Rightarrow> string option \<Rightarrow> string option \<Rightarrow> json \<Rightarrow> ledger \<Rightarrow> ledger" where
  "appendEvent E kind agentId jobId payload L = L
     \<lparr>lg_seq := Suc (lg_seq L),
      lg_events := lg_events L @ [\<lparr>er_seq = Suc (lg_seq L), er_ts = en_now E, er_kind = kind,
        er_agentId = agentId, er_jobId = jobId, er_roundId = None, er_lens = None, er_payload = payload\<rparr>]\<rparr>"

definition getEvent :: "ledger \<Rightarrow> rat \<Rightarrow> event option" where
  "getEvent L seq = (if \<not> js_safe_int seq \<or> seq < 0 then None else row_find er_seq (nat \<lfloor>seq\<rfloor>) (lg_events L))"

definition latestJobEvent :: "ledger \<Rightarrow> string \<Rightarrow> string \<Rightarrow> event option" where
  "latestJobEvent L jobId kind = newest (\<lambda>e. er_jobId e = Some jobId \<and> er_kind e = kind) (lg_events L)"

text \<open>Newest first, bounded.\<close>

definition listJobEvents :: "ledger \<Rightarrow> string \<Rightarrow> nat \<Rightarrow> event list" where
  "listJobEvents L jobId limit = take limit (filter (\<lambda>e. er_jobId e = Some jobId) (rev (lg_events L)))"

definition getDirective :: "ledger \<Rightarrow> string \<Rightarrow> directive_row option" where
  "getDirective L requestId = row_find dr_requestId requestId (lg_directives L)"

subsection \<open>Jobs\<close>

definition getJob :: "ledger \<Rightarrow> string \<Rightarrow> job_record option" where
  "getJob L i = row_find jb_id i (lg_jobs L)"

definition requireSafeRecordId :: "string \<Rightarrow> string \<Rightarrow> nat \<Rightarrow> ledger_error + unit" where
  "requireSafeRecordId value name maxLength =
     (if isSafePipelineRecordId value maxLength then Inr () else Inl (Bad_input name))"

definition getPipelineEntry :: "ledger \<Rightarrow> string \<Rightarrow> pipeline_entry option" where
  "getPipelineEntry L i = row_find pe_id i (lg_pipeline L)"

definition writeJobStatus ::
  "env \<Rightarrow> string \<Rightarrow> job_status \<Rightarrow> job_status \<Rightarrow> (string \<times> json) list \<Rightarrow> ledger \<Rightarrow> ledger" where
  "writeJobStatus E i from to extra L =
     appendEvent E ''job.status'' None (Some i)
       (JObj (extra @ [(''from'', JStr (job_status_name from)), (''to'', JStr (job_status_name to))]))
       (L\<lparr>lg_jobs := row_update jb_id i (\<lambda>j. j\<lparr>jb_status := to, jb_updatedAt := en_now E\<rparr>) (lg_jobs L)\<rparr>)"

definition terminalLiveWorkBlockers :: "env \<Rightarrow> ledger \<Rightarrow> string \<Rightarrow> string list" where
  "terminalLiveWorkBlockers E L jobId = en_doneBlockers E L jobId @ en_liveProducerBlockers E L jobId"

text \<open>The target fields distinguish \<open>undefined\<close> (\<open>None\<close>) from \<open>null\<close> (\<open>Some None\<close>); elsewhere both read alike.\<close>

record job_input =
  ji_id :: string
  ji_repo :: string
  ji_title :: string
  ji_baseBranch :: "string option"
  ji_briefing :: "string option"
  ji_displayName :: "string option"
  ji_deliverable :: "string option"
  ji_commissioner :: "string option"
  ji_targetRef :: "string option option"
  ji_targetSha :: "string option option"
  ji_parentJobId :: "string option"

definition JOB_DISPLAY_NAME_MAX_LENGTH :: nat where "JOB_DISPLAY_NAME_MAX_LENGTH = 100"

text \<open>Of the code units below 256 the format controls, controls, marks and spaces are these.\<close>

definition invisible :: "char \<Rightarrow> bool" where
  "invisible c \<longleftrightarrow> c < CHR 0x20 \<or> (CHR 0x7F \<le> c \<and> c \<le> CHR 0xA0) \<or> c = CHR '' '' \<or> c = CHR 0xAD"

definition hasVisibleCharacters :: "string \<Rightarrow> bool" where
  "hasVisibleCharacters value \<longleftrightarrow> filter (\<lambda>c. \<not> invisible c) value \<noteq> []"

definition blank_field :: "string option \<Rightarrow> bool" where
  "blank_field v \<longleftrightarrow> (case v of None \<Rightarrow> False | Some s \<Rightarrow> js_blank s)"

definition is_report_kind :: "string option \<Rightarrow> bool" where
  "is_report_kind deliverable \<longleftrightarrow>
     (case deliverable of None \<Rightarrow> False | Some d \<Rightarrow> d \<noteq> ''pr'' \<and> isReportDeliverable d)"
definition null_or :: "'a option option \<Rightarrow> 'a option" where
  "null_or v = (case v of None \<Rightarrow> None | Some w \<Rightarrow> w)"

definition check_job_parent_input :: "job_input \<Rightarrow> ledger_error + unit" where
  "check_job_parent_input input = (case ji_parentJobId input of
     None \<Rightarrow> Inr ()
   | Some parent \<Rightarrow>
       if js_blank parent then Inl (Job_parent_error ''blank'')
       else if parent = ji_id input then Inl (Job_parent_error ''self'')
       else if \<not> (case ji_deliverable input of None \<Rightarrow> False | Some d \<Rightarrow> isReportDeliverable d)
       then Inl (Job_parent_error ''not a report job'')
       else Inr ())"

definition checked_display_name :: "string option \<Rightarrow> ledger_error + string option" where
  "checked_display_name v = (case v of
     None \<Rightarrow> Inr None
   | Some s \<Rightarrow>
       if js_blank s then Inl (Bad_input ''display name'')
       else if \<not> hasVisibleCharacters (js_trim s) then Inl (Bad_input ''display name invisible'')
       else if JOB_DISPLAY_NAME_MAX_LENGTH < length (js_trim s) then Inl (Bad_input ''display name length'')
       else Inr (Some (js_trim s)))"

definition check_job_input :: "job_input \<Rightarrow> ledger_error + string option" where
  "check_job_input input =
     (if ji_id input = [] \<or> ji_repo input = [] \<or> ji_title input = [] then Inl (Bad_input ''id, repo, title'') else
      attempt (requireSafeRecordId (ji_id input) ''job id'' 128) (\<lambda>_.
      if ji_deliverable input \<notin> {None, Some ''pr'', Some ''review'', Some ''artifact'', Some ''investigation''}
      then Inl (Bad_input ''deliverable'')
      else if blank_field (ji_commissioner input) then Inl (Bad_input ''commissioner'')
      else if blank_field (null_or (ji_targetRef input)) then Inl (Bad_input ''target_ref'')
      else if blank_field (null_or (ji_targetSha input)) then Inl (Bad_input ''target_sha'')
      else if \<not> is_report_kind (ji_deliverable input) \<and> (ji_targetRef input \<noteq> None \<or> ji_targetSha input \<noteq> None)
      then Inl (Bad_input ''target on a non-report job'')
      else attempt (check_job_parent_input input) (\<lambda>_. checked_display_name (ji_displayName input))))"

definition check_reservation :: "string \<Rightarrow> ledger \<Rightarrow> ledger_error + unit" where
  "check_reservation i L = (case getPipelineEntry L i of
     None \<Rightarrow> Inr ()
   | Some reserved \<Rightarrow> if pe_state reserved \<noteq> P_admitting then Inl (Pipeline_conflict i) else Inr ())"

definition check_parent_row :: "job_input \<Rightarrow> ledger \<Rightarrow> ledger_error + unit" where
  "check_parent_row input L = (case ji_parentJobId input of
     None \<Rightarrow> Inr ()
   | Some p \<Rightarrow> (case getJob L p of
       None \<Rightarrow> Inl (Job_parent_error ''missing'')
     | Some parent \<Rightarrow>
         if jb_repo parent \<noteq> ji_repo input then Inl (Job_parent_error ''other repo'')
         else if jb_parentJobId parent \<noteq> None then Inl (Job_parent_error ''nested'')
         else Inr ()))"

text \<open>All columns of the current schema exist (the code also serves older, partial schemas).\<close>

definition createJob :: "env \<Rightarrow> job_input \<Rightarrow> ledger \<Rightarrow> ledger_error + ledger \<times> job_record" where
  "createJob E input L =
     attempt (check_job_input input) (\<lambda>displayName.
     if getJob L (ji_id input) \<noteq> None then Inl (Bad_input ''job exists'') else
     attempt (check_reservation (ji_id input) L) (\<lambda>_.
     attempt (check_parent_row input L) (\<lambda>_.
     let job = \<lparr>jb_id = ji_id input, jb_repo = ji_repo input, jb_title = ji_title input,
           jb_displayName = displayName, jb_deliverable = ji_deliverable input,
           jb_commissioner = ji_commissioner input, jb_targetRef = null_or (ji_targetRef input),
           jb_targetSha = null_or (ji_targetSha input), jb_parentJobId = ji_parentJobId input,
           jb_status = Dispatched, jb_baseBranch = ji_baseBranch input, jb_prUrl = None, jb_note = None,
           jb_briefing = ji_briefing input, jb_createdAt = en_now E, jb_updatedAt = en_now E\<rparr>;
         payload = JObj ([(''repo'', JStr (ji_repo input)), (''title'', JStr (ji_title input)),
             (''display_name'', or_null JStr displayName)]
           @ spread_if (is_report_kind (ji_deliverable input))
               [(''commissioner'', or_null JStr (ji_commissioner input)),
                (''target_ref'', or_null JStr (null_or (ji_targetRef input))),
                (''target_sha'', or_null JStr (null_or (ji_targetSha input)))]
           @ spread_some ''parent_job_id'' JStr (ji_parentJobId input))
     in Inr (appendEvent E ''job.created'' None (Some (ji_id input)) payload
               (L\<lparr>lg_jobs := lg_jobs L @ [job]\<rparr>), job))))"

subsection \<open>What the plumbing preserves\<close>

lemma appendEvent_tables [simp]:
  "lg_jobs (appendEvent E k a j p L) = lg_jobs L"
  "lg_agents (appendEvent E k a j p L) = lg_agents L"
  "lg_directives (appendEvent E k a j p L) = lg_directives L"
  "lg_notifications (appendEvent E k a j p L) = lg_notifications L"
  "lg_obligations (appendEvent E k a j p L) = lg_obligations L"
  "lg_pipeline (appendEvent E k a j p L) = lg_pipeline L"
  "lg_seq (appendEvent E k a j p L) = Suc (lg_seq L)"
  by (simp_all add: appendEvent_def)

lemma appendEvent_events:
  "lg_events (appendEvent E k a j p L) = lg_events L @ [\<lparr>er_seq = Suc (lg_seq L), er_ts = en_now E, er_kind = k,
      er_agentId = a, er_jobId = j, er_roundId = None, er_lens = None, er_payload = p\<rparr>]"
  by (simp add: appendEvent_def)

text \<open>The event log only grows, its sequence numbers are distinct, increasing and never reused.\<close>

definition log_ok :: "ledger \<Rightarrow> bool" where
  "log_ok L \<longleftrightarrow> sorted_wrt (<) (map er_seq (lg_events L)) \<and> (\<forall>e\<in>set (lg_events L). er_seq e \<le> lg_seq L)"

definition log_extends :: "ledger \<Rightarrow> ledger \<Rightarrow> bool" where
  "log_extends L L' \<longleftrightarrow> (\<exists>es. lg_events L' = lg_events L @ es) \<and> lg_seq L \<le> lg_seq L'"

lemma log_extends_refl [simp]: "log_extends L L"
  by (simp add: log_extends_def)

lemma log_extends_trans: "log_extends L L' \<Longrightarrow> log_extends L' L'' \<Longrightarrow> log_extends L L''"
  by (auto simp: log_extends_def)

lemma log_extends_append: "log_extends L L' \<Longrightarrow> log_extends L (appendEvent E k a j p L')"
  by (auto simp: log_extends_def appendEvent_events)

lemma log_extends_tables [simp]:
  "log_extends L (L'\<lparr>lg_jobs := js\<rparr>) = log_extends L L'"
  "log_extends L (L'\<lparr>lg_notifications := ns\<rparr>) = log_extends L L'"
  "log_extends L (L'\<lparr>lg_obligations := os\<rparr>) = log_extends L L'"
  "log_extends L (L'\<lparr>lg_pipeline := ps\<rparr>) = log_extends L L'"
  by (simp_all add: log_extends_def)

lemma log_ok_tables [simp]:
  "log_ok (L\<lparr>lg_jobs := js\<rparr>) = log_ok L"
  "log_ok (L\<lparr>lg_notifications := ns\<rparr>) = log_ok L"
  "log_ok (L\<lparr>lg_obligations := os\<rparr>) = log_ok L"
  "log_ok (L\<lparr>lg_pipeline := ps\<rparr>) = log_ok L"
  by (simp_all add: log_ok_def)

lemma log_ok_append: "log_ok L \<Longrightarrow> log_ok (appendEvent E k a j p L)"
  by (auto simp: log_ok_def appendEvent_events sorted_wrt_append intro: le_imp_less_Suc le_SucI)

lemma log_ok_cong: "lg_events L' = lg_events L \<Longrightarrow> lg_seq L' = lg_seq L \<Longrightarrow> log_ok L' = log_ok L"
  by (simp add: log_ok_def)

lemma writeJobStatus_tables [simp]:
  "lg_agents (writeJobStatus E i s t x L) = lg_agents L"
  "lg_directives (writeJobStatus E i s t x L) = lg_directives L"
  "lg_notifications (writeJobStatus E i s t x L) = lg_notifications L"
  "lg_obligations (writeJobStatus E i s t x L) = lg_obligations L"
  "lg_pipeline (writeJobStatus E i s t x L) = lg_pipeline L"
  "lg_jobs (writeJobStatus E i s t x L)
     = row_update jb_id i (\<lambda>j. j\<lparr>jb_status := t, jb_updatedAt := en_now E\<rparr>) (lg_jobs L)"
  by (simp_all add: writeJobStatus_def)

lemma getJob_SomeD: "getJob L i = Some j \<Longrightarrow> j \<in> set (lg_jobs L) \<and> jb_id j = i"
  by (auto simp: getJob_def dest: row_find_SomeD)

lemma getPipelineEntry_SomeD: "getPipelineEntry L i = Some e \<Longrightarrow> e \<in> set (lg_pipeline L) \<and> pe_id e = i"
  by (auto simp: getPipelineEntry_def dest: row_find_SomeD)

subsection \<open>The job family and its reservations\<close>

text \<open>Job ids are distinct; a parent is a top-level job of the same repository.\<close>

definition family_ok :: "ledger \<Rightarrow> bool" where
  "family_ok L \<longleftrightarrow> distinct (map jb_id (lg_jobs L)) \<and>
     (\<forall>j\<in>set (lg_jobs L). isSafePipelineRecordId (jb_id j) 128 \<and>
       (\<forall>p. jb_parentJobId j = Some p \<longrightarrow>
          (\<exists>q\<in>set (lg_jobs L). jb_id q = p \<and> jb_repo q = jb_repo j \<and> jb_parentJobId q = None)))"

lemma createJob_InrD:
  assumes "createJob E input L = Inr (L', job)"
  shows "lg_jobs L' = lg_jobs L @ [job]" and "getJob L (ji_id input) = None" and "jb_id job = ji_id input"
    and "isSafePipelineRecordId (ji_id input) 128" and "jb_status job = Dispatched"
    and "jb_parentJobId job = ji_parentJobId input" and "jb_repo job = ji_repo input"
    and "check_parent_row input L = Inr ()" and "check_reservation (ji_id input) L = Inr ()"
    and "lg_pipeline L' = lg_pipeline L" and "lg_obligations L' = lg_obligations L"
    and "log_extends L L'" and "jb_briefing job = ji_briefing input"
  using assms
  by (auto simp: createJob_def check_job_input_def requireSafeRecordId_def attempt_Inr_iff Let_def
      intro!: log_extends_append split: if_splits)

lemma createJob_family:
  assumes "family_ok L" and "createJob E input L = Inr (L', job)"
  shows "family_ok L'"
proof -
  note D = createJob_InrD [OF assms(2)]
  have fresh: "jb_id job \<notin> jb_id ` set (lg_jobs L)"
    using D(2,3) by (simp add: getJob_def row_find_None_iff)
  have parent: "\<exists>q\<in>set (lg_jobs L). jb_id q = p \<and> jb_repo q = jb_repo job \<and> jb_parentJobId q = None"
    if "jb_parentJobId job = Some p" for p
    using D(6,7,8) that
    by (auto simp: check_parent_row_def dest: getJob_SomeD split: option.splits if_splits)
  show ?thesis
    using assms(1) fresh parent D(3,4)
    unfolding family_ok_def D(1) by (fastforce)
qed

text \<open>Two different jobs never share an obligation id.\<close>

lemma safe_id_no_colon: "isSafePipelineRecordId i n \<Longrightarrow> CHR '':'' \<notin> set i"
  by (cases i) (auto simp: isSafePipelineRecordId_def list_all_iff ascii_alnum_def less_eq_char_def)

subsection \<open>Properties\<close>

text \<open>C35. Creating a job: the id must be a safe record identifier that no job has and that no accepted
  pipeline entry reserves (only the entry's own admission claim may use it); the new job starts
  dispatched; ids stay distinct, and every parent stays a top-level job of the same repository, so job
  families are one level deep.\<close>

theorem job_creation:
  assumes "createJob E input L = Inr (L', job)"
  shows "isSafePipelineRecordId (jb_id job) 128
   \<and> (\<forall>j\<in>set (lg_jobs L). jb_id j \<noteq> jb_id job)
   \<and> (\<forall>e. getPipelineEntry L (jb_id job) = Some e \<longrightarrow> pe_state e = P_admitting)
   \<and> jb_status job = Dispatched \<and> lg_jobs L' = lg_jobs L @ [job]
   \<and> (family_ok L \<longrightarrow> family_ok L')"
proof -
  note D = createJob_InrD [OF assms]
  have "\<forall>j\<in>set (lg_jobs L). jb_id j \<noteq> jb_id job"
    using D(2,3) by (simp add: getJob_def row_find_None_ball)
  moreover have "\<forall>e. getPipelineEntry L (jb_id job) = Some e \<longrightarrow> pe_state e = P_admitting"
    using D(9,3) by (auto simp: check_reservation_def split: option.splits if_splits)
  ultimately show ?thesis
    using D createJob_family [OF _ assms] by simp
qed

definition empty_ledger :: ledger where
  "empty_ledger = \<lparr>lg_seq = 0, lg_events = [], lg_jobs = [], lg_agents = [], lg_directives = [],
     lg_notifications = [], lg_obligations = [], lg_pipeline = []\<rparr>"

definition sample_env :: env where
  "sample_env = \<lparr>en_plat = sample_platform, en_now = ''2026-01-01T00:00:00.000Z'',
     en_doneBlockers = (\<lambda>_ _. []), en_liveProducerBlockers = (\<lambda>_ _. []),
     en_candidateDelivery = (\<lambda>_ _. None), en_gateDutyCompleted = (\<lambda>_ _ _ _. False)\<rparr>"

definition sample_job_input :: "string \<Rightarrow> job_input" where
  "sample_job_input i = \<lparr>ji_id = i, ji_repo = ''r'', ji_title = ''t'', ji_baseBranch = None,
     ji_briefing = Some ''b'', ji_displayName = None, ji_deliverable = None, ji_commissioner = None,
     ji_targetRef = None, ji_targetSha = None, ji_parentJobId = None\<rparr>"

lemma sample_id_safe [simp]: "isSafePipelineRecordId ''j-1'' 128"
  by (simp add: isSafePipelineRecordId_def ascii_alnum_def less_eq_char_def)

theorem job_creation_witness:
  "(case createJob sample_env (sample_job_input ''j-1'') empty_ledger of
      Inl e \<Rightarrow> False | Inr (L', job) \<Rightarrow> family_ok L' \<and> jb_status job = Dispatched)"
proof -
  obtain L' job where run: "createJob sample_env (sample_job_input ''j-1'') empty_ledger = Inr (L', job)"
    by (simp add: createJob_def check_job_input_def requireSafeRecordId_def sample_job_input_def blank_field_def
        null_or_def check_job_parent_input_def checked_display_name_def getJob_def row_find_def empty_ledger_def
        check_reservation_def getPipelineEntry_def check_parent_row_def Let_def)
  have "family_ok empty_ledger" by (simp add: family_ok_def empty_ledger_def)
  with job_creation [OF run] run show ?thesis by simp
qed

text \<open>Obligation identity is exact: for record ids two obligations share a base id only when they have
  the same job, logical step and incident key.\<close>

theorem obligation_identity:
  assumes "isSafePipelineRecordId j 128" and "isSafePipelineRecordId j' 128"
  shows "obligationId j s k = obligationId j' s' k' \<longleftrightarrow> j = j' \<and> s = s' \<and> k = k'"
  using obligationId_inj assms [THEN safe_id_no_colon] by blast

theorem obligation_identity_witness:
  "obligationId ''j-1'' S_review ''a:b'' \<noteq> obligationId ''j-1'' S_audit ''a:b''"
  using obligation_identity [of "''j-1''" "''j-1''" S_review "''a:b''" S_audit "''a:b''"] by simp

text \<open>A transaction is all or nothing: on an error the ledger is the old one and nothing is published;
  on success exactly the events the write appended are published, in order.\<close>

theorem transaction_atomic:
  "(case write L of
      Inl e \<Rightarrow> transaction write L = (L, [], Inl e)
    | Inr (L', x) \<Rightarrow> fst (transaction write L) = L' \<and> snd (snd (transaction write L)) = Inr x
        \<and> (log_extends L L' \<longrightarrow> lg_events L' = lg_events L @ fst (snd (transaction write L))))"
  by (auto simp: transaction_def log_extends_def split: sum.splits)

theorem transaction_atomic_witness:
  "fst (snd (transaction (\<lambda>L. Inr (appendEvent sample_env ''k'' None None JNull L, ())) empty_ledger))
     = lg_events (appendEvent sample_env ''k'' None None JNull empty_ledger)"
  using transaction_atomic [of "\<lambda>L. Inr (appendEvent sample_env ''k'' None None JNull L, ())" empty_ledger]
    log_extends_append [OF log_extends_refl]
  by (simp add: empty_ledger_def)

end
