(* ===== verification/Obligation_Store.thy ===== *)
theory Obligation_Store
  imports Ledger
begin

text \<open>
  The obligation rows of \<^verbatim>\<open>src/src/ledger/api.ts\<close>: reads with their row decoding, authority
  verification, claims, receipts, the gate-duty lineage, settlement with the card it answers, arming,
  suspension and resumption, and the incarnations of a blocked observation.

  A row is stored as the values its JSON columns encode; \<open>obligationFromRow\<close> decodes each column with its
  codec, so a write whose row cannot be read back fails (and its transaction with it).
\<close>

subsection \<open>Reading rows\<close>

definition obligationFromRow :: "platform \<Rightarrow> obligation_record \<Rightarrow> ledger_error + obligation_record" where
  "obligationFromRow plat row = lift_error Obligation_error
     (attempt (parseCategory (category_json (ob_category row))) (\<lambda>category.
      attempt (parseNextAction (next_action_json (ob_nextAction row))) (\<lambda>nextAction.
      attempt (parseWakeCondition (wake_condition_json (ob_wakeCondition row))) (\<lambda>wakeCondition.
      attempt (parseAuthority (map_option authority_json (ob_authority row))) (\<lambda>auth.
      attempt (case ob_settlement row of None \<Rightarrow> Inr None
                | Some s \<Rightarrow> attempt (parseSettlement (settlement_json s)) (\<lambda>s'. Inr (Some s'))) (\<lambda>settlement.
      attempt (parseReceipts (JArr (map receipt_json (ob_recordedReceipts row)))) (\<lambda>receipts.
      attempt (parseClaim plat (map_option claim_json (ob_claim row))) (\<lambda>claim.
      attempt (parseClaimLog plat (JArr (map claim_log_entry_json (ob_claimLog row)))) (\<lambda>claimLog.
      attempt (parseReceiptCorrelation (map_option correlation_json (ob_receiptCorrelation row))) (\<lambda>correlation.
      Inr (row\<lparr>ob_category := category, ob_nextAction := nextAction, ob_wakeCondition := wakeCondition,
               ob_authority := auth, ob_settlement := settlement, ob_recordedReceipts := receipts,
               ob_claim := claim, ob_claimLog := claimLog, ob_receiptCorrelation := correlation\<rparr>)))))))))))"

definition getObligation :: "env \<Rightarrow> ledger \<Rightarrow> string \<Rightarrow> ledger_error + obligation_record option" where
  "getObligation E L i = (case row_find ob_id i (lg_obligations L) of
     None \<Rightarrow> Inr None
   | Some row \<Rightarrow> attempt (obligationFromRow (en_plat E) row) (\<lambda>r. Inr (Some r)))"

text \<open>The row an operation needs: \<open>RecordNotFound\<close> when it is missing.\<close>

definition the_obligation :: "env \<Rightarrow> ledger \<Rightarrow> string \<Rightarrow> ledger_error + obligation_record" where
  "the_obligation E L i = attempt (getObligation E L i) (\<lambda>found. case found of
     None \<Rightarrow> Inl (Record_not_found i) | Some row \<Rightarrow> Inr row)"

record obligation_query =
  oq_jobId :: "string option"
  oq_states :: "obligation_state list option"
  oq_limit :: "int option"
  oq_cursor :: "nat option"
  oq_maxRowid :: "nat option"

text \<open>Rows are never deleted, so a row's rowid is its position in the table, from 1.\<close>

definition with_rowids :: "obligation_record list \<Rightarrow> (nat \<times> obligation_record) list" where
  "with_rowids rows = zip [1..<Suc (length rows)] rows"

definition query_matches :: "obligation_query \<Rightarrow> nat \<times> obligation_record \<Rightarrow> bool" where
  "query_matches q p \<longleftrightarrow>
     (case oq_jobId q of None \<Rightarrow> True | Some j \<Rightarrow> ob_jobId (snd p) = j)
     \<and> (case oq_states q of None \<Rightarrow> True | Some ss \<Rightarrow> ob_state (snd p) \<in> set ss)
     \<and> (case oq_cursor q of None \<Rightarrow> True | Some c \<Rightarrow> c < fst p)
     \<and> (case oq_maxRowid q of None \<Rightarrow> True | Some m \<Rightarrow> fst p \<le> m)"

definition query_limit :: "obligation_query \<Rightarrow> nat" where
  "query_limit q = nat (min (max 1 (or_else (oq_limit q) 200)) 1000)"

definition listObligations :: "env \<Rightarrow> ledger \<Rightarrow> obligation_query \<Rightarrow> ledger_error + obligation_record list" where
  "listObligations E L q =
     (if oq_states q = Some [] then Inl (Bad_input ''states'') else
      map_res (\<lambda>p. obligationFromRow (en_plat E) (snd p))
        (take (query_limit q) (filter (query_matches q) (with_rowids (lg_obligations L)))))"

definition obligationRowid :: "ledger \<Rightarrow> string \<Rightarrow> nat option" where
  "obligationRowid L i = map_option fst (find (\<lambda>p. ob_id (snd p) = i) (with_rowids (lg_obligations L)))"

text \<open>One malformed row is reported and never poisons the listing.\<close>

record obligation_listing =
  ol_readable :: "obligation_record list"
  ol_malformed :: "(string \<times> ledger_error) list"

fun sort_rows :: "env \<Rightarrow> obligation_record list \<Rightarrow> obligation_listing" where
  "sort_rows E [] = \<lparr>ol_readable = [], ol_malformed = []\<rparr>"
| "sort_rows E (row # rows) = (case obligationFromRow (en_plat E) row of
     Inr r \<Rightarrow> (sort_rows E rows)\<lparr>ol_readable := r # ol_readable (sort_rows E rows)\<rparr>
   | Inl e \<Rightarrow> (sort_rows E rows)\<lparr>ol_malformed := (ob_id row, e) # ol_malformed (sort_rows E rows)\<rparr>)"

definition listObligationsDetailed ::
  "env \<Rightarrow> ledger \<Rightarrow> string option \<Rightarrow> obligation_state option \<Rightarrow> int option \<Rightarrow> nat option \<Rightarrow> obligation_listing" where
  "listObligationsDetailed E L jobId state limit cursor =
     (let q = \<lparr>oq_jobId = jobId, oq_states = map_option (\<lambda>s. [s]) state, oq_limit = limit,
               oq_cursor = cursor, oq_maxRowid = None\<rparr> in
      sort_rows E (map snd (take (query_limit q) (filter (query_matches q) (with_rowids (lg_obligations L))))))"

text \<open>The page loop of \<open>listApplicableObligations\<close>. Each full page moves the cursor up, so one more
  iteration than the table has rows is enough; the last clause is never reached.\<close>

fun applicable_pages ::
  "nat \<Rightarrow> env \<Rightarrow> ledger \<Rightarrow> string \<Rightarrow> obligation_state list \<Rightarrow> nat \<Rightarrow> nat \<Rightarrow> ledger_error + obligation_record list" where
  "applicable_pages 0 E L jobId states watermark cursor = Inl (Bad_input ''fuel'')"
| "applicable_pages (Suc fuel) E L jobId states watermark cursor =
     attempt (listObligations E L \<lparr>oq_jobId = Some jobId, oq_states = Some states, oq_limit = Some 200,
                oq_cursor = Some cursor, oq_maxRowid = Some watermark\<rparr>) (\<lambda>page.
     if length page < 200 then Inr page
     else case obligationRowid L (ob_id (last page)) of
       None \<Rightarrow> Inr page
     | Some rowid \<Rightarrow> attempt (applicable_pages fuel E L jobId states watermark rowid) (\<lambda>rest. Inr (page @ rest)))"

definition listApplicableObligations ::
  "env \<Rightarrow> ledger \<Rightarrow> string \<Rightarrow> obligation_state list \<Rightarrow> ledger_error + obligation_record list" where
  "listApplicableObligations E L jobId states =
     (case max_of fst (filter (\<lambda>p. ob_jobId (snd p) = jobId) (with_rowids (lg_obligations L))) of
        None \<Rightarrow> Inr []
      | Some watermark \<Rightarrow>
          applicable_pages (Suc (length (lg_obligations L))) E L jobId states watermark 0)"

subsection \<open>Authority\<close>

datatype authority_reason =
    No_typed_authority | No_directive string | Foreign_directive string | Directive_not_admitted string string
  | Admitted_operation string string | No_ruling string string | Recorded_ruling string string

definition ruling_recorded :: "ledger \<Rightarrow> string \<Rightarrow> string \<Rightarrow> string \<Rightarrow> bool" where
  "ruling_recorded L jobId ref version = list_ex (\<lambda>e. er_kind e = ''ruling.recorded''
     \<and> payload_get (er_payload e) ''ref'' = Some (JStr ref)
     \<and> payload_get (er_payload e) ''version'' = Some (JStr version)) (listJobEvents L jobId 1000)"

definition check_ruling :: "ledger \<Rightarrow> string \<Rightarrow> string \<Rightarrow> string \<Rightarrow> bool \<times> authority_reason" where
  "check_ruling L jobId ref version = (if ruling_recorded L jobId ref version
     then (True, Recorded_ruling ref version) else (False, No_ruling ref version))"

definition check_operation :: "ledger \<Rightarrow> string \<Rightarrow> string \<Rightarrow> string \<Rightarrow> bool \<times> authority_reason" where
  "check_operation L jobId operation version = (case getDirective L operation of
     None \<Rightarrow> (False, No_directive operation)
   | Some d \<Rightarrow>
       if dr_jobId d \<noteq> jobId then (False, Foreign_directive operation)
       else if dr_state d \<noteq> ''admitted'' \<and> dr_state d \<noteq> ''settled''
       then (False, Directive_not_admitted operation (dr_state d))
       else (True, Admitted_operation operation version))"

definition verifyObligationAuthority ::
  "env \<Rightarrow> string \<Rightarrow> ledger \<Rightarrow> ledger_error + bool \<times> authority_reason" where
  "verifyObligationAuthority E i L = attempt (the_obligation E L i) (\<lambda>row. Inr (case ob_authority row of
     None \<Rightarrow> (False, No_typed_authority)
   | Some (Accepted_operation operation version) \<Rightarrow> check_operation L (ob_jobId row) operation version
   | Some (Chief_ruling ref version) \<Rightarrow> check_ruling L (ob_jobId row) ref version
   | Some (Owner_ruling ref version) \<Rightarrow> check_ruling L (ob_jobId row) ref version))"

subsection \<open>Writing rows\<close>

text \<open>UPDATE of one row, one event, and the row read back.\<close>

definition write_obligation ::
  "env \<Rightarrow> string \<Rightarrow> obligation_record \<Rightarrow> (obligation_record \<Rightarrow> obligation_record) \<Rightarrow> json \<Rightarrow> ledger \<Rightarrow> ledger" where
  "write_obligation E kind row change payload L =
     appendEvent E kind None (Some (ob_jobId row)) payload
       (L\<lparr>lg_obligations := row_update ob_id (ob_id row) change (lg_obligations L)\<rparr>)"

definition put_obligation ::
  "env \<Rightarrow> string \<Rightarrow> obligation_record \<Rightarrow> (obligation_record \<Rightarrow> obligation_record) \<Rightarrow> json \<Rightarrow> ledger
     \<Rightarrow> ledger_error + ledger \<times> obligation_record" where
  "put_obligation E kind row change payload L =
     (let L' = write_obligation E kind row change payload L in
      attempt (the_obligation E L' (ob_id row)) (\<lambda>r. Inr (L', r)))"

definition closed_claim ::
  "obligation_claim \<Rightarrow> claim_disposition \<Rightarrow> string \<Rightarrow> string option \<Rightarrow> string option \<Rightarrow> claim_log_entry" where
  "closed_claim c disposition now proof' by' =
     \<lparr>le_requestId = oc_requestId c, le_holder = oc_holder c, le_generation = oc_generation c,
      le_expiresAt = oc_expiresAt c, le_disposition = disposition, le_at = now, le_proof = proof',
      le_supersededByRequest = by'\<rparr>"

definition log_claim ::
  "obligation_record \<Rightarrow> claim_disposition \<Rightarrow> string \<Rightarrow> string option \<Rightarrow> claim_log_entry list" where
  "log_claim row disposition now proof' = (case ob_claim row of
     None \<Rightarrow> ob_claimLog row
   | Some c \<Rightarrow> ob_claimLog row @ [closed_claim c disposition now proof' None])"

definition is_blank :: "string option \<Rightarrow> bool" where
  "is_blank v \<longleftrightarrow> (case v of None \<Rightarrow> True | Some s \<Rightarrow> js_blank s)"

subsection \<open>Claims\<close>

record claim_input =
  ci_obligationId :: string
  ci_requestId :: string
  ci_holder :: string
  ci_expiresAt :: string
  ci_expectedGeneration :: nat
  ci_supersedeProof :: "string option"

definition mechanical_without_authority :: "obligation_record \<Rightarrow> bool" where
  "mechanical_without_authority row \<longleftrightarrow>
     (case ob_nextAction row of Silas_mechanical _ \<Rightarrow> ob_authority row = None | _ \<Rightarrow> False)"

text \<open>Whether the row's present claim lets the request take or renew it.\<close>

definition check_claim_holder :: "env \<Rightarrow> claim_input \<Rightarrow> obligation_record \<Rightarrow> ledger_error + unit" where
  "check_claim_holder E input row = (case ob_claim row of
     None \<Rightarrow> Inr ()
   | Some c \<Rightarrow>
       if oc_requestId c \<noteq> ci_requestId input then
         (if \<not> (case oc_expiresAt c of None \<Rightarrow> False | Some t \<Rightarrow> t \<le> en_now E) then Inl (Claim_held (oc_requestId c))
          else if is_blank (ci_supersedeProof input) then Inl (Claim_held (oc_requestId c))
          else Inr ())
       else if oc_holder c \<noteq> ci_holder input then Inl (Claim_held (oc_requestId c))
       else Inr ())"

definition check_claim :: "env \<Rightarrow> claim_input \<Rightarrow> obligation_record \<Rightarrow> ledger_error + unit" where
  "check_claim E input row =
     (if ob_state row \<noteq> O_open \<and> ob_state row \<noteq> O_waiting then Inl (Bad_input ''only open/waiting'')
      else if ob_generation row \<noteq> ci_expectedGeneration input then Inl (Stale_continuation (ob_id row))
      else if mechanical_without_authority row then Inl (Bad_input ''mechanical action without authority'')
      else check_claim_holder E input row)"

definition superseded_claim :: "claim_input \<Rightarrow> obligation_record \<Rightarrow> obligation_claim option" where
  "superseded_claim input row = (case ob_claim row of
     None \<Rightarrow> None | Some c \<Rightarrow> if oc_requestId c \<noteq> ci_requestId input then Some c else None)"

definition claimed_log :: "env \<Rightarrow> claim_input \<Rightarrow> obligation_record \<Rightarrow> claim_log_entry list" where
  "claimed_log E input row = (case superseded_claim input row of
     None \<Rightarrow> ob_claimLog row
   | Some c \<Rightarrow> ob_claimLog row @ [closed_claim c Superseded_expired_reconciled (en_now E)
                  (ci_supersedeProof input) (Some (ci_requestId input))])"

definition claimObligation :: "env \<Rightarrow> claim_input \<Rightarrow> ledger \<Rightarrow> ledger_error + ledger \<times> obligation_record" where
  "claimObligation E input L =
     (if js_blank (ci_requestId input) then Inl (Bad_input ''requestId'')
      else if js_blank (ci_holder input) then Inl (Bad_input ''holder'')
      else
      attempt (lift_error Obligation_error (canonicalIsoTimestamp (en_plat E) (ci_expiresAt input) ''claim expiresAt'')) (\<lambda>expiresAt.
      attempt (the_obligation E L (ci_obligationId input)) (\<lambda>row.
      attempt (check_claim E input row) (\<lambda>_.
      let claim = \<lparr>oc_requestId = ci_requestId input, oc_holder = ci_holder input,
                   oc_generation = int (ob_generation row), oc_expiresAt = Some expiresAt\<rparr> in
      put_obligation E ''job.obligation-claimed'' row
        (\<lambda>r. r\<lparr>ob_claim := Some claim, ob_claimLog := claimed_log E input row, ob_updatedAt := en_now E\<rparr>)
        (JObj ([(''id'', JStr (ob_id row)), (''requestId'', JStr (ci_requestId input)),
                (''holder'', JStr (ci_holder input)), (''expiresAt'', JStr expiresAt)]
           @ (case superseded_claim input row of None \<Rightarrow> []
              | Some c \<Rightarrow> (''supersededExpired'', JStr (oc_requestId c))
                   # spread_some ''proof'' JStr (ci_supersedeProof input)))) L))))"

definition releaseClaim :: "env \<Rightarrow> string \<Rightarrow> string \<Rightarrow> ledger \<Rightarrow> ledger_error + ledger \<times> obligation_record" where
  "releaseClaim E i requestId L =
     attempt (the_obligation E L i) (\<lambda>row. case ob_claim row of
       None \<Rightarrow> Inl (Bad_input ''no claim to release'')
     | Some c \<Rightarrow>
         if oc_requestId c \<noteq> requestId then Inl (Claim_held (oc_requestId c))
         else put_obligation E ''job.obligation-claim-released'' row
                (\<lambda>r. r\<lparr>ob_claim := None, ob_claimLog := log_claim row Released (en_now E) None, ob_updatedAt := en_now E\<rparr>)
                (JObj [(''id'', JStr (ob_id row)), (''requestId'', JStr requestId)]) L)"

subsection \<open>Receipts\<close>

record receipt_input =
  ri_obligationId :: string
  ri_kind :: string
  ri_eventSeq :: rat
  ri_at :: "string option"

definition already_recorded :: "receipt_input \<Rightarrow> obligation_record \<Rightarrow> bool" where
  "already_recorded input row =
     list_ex (\<lambda>r. rr_kind r = ri_kind input \<and> of_int (rr_eventSeq r) = ri_eventSeq input) (ob_recordedReceipts row)"

text \<open>The correlation of an armed expectation against the event's payload.\<close>

definition carries :: "json \<Rightarrow> string \<Rightarrow> string \<Rightarrow> bool" where
  "carries payload key value \<longleftrightarrow> payload_get payload key = Some (JStr value)"

definition correlated :: "receipt_correlation option \<Rightarrow> json \<Rightarrow> bool" where
  "correlated correlation payload \<longleftrightarrow> (case correlation of
     None \<Rightarrow> True
   | Some c \<Rightarrow>
       (case rc_requestId c of None \<Rightarrow> True | Some r \<Rightarrow> carries payload ''request_id'' r)
       \<and> (case rc_minionId c of None \<Rightarrow> True | Some m \<Rightarrow> carries payload ''agentId'' m \<or> carries payload ''minion_id'' m))"

definition receipt_applied :: "receipt_input \<Rightarrow> obligation_record \<Rightarrow> event \<Rightarrow> bool" where
  "receipt_applied input row ev \<longleftrightarrow>
     correlated (ob_receiptCorrelation row) (er_payload ev) \<and> of_nat (ob_lastOriginSeq row) < ri_eventSeq input"

definition receipt_state :: "receipt_input \<Rightarrow> obligation_record \<Rightarrow> event \<Rightarrow> obligation_state" where
  "receipt_state input row ev =
     (if receipt_applied input row ev \<and> ob_state row = O_waiting \<and> ob_receiptKind row = Some (ri_kind input)
      then O_open else ob_state row)"

text \<open>The event a receipt cites must exist, have the claimed kind and sit on the obligation's job.\<close>

definition cited_event :: "ledger \<Rightarrow> string \<Rightarrow> rat \<Rightarrow> string \<Rightarrow> ledger_error + event" where
  "cited_event L jobId seq kind = (case getEvent L seq of
     None \<Rightarrow> Inl (Bad_input ''no such event'')
   | Some ev \<Rightarrow>
       if er_kind ev \<noteq> kind then Inl (Bad_input ''event kind'')
       else if er_jobId ev \<noteq> Some jobId then Inl (Bad_input ''event job'')
       else Inr ev)"

definition recordObligationReceipt ::
  "env \<Rightarrow> receipt_input \<Rightarrow> ledger \<Rightarrow> ledger_error + ledger \<times> obligation_record" where
  "recordObligationReceipt E input L =
     (if \<not> js_safe_int (ri_eventSeq input) \<or> ri_eventSeq input < 0 then Inl (Bad_input ''eventSeq'') else
      attempt (the_obligation E L (ri_obligationId input)) (\<lambda>row.
      if already_recorded input row then Inr (L, row) else
      attempt (cited_event L (ob_jobId row) (ri_eventSeq input) (ri_kind input)) (\<lambda>ev.
      let receipt = \<lparr>rr_kind = ri_kind input, rr_eventSeq = \<lfloor>ri_eventSeq input\<rfloor>,
                     rr_at = or_else (ri_at input) (en_now E), rr_applied = receipt_applied input row ev\<rparr>;
          state = receipt_state input row ev in
      put_obligation E ''job.obligation-receipt'' row
        (\<lambda>r. r\<lparr>ob_recordedReceipts := ob_recordedReceipts row @ [receipt],
               ob_lastOriginSeq := max (ob_lastOriginSeq r) (nat \<lfloor>ri_eventSeq input\<rfloor>),
               ob_state := state, ob_updatedAt := en_now E\<rparr>)
        (JObj ([(''id'', JStr (ob_id row)), (''receipt_kind'', JStr (ri_kind input)),
                (''event_seq'', JNum (ri_eventSeq input)), (''applied'', JBool (receipt_applied input row ev))]
           @ spread_if (\<not> correlated (ob_receiptCorrelation row) (er_payload ev))
               [(''correlation'', JStr ''mismatch'')]
           @ [(''from'', JStr (obligation_state_name (ob_state row))),
              (''to'', JStr (obligation_state_name state))])) L)))"

subsection \<open>The gate-duty lineage\<close>

lemma the_row_known:
  "getObligation E L i = Inr (Some r) \<Longrightarrow> i \<in> ob_id ` set (lg_obligations L)"
  by (auto simp: getObligation_def image_iff split: option.splits dest!: row_find_SomeD)

text \<open>The supersession walk of one root. \<open>seen\<close> holds the ids already visited.\<close>

function gate_walk :: "env \<Rightarrow> ledger \<Rightarrow> string \<Rightarrow> string \<Rightarrow> string list \<Rightarrow> ledger_error + bool" where
  "gate_walk E L target cursor seen =
     (if cursor \<in> set seen then Inl (Gate_duty ''cyclic'')
      else if cursor = target then Inr True
      else case getObligation E L cursor of
        Inl e \<Rightarrow> Inl e
      | Inr None \<Rightarrow> Inr False
      | Inr (Some r) \<Rightarrow> (case ob_settlement r of
            Some (Superseded (Some next) reason) \<Rightarrow> gate_walk E L target next (cursor # seen)
          | _ \<Rightarrow> Inr False))"
  by pat_completeness auto
termination
proof (relation "measure (\<lambda>(E, L, target, cursor, seen). card (ob_id ` set (lg_obligations L) - set seen))")
  show "wf (measure (\<lambda>(E, L, target, cursor, seen). card (ob_id ` set (lg_obligations L) - set seen)))"
    by simp
next
  fix E L target cursor seen found r s nxt reason
  assume "cursor \<notin> set seen" and "getObligation E L cursor = Inr found" and "found = Some r"
  then have "cursor \<in> ob_id ` set (lg_obligations L) - set seen" by (auto dest: the_row_known)
  then have "card (ob_id ` set (lg_obligations L) - set (cursor # seen)) < card (ob_id ` set (lg_obligations L) - set seen)"
    by (intro psubset_card_mono) auto
  then show "((E, L, target, nxt, cursor # seen), E, L, target, cursor, seen)
      \<in> measure (\<lambda>(E, L, target, cursor, seen). card (ob_id ` set (lg_obligations L) - set seen))"
    by simp
qed

declare gate_walk.simps [simp del]

fun gate_roots :: "env \<Rightarrow> ledger \<Rightarrow> string \<Rightarrow> event list \<Rightarrow> ledger_error + json option" where
  "gate_roots E L target [] = Inr None"
| "gate_roots E L target (owed # rest) =
     (case (payload_get (er_payload owed) ''obligation_id'', payload_get (er_payload owed) ''next_action'') of
        (Some (JStr start), Some action) \<Rightarrow>
          if payload_get action ''kind'' \<noteq> Some (JStr ''gru-decision'') then Inl (Gate_duty ''malformed'')
          else attempt (gate_walk E L target start []) (\<lambda>hit.
            if hit then Inr (Some action) else gate_roots E L target rest)
      | _ \<Rightarrow> Inl (Gate_duty ''malformed''))"

definition gate_owed_kinds :: "string list" where
  "gate_owed_kinds = [''silas.rebrief-current-gates-owed'', ''silas.directive-current-gates-owed'']"

definition currentGateDutyAction :: "env \<Rightarrow> ledger \<Rightarrow> string \<Rightarrow> ledger_error + json option" where
  "currentGateDutyAction E L i = attempt (getObligation E L i) (\<lambda>found. case found of
     None \<Rightarrow> Inr None
   | Some row \<Rightarrow> gate_roots E L i
       (filter (\<lambda>e. er_jobId e = Some (ob_jobId row) \<and> er_kind e \<in> set gate_owed_kinds) (lg_events L)))"

subsection \<open>The handback card\<close>

datatype card_mode = Any_card | Unacked_card | Active_card

fun card_mode_matches :: "card_mode \<Rightarrow> notification_record \<Rightarrow> bool" where
  "card_mode_matches Any_card n \<longleftrightarrow> True"
| "card_mode_matches Unacked_card n \<longleftrightarrow> nf_ackedAt n = None \<and> nf_resolvedAt n = None"
| "card_mode_matches Active_card n \<longleftrightarrow> nf_resolvedAt n = None"

text \<open>\<open>ORDER BY ts DESC, id LIMIT 1\<close>\<close>

definition card_before :: "notification_record \<Rightarrow> notification_record \<Rightarrow> bool" where
  "card_before a b \<longleftrightarrow> nf_ts b < nf_ts a \<or> (nf_ts a = nf_ts b \<and> nf_id a < nf_id b)"

fun first_card :: "notification_record list \<Rightarrow> notification_record option" where
  "first_card [] = None"
| "first_card (n # ns) = (case first_card ns of
     None \<Rightarrow> Some n | Some m \<Rightarrow> if card_before m n then Some m else Some n)"

definition findNotificationByKind :: "ledger \<Rightarrow> string \<Rightarrow> card_mode \<Rightarrow> notification_record option" where
  "findNotificationByKind L kind mode =
     first_card (filter (\<lambda>n. nf_kind n = kind \<and> card_mode_matches mode n) (lg_notifications L))"

definition getNotification :: "ledger \<Rightarrow> string \<Rightarrow> notification_record option" where
  "getNotification L i = row_find nf_id i (lg_notifications L)"

definition unanswered_owner_decision :: "notification_record \<Rightarrow> bool" where
  "unanswered_owner_decision n \<longleftrightarrow> nf_routing n = ''needs-owner'' \<and> nf_decision n \<noteq> None \<and> nf_decidedAt n = None"

definition resolveNotificationById ::
  "env \<Rightarrow> string \<Rightarrow> string \<Rightarrow> ledger \<Rightarrow> ledger_error + ledger \<times> notification_record option" where
  "resolveNotificationById E i by' L =
     (if js_blank by' then Inl (Bad_input ''resolution by'') else
      case getNotification L i of
        None \<Rightarrow> Inr (L, None)
      | Some current \<Rightarrow>
          if nf_resolvedAt current \<noteq> None then Inr (L, Some current)
          else if unanswered_owner_decision current then Inl (Decision_refusal ''undecided'')
          else let L' = appendEvent E ''notification.resolved'' (nf_agentId current) None
                 (JObj [(''id'', JStr i), (''by'', JStr by')])
                 (L\<lparr>lg_notifications := row_update nf_id i
                      (\<lambda>n. n\<lparr>nf_resolvedAt := Some (en_now E), nf_resolvedBy := Some by'\<rparr>) (lg_notifications L)\<rparr>)
               in Inr (L', getNotification L' i))"

definition resolveReportHandbackCard :: "env \<Rightarrow> string \<Rightarrow> string \<Rightarrow> ledger \<Rightarrow> ledger_error + ledger" where
  "resolveReportHandbackCard E jobId by' L =
     (case findNotificationByKind L (''silas.report-handback.'' @ jobId) Active_card of
        None \<Rightarrow> Inr L
      | Some posted \<Rightarrow> attempt (resolveNotificationById E (nf_id posted) by' L) (\<lambda>(L', _). Inr L'))"

subsection \<open>Settlement\<close>

fun settlement_evidence :: "settlement \<Rightarrow> (nat \<times> string) option" where
  "settlement_evidence (Executed_action action seq kind) = Some (seq, kind)"
| "settlement_evidence (Accepted_evidence gate seq kind) = Some (seq, kind)"
| "settlement_evidence _ = None"

fun settlement_kind :: "settlement \<Rightarrow> string" where
  "settlement_kind (Executed_action action seq kind) = ''executed-action''"
| "settlement_kind (Accepted_evidence gate seq kind) = ''accepted-evidence''"
| "settlement_kind (Superseded b reason) = ''superseded''"
| "settlement_kind (Cancelled reason) = ''cancelled''"
| "settlement_kind (Job_terminal status) = ''job-terminal''"

fun superseding_id :: "settlement \<Rightarrow> string option" where
  "superseding_id (Superseded b reason) = b"
| "superseding_id _ = None"

definition settlement_target :: "settlement \<Rightarrow> obligation_state" where
  "settlement_target s = (if settlement_evidence s \<noteq> None then O_settled else O_closed)"

fun decision_text :: "next_action \<Rightarrow> string option" where
  "decision_text (Gru_decision d) = Some d"
| "decision_text (Owner_decision d) = Some d"
| "decision_text _ = None"

text \<open>A gate duty passes only to another live obligation of the job that owes the same decision.\<close>

definition check_gate_recipient ::
  "env \<Rightarrow> ledger \<Rightarrow> obligation_record \<Rightarrow> json \<Rightarrow> obligation_record \<Rightarrow> ledger_error + unit" where
  "check_gate_recipient E L row duty recipient =
     (if ob_id recipient = ob_id row \<or> ob_jobId recipient \<noteq> ob_jobId row
         \<or> isObligationTerminal (ob_state recipient)
      then Inl (Gate_duty ''transfer'')
      else attempt (currentGateDutyAction E L (ob_id recipient)) (\<lambda>owed.
        if owed \<noteq> None then Inl (Gate_duty ''transfer'')
        else case decision_text (ob_nextAction recipient) of
          None \<Rightarrow> Inl (Gate_duty ''transfer'')
        | Some d \<Rightarrow> if payload_get duty ''decision'' \<noteq> Some (JStr d) then Inl (Gate_duty ''transfer'') else Inr ()))"

fun check_gate_settlement ::
  "env \<Rightarrow> ledger \<Rightarrow> obligation_record \<Rightarrow> json \<Rightarrow> settlement \<Rightarrow> ledger_error + unit" where
  "check_gate_settlement E L row duty (Job_terminal status) =
     (case getJob L (ob_jobId row) of
        None \<Rightarrow> Inl (Gate_duty ''terminal'')
      | Some job \<Rightarrow> if \<not> isJobTerminal (jb_status job) \<or> jb_status job \<noteq> status
                    then Inl (Gate_duty ''terminal'') else Inr ())"
| "check_gate_settlement E L row duty (Superseded None reason) = Inl (Gate_duty ''transfer'')"
| "check_gate_settlement E L row duty (Superseded (Some i) reason) =
     attempt (getObligation E L i) (\<lambda>found. case found of
       None \<Rightarrow> Inl (Gate_duty ''transfer'')
     | Some recipient \<Rightarrow> check_gate_recipient E L row duty recipient)"
| "check_gate_settlement E L row duty (Executed_action action seq kind) =
     (if en_gateDutyCompleted E L row duty seq then Inr () else Inl (Gate_duty ''not completed''))"
| "check_gate_settlement E L row duty (Accepted_evidence gate seq kind) =
     (if en_gateDutyCompleted E L row duty seq then Inr () else Inl (Gate_duty ''not completed''))"
| "check_gate_settlement E L row duty (Cancelled reason) = Inl (Gate_duty ''prose'')"

definition check_gate_duty :: "env \<Rightarrow> ledger \<Rightarrow> obligation_record \<Rightarrow> settlement \<Rightarrow> ledger_error + unit" where
  "check_gate_duty E L row s = attempt (currentGateDutyAction E L (ob_id row)) (\<lambda>owed. case owed of
     None \<Rightarrow> Inr () | Some duty \<Rightarrow> check_gate_settlement E L row duty s)"

text \<open>The code tests the job before the kind, unlike a receipt; both refuse.\<close>

definition check_settlement_evidence :: "ledger \<Rightarrow> obligation_record \<Rightarrow> settlement \<Rightarrow> ledger_error + unit" where
  "check_settlement_evidence L row s = (case settlement_evidence s of
     None \<Rightarrow> Inr ()
   | Some (seq, kind) \<Rightarrow> (case getEvent L (of_nat seq) of
       None \<Rightarrow> Inl (Bad_input ''no such event'')
     | Some ev \<Rightarrow>
         if er_jobId ev \<noteq> Some (ob_jobId row) then Inl (Bad_input ''event job'')
         else if er_kind ev \<noteq> kind then Inl (Bad_input ''event kind'')
         else Inr ()))"

definition check_settlement_claim :: "obligation_record \<Rightarrow> settlement \<Rightarrow> string option \<Rightarrow> ledger_error + unit" where
  "check_settlement_claim row s requestId = (case ob_claim row of
     None \<Rightarrow> Inr ()
   | Some c \<Rightarrow> if Some (oc_requestId c) \<noteq> requestId \<and> settlement_evidence s \<noteq> None
               then Inl (Claim_held (oc_requestId c)) else Inr ())"

definition check_settlement ::
  "env \<Rightarrow> ledger \<Rightarrow> obligation_record \<Rightarrow> settlement \<Rightarrow> string option \<Rightarrow> ledger_error + unit" where
  "check_settlement E L row s requestId =
     attempt (check_gate_duty E L row s) (\<lambda>_.
     attempt (lift_error State_error (assertObligationTransition (ob_state row) (settlement_target s))) (\<lambda>_.
     attempt (check_settlement_evidence L row s) (\<lambda>_.
     check_settlement_claim row s requestId)))"

definition settled_log :: "env \<Rightarrow> obligation_record \<Rightarrow> settlement \<Rightarrow> claim_log_entry list" where
  "settled_log E row s = log_claim row (if settlement_target s = O_closed then Terminal_close else Released)
     (en_now E) (Some (''settlement: '' @ settlement_kind s))"

definition settled_row :: "env \<Rightarrow> obligation_record \<Rightarrow> settlement \<Rightarrow> obligation_record \<Rightarrow> obligation_record" where
  "settled_row E row s r = r\<lparr>ob_state := settlement_target s, ob_settlement := Some s,
      ob_supersededBy := (case superseding_id s of None \<Rightarrow> ob_supersededBy r | Some b \<Rightarrow> Some b),
      ob_claim := None, ob_claimLog := settled_log E row s, ob_updatedAt := en_now E\<rparr>"

definition settle_write :: "env \<Rightarrow> obligation_record \<Rightarrow> settlement \<Rightarrow> ledger \<Rightarrow> ledger" where
  "settle_write E row s = write_obligation E ''job.obligation-settled'' row (settled_row E row s)
     (JObj [(''id'', JStr (ob_id row)), (''from'', JStr (obligation_state_name (ob_state row))),
        (''to'', JStr (obligation_state_name (settlement_target s))), (''settlement'', settlement_json s)])"

definition answer_card :: "env \<Rightarrow> obligation_record \<Rightarrow> ledger \<Rightarrow> ledger_error + ledger" where
  "answer_card E row L = (if ob_incidentKey row = reportIncidentKey (ob_jobId row)
     then resolveReportHandbackCard E (ob_jobId row) ''code'' L else Inr L)"

definition settleObligation ::
  "env \<Rightarrow> string \<Rightarrow> settlement \<Rightarrow> string option \<Rightarrow> ledger \<Rightarrow> ledger_error + ledger \<times> obligation_record" where
  "settleObligation E i s requestId L =
     attempt (the_obligation E L i) (\<lambda>row.
     attempt (check_settlement E L row s requestId) (\<lambda>_.
     attempt (answer_card E row (settle_write E row s L)) (\<lambda>L2.
     attempt (the_obligation E L2 (ob_id row)) (\<lambda>r. Inr (L2, r)))))"

subsection \<open>Arming, suspension, resumption\<close>

definition check_arming_claim :: "obligation_record \<Rightarrow> string option \<Rightarrow> ledger_error + unit" where
  "check_arming_claim row requestId = (case ob_claim row of
     None \<Rightarrow> Inr ()
   | Some c \<Rightarrow> if Some (oc_requestId c) \<noteq> requestId then Inl (Claim_held (oc_requestId c)) else Inr ())"

record arming_input =
  am_obligationId :: string
  am_receiptKind :: string
  am_deadlineAt :: string
  am_correlation :: "receipt_correlation option"
  am_requestId :: "string option"
  am_reason :: "string option"

definition armReceiptExpectation ::
  "env \<Rightarrow> arming_input \<Rightarrow> ledger \<Rightarrow> ledger_error + ledger \<times> obligation_record" where
  "armReceiptExpectation E input L =
     (if js_blank (am_receiptKind input) then Inl (Bad_input ''receiptKind'') else
      attempt (lift_error Obligation_error (canonicalIsoTimestamp (en_plat E) (am_deadlineAt input) ''arming deadlineAt'')) (\<lambda>deadlineAt.
      attempt (the_obligation E L (am_obligationId input)) (\<lambda>row.
      attempt (lift_error State_error (assertObligationTransition (ob_state row) O_waiting)) (\<lambda>_.
      attempt (check_arming_claim row (am_requestId input)) (\<lambda>_.
      put_obligation E ''job.obligation-state'' row
        (\<lambda>r. r\<lparr>ob_state := O_waiting, ob_receiptKind := Some (am_receiptKind input), ob_deadlineAt := Some deadlineAt,
               ob_receiptCorrelation := am_correlation input, ob_updatedAt := en_now E\<rparr>)
        (JObj ([(''id'', JStr (ob_id row)), (''from'', JStr (obligation_state_name (ob_state row))), (''to'', JStr ''waiting''),
                (''receipt_kind'', JStr (am_receiptKind input)), (''deadline_at'', JStr deadlineAt)]
           @ spread_some ''correlation'' correlation_json (am_correlation input)
           @ spread_some ''reason'' JStr (am_reason input))) L)))))"

definition set_obligation_state ::
  "env \<Rightarrow> string \<Rightarrow> obligation_state \<Rightarrow> string \<Rightarrow> ledger \<Rightarrow> ledger_error + ledger \<times> obligation_record" where
  "set_obligation_state E i to reason L =
     attempt (the_obligation E L i) (\<lambda>row.
     attempt (lift_error State_error (assertObligationTransition (ob_state row) to)) (\<lambda>_.
     put_obligation E ''job.obligation-state'' row
       (\<lambda>r. r\<lparr>ob_state := to, ob_updatedAt := en_now E\<rparr>)
       (JObj [(''id'', JStr (ob_id row)), (''from'', JStr (obligation_state_name (ob_state row))),
          (''to'', JStr (obligation_state_name to)), (''reason'', JStr reason)]) L))"

definition suspendObligation ::
  "env \<Rightarrow> string \<Rightarrow> string \<Rightarrow> ledger \<Rightarrow> ledger_error + ledger \<times> obligation_record" where
  "suspendObligation E i reason L = set_obligation_state E i O_suspended reason L"

definition resumeObligation ::
  "env \<Rightarrow> string \<Rightarrow> string \<Rightarrow> ledger \<Rightarrow> ledger_error + ledger \<times> obligation_record" where
  "resumeObligation E i reason L = set_obligation_state E i O_open reason L"

subsection \<open>Incarnations\<close>

definition of_tuple :: "string \<Rightarrow> string \<Rightarrow> string \<Rightarrow> obligation_record \<Rightarrow> bool" where
  "of_tuple jobId step key row \<longleftrightarrow> ob_jobId row = jobId \<and> ob_logicalStep row = step \<and> ob_incidentKey row = key"

definition live :: "obligation_record \<Rightarrow> bool" where
  "live row \<longleftrightarrow> \<not> isObligationTerminal (ob_state row)"

definition read_newest ::
  "env \<Rightarrow> ledger \<Rightarrow> (obligation_record \<Rightarrow> bool) \<Rightarrow> ledger_error + obligation_record option" where
  "read_newest E L p = (case newest p (lg_obligations L) of
     None \<Rightarrow> Inr None | Some row \<Rightarrow> attempt (obligationFromRow (en_plat E) row) (\<lambda>r. Inr (Some r)))"

definition activeIncarnation ::
  "env \<Rightarrow> ledger \<Rightarrow> string \<Rightarrow> string \<Rightarrow> string \<Rightarrow> ledger_error + obligation_record option" where
  "activeIncarnation E L jobId step key = read_newest E L (\<lambda>r. of_tuple jobId step key r \<and> live r)"

definition latestIncarnation ::
  "env \<Rightarrow> ledger \<Rightarrow> string \<Rightarrow> string \<Rightarrow> string \<Rightarrow> ledger_error + obligation_record option" where
  "latestIncarnation E L jobId step key = read_newest E L (of_tuple jobId step key)"

definition newestIncarnationWatermark :: "ledger \<Rightarrow> string \<Rightarrow> string \<Rightarrow> string \<Rightarrow> nat option" where
  "newestIncarnationWatermark L jobId step key =
     max_of ob_lastOriginSeq (filter (of_tuple jobId step key) (lg_obligations L))"

definition currentJobGeneration :: "ledger \<Rightarrow> string \<Rightarrow> nat" where
  "currentJobGeneration L jobId =
     or_else (max_of ob_generation (filter (\<lambda>r. ob_jobId r = jobId) (lg_obligations L))) 0"

definition incarnation_name :: "string \<Rightarrow> nat \<Rightarrow> string" where
  "incarnation_name base n = (if n = 1 then base else base @ ''#'' @ nat_str n)"

lemma incarnation_name_inj: "0 < m \<Longrightarrow> 0 < n \<Longrightarrow> incarnation_name base m = incarnation_name base n \<longleftrightarrow> m = n"
  by (auto simp: incarnation_name_def)

lemma finite_taken: "finite {m. n \<le> m \<and> incarnation_name base m \<in> set ids}" (is "finite ?taken")
proof -
  have "inj_on (incarnation_name base) (?taken - {0})"
    by (auto simp: inj_on_def incarnation_name_inj)
  moreover have "finite (incarnation_name base ` (?taken - {0}))"
    by (rule finite_subset [of _ "set ids"]) auto
  ultimately have "finite (?taken - {0})" by (rule finite_imageD [rotated])
  then show ?thesis by (simp only: finite_Diff2 finite.emptyI finite_insert)
qed

text \<open>The search for a free name: \<open>candidate\<close> is always the name of \<open>n\<close>.\<close>

function incarnation_search :: "env \<Rightarrow> ledger \<Rightarrow> string \<Rightarrow> nat \<Rightarrow> ledger_error + string" where
  "incarnation_search E L base n = (case getObligation E L (incarnation_name base n) of
     Inl e \<Rightarrow> Inl e
   | Inr None \<Rightarrow> Inr (incarnation_name base n)
   | Inr (Some row) \<Rightarrow> incarnation_search E L base (Suc n))"
  by pat_completeness auto
termination
proof (relation "measure (\<lambda>(E, L, base, n). card {m. n \<le> m \<and> incarnation_name base m \<in> set (map ob_id (lg_obligations L))})")
  show "wf (measure (\<lambda>(E, L, base, n). card {m. n \<le> m \<and> incarnation_name base m \<in> set (map ob_id (lg_obligations L))}))"
    by simp
next
  fix E L base n found row
  assume "getObligation E L (incarnation_name base n) = Inr found" and "found = Some row"
  then have taken: "incarnation_name base n \<in> set (map ob_id (lg_obligations L))" by (auto dest!: the_row_known)
  let ?taken = "\<lambda>k. {m. k \<le> m \<and> incarnation_name base m \<in> set (map ob_id (lg_obligations L))}"
  have "?taken (Suc n) \<subset> ?taken n"
  proof (rule psubsetI)
    show "?taken (Suc n) \<subseteq> ?taken n" by auto
    show "?taken (Suc n) \<noteq> ?taken n"
    proof
      assume "?taken (Suc n) = ?taken n"
      then have "n \<in> ?taken (Suc n)" using taken by blast
      then show False by simp
    qed
  qed
  then have "card (?taken (Suc n)) < card (?taken n)" by (rule psubset_card_mono [OF finite_taken])
  then show "((E, L, base, Suc n), E, L, base, n)
      \<in> measure (\<lambda>(E, L, base, n). card {m. n \<le> m \<and> incarnation_name base m \<in> set (map ob_id (lg_obligations L))})"
    by simp
qed

declare incarnation_search.simps [simp del]

definition nextIncarnationId :: "env \<Rightarrow> ledger \<Rightarrow> string \<Rightarrow> ledger_error + string" where
  "nextIncarnationId E L base = incarnation_search E L base 1"

text \<open>INSERT with the table's two constraints: the primary key and the partial unique index
  \<open>idx_job_obligations_active_tuple\<close> of \<^verbatim>\<open>src/src/ledger/db.ts\<close>.\<close>

definition insert_row :: "obligation_record \<Rightarrow> ledger \<Rightarrow> ledger_error + ledger" where
  "insert_row row L =
     (if list_ex (\<lambda>r. ob_id r = ob_id row) (lg_obligations L) then Inl (Bad_input ''PRIMARY KEY'')
      else if list_ex (\<lambda>r. of_tuple (ob_jobId row) (ob_logicalStep row) (ob_incidentKey row) r \<and> live r) (lg_obligations L)
      then Inl (Bad_input ''idx_job_obligations_active_tuple'')
      else Inr (L\<lparr>lg_obligations := lg_obligations L @ [row]\<rparr>))"

definition fresh_row :: "env \<Rightarrow> string \<Rightarrow> resolved_obligation \<Rightarrow> nat \<Rightarrow> nat \<Rightarrow> obligation_record" where
  "fresh_row E i resolved generation observedAtSeq =
     \<lparr>ob_id = i, ob_jobId = ro_jobId resolved, ob_logicalStep = logical_step_name (ro_logicalStep resolved),
      ob_incidentKey = ro_incidentKey resolved, ob_generation = generation, ob_category = ro_category resolved,
      ob_nextAction = ro_nextAction resolved, ob_wakeCondition = ro_wakeCondition resolved,
      ob_authority = ro_authority resolved, ob_firingRule = ro_firingRule resolved,
      ob_description = ro_description resolved, ob_state = O_open, ob_settlement = None, ob_dueAt = ro_dueAt resolved,
      ob_receiptKind = ro_receiptKind resolved, ob_deadlineAt = ro_deadlineAt resolved, ob_recordedReceipts = [],
      ob_observations = 1, ob_planRevision = 0, ob_firstOriginSeq = observedAtSeq, ob_lastOriginSeq = observedAtSeq,
      ob_supersededBy = None, ob_claim = None, ob_claimLog = [],
      ob_receiptCorrelation = ro_receiptCorrelation resolved, ob_createdAt = en_now E, ob_updatedAt = en_now E\<rparr>"

definition insertObligationRow ::
  "env \<Rightarrow> string \<Rightarrow> resolved_obligation \<Rightarrow> nat \<Rightarrow> nat \<Rightarrow> ledger \<Rightarrow> ledger_error + ledger" where
  "insertObligationRow E i resolved generation observedAtSeq L =
     insert_row (fresh_row E i resolved generation observedAtSeq) L"

definition watermark_of :: "blocker_context \<Rightarrow> nat" where
  "watermark_of context = nat \<lfloor>bc_observedAtSeq context\<rfloor>"

definition plan_changed :: "obligation_record \<Rightarrow> resolved_obligation \<Rightarrow> bool" where
  "plan_changed existing resolved \<longleftrightarrow>
     categoryKey (ob_category existing) \<noteq> categoryKey (ro_category resolved)
     \<or> ob_nextAction existing \<noteq> ro_nextAction resolved
     \<or> ob_wakeCondition existing \<noteq> ro_wakeCondition resolved
     \<or> ob_authority existing \<noteq> ro_authority resolved
     \<or> ob_firingRule existing \<noteq> ro_firingRule resolved"

definition first_some :: "'a option \<Rightarrow> 'a option \<Rightarrow> 'a option" where
  "first_some v w = (case v of None \<Rightarrow> w | Some x \<Rightarrow> Some x)"

definition coalesced_row ::
  "env \<Rightarrow> obligation_record \<Rightarrow> resolved_obligation \<Rightarrow> nat \<Rightarrow> obligation_record \<Rightarrow> obligation_record" where
  "coalesced_row E existing resolved seq r =
     (let changed = plan_changed existing resolved;
          revision = (if changed then Suc (ob_planRevision existing) else ob_planRevision existing) in
      r\<lparr>ob_observations := Suc (ob_observations r), ob_lastOriginSeq := seq,
        ob_description := first_some (ro_description resolved) (ob_description r),
        ob_category := ro_category resolved, ob_nextAction := ro_nextAction resolved,
        ob_wakeCondition := ro_wakeCondition resolved, ob_authority := ro_authority resolved,
        ob_firingRule := ro_firingRule resolved, ob_dueAt := first_some (ro_dueAt resolved) (ob_dueAt r),
        ob_receiptKind := first_some (ro_receiptKind resolved) (ob_receiptKind r),
        ob_deadlineAt := first_some (ro_deadlineAt resolved) (ob_deadlineAt r),
        ob_planRevision := revision,
        ob_claim := (if changed then None else ob_claim existing),
        ob_claimLog := (if changed
          then log_claim existing Plan_revision (en_now E) (Some (''plan revision '' @ nat_str revision))
          else ob_claimLog existing),
        ob_updatedAt := en_now E\<rparr>)"

definition coalesce_payload :: "obligation_record \<Rightarrow> resolved_obligation \<Rightarrow> nat \<Rightarrow> json" where
  "coalesce_payload existing resolved seq = JObj (
     [(''id'', JStr (ob_id existing)), (''observations'', JNum (of_nat (Suc (ob_observations existing)))),
      (''last_origin_seq'', JNum (of_nat seq))]
     @ spread_some ''description'' JStr (ro_description resolved)
     @ [(''changed'', JArr (map JStr ((if plan_changed existing resolved then [''plan''] else [])
          @ (if ob_dueAt existing \<noteq> ro_dueAt resolved \<or> ob_deadlineAt existing \<noteq> ro_deadlineAt resolved
             then [''bounds''] else []))))]
     @ spread_if (plan_changed existing resolved)
         [(''plan_revision'', JNum (of_nat (Suc (ob_planRevision existing)))),
          (''claim_fenced'', JBool (ob_claim existing \<noteq> None))])"

definition coalesceObservation ::
  "env \<Rightarrow> obligation_record \<Rightarrow> resolved_obligation \<Rightarrow> nat \<Rightarrow> ledger \<Rightarrow> ledger_error + ledger \<times> obligation_record" where
  "coalesceObservation E existing resolved seq L =
     (if seq \<le> ob_lastOriginSeq existing
      then Inr (appendEvent E ''job.obligation-stale-observation'' None (Some (ob_jobId existing))
             (JObj [(''id'', JStr (ob_id existing)), (''observed_at_seq'', JNum (of_nat seq)),
                (''newest_watermark'', JNum (of_nat (ob_lastOriginSeq existing)))]) L, existing)
      else put_obligation E ''job.obligation-updated'' existing (coalesced_row E existing resolved seq)
             (coalesce_payload existing resolved seq) L)"

definition check_sealed_plan ::
  "env \<Rightarrow> ledger \<Rightarrow> obligation_record \<Rightarrow> resolved_obligation \<Rightarrow> ledger_error + unit" where
  "check_sealed_plan E L existing resolved =
     attempt (currentGateDutyAction E L (ob_id existing)) (\<lambda>owed.
     if owed \<noteq> None \<and> ob_nextAction existing \<noteq> ro_nextAction resolved then Inl (Gate_duty ''sealed plan'') else Inr ())"

definition recorded_payload :: "string \<Rightarrow> resolved_obligation \<Rightarrow> nat \<Rightarrow> (string \<times> json) list \<Rightarrow> json" where
  "recorded_payload i resolved generation extra = JObj (
     [(''id'', JStr i), (''generation'', JNum (of_nat generation)),
      (''category'', JStr (categoryKey (ro_category resolved))),
      (''next_action'', next_action_json (ro_nextAction resolved)), (''firing_rule'', JStr (ro_firingRule resolved)),
      (''authority'', or_null authority_json (ro_authority resolved))] @ extra
     @ [(''description'', or_null JStr (ro_description resolved))])"

definition open_incarnation ::
  "env \<Rightarrow> resolved_obligation \<Rightarrow> nat \<Rightarrow> (string \<times> json) list \<Rightarrow> ledger \<Rightarrow> ledger_error + ledger \<times> obligation_record" where
  "open_incarnation E resolved seq extra L =
     attempt (nextIncarnationId E L (obligationId (ro_jobId resolved) (ro_logicalStep resolved) (ro_incidentKey resolved))) (\<lambda>i.
     let generation = Suc (currentJobGeneration L (ro_jobId resolved)) in
     attempt (insertObligationRow E i resolved generation seq L) (\<lambda>L1.
     let L2 = appendEvent E ''job.obligation-recorded'' None (Some (ro_jobId resolved))
           (recorded_payload i resolved generation extra) L1 in
     attempt (the_obligation E L2 i) (\<lambda>r. Inr (L2, r))))"

definition stale_tuple_payload :: "resolved_obligation \<Rightarrow> nat \<Rightarrow> nat \<Rightarrow> json" where
  "stale_tuple_payload resolved seq watermark = JObj [(''incident_key'', JStr (ro_incidentKey resolved)),
     (''logical_step'', JStr (logical_step_name (ro_logicalStep resolved))),
     (''observed_at_seq'', JNum (of_nat seq)), (''newest_watermark'', JNum (of_nat watermark))]"

definition applyBlockedObservation ::
  "env \<Rightarrow> string \<Rightarrow> blocker_context \<Rightarrow> ledger \<Rightarrow> ledger_error + ledger \<times> obligation_record" where
  "applyBlockedObservation E jobId context L =
     attempt (lift_error Obligation_error (resolveObligation (en_plat E) context jobId)) (\<lambda>resolved.
     let step = logical_step_name (ro_logicalStep resolved); key = ro_incidentKey resolved; seq = watermark_of context in
     attempt (activeIncarnation E L jobId step key) (\<lambda>active. case active of
       Some existing \<Rightarrow>
         attempt (check_sealed_plan E L existing resolved) (\<lambda>_. coalesceObservation E existing resolved seq L)
     | None \<Rightarrow> (case newestIncarnationWatermark L jobId step key of
           None \<Rightarrow> open_incarnation E resolved seq [] L
         | Some watermark \<Rightarrow>
             if seq \<le> watermark
             then attempt (latestIncarnation E L jobId step key) (\<lambda>latest. case latest of
               None \<Rightarrow> Inl (Record_not_found key)
             | Some row \<Rightarrow> Inr (appendEvent E ''job.obligation-stale-observation'' None (Some jobId)
                               (stale_tuple_payload resolved seq watermark) L, row))
             else open_incarnation E resolved seq [] L)))"

definition recordBlockedObservation ::
  "env \<Rightarrow> string \<Rightarrow> blocker_context \<Rightarrow> ledger \<Rightarrow> ledger_error + ledger \<times> obligation_record" where
  "recordBlockedObservation E jobId context L =
     (if getJob L jobId = None then Inl (Record_not_found jobId) else applyBlockedObservation E jobId context L)"

subsection \<open>What a read returns\<close>

text \<open>The part of a row the codecs cannot change.\<close>

definition debt_part :: "obligation_record \<Rightarrow> obligation_record" where
  "debt_part r = r\<lparr>ob_settlement := None, ob_recordedReceipts := [], ob_claim := None, ob_claimLog := [],
     ob_receiptCorrelation := None\<rparr>"

lemma next_action_reread: "parseNextAction (next_action_json a) = Inr b \<Longrightarrow> b = a"
  by (cases a) (auto simp: parseNextAction_def codec_simps split: if_splits)

lemma wake_condition_reread: "parseWakeCondition (wake_condition_json a) = Inr b \<Longrightarrow> b = a"
  by (cases a) (auto simp: parseWakeCondition_def codec_simps split: if_splits)

lemma authority_reread: "parseAuthority (map_option authority_json a) = Inr b \<Longrightarrow> b = a"
  by (cases a; cases "the a") (auto simp: parseAuthority_def codec_simps split: if_splits)

lemma obligationFromRow_Inr:
  assumes "obligationFromRow plat row = Inr r"
  shows "debt_part r = debt_part row"
    and "parseClaim plat (map_option claim_json (ob_claim row)) = Inr (ob_claim r)"
    and "parseClaimLog plat (JArr (map claim_log_entry_json (ob_claimLog row))) = Inr (ob_claimLog r)"
    and "ob_settlement r = None \<longleftrightarrow> ob_settlement row = None"
    and "ob_settlement row = Some s \<Longrightarrow> \<exists>s'. ob_settlement r = Some s' \<and> parseSettlement (settlement_json s) = Inr s'"
proof -
  from assms obtain category nextAction wake auth settlement receipts claim log correlation where
    c: "parseCategory (category_json (ob_category row)) = Inr category"
    and n: "parseNextAction (next_action_json (ob_nextAction row)) = Inr nextAction"
    and w: "parseWakeCondition (wake_condition_json (ob_wakeCondition row)) = Inr wake"
    and a: "parseAuthority (map_option authority_json (ob_authority row)) = Inr auth"
    and s: "(case ob_settlement row of None \<Rightarrow> Inr None
        | Some s \<Rightarrow> attempt (parseSettlement (settlement_json s)) (\<lambda>s'. Inr (Some s'))) = Inr settlement"
    and cl: "parseClaim plat (map_option claim_json (ob_claim row)) = Inr claim"
    and lg: "parseClaimLog plat (JArr (map claim_log_entry_json (ob_claimLog row))) = Inr log"
    and r: "r = row\<lparr>ob_category := category, ob_nextAction := nextAction, ob_wakeCondition := wake,
               ob_authority := auth, ob_settlement := settlement, ob_recordedReceipts := receipts,
               ob_claim := claim, ob_claimLog := log, ob_receiptCorrelation := correlation\<rparr>"
    by (auto simp: obligationFromRow_def attempt_Inr_iff)
  have "category = ob_category row" using c by (simp add: parseCategory_encode)
  moreover have "nextAction = ob_nextAction row" by (rule next_action_reread [OF n])
  moreover have "wake = ob_wakeCondition row" by (rule wake_condition_reread [OF w])
  moreover have "auth = ob_authority row" by (rule authority_reread [OF a])
  ultimately show "debt_part r = debt_part row" by (simp add: r debt_part_def)
  show "parseClaim plat (map_option claim_json (ob_claim row)) = Inr (ob_claim r)"
    and "parseClaimLog plat (JArr (map claim_log_entry_json (ob_claimLog row))) = Inr (ob_claimLog r)"
    using cl lg by (simp_all add: r)
  show "ob_settlement r = None \<longleftrightarrow> ob_settlement row = None"
    and "ob_settlement row = Some s \<Longrightarrow> \<exists>s'. ob_settlement r = Some s' \<and> parseSettlement (settlement_json s) = Inr s'"
    using s by (auto simp: r attempt_Inr_iff split: option.splits)
qed

lemma debt_part_fields:
  assumes "debt_part r = debt_part s"
  shows "ob_id r = ob_id s" "ob_jobId r = ob_jobId s" "ob_logicalStep r = ob_logicalStep s"
    "ob_incidentKey r = ob_incidentKey s" "ob_generation r = ob_generation s" "ob_state r = ob_state s"
    "ob_nextAction r = ob_nextAction s" "ob_authority r = ob_authority s" "ob_firstOriginSeq r = ob_firstOriginSeq s"
    "ob_lastOriginSeq r = ob_lastOriginSeq s" "ob_category r = ob_category s" "ob_createdAt r = ob_createdAt s"
    "ob_receiptKind r = ob_receiptKind s" "ob_planRevision r = ob_planRevision s"
    "ob_observations r = ob_observations s" "ob_firingRule r = ob_firingRule s" "ob_wakeCondition r = ob_wakeCondition s"
    "ob_deadlineAt r = ob_deadlineAt s"
  using assms by (cases r; cases s; simp add: debt_part_def)+

lemmas read_fields = debt_part_fields [OF obligationFromRow_Inr(1)]

lemma the_obligation_Inr:
  "the_obligation E L i = Inr row \<longleftrightarrow>
     (\<exists>r. row_find ob_id i (lg_obligations L) = Some r \<and> obligationFromRow (en_plat E) r = Inr row)"
  by (auto simp: the_obligation_def getObligation_def attempt_Inr_iff split: option.splits)

lemma the_obligation_id: "the_obligation E L i = Inr row \<Longrightarrow> ob_id row = i"
  by (auto simp: the_obligation_Inr read_fields dest!: row_find_SomeD)

lemma getObligation_Some:
  "getObligation E L i = Inr (Some row) \<longleftrightarrow> the_obligation E L i = Inr row"
  by (auto simp: the_obligation_def attempt_Inr_iff split: option.splits)

lemma getObligation_None: "getObligation E L i = Inr None \<longleftrightarrow> i \<notin> ob_id ` set (lg_obligations L)"
  by (auto simp: getObligation_def row_find_None_iff attempt_Inr_iff image_iff split: option.splits dest!: row_find_SomeD)

lemma live_simps: "live r \<longleftrightarrow> ob_state r \<noteq> O_settled \<and> ob_state r \<noteq> O_closed"
  by (auto simp: live_def)

subsection \<open>The debt machine\<close>

text \<open>What the store promises of one obligation row under any single write.\<close>

definition frozen_part :: "obligation_record \<Rightarrow> obligation_record" where
  "frozen_part r = r\<lparr>ob_recordedReceipts := [], ob_lastOriginSeq := 0, ob_updatedAt := []\<rparr>"

definition same_identity :: "obligation_record \<Rightarrow> obligation_record \<Rightarrow> bool" where
  "same_identity r r' \<longleftrightarrow> ob_id r' = ob_id r \<and> ob_jobId r' = ob_jobId r \<and> ob_logicalStep r' = ob_logicalStep r
     \<and> ob_incidentKey r' = ob_incidentKey r \<and> ob_generation r' = ob_generation r
     \<and> ob_firstOriginSeq r' = ob_firstOriginSeq r \<and> ob_createdAt r' = ob_createdAt r"

definition settles :: "obligation_record \<Rightarrow> obligation_record \<Rightarrow> bool" where
  "settles r r' \<longleftrightarrow> live r \<and> ob_claim r' = None \<and> (\<exists>s. ob_settlement r' = Some s \<and> ob_state r' = settlement_target s)"

definition log_grows :: "platform \<Rightarrow> obligation_record \<Rightarrow> obligation_record \<Rightarrow> bool" where
  "log_grows plat r r' \<longleftrightarrow> ob_claimLog r' = ob_claimLog r
     \<or> (\<exists>x es. obligationFromRow plat r = Inr x \<and> ob_claimLog r' = ob_claimLog x @ es)"

definition debt_step :: "platform \<Rightarrow> obligation_record \<Rightarrow> obligation_record \<Rightarrow> bool" where
  "debt_step plat r r' \<longleftrightarrow> same_identity r r'
     \<and> (ob_state r' = ob_state r \<or> ob_state r' \<in> set (the (OBLIGATION_TRANSITIONS (ob_state r))))
     \<and> (settles r r' \<or> (ob_settlement r' = ob_settlement r \<and> (live r' \<longleftrightarrow> live r)))
     \<and> (\<not> live r \<longrightarrow> frozen_part r' = frozen_part r)
     \<and> ob_lastOriginSeq r \<le> ob_lastOriginSeq r' \<and> ob_observations r \<le> ob_observations r'
     \<and> ob_planRevision r \<le> ob_planRevision r'
     \<and> (mechanical_without_authority r' \<longrightarrow> mechanical_without_authority r)
     \<and> log_grows plat r r'"

definition readable :: "platform \<Rightarrow> obligation_record \<Rightarrow> bool" where
  "readable plat r \<longleftrightarrow> (\<exists>x. obligationFromRow plat r = Inr x)"

definition fresh_debt :: "ledger \<Rightarrow> obligation_record \<Rightarrow> bool" where
  "fresh_debt L r \<longleftrightarrow> (\<forall>x\<in>set (lg_obligations L). ob_id x \<noteq> ob_id r
       \<and> \<not> (of_tuple (ob_jobId r) (ob_logicalStep r) (ob_incidentKey r) x \<and> live x))
     \<and> ob_state r = O_open \<and> ob_settlement r = None \<and> ob_claim r = None \<and> ob_claimLog r = []
     \<and> ob_firstOriginSeq r = ob_lastOriginSeq r \<and> \<not> mechanical_without_authority r
     \<and> isObligationLogicalStep (ob_logicalStep r)"

inductive debt_change :: "platform \<Rightarrow> ledger \<Rightarrow> ledger \<Rightarrow> bool" for plat :: platform where
  dc_same: "lg_obligations L' = lg_obligations L \<Longrightarrow> debt_change plat L L'"
| dc_open: "fresh_debt L r \<Longrightarrow> readable plat r \<Longrightarrow> lg_obligations L' = lg_obligations L @ [r] \<Longrightarrow> debt_change plat L L'"
| dc_step: "row_find ob_id i (lg_obligations L) = Some r \<Longrightarrow> debt_step plat r (f r) \<Longrightarrow> readable plat (f r) \<Longrightarrow>
    lg_obligations L' = row_update ob_id i f (lg_obligations L) \<Longrightarrow> debt_change plat L L'"

abbreviation debt_changes :: "platform \<Rightarrow> ledger \<Rightarrow> ledger \<Rightarrow> bool" where
  "debt_changes plat \<equiv> (debt_change plat)\<^sup>*\<^sup>*"

definition one_live :: "obligation_record list \<Rightarrow> bool" where
  "one_live rows \<longleftrightarrow> (\<forall>r\<in>set rows. \<forall>s\<in>set rows. live r \<and> live s
     \<and> of_tuple (ob_jobId r) (ob_logicalStep r) (ob_incidentKey r) s \<longrightarrow> r = s)"

definition debt_ok :: "platform \<Rightarrow> obligation_record \<Rightarrow> bool" where
  "debt_ok plat r \<longleftrightarrow> readable plat r \<and> ob_firstOriginSeq r \<le> ob_lastOriginSeq r
     \<and> (live r \<longleftrightarrow> ob_settlement r = None)
     \<and> (\<forall>s. ob_settlement r = Some s \<longrightarrow> ob_state r = settlement_target s)
     \<and> (\<not> live r \<longrightarrow> ob_claim r = None) \<and> \<not> mechanical_without_authority r
     \<and> isObligationLogicalStep (ob_logicalStep r)"

definition obligations_ok :: "platform \<Rightarrow> ledger \<Rightarrow> bool" where
  "obligations_ok plat L \<longleftrightarrow> distinct (map ob_id (lg_obligations L)) \<and> one_live (lg_obligations L)
     \<and> (\<forall>r\<in>set (lg_obligations L). debt_ok plat r)"

lemma settlement_target_terminal: "settlement_target s = O_settled \<or> settlement_target s = O_closed"
  by (simp add: settlement_target_def)

lemma frozen_part_fields:
  assumes "frozen_part r = frozen_part s"
  shows "ob_claim r = ob_claim s" "ob_settlement r = ob_settlement s" "ob_state r = ob_state s"
    "ob_claimLog r = ob_claimLog s" "ob_nextAction r = ob_nextAction s" "ob_supersededBy r = ob_supersededBy s"
  using assms by (cases r; cases s; simp add: frozen_part_def)+

lemma debt_step_ok:
  assumes step: "debt_step plat r r'" and "readable plat r'" and ok: "debt_ok plat r"
  shows "debt_ok plat r'"
proof -
  have order: "ob_firstOriginSeq r' \<le> ob_lastOriginSeq r'" and act: "\<not> mechanical_without_authority r'"
    and known: "isObligationLogicalStep (ob_logicalStep r')"
    using step ok by (auto simp: debt_step_def debt_ok_def same_identity_def)
  from step consider (settle) "settles r r'" | (keep) "ob_settlement r' = ob_settlement r" "live r' \<longleftrightarrow> live r"
    unfolding debt_step_def by blast
  then show ?thesis
  proof cases
    case settle
    then obtain s where s: "ob_settlement r' = Some s" "ob_state r' = settlement_target s" "ob_claim r' = None"
      unfolding settles_def by blast
    then have "\<not> live r'" using settlement_target_terminal [of s] by (auto simp: live_simps)
    then show ?thesis
      using assms(2) order act known s by (simp add: debt_ok_def)
  next
    case keep
    have "\<not> live r \<longrightarrow> frozen_part r' = frozen_part r" using step by (simp add: debt_step_def)
    then have frozen: "\<not> live r \<longrightarrow> ob_claim r' = ob_claim r \<and> ob_state r' = ob_state r"
      using frozen_part_fields(1,3) by blast
    have "live r \<longleftrightarrow> ob_settlement r = None" "\<not> live r \<longrightarrow> ob_claim r = None"
      "\<forall>s. ob_settlement r = Some s \<longrightarrow> ob_state r = settlement_target s"
      using ok unfolding debt_ok_def by blast+
    then show ?thesis
      unfolding debt_ok_def using keep frozen order act known assms(2)
      by (cases "live r") simp_all
  qed
qed

lemma debt_step_tuple: "debt_step plat r r' \<Longrightarrow> of_tuple j s k r' \<longleftrightarrow> of_tuple j s k r"
  by (auto simp: debt_step_def same_identity_def of_tuple_def)

lemma debt_step_live: "debt_step plat r r' \<Longrightarrow> live r' \<Longrightarrow> live r"
  unfolding debt_step_def settles_def by blast

lemma one_live_append:
  assumes one: "one_live rows"
    and new: "\<forall>x\<in>set rows. \<not> (of_tuple (ob_jobId r) (ob_logicalStep r) (ob_incidentKey r) x \<and> live x)"
  shows "one_live (rows @ [r])"
  unfolding one_live_def
proof (intro ballI impI)
  fix a b assume "a \<in> set (rows @ [r])" and "b \<in> set (rows @ [r])"
    and lt: "live a \<and> live b \<and> of_tuple (ob_jobId a) (ob_logicalStep a) (ob_incidentKey a) b"
  then consider "a \<in> set rows" "b \<in> set rows" | "a = r" "b = r" | "a = r" "b \<in> set rows" | "a \<in> set rows" "b = r"
    by auto
  then show "a = b"
  proof cases
    case 1
    then show ?thesis using one lt unfolding one_live_def by blast
  next
    case 4
    then have "of_tuple (ob_jobId r) (ob_logicalStep r) (ob_incidentKey r) a" using lt by (simp add: of_tuple_def)
    then show ?thesis using 4 new lt by blast
  qed (use new lt in blast)+
qed

lemma one_live_update:
  assumes one: "one_live rows" and "distinct (map ob_id rows)" and "row_find ob_id i rows = Some r"
    and step: "debt_step plat r (f r)"
  shows "one_live (row_update ob_id i f rows)"
proof -
  have r: "r \<in> set rows" "ob_id r = i" using row_find_SomeD [OF assms(3)] by auto
  have same: "x = r" if "x \<in> set rows" "ob_id x = i" for x
    using that r assms(2) by (auto simp: distinct_map dest: inj_onD)
  let ?g = "\<lambda>x. if ob_id x = i then f x else x"
  have g: "(live (?g x) \<longrightarrow> live x) \<and> (\<forall>j s k. of_tuple j s k (?g x) \<longleftrightarrow> of_tuple j s k x)" if "x \<in> set rows" for x
    using debt_step_live [OF step] debt_step_tuple [OF step] same [OF that] by auto
  have tuple: "ob_jobId (?g x) = ob_jobId x" "ob_logicalStep (?g x) = ob_logicalStep x"
    "ob_incidentKey (?g x) = ob_incidentKey x" if "x \<in> set rows" for x
    using step same [OF that] by (auto simp: debt_step_def same_identity_def)
  show ?thesis
    unfolding one_live_def row_update_set_iff
  proof (intro ballI impI)
    fix a b assume "a \<in> set (row_update ob_id i f rows)" and "b \<in> set (row_update ob_id i f rows)"
      and lt: "live a \<and> live b \<and> of_tuple (ob_jobId a) (ob_logicalStep a) (ob_incidentKey a) b"
    then obtain x y where x: "x \<in> set rows" "a = ?g x" and y: "y \<in> set rows" "b = ?g y"
      by (auto simp: row_update_set_iff)
    have "live x \<and> live y \<and> of_tuple (ob_jobId x) (ob_logicalStep x) (ob_incidentKey x) y"
      using lt g [OF x(1)] g [OF y(1)] tuple [OF x(1)] by (simp only: x y)
    then have "x = y" using one x(1) y(1) unfolding one_live_def by blast
    then show "a = b" by (simp add: x y)
  qed
qed

lemma debt_change_ok:
  assumes "obligations_ok plat L" and "debt_change plat L L'"
  shows "obligations_ok plat L'"
  using assms(2)
proof cases
  case dc_same
  then show ?thesis using assms(1) by (simp add: obligations_ok_def)
next
  case (dc_open r)
  then have "debt_ok plat r" by (simp add: debt_ok_def fresh_debt_def live_simps)
  moreover have "one_live (lg_obligations L @ [r])"
    using dc_open assms(1) by (intro one_live_append) (auto simp: obligations_ok_def fresh_debt_def)
  ultimately show ?thesis
    using dc_open assms(1) by (auto simp: obligations_ok_def fresh_debt_def)
next
  case (dc_step i r f)
  note r = row_find_SomeD [OF dc_step(1)]
  have keep: "ob_id (f r) = ob_id r" using dc_step(2) by (simp add: debt_step_def same_identity_def)
  have same: "x = r" if "x \<in> set (lg_obligations L)" "ob_id x = i" for x
    using that r assms(1) by (auto simp: obligations_ok_def distinct_map dest: inj_onD)
  have "map ob_id (row_update ob_id i f (lg_obligations L)) = map ob_id (lg_obligations L)"
    using keep same by (auto simp: row_update_def)
  moreover have "one_live (row_update ob_id i f (lg_obligations L))"
    by (rule one_live_update [where r = r])
      (use dc_step(1,2) assms(1) in \<open>simp_all add: obligations_ok_def\<close>)
  moreover have "debt_ok plat (f r)"
    using debt_step_ok [OF dc_step(2,3)] r assms(1) by (simp add: obligations_ok_def)
  ultimately show ?thesis
    unfolding obligations_ok_def dc_step(4)
    using assms(1) same by (auto simp: obligations_ok_def row_update_set_iff)
qed

definition no_obligations :: "ledger \<Rightarrow> bool" where
  "no_obligations L \<longleftrightarrow> lg_obligations L = []"

interpretation debt_inv: invariant_system no_obligations "debt_change plat" "obligations_ok plat" for plat
  by unfold_locales (simp_all add: no_obligations_def obligations_ok_def one_live_def, rule debt_change_ok [unfolded obligations_ok_def one_live_def])

text \<open>A row survives every change; its identity is fixed and the state it ends in is final.\<close>

lemma debt_change_keeps:
  assumes "obligations_ok plat L" and "debt_change plat L L'" and "r \<in> set (lg_obligations L)"
  shows "\<exists>r'\<in>set (lg_obligations L'). r' = r \<or> (debt_step plat r r' \<and> readable plat r')"
  using assms(2)
proof cases
  case dc_same
  then show ?thesis using assms(3) by auto
next
  case (dc_open x)
  then show ?thesis using assms(3) by auto
next
  case (dc_step i x f)
  note x = row_find_SomeD [OF dc_step(1)]
  show ?thesis
  proof (cases "ob_id r = i")
    case True
    then have "r = x" using x assms(1,3) by (auto simp: obligations_ok_def distinct_map dest: inj_onD)
    then have "f r \<in> set (lg_obligations L')" and "debt_step plat r (f r) \<and> readable plat (f r)"
      using dc_step(2,3) assms(3) True unfolding dc_step(4) row_update_set_iff by force+
    then show ?thesis by blast
  next
    case False
    then have "r \<in> set (lg_obligations L')" unfolding dc_step(4) row_update_set_iff using assms(3) by force
    then show ?thesis by blast
  qed
qed

subsection \<open>Every write follows the machine\<close>

lemma row_update_found:
  "row_find key k rows = Some r \<Longrightarrow> key (f r) = k \<Longrightarrow> row_find key k (row_update key k f rows) = Some (f r)"
  by (induction rows) (auto simp: row_find_def row_update_def)

lemma write_obligation_tables [simp]:
  "lg_obligations (write_obligation E kind row change payload L) = row_update ob_id (ob_id row) change (lg_obligations L)"
  "lg_jobs (write_obligation E kind row change payload L) = lg_jobs L"
  "lg_notifications (write_obligation E kind row change payload L) = lg_notifications L"
  "lg_pipeline (write_obligation E kind row change payload L) = lg_pipeline L"
  "lg_directives (write_obligation E kind row change payload L) = lg_directives L"
  by (simp_all add: write_obligation_def)

lemma write_obligation_log: "log_extends L (write_obligation E kind row change payload L)"
  by (simp add: write_obligation_def log_extends_append)

text \<open>A write of a row just read, whose result reads back.\<close>

lemma write_change:
  assumes "the_obligation E L i = Inr row"
    and "the_obligation E L2 i = Inr x" and "lg_obligations L2 = row_update ob_id i change (lg_obligations L)"
    and "\<And>r. obligationFromRow (en_plat E) r = Inr row \<Longrightarrow> debt_step (en_plat E) r (change r)"
  shows "debt_change (en_plat E) L L2"
proof -
  from assms(1) obtain r where r: "row_find ob_id i (lg_obligations L) = Some r" "obligationFromRow (en_plat E) r = Inr row"
    by (auto simp: the_obligation_Inr)
  have step: "debt_step (en_plat E) r (change r)" by (rule assms(4) [OF r(2)])
  then have "ob_id (change r) = i"
    using row_find_SomeD [OF r(1)] by (simp add: debt_step_def same_identity_def)
  then have "row_find ob_id i (lg_obligations L2) = Some (change r)"
    unfolding assms(3) by (rule row_update_found [OF r(1)])
  then have "readable (en_plat E) (change r)"
    using assms(2) by (auto simp: the_obligation_Inr readable_def)
  then show ?thesis by (rule dc_step [where f = change, OF r(1) step _ assms(3)])
qed

lemma put_obligation_Inr:
  "put_obligation E kind row change payload L = Inr (L', x) \<longleftrightarrow>
     L' = write_obligation E kind row change payload L \<and> the_obligation E L' (ob_id row) = Inr x"
  by (auto simp: put_obligation_def Let_def attempt_Inr_iff)

lemma put_change:
  assumes "the_obligation E L i = Inr row" and "put_obligation E kind row change payload L = Inr (L', x)"
    and "\<And>r. obligationFromRow (en_plat E) r = Inr row \<Longrightarrow> debt_step (en_plat E) r (change r)"
  shows "debt_change (en_plat E) L L'"
  using assms(2) the_obligation_id [OF assms(1)]
  by (intro write_change [OF assms(1) _ _ assms(3)]) (auto simp: put_obligation_Inr)

text \<open>A row change of a live row that keeps its state, plan and settlement.\<close>

lemma quiet_step:
  assumes "same_identity r r'" and "ob_state r' = ob_state r" and "ob_settlement r' = ob_settlement r" and "live r"
    and "ob_lastOriginSeq r' = ob_lastOriginSeq r" and "ob_observations r' = ob_observations r"
    and "ob_planRevision r' = ob_planRevision r" and "ob_nextAction r' = ob_nextAction r"
    and "ob_authority r' = ob_authority r" and "log_grows plat r r'"
  shows "debt_step plat r r'"
proof -
  have "mechanical_without_authority r' = mechanical_without_authority r"
    by (simp only: mechanical_without_authority_def assms(8,9))
  then show ?thesis using assms by (simp add: debt_step_def live_simps)
qed

lemma log_claim_grows: "\<exists>es. log_claim row d now p = ob_claimLog row @ es"
  by (auto simp: log_claim_def split: option.splits)

lemma log_grows_read:
  "obligationFromRow plat r = Inr row \<Longrightarrow> ob_claimLog r' = ob_claimLog row @ es \<Longrightarrow> log_grows plat r r'"
  by (auto simp: log_grows_def)

lemma same_log_grows: "ob_claimLog r' = ob_claimLog r \<Longrightarrow> log_grows plat r r'"
  by (simp add: log_grows_def)

lemma claimObligation_InrD:
  assumes "claimObligation E input L = Inr (L', x)"
  shows "\<exists>row t. the_obligation E L (ci_obligationId input) = Inr row \<and> check_claim E input row = Inr ()
     \<and> \<not> js_blank (ci_requestId input) \<and> \<not> js_blank (ci_holder input)
     \<and> canonicalIsoTimestamp (en_plat E) (ci_expiresAt input) ''claim expiresAt'' = Inr t
     \<and> (\<exists>payload. put_obligation E ''job.obligation-claimed'' row
         (\<lambda>r. r\<lparr>ob_claim := Some \<lparr>oc_requestId = ci_requestId input, oc_holder = ci_holder input,
                   oc_generation = int (ob_generation row), oc_expiresAt = Some t\<rparr>,
                ob_claimLog := claimed_log E input row, ob_updatedAt := en_now E\<rparr>) payload L = Inr (L', x))"
  using assms unfolding claimObligation_def Let_def guard_Inr attempt_Inr_iff lift_error_Inr ex_unit by blast

lemma claimed_log_grows: "\<exists>es. claimed_log E input row = ob_claimLog row @ es"
  by (auto simp: claimed_log_def split: option.splits)

lemma check_claim_live: "check_claim E input row = Inr () \<Longrightarrow> ob_state row = O_open \<or> ob_state row = O_waiting"
  by (auto simp: check_claim_def split: if_splits)

lemma claim_change:
  assumes "claimObligation E input L = Inr (L', x)"
  shows "debt_change (en_plat E) L L'"
proof -
  from claimObligation_InrD [OF assms] obtain row t payload where
    row: "the_obligation E L (ci_obligationId input) = Inr row" and ok: "check_claim E input row = Inr ()"
    and put: "put_obligation E ''job.obligation-claimed'' row
         (\<lambda>r. r\<lparr>ob_claim := Some \<lparr>oc_requestId = ci_requestId input, oc_holder = ci_holder input,
                   oc_generation = int (ob_generation row), oc_expiresAt = Some t\<rparr>,
                ob_claimLog := claimed_log E input row, ob_updatedAt := en_now E\<rparr>) payload L = Inr (L', x)"
    by blast
  obtain es where es: "claimed_log E input row = ob_claimLog row @ es" using claimed_log_grows by blast
  show ?thesis
  proof (rule put_change [OF row put])
    fix r assume r: "obligationFromRow (en_plat E) r = Inr row"
    show "debt_step (en_plat E) r (r\<lparr>ob_claim := Some \<lparr>oc_requestId = ci_requestId input, oc_holder = ci_holder input,
                   oc_generation = int (ob_generation row), oc_expiresAt = Some t\<rparr>,
                ob_claimLog := claimed_log E input row, ob_updatedAt := en_now E\<rparr>)"
      by (rule quiet_step)
        (use check_claim_live [OF ok] read_fields(6) [OF r] in
          \<open>auto simp: same_identity_def live_simps intro!: log_grows_read [OF r] es\<close>)
  qed
qed

lemma parseClaim_NULL: "parseClaim plat None = Inr None"
  by (simp add: parseClaim_def)

lemma release_claim_change:
  assumes "releaseClaim E i requestId L = Inr (L', x)" and ok: "obligations_ok (en_plat E) L"
  shows "debt_change (en_plat E) L L'"
proof -
  from assms(1) obtain row c payload where row: "the_obligation E L i = Inr row" and c: "ob_claim row = Some c"
    and put: "put_obligation E ''job.obligation-claim-released'' row
        (\<lambda>r. r\<lparr>ob_claim := None, ob_claimLog := log_claim row Released (en_now E) None, ob_updatedAt := en_now E\<rparr>)
        payload L = Inr (L', x)"
    unfolding releaseClaim_def attempt_Inr_iff by (auto split: option.splits)
  obtain es where es: "log_claim row Released (en_now E) None = ob_claimLog row @ es" using log_claim_grows by blast
  obtain s where s: "s \<in> set (lg_obligations L)" "obligationFromRow (en_plat E) s = Inr row"
    using row by (auto simp: the_obligation_Inr dest!: row_find_SomeD)
  have "live row"
  proof -
    have "ob_claim s \<noteq> None" using c obligationFromRow_Inr(2) [OF s(2)]
      by (cases "ob_claim s") (auto simp: parseClaim_NULL)
    then have "live s" using ok s(1) by (auto simp: obligations_ok_def debt_ok_def)
    then show ?thesis by (simp add: live_simps read_fields(6) [OF s(2)])
  qed
  then show ?thesis
    by (intro put_change [OF row put] quiet_step)
      (auto simp: same_identity_def live_simps read_fields(6) [symmetric] intro!: log_grows_read es
        dest: read_fields(6))
qed

lemma receipt_InrD:
  assumes "recordObligationReceipt E input L = Inr (L', x)"
  shows "\<exists>row. the_obligation E L (ri_obligationId input) = Inr row \<and> js_safe_int (ri_eventSeq input) \<and> 0 \<le> ri_eventSeq input
     \<and> (L' = L \<and> x = row \<and> already_recorded input row
      \<or> (\<exists>ev payload. \<not> already_recorded input row
          \<and> cited_event L (ob_jobId row) (ri_eventSeq input) (ri_kind input) = Inr ev
          \<and> put_obligation E ''job.obligation-receipt'' row
             (\<lambda>r. r\<lparr>ob_recordedReceipts := ob_recordedReceipts row @
                      [\<lparr>rr_kind = ri_kind input, rr_eventSeq = \<lfloor>ri_eventSeq input\<rfloor>,
                        rr_at = or_else (ri_at input) (en_now E), rr_applied = receipt_applied input row ev\<rparr>],
                    ob_lastOriginSeq := max (ob_lastOriginSeq r) (nat \<lfloor>ri_eventSeq input\<rfloor>),
                    ob_state := receipt_state input row ev, ob_updatedAt := en_now E\<rparr>) payload L = Inr (L', x)))"
proof -
  from assms obtain row where seq: "js_safe_int (ri_eventSeq input)" "\<not> ri_eventSeq input < 0"
    and row: "the_obligation E L (ri_obligationId input) = Inr row"
    and run: "(if already_recorded input row then Inr (L, row) else
      attempt (cited_event L (ob_jobId row) (ri_eventSeq input) (ri_kind input)) (\<lambda>ev.
      put_obligation E ''job.obligation-receipt'' row
        (\<lambda>r. r\<lparr>ob_recordedReceipts := ob_recordedReceipts row @
                 [\<lparr>rr_kind = ri_kind input, rr_eventSeq = \<lfloor>ri_eventSeq input\<rfloor>,
                     rr_at = or_else (ri_at input) (en_now E), rr_applied = receipt_applied input row ev\<rparr>],
               ob_lastOriginSeq := max (ob_lastOriginSeq r) (nat \<lfloor>ri_eventSeq input\<rfloor>),
               ob_state := receipt_state input row ev, ob_updatedAt := en_now E\<rparr>)
        (JObj ([(''id'', JStr (ob_id row)), (''receipt_kind'', JStr (ri_kind input)),
                (''event_seq'', JNum (ri_eventSeq input)), (''applied'', JBool (receipt_applied input row ev))]
           @ spread_if (\<not> correlated (ob_receiptCorrelation row) (er_payload ev))
               [(''correlation'', JStr ''mismatch'')]
           @ [(''from'', JStr (obligation_state_name (ob_state row))),
              (''to'', JStr (obligation_state_name (receipt_state input row ev)))])) L)) = Inr (L', x)"
    unfolding recordObligationReceipt_def Let_def guard_Inr attempt_Inr_iff by blast
  show ?thesis
  proof (cases "already_recorded input row")
    case True
    then have "L' = L \<and> x = row" using run by simp
    then show ?thesis using True row seq by (intro exI [of _ row]) simp
  next
    case False
    then show ?thesis using row seq run unfolding if_not_P [OF False] attempt_Inr_iff not_less by blast
  qed
qed

lemma receipt_change:
  assumes "recordObligationReceipt E input L = Inr (L', x)"
  shows "debt_change (en_plat E) L L'"
proof -
  from receipt_InrD [OF assms] obtain row where row: "the_obligation E L (ri_obligationId input) = Inr row"
    and cases: "L' = L \<or> (\<exists>ev payload. put_obligation E ''job.obligation-receipt'' row
             (\<lambda>r. r\<lparr>ob_recordedReceipts := ob_recordedReceipts row @
                      [\<lparr>rr_kind = ri_kind input, rr_eventSeq = \<lfloor>ri_eventSeq input\<rfloor>,
                        rr_at = or_else (ri_at input) (en_now E), rr_applied = receipt_applied input row ev\<rparr>],
                    ob_lastOriginSeq := max (ob_lastOriginSeq r) (nat \<lfloor>ri_eventSeq input\<rfloor>),
                    ob_state := receipt_state input row ev, ob_updatedAt := en_now E\<rparr>) payload L = Inr (L', x))"
    by blast
  from cases show ?thesis
  proof (elim disjE exE)
    assume "L' = L"
    then show ?thesis by (simp add: dc_same)
  next
    fix ev payload
    assume put: "put_obligation E ''job.obligation-receipt'' row
             (\<lambda>r. r\<lparr>ob_recordedReceipts := ob_recordedReceipts row @
                      [\<lparr>rr_kind = ri_kind input, rr_eventSeq = \<lfloor>ri_eventSeq input\<rfloor>,
                        rr_at = or_else (ri_at input) (en_now E), rr_applied = receipt_applied input row ev\<rparr>],
                    ob_lastOriginSeq := max (ob_lastOriginSeq r) (nat \<lfloor>ri_eventSeq input\<rfloor>),
                    ob_state := receipt_state input row ev, ob_updatedAt := en_now E\<rparr>) payload L = Inr (L', x)"
    show ?thesis
      by (rule put_change [OF row put])
        (auto simp: debt_step_def same_identity_def live_simps receipt_state_def frozen_part_def
          mechanical_without_authority_def log_grows_def dest!: read_fields(6) split: next_action.splits)
  qed
qed

lemma assert_transition_mem:
  "lift_error State_error (assertObligationTransition s t) = Inr u \<longleftrightarrow> t \<in> set (the (OBLIGATION_TRANSITIONS s))"
  by (cases s; cases t) (simp_all add: assertObligationTransition_def assertTransition_def lift_error_def)

lemma arm_change:
  assumes "armReceiptExpectation E input L = Inr (L', x)"
  shows "debt_change (en_plat E) L L'"
proof -
  from assms obtain t row payload where row: "the_obligation E L (am_obligationId input) = Inr row"
    and tr: "O_waiting \<in> set (the (OBLIGATION_TRANSITIONS (ob_state row)))"
    and put: "put_obligation E ''job.obligation-state'' row
        (\<lambda>r. r\<lparr>ob_state := O_waiting, ob_receiptKind := Some (am_receiptKind input), ob_deadlineAt := Some t,
               ob_receiptCorrelation := am_correlation input, ob_updatedAt := en_now E\<rparr>) payload L = Inr (L', x)"
    unfolding armReceiptExpectation_def attempt_Inr_iff guard_Inr assert_transition_mem ex_unit by blast
  from tr have from_live: "ob_state row = O_open" by (cases "ob_state row") auto
  show ?thesis
    by (rule put_change [OF row put])
      (auto simp: debt_step_def same_identity_def live_simps from_live frozen_part_def
          mechanical_without_authority_def log_grows_def dest!: read_fields(6) split: next_action.splits)
qed

lemma set_state_InrD:
  assumes "set_obligation_state E i to reason L = Inr (L', x)"
  shows "\<exists>row payload. the_obligation E L i = Inr row \<and> to \<in> set (the (OBLIGATION_TRANSITIONS (ob_state row)))
     \<and> put_obligation E ''job.obligation-state'' row (\<lambda>r. r\<lparr>ob_state := to, ob_updatedAt := en_now E\<rparr>) payload L = Inr (L', x)"
  using assms unfolding set_obligation_state_def attempt_Inr_iff assert_transition_mem by blast

lemma set_state_change:
  assumes "set_obligation_state E i to reason L = Inr (L', x)" and "to \<in> {O_open, O_waiting, O_suspended}"
  shows "debt_change (en_plat E) L L'"
proof -
  from set_state_InrD [OF assms(1)] obtain row payload where row: "the_obligation E L i = Inr row"
    and tr: "to \<in> set (the (OBLIGATION_TRANSITIONS (ob_state row)))"
    and put: "put_obligation E ''job.obligation-state'' row (\<lambda>r. r\<lparr>ob_state := to, ob_updatedAt := en_now E\<rparr>) payload L
      = Inr (L', x)" by blast
  from tr have from_live: "live row" by (cases "ob_state row") (auto simp: live_simps)
  show ?thesis
    by (rule put_change [OF row put])
      (use tr from_live assms(2) in \<open>auto simp: debt_step_def same_identity_def live_simps frozen_part_def
          mechanical_without_authority_def log_grows_def dest!: read_fields(6) split: next_action.splits\<close>)
qed

text \<open>The card touches notifications and the event log only.\<close>

definition card_only :: "ledger \<Rightarrow> ledger \<Rightarrow> bool" where
  "card_only L L' \<longleftrightarrow> lg_obligations L' = lg_obligations L \<and> lg_jobs L' = lg_jobs L
     \<and> lg_pipeline L' = lg_pipeline L \<and> lg_directives L' = lg_directives L \<and> log_extends L L'"

lemma card_change:
  assumes "resolveReportHandbackCard E jobId by' L = Inr L'"
  shows "card_only L L'"
  using assms
  by (auto simp: resolveReportHandbackCard_def resolveNotificationById_def attempt_Inr_iff Let_def card_only_def
      intro!: log_extends_append split: option.splits if_splits)

lemma answer_card_only: "answer_card E row L = Inr L' \<Longrightarrow> card_only L L'"
  by (cases "ob_incidentKey row = reportIncidentKey (ob_jobId row)")
    (simp_all add: answer_card_def card_change, simp add: card_only_def)

lemma settle_InrD:
  assumes "settleObligation E i s requestId L = Inr (L', x)"
  shows "\<exists>row. the_obligation E L i = Inr row \<and> check_settlement E L row s requestId = Inr ()
     \<and> answer_card E row (settle_write E row s L) = Inr L' \<and> the_obligation E L' i = Inr x"
proof -
  from assms obtain row L2 where row: "the_obligation E L i = Inr row"
    and chk: "check_settlement E L row s requestId = Inr ()"
    and card: "answer_card E row (settle_write E row s L) = Inr L2"
    and fin: "the_obligation E L2 (ob_id row) = Inr x" "L2 = L'"
    unfolding settleObligation_def attempt_Inr_iff ex_unit by blast
  then show ?thesis using the_obligation_id [OF row] by auto
qed

lemma check_settlement_transition:
  "check_settlement E L row s requestId = Inr () \<Longrightarrow> settlement_target s \<in> set (the (OBLIGATION_TRANSITIONS (ob_state row)))"
  unfolding check_settlement_def attempt_Inr_iff ex_unit assert_transition_mem by blast

lemma transition_live: "t \<in> set (the (OBLIGATION_TRANSITIONS s)) \<Longrightarrow> s \<noteq> O_settled \<and> s \<noteq> O_closed"
  by (cases s) auto

lemma settled_row_step:
  assumes r: "obligationFromRow (en_plat E) r = Inr row"
    and tr: "settlement_target s \<in> set (the (OBLIGATION_TRANSITIONS (ob_state row)))"
  shows "debt_step (en_plat E) r (settled_row E row s r)"
proof -
  obtain es where es: "settled_log E row s = ob_claimLog row @ es"
    using log_claim_grows unfolding settled_log_def by blast
  have "settles r (settled_row E row s r)"
    using transition_live [OF tr] by (simp add: settles_def settled_row_def live_simps read_fields(6) [OF r, symmetric])
  moreover have "log_grows (en_plat E) r (settled_row E row s r)"
    by (rule log_grows_read [OF r, where es = es]) (simp add: settled_row_def es)
  moreover have "live r" using transition_live [OF tr] by (simp add: live_simps read_fields(6) [OF r])
  ultimately show ?thesis
    using tr by (auto simp: debt_step_def same_identity_def settled_row_def mechanical_without_authority_def
        read_fields(6) [OF r] split: next_action.splits)
qed

lemma settle_rows:
  assumes "settleObligation E i s requestId L = Inr (L', x)"
  shows "\<exists>row. the_obligation E L i = Inr row \<and> settlement_target s \<in> set (the (OBLIGATION_TRANSITIONS (ob_state row)))
     \<and> lg_obligations L' = row_update ob_id i (settled_row E row s) (lg_obligations L)
     \<and> lg_jobs L' = lg_jobs L \<and> log_extends L L'"
proof -
  from settle_InrD [OF assms] obtain row where row: "the_obligation E L i = Inr row"
    and chk: "check_settlement E L row s requestId = Inr ()"
    and card: "answer_card E row (settle_write E row s L) = Inr L'" by blast
  have "log_extends L (settle_write E row s L)" by (simp add: settle_write_def write_obligation_log)
  then show ?thesis
    using row check_settlement_transition [OF chk] answer_card_only [OF card] the_obligation_id [OF row]
    by (auto simp: card_only_def settle_write_def intro: log_extends_trans)
qed

lemma settle_change:
  assumes "settleObligation E i s requestId L = Inr (L', x)"
  shows "debt_change (en_plat E) L L'"
proof -
  from settle_rows [OF assms] obtain row where row: "the_obligation E L i = Inr row"
    and tr: "settlement_target s \<in> set (the (OBLIGATION_TRANSITIONS (ob_state row)))"
    and rows: "lg_obligations L' = row_update ob_id i (settled_row E row s) (lg_obligations L)" by blast
  have "the_obligation E L' i = Inr x" using settle_InrD [OF assms] by blast
  then show ?thesis
    by (rule write_change [OF row _ rows]) (rule settled_row_step [OF _ tr])
qed

lemma read_newest_Inr:
  "read_newest E L p = Inr (Some row) \<longleftrightarrow> (\<exists>r. newest p (lg_obligations L) = Some r \<and> obligationFromRow (en_plat E) r = Inr row)"
  by (auto simp: read_newest_def attempt_Inr_iff split: option.splits)

lemma read_newest_None: "read_newest E L p = Inr None \<longleftrightarrow> (\<forall>r\<in>set (lg_obligations L). \<not> p r)"
  by (auto simp: read_newest_def attempt_Inr_iff newest_None_iff split: option.splits dest: newest_SomeD)

text \<open>With distinct ids, a row found by a query is the row its id reads.\<close>

lemma read_newest_the:
  assumes "read_newest E L p = Inr (Some row)" and "distinct (map ob_id (lg_obligations L))"
  shows "the_obligation E L (ob_id row) = Inr row" and "\<exists>r\<in>set (lg_obligations L). p r \<and> ob_id r = ob_id row
    \<and> obligationFromRow (en_plat E) r = Inr row"
proof -
  from assms(1) obtain r where r: "newest p (lg_obligations L) = Some r" "obligationFromRow (en_plat E) r = Inr row"
    by (auto simp: read_newest_Inr)
  have mem: "r \<in> set (lg_obligations L)" "p r" using newest_SomeD [OF r(1)] by auto
  have i: "ob_id r = ob_id row" using read_fields(1) [OF r(2)] by simp
  show "the_obligation E L (ob_id row) = Inr row"
    using row_find_distinct [OF assms(2) mem(1)] r(2) by (auto simp: the_obligation_Inr i)
  show "\<exists>r\<in>set (lg_obligations L). p r \<and> ob_id r = ob_id row \<and> obligationFromRow (en_plat E) r = Inr row"
    using mem i r(2) by blast
qed

lemma incarnation_search_free:
  "incarnation_search E L base n = Inr i \<Longrightarrow> i \<notin> ob_id ` set (lg_obligations L) \<and> (\<exists>m\<ge>n. i = incarnation_name base m)"
proof (induction E L base n rule: incarnation_search.induct)
  case (1 E L base n)
  show ?case
  proof (cases "getObligation E L (incarnation_name base n)")
    case (Inl e)
    then show ?thesis using "1.prems" by (simp add: incarnation_search.simps [of E L base n])
  next
    case (Inr found)
    show ?thesis
    proof (cases found)
      case None
      then have "i = incarnation_name base n" and "getObligation E L (incarnation_name base n) = Inr None"
        using "1.prems" Inr by (simp_all add: incarnation_search.simps [of E L base n])
      then show ?thesis unfolding getObligation_None by (metis order_refl)
    next
      case (Some row)
      then have "incarnation_search E L base (Suc n) = Inr i"
        using "1.prems" Inr by (simp add: incarnation_search.simps [of E L base n])
      then show ?thesis using "1.IH" [OF Inr Some] Suc_leD by blast
    qed
  qed
qed

lemma insert_row_Inr:
  "insert_row row L = Inr L' \<longleftrightarrow> L' = L\<lparr>lg_obligations := lg_obligations L @ [row]\<rparr>
     \<and> (\<forall>x\<in>set (lg_obligations L). ob_id x \<noteq> ob_id row
         \<and> \<not> (of_tuple (ob_jobId row) (ob_logicalStep row) (ob_incidentKey row) x \<and> live x))"
  by (auto simp: insert_row_def list_ex_iff)

text \<open>An insert whose row reads back from the table that has it.\<close>

lemma insert_change:
  assumes "insert_row row L = Inr L1" and "the_obligation E L2 (ob_id row) = Inr x"
    and "lg_obligations L2 = lg_obligations L1"
    and "ob_state row = O_open" "ob_settlement row = None" "ob_claim row = None" "ob_claimLog row = []"
      "ob_firstOriginSeq row = ob_lastOriginSeq row" "\<not> mechanical_without_authority row"
      "isObligationLogicalStep (ob_logicalStep row)"
  shows "debt_change (en_plat E) L L2" and "obligationFromRow (en_plat E) row = Inr x"
    and "lg_obligations L2 = lg_obligations L @ [row]"
proof -
  have new: "fresh_debt L row" and rows: "lg_obligations L2 = lg_obligations L @ [row]"
    using assms by (auto simp: insert_row_Inr fresh_debt_def)
  have "row_find ob_id (ob_id row) (lg_obligations L) = None"
    using new by (simp add: fresh_debt_def row_find_None_ball)
  then have "row_find ob_id (ob_id row) (lg_obligations L2) = Some row"
    by (simp add: rows row_find_None_append)
  then show read: "obligationFromRow (en_plat E) row = Inr x" using assms(2) by (simp add: the_obligation_Inr)
  then have "readable (en_plat E) row" by (auto simp: readable_def)
  then show "debt_change (en_plat E) L L2" by (rule dc_open [OF new _ rows])
  show "lg_obligations L2 = lg_obligations L @ [row]" by (rule rows)
qed

definition plan_ok :: "resolved_obligation \<Rightarrow> bool" where
  "plan_ok resolved \<longleftrightarrow> check_next_action (ro_nextAction resolved) (ro_authority resolved) = Inr ()"

lemma plan_ok_mechanical:
  "plan_ok resolved \<Longrightarrow> ob_nextAction r = ro_nextAction resolved \<Longrightarrow> ob_authority r = ro_authority resolved
     \<Longrightarrow> \<not> mechanical_without_authority r"
  by (auto simp: plan_ok_def mechanical_without_authority_def check_next_action_def split: next_action.splits if_splits)

lemma resolved_plan_ok: "resolveObligation plat context jobId = Inr resolved \<Longrightarrow> plan_ok resolved"
  by (simp add: plan_ok_def resolveObligation_InrD(9))

lemma fresh_row_simps [simp]:
  "ob_id (fresh_row E i resolved g n) = i" "ob_state (fresh_row E i resolved g n) = O_open"
  "ob_jobId (fresh_row E i resolved g n) = ro_jobId resolved" "ob_settlement (fresh_row E i resolved g n) = None"
  "ob_logicalStep (fresh_row E i resolved g n) = logical_step_name (ro_logicalStep resolved)"
  "ob_incidentKey (fresh_row E i resolved g n) = ro_incidentKey resolved" "ob_claim (fresh_row E i resolved g n) = None"
  "ob_claimLog (fresh_row E i resolved g n) = []" "ob_firstOriginSeq (fresh_row E i resolved g n) = n"
  "ob_lastOriginSeq (fresh_row E i resolved g n) = n" "ob_nextAction (fresh_row E i resolved g n) = ro_nextAction resolved"
  "ob_authority (fresh_row E i resolved g n) = ro_authority resolved" "ob_generation (fresh_row E i resolved g n) = g"
  by (simp_all add: fresh_row_def)

lemma logical_step_known [simp]: "isObligationLogicalStep (logical_step_name s)"
  by (cases s) (simp_all add: isObligationLogicalStep_def OBLIGATION_LOGICAL_STEPS_def)

lemma open_incarnation_InrD:
  assumes "open_incarnation E resolved seq extra L = Inr (L', x)" and "plan_ok resolved"
  shows "debt_change (en_plat E) L L'"
    and "\<exists>i g. lg_obligations L' = lg_obligations L @ [fresh_row E i resolved g seq]
       \<and> obligationFromRow (en_plat E) (fresh_row E i resolved g seq) = Inr x
       \<and> nextIncarnationId E L (obligationId (ro_jobId resolved) (ro_logicalStep resolved) (ro_incidentKey resolved)) = Inr i
       \<and> g = Suc (currentJobGeneration L (ro_jobId resolved))"
    and "lg_jobs L' = lg_jobs L" and "log_extends L L'"
proof -
  define g where "g = Suc (currentJobGeneration L (ro_jobId resolved))"
  from assms(1) obtain i L1 L2 where
    i: "nextIncarnationId E L (obligationId (ro_jobId resolved) (ro_logicalStep resolved) (ro_incidentKey resolved)) = Inr i"
    and ins: "insert_row (fresh_row E i resolved g seq) L = Inr L1"
    and L2: "L2 = appendEvent E ''job.obligation-recorded'' None (Some (ro_jobId resolved)) (recorded_payload i resolved g extra) L1"
    and read: "the_obligation E L2 i = Inr x" and eq: "L' = L2"
    unfolding open_incarnation_def Let_def attempt_Inr_iff insertObligationRow_def g_def [symmetric] by blast
  have plan: "\<not> mechanical_without_authority (fresh_row E i resolved g seq)"
    by (rule plan_ok_mechanical [OF assms(2)]) simp_all
  have same: "lg_obligations L2 = lg_obligations L1" by (simp add: L2)
  have read': "the_obligation E L2 (ob_id (fresh_row E i resolved g seq)) = Inr x" using read by simp
  show "debt_change (en_plat E) L L'"
    unfolding eq by (rule insert_change(1) [OF ins read' same]) (simp_all add: plan)
  have "obligationFromRow (en_plat E) (fresh_row E i resolved g seq) = Inr x"
    by (rule insert_change(2) [OF ins read' same]) (simp_all add: plan)
  moreover have "lg_obligations L2 = lg_obligations L @ [fresh_row E i resolved g seq]"
    by (rule insert_change(3) [OF ins read' same]) (simp_all add: plan)
  ultimately show "\<exists>i g. lg_obligations L' = lg_obligations L @ [fresh_row E i resolved g seq]
       \<and> obligationFromRow (en_plat E) (fresh_row E i resolved g seq) = Inr x
       \<and> nextIncarnationId E L (obligationId (ro_jobId resolved) (ro_logicalStep resolved) (ro_incidentKey resolved)) = Inr i
       \<and> g = Suc (currentJobGeneration L (ro_jobId resolved))"
    using i g_def unfolding eq by blast
  show "lg_jobs L' = lg_jobs L" and "log_extends L L'"
    using ins by (auto simp: eq L2 insert_row_Inr intro: log_extends_append)
qed

lemma coalesced_step:
  assumes r: "obligationFromRow plat r = Inr existing" and "plan_ok resolved" and "live existing"
    and "ob_lastOriginSeq existing < seq"
  shows "debt_step plat r (coalesced_row E existing resolved seq r)"
proof -
  obtain es where es: "ob_claimLog (coalesced_row E existing resolved seq r) = ob_claimLog existing @ es"
    using log_claim_grows by (fastforce simp: coalesced_row_def Let_def)
  have "\<not> mechanical_without_authority (coalesced_row E existing resolved seq r)"
    by (rule plan_ok_mechanical [OF assms(2)]) (simp_all add: coalesced_row_def Let_def)
  moreover have "same_identity r (coalesced_row E existing resolved seq r)"
    and "ob_state (coalesced_row E existing resolved seq r) = ob_state r"
    and "ob_settlement (coalesced_row E existing resolved seq r) = ob_settlement r"
    and "ob_lastOriginSeq r \<le> ob_lastOriginSeq (coalesced_row E existing resolved seq r)"
    and "ob_observations r \<le> ob_observations (coalesced_row E existing resolved seq r)"
    and "ob_planRevision r \<le> ob_planRevision (coalesced_row E existing resolved seq r)"
    using assms(4) read_fields(10,14) [OF r] by (simp_all add: coalesced_row_def Let_def same_identity_def)
  moreover have "live r" using assms(3) by (simp add: live_simps read_fields(6) [OF r])
  ultimately show ?thesis
    using log_grows_read [OF r es] by (simp add: debt_step_def live_simps)
qed

lemma coalesce_change:
  assumes "coalesceObservation E existing resolved seq L = Inr (L', x)" and "plan_ok resolved"
    and row: "the_obligation E L (ob_id existing) = Inr existing" and "live existing"
  shows "debt_change (en_plat E) L L'"
proof (cases "seq \<le> ob_lastOriginSeq existing")
  case True
  then show ?thesis using assms(1) by (auto simp: coalesceObservation_def intro: dc_same)
next
  case False
  then have "put_obligation E ''job.obligation-updated'' existing (coalesced_row E existing resolved seq)
             (coalesce_payload existing resolved seq) L = Inr (L', x)"
    using assms(1) by (simp add: coalesceObservation_def)
  then show ?thesis
    by (rule put_change [OF row]) (use False in \<open>intro coalesced_step assms, simp_all\<close>)
qed

text \<open>What a blocked observation does, branch by branch.\<close>

lemma apply_cases:
  assumes "applyBlockedObservation E jobId context L = Inr (L', x)"
  obtains (coalesce) resolved existing where
      "resolveObligation (en_plat E) context jobId = Inr resolved"
      "activeIncarnation E L jobId (logical_step_name (ro_logicalStep resolved)) (ro_incidentKey resolved) = Inr (Some existing)"
      "check_sealed_plan E L existing resolved = Inr ()"
      "coalesceObservation E existing resolved (watermark_of context) L = Inr (L', x)"
  | (stale) resolved m where
      "resolveObligation (en_plat E) context jobId = Inr resolved"
      "activeIncarnation E L jobId (logical_step_name (ro_logicalStep resolved)) (ro_incidentKey resolved) = Inr None"
      "newestIncarnationWatermark L jobId (logical_step_name (ro_logicalStep resolved)) (ro_incidentKey resolved) = Some m"
      "watermark_of context \<le> m"
      "L' = appendEvent E ''job.obligation-stale-observation'' None (Some jobId)
         (stale_tuple_payload resolved (watermark_of context) m) L"
      "latestIncarnation E L jobId (logical_step_name (ro_logicalStep resolved)) (ro_incidentKey resolved) = Inr (Some x)"
  | (opens) resolved where
      "resolveObligation (en_plat E) context jobId = Inr resolved"
      "activeIncarnation E L jobId (logical_step_name (ro_logicalStep resolved)) (ro_incidentKey resolved) = Inr None"
      "\<forall>m. newestIncarnationWatermark L jobId (logical_step_name (ro_logicalStep resolved)) (ro_incidentKey resolved) = Some m
         \<longrightarrow> m < watermark_of context"
      "open_incarnation E resolved (watermark_of context) [] L = Inr (L', x)"
proof -
  from assms obtain resolved active where R: "resolveObligation (en_plat E) context jobId = Inr resolved"
    and A: "activeIncarnation E L jobId (logical_step_name (ro_logicalStep resolved)) (ro_incidentKey resolved) = Inr active"
    and K: "(case active of
       Some existing \<Rightarrow> attempt (check_sealed_plan E L existing resolved) (\<lambda>_.
           coalesceObservation E existing resolved (watermark_of context) L)
     | None \<Rightarrow> (case newestIncarnationWatermark L jobId (logical_step_name (ro_logicalStep resolved)) (ro_incidentKey resolved) of
           None \<Rightarrow> open_incarnation E resolved (watermark_of context) [] L
         | Some watermark \<Rightarrow>
             if watermark_of context \<le> watermark
             then attempt (latestIncarnation E L jobId (logical_step_name (ro_logicalStep resolved)) (ro_incidentKey resolved))
               (\<lambda>latest. case latest of
               None \<Rightarrow> Inl (Record_not_found (ro_incidentKey resolved))
             | Some row \<Rightarrow> Inr (appendEvent E ''job.obligation-stale-observation'' None (Some jobId)
                               (stale_tuple_payload resolved (watermark_of context) watermark) L, row))
             else open_incarnation E resolved (watermark_of context) [] L)) = Inr (L', x)"
    unfolding applyBlockedObservation_def Let_def attempt_Inr_iff lift_error_Inr by blast
  show thesis
  proof (cases active)
    case (Some existing)
    then have "check_sealed_plan E L existing resolved = Inr ()"
      and "coalesceObservation E existing resolved (watermark_of context) L = Inr (L', x)"
      using K by (auto simp: attempt_Inr_iff)
    then show thesis using coalesce R A Some by blast
  next
    case None
    show thesis
    proof (cases "newestIncarnationWatermark L jobId (logical_step_name (ro_logicalStep resolved)) (ro_incidentKey resolved)")
      case none: None
      then show thesis using K R A None by (intro opens) auto
    next
      case (Some m)
      show thesis
      proof (cases "watermark_of context \<le> m")
        case True
        then show thesis
          using K R A None Some by (intro stale) (auto simp: attempt_Inr_iff split: option.splits)
      next
        case False
        then show thesis using K R A None Some by (intro opens) auto
      qed
    qed
  qed
qed

lemma active_reads:
  assumes "activeIncarnation E L jobId step key = Inr (Some row)" and "obligations_ok plat L"
  shows "the_obligation E L (ob_id row) = Inr row" and "live row" and "of_tuple jobId step key row"
proof -
  have d: "distinct (map ob_id (lg_obligations L))" using assms(2) by (simp add: obligations_ok_def)
  show "the_obligation E L (ob_id row) = Inr row"
    by (rule read_newest_the(1) [OF assms(1) [unfolded activeIncarnation_def] d])
  from read_newest_the(2) [OF assms(1) [unfolded activeIncarnation_def] d]
  obtain r where r: "of_tuple jobId step key r" "live r" "obligationFromRow (en_plat E) r = Inr row" by blast
  then show "live row" and "of_tuple jobId step key row"
    by (simp_all add: live_simps of_tuple_def read_fields [OF r(3)])
qed

lemma apply_change:
  assumes "applyBlockedObservation E jobId context L = Inr (L', x)" and "obligations_ok (en_plat E) L"
  shows "debt_change (en_plat E) L L'"
  using assms(1)
proof (cases rule: apply_cases)
  case (coalesce resolved existing)
  show ?thesis
    by (rule coalesce_change [OF coalesce(4) resolved_plan_ok [OF coalesce(1)] active_reads(1,2) [OF coalesce(2) assms(2)]])
next
  case (stale resolved m)
  then show ?thesis by (simp add: dc_same)
next
  case (opens resolved)
  show ?thesis by (rule open_incarnation_InrD(1) [OF opens(4) resolved_plan_ok [OF opens(1)]])
qed

end
