(* ===== verification/Obligation_Lifecycle.thy ===== *)
theory Obligation_Lifecycle
  imports Obligation_Store
begin

text \<open>
  The operations of \<^verbatim>\<open>src/src/ledger/api.ts\<close> that move a job and its obligations together: the job status
  boundary \<open>setJobStatus\<close>, the invalidation of stale continuations, and the closure of delivered report
  jobs.
\<close>

subsection \<open>The status boundary\<close>

definition suspendApplicableObligations :: "env \<Rightarrow> string \<Rightarrow> string \<Rightarrow> ledger \<Rightarrow> ledger_error + ledger" where
  "suspendApplicableObligations E jobId reason L =
     attempt (listApplicableObligations E L jobId [O_open, O_waiting]) (\<lambda>rows.
     each (\<lambda>row L. attempt (suspendObligation E (ob_id row) reason L) (\<lambda>(L', _). Inr L')) rows L)"

definition closeApplicableObligations :: "env \<Rightarrow> string \<Rightarrow> job_status \<Rightarrow> ledger \<Rightarrow> ledger_error + ledger" where
  "closeApplicableObligations E jobId terminal L =
     attempt (listApplicableObligations E L jobId [O_open, O_waiting, O_suspended]) (\<lambda>rows.
     each (\<lambda>row L. attempt (settleObligation E (ob_id row) (Job_terminal terminal) None L) (\<lambda>(L', _). Inr L')) rows L)"

definition default_blocker :: "nat \<Rightarrow> blocker_context" where
  "default_blocker seq = \<lparr>bc_logicalStep = S_operation, bc_category = Unknown, bc_incidentKey = None,
     bc_description = None, bc_observedAtSeq = of_nat seq, bc_nextAction = None, bc_authority = None,
     bc_wakeCondition = None, bc_dueAt = None, bc_receiptKind = None, bc_deadlineAt = None,
     bc_receiptCorrelation = None, bc_firingRule = None\<rparr>"

definition check_live_work :: "env \<Rightarrow> ledger \<Rightarrow> string \<Rightarrow> job_status \<Rightarrow> ledger_error + unit" where
  "check_live_work E L i status =
     (if status = Binned then
        (if terminalLiveWorkBlockers E L i \<noteq> [] then Inl (Live_work i (terminalLiveWorkBlockers E L i)) else Inr ())
      else if status = Done then
        (if en_doneBlockers E L i \<noteq> [] then Inl (Live_work i (en_doneBlockers E L i)) else Inr ())
      else Inr ())"

text \<open>What the obligations do with a job that has just entered \<open>status\<close>; \<open>seq\<close> is the status event's.\<close>

definition follow_status ::
  "env \<Rightarrow> string \<Rightarrow> job_status \<Rightarrow> blocker_context option \<Rightarrow> nat \<Rightarrow> ledger \<Rightarrow> ledger_error + ledger" where
  "follow_status E i status context seq L =
     (if status = Blocked then
        attempt (applyBlockedObservation E i (or_else context (default_blocker seq)) L) (\<lambda>(L', _). Inr L')
      else if status = Parked then suspendApplicableObligations E i ''job parked'' L
      else if isJobTerminal status then closeApplicableObligations E i status L
      else Inr L)"

definition enter_status ::
  "env \<Rightarrow> job_record \<Rightarrow> job_status \<Rightarrow> blocker_context option \<Rightarrow> ledger \<Rightarrow> ledger_error + ledger" where
  "enter_status E current status context L =
     attempt (lift_error State_error (assertJobTransition (jb_status current) status)) (\<lambda>_.
     attempt (check_live_work E L (jb_id current) status) (\<lambda>_.
     let L1 = writeJobStatus E (jb_id current) (jb_status current) status [] L in
     follow_status E (jb_id current) status context (lg_seq L1) L1))"

definition reobserve_blocked ::
  "env \<Rightarrow> job_record \<Rightarrow> blocker_context \<Rightarrow> ledger \<Rightarrow> ledger_error + ledger" where
  "reobserve_blocked E current context L =
     attempt (applyBlockedObservation E (jb_id current) context
        (appendEvent E ''job.status'' None (Some (jb_id current))
           (JObj [(''from'', JStr (job_status_name (jb_status current))), (''to'', JStr ''blocked''),
              (''note'', JStr ''re-observed blocked'')]) L)) (\<lambda>(L', _). Inr L')"

definition the_job :: "ledger \<Rightarrow> string \<Rightarrow> ledger_error + job_record" where
  "the_job L i = (case getJob L i of None \<Rightarrow> Inl (Record_not_found i) | Some job \<Rightarrow> Inr job)"

definition setJobStatus ::
  "env \<Rightarrow> string \<Rightarrow> string \<Rightarrow> blocker_context option \<Rightarrow> ledger \<Rightarrow> ledger_error + ledger \<times> job_record" where
  "setJobStatus E i name context L = (case status_of_name job_status_name JOB_STATUSES name of
     None \<Rightarrow> Inl (Bad_input ''unknown job status'')
   | Some status \<Rightarrow>
       if context \<noteq> None \<and> status \<noteq> Blocked then Inl (Bad_input ''blocker context'') else
       attempt (the_job L i) (\<lambda>current.
       attempt (if jb_status current \<noteq> status then enter_status E current status context L
                else case context of
                  Some blocker \<Rightarrow> if status = Blocked then reobserve_blocked E current blocker L else Inr L
                | None \<Rightarrow> Inr L) (\<lambda>L'.
       attempt (the_job L' i) (\<lambda>job. Inr (L', job)))))"

subsection \<open>Stale continuations\<close>

definition step_or_operation :: "string \<Rightarrow> logical_step" where
  "step_or_operation s = or_else (status_of_name logical_step_name OBLIGATION_LOGICAL_STEPS s) S_operation"

text \<open>The successor of an invalidated row: the same debt, attention only, unclaimed.\<close>

definition successor_row ::
  "env \<Rightarrow> obligation_record \<Rightarrow> string \<Rightarrow> nat \<Rightarrow> nat \<Rightarrow> string \<Rightarrow> firing_rule \<Rightarrow> obligation_record" where
  "successor_row E row i generation seq reason rule =
     \<lparr>ob_id = i, ob_jobId = ob_jobId row, ob_logicalStep = logical_step_name (step_or_operation (ob_logicalStep row)),
      ob_incidentKey = ob_incidentKey row, ob_generation = generation, ob_category = ob_category row,
      ob_nextAction = Gru_decision (''re-derive the next action after durable truth changed: '' @ reason),
      ob_wakeCondition = fr_wakeCondition rule, ob_authority = None, ob_firingRule = fr_id rule,
      ob_description = ob_description row, ob_state = O_open, ob_settlement = None, ob_dueAt = None,
      ob_receiptKind = None, ob_deadlineAt = None, ob_recordedReceipts = [], ob_observations = 1,
      ob_planRevision = 0, ob_firstOriginSeq = seq, ob_lastOriginSeq = seq, ob_supersededBy = None,
      ob_claim = None, ob_claimLog = [], ob_receiptCorrelation = None, ob_createdAt = en_now E, ob_updatedAt = en_now E\<rparr>"

definition reclassified_payload :: "obligation_record \<Rightarrow> obligation_record \<Rightarrow> string \<Rightarrow> json" where
  "reclassified_payload row successor reason = JObj
     [(''id'', JStr (ob_id successor)), (''generation'', JNum (of_nat (ob_generation successor))),
      (''category'', JStr (categoryKey (ob_category row))),
      (''next_action'', next_action_json (ob_nextAction successor)), (''firing_rule'', JStr (ob_firingRule successor)),
      (''authority'', JNull), (''reclassified_of'', JStr (ob_id row)), (''reason'', JStr reason)]"

definition open_successor ::
  "env \<Rightarrow> obligation_record \<Rightarrow> obligation_record \<Rightarrow> string \<Rightarrow> ledger
     \<Rightarrow> ledger_error + ledger \<times> obligation_record \<times> obligation_record" where
  "open_successor E row successor reason L =
     attempt (insert_row successor L) (\<lambda>L1.
     let L2 = appendEvent E ''job.obligation-recorded'' None (Some (ob_jobId row))
           (reclassified_payload row successor reason) L1 in
     attempt (the_obligation E L2 (ob_id row)) (\<lambda>old.
     attempt (the_obligation E L2 (ob_id successor)) (\<lambda>new. Inr (L2, old, new))))"

definition invalidate_one ::
  "env \<Rightarrow> string \<Rightarrow> nat \<Rightarrow> string \<Rightarrow> obligation_record \<Rightarrow> ledger
     \<Rightarrow> ledger_error + ledger \<times> obligation_record \<times> obligation_record" where
  "invalidate_one E jobId seq reason row L =
     attempt (nextIncarnationId E L
       (obligationId (ob_jobId row) (step_or_operation (ob_logicalStep row)) (ob_incidentKey row))) (\<lambda>i.
     attempt (settleObligation E (ob_id row) (Superseded (Some i) reason) None L) (\<lambda>settled.
     attempt (lift_error Obligation_error (defaultFiringRule (ob_category row))) (\<lambda>rule.
     open_successor E row
       (successor_row E row i (Suc (currentJobGeneration (fst settled) jobId)) seq reason rule) reason (fst settled))))"

definition invalidate_step ::
  "env \<Rightarrow> string \<Rightarrow> nat \<Rightarrow> string \<Rightarrow> obligation_record
     \<Rightarrow> ledger \<times> obligation_record list \<times> obligation_record list
     \<Rightarrow> ledger_error + ledger \<times> obligation_record list \<times> obligation_record list" where
  "invalidate_step E jobId seq reason row = (\<lambda>(L, superseded, successors).
     attempt (currentGateDutyAction E L (ob_id row)) (\<lambda>owed.
     if owed \<noteq> None then Inr (L, superseded, successors)
     else attempt (invalidate_one E jobId seq reason row L) (\<lambda>(L', old, new).
       Inr (L', superseded @ [old], successors @ [new]))))"

definition invalidateStaleContinuations ::
  "env \<Rightarrow> string \<Rightarrow> nat \<Rightarrow> string \<Rightarrow> ledger
     \<Rightarrow> ledger_error + ledger \<times> obligation_record list \<times> obligation_record list" where
  "invalidateStaleContinuations E jobId newerThanSeq reason L =
     attempt (the_job L jobId) (\<lambda>_.
     attempt (listApplicableObligations E L jobId [O_open, O_waiting]) (\<lambda>rows.
     each (invalidate_step E jobId newerThanSeq reason)
       (filter (\<lambda>row. ob_lastOriginSeq row \<le> newerThanSeq) rows) (L, [], [])))"

subsection \<open>Report closure\<close>

definition report_kind :: "string option \<Rightarrow> report_deliverable option" where
  "report_kind deliverable = (case deliverable of
     None \<Rightarrow> None | Some d \<Rightarrow> status_of_name report_deliverable_name REPORT_DELIVERABLES d)"

definition commissioner_of :: "job_record \<Rightarrow> string" where
  "commissioner_of job = or_else (jb_commissioner job) ''gru''"

definition report_blocker :: "job_record \<Rightarrow> report_deliverable \<Rightarrow> rat \<Rightarrow> string option \<Rightarrow> blocker_context" where
  "report_blocker job kind observedAtSeq remark =
     \<lparr>bc_logicalStep = reportLogicalStep kind, bc_category = Known C_phase_completion,
      bc_incidentKey = Some (reportIncidentKey (jb_id job)),
      bc_description = Some (or_else remark
        (''report handback delivered -- commissioner '' @ commissioner_of job @ '' owes one disposition (job '' @ jb_id job
           @ (case jb_targetRef job of None \<Rightarrow> [] | Some t \<Rightarrow> '', target '' @ t) @ '')'')),
      bc_observedAtSeq = observedAtSeq,
      bc_nextAction = Some (Gru_decision (''commissioner '' @ commissioner_of job @ '' owes the ''
        @ report_deliverable_name kind @ '' report disposition: acted (route findings as a directive), dismissed (with a reason), or superseded'')),
      bc_authority = None, bc_wakeCondition = None, bc_dueAt = None, bc_receiptKind = None,
      bc_deadlineAt = None, bc_receiptCorrelation = None, bc_firingRule = None\<rparr>"

definition openReportObligation ::
  "env \<Rightarrow> string \<Rightarrow> rat \<Rightarrow> string option \<Rightarrow> ledger \<Rightarrow> ledger_error + ledger \<times> obligation_record \<times> bool" where
  "openReportObligation E jobId observedAtSeq remark L =
     attempt (the_job L jobId) (\<lambda>job. case report_kind (jb_deliverable job) of
       None \<Rightarrow> Inl (Bad_input ''deliverable'')
     | Some kind \<Rightarrow>
         if \<not> js_safe_int observedAtSeq \<or> observedAtSeq < 0 then Inl (Bad_input ''observedAtSeq'') else
         attempt (activeIncarnation E L (jb_id job) (logical_step_name (reportLogicalStep kind)) (reportIncidentKey (jb_id job)))
           (\<lambda>active. case active of
              Some existing \<Rightarrow> Inr (L, existing, False)
            | None \<Rightarrow>
                attempt (lift_error Obligation_error
                  (resolveObligation (en_plat E) (report_blocker job kind observedAtSeq remark) (jb_id job))) (\<lambda>resolved.
                attempt (open_incarnation E resolved (nat \<lfloor>observedAtSeq\<rfloor>)
                  [(''commissioner'', JStr (commissioner_of job))] L) (\<lambda>(L', r). Inr (L', r, True)))))"

definition findReportObligation :: "env \<Rightarrow> ledger \<Rightarrow> string \<Rightarrow> ledger_error + obligation_record option" where
  "findReportObligation E L jobId =
     attempt (read_newest E L (\<lambda>r. ob_jobId r = jobId \<and> ob_incidentKey r = reportIncidentKey jobId
        \<and> ob_state r \<in> {O_open, O_waiting, O_suspended})) (\<lambda>active. case active of
       Some row \<Rightarrow> Inr (Some row)
     | None \<Rightarrow> read_newest E L (\<lambda>r. ob_jobId r = jobId \<and> ob_incidentKey r = reportIncidentKey jobId))"

text \<open>The live report obligation a disposition needs.\<close>

definition live_report :: "env \<Rightarrow> ledger \<Rightarrow> string \<Rightarrow> ledger_error + obligation_record" where
  "live_report E L jobId = attempt (findReportObligation E L jobId) (\<lambda>found. case found of
     None \<Rightarrow> Inl (Bad_input ''no open report obligation'')
   | Some row \<Rightarrow> if ob_state row \<notin> {O_open, O_waiting, O_suspended}
                 then Inl (Bad_input ''no open report obligation'') else Inr row)"

record disposition_input =
  di_jobId :: string
  di_outcome :: report_outcome
  di_note :: "string option"
  di_directiveJobId :: "string option"
  di_by :: "string option"

definition disposition_note :: "disposition_input \<Rightarrow> string" where
  "disposition_note input = or_else (map_option js_trim (di_note input)) []"

definition disposition_actor :: "disposition_input \<Rightarrow> job_record \<Rightarrow> string" where
  "disposition_actor input job = or_else (di_by input) (commissioner_of job)"

definition check_routing :: "ledger \<Rightarrow> disposition_input \<Rightarrow> job_record \<Rightarrow> ledger_error + unit" where
  "check_routing L input job =
     (if di_outcome input = Acted then
        (case di_directiveJobId input of
           None \<Rightarrow> Inl (Bad_input ''directive_job_id'')
         | Some d \<Rightarrow>
             if js_blank d then Inl (Bad_input ''directive_job_id'')
             else attempt (the_job L d) (\<lambda>directive.
               if jb_repo directive \<noteq> jb_repo job then Inl (Bad_input ''directive repo'') else Inr ()))
      else if disposition_note input = [] then Inl (Bad_input ''disposition note'') else Inr ())"

definition check_disposition :: "ledger \<Rightarrow> disposition_input \<Rightarrow> job_record \<Rightarrow> ledger_error + unit" where
  "check_disposition L input job =
     (if jb_status job \<noteq> Delivered then Inl (Bad_input ''not delivered'')
      else if report_kind (jb_deliverable job) = None then Inl (Bad_input ''deliverable'')
      else if jb_commissioner job \<noteq> None \<and> Some (disposition_actor input job) \<noteq> jb_commissioner job
           \<and> disposition_actor input job \<noteq> ''gru''
      then Inl (Bad_input ''commissioner'')
      else check_routing L input job)"

definition disposition_settlement :: "disposition_input \<Rightarrow> nat \<Rightarrow> settlement" where
  "disposition_settlement input seq = (case di_outcome input of
     Acted \<Rightarrow> Executed_action (''report findings routed to directive job '' @ or_else (di_directiveJobId input) ''undefined'')
                seq REPORT_DISPOSITION_EVENT
   | Dismissed \<Rightarrow> Cancelled (disposition_note input)
   | Superseded_report \<Rightarrow> Superseded None (disposition_note input))"

definition disposition_payload :: "disposition_input \<Rightarrow> job_record \<Rightarrow> obligation_record \<Rightarrow> json" where
  "disposition_payload input job row = JObj
     [(''outcome'', JStr (report_outcome_name (di_outcome input))),
      (''note'', (if disposition_note input = [] then JNull else JStr (disposition_note input))),
      (''directive_job_id'', or_null JStr (di_directiveJobId input)), (''obligation_id'', JStr (ob_id row)),
      (''by'', JStr (disposition_actor input job))]"

definition settleReportDisposition ::
  "env \<Rightarrow> disposition_input \<Rightarrow> ledger \<Rightarrow> ledger_error + ledger \<times> job_record \<times> obligation_record" where
  "settleReportDisposition E input L =
     attempt (the_job L (di_jobId input)) (\<lambda>job.
     attempt (check_disposition L input job) (\<lambda>_.
     attempt (live_report E L (di_jobId input)) (\<lambda>row.
     let L1 = appendEvent E REPORT_DISPOSITION_EVENT None (Some (jb_id job)) (disposition_payload input job row) L in
     attempt (settleObligation E (ob_id row) (disposition_settlement input (lg_seq L1)) None L1) (\<lambda>(L2, settled).
     attempt (setJobStatus E (jb_id job) ''done'' None L2) (\<lambda>(L3, done'). Inr (L3, done', settled))))))"

definition supersedeReportObligation ::
  "env \<Rightarrow> string \<Rightarrow> string \<Rightarrow> ledger \<Rightarrow> ledger_error + ledger \<times> job_record \<times> obligation_record" where
  "supersedeReportObligation E jobId reason L =
     attempt (the_job L jobId) (\<lambda>job.
     if jb_status job \<noteq> Delivered then Inl (Bad_input ''not delivered'') else
     attempt (live_report E L jobId) (\<lambda>row.
     attempt (settleObligation E (ob_id row) (Superseded None reason) None L) (\<lambda>(L1, settled).
     let L2 = appendEvent E REPORT_SUPERSEDED_EVENT None (Some (jb_id job))
           (JObj [(''reason'', JStr reason), (''target_ref'', or_null JStr (jb_targetRef job)),
              (''target_sha'', or_null JStr (jb_targetSha job)), (''obligation_id'', JStr (ob_id row))]) L1 in
     attempt (setJobStatus E (jb_id job) ''done'' None L2) (\<lambda>(L3, done'). Inr (L3, done', settled)))))"

subsection \<open>The page loop lists every matching row once\<close>

lemma map_res_append:
  "map_res f (xs @ ys) = attempt (map_res f xs) (\<lambda>a. attempt (map_res f ys) (\<lambda>b. Inr (a @ b)))"
proof (induction xs)
  case Nil
  show ?case by (cases "map_res f ys") auto
next
  case (Cons x xs)
  show ?case
    by (cases "f x"; cases "map_res f xs"; cases "map_res f ys") (simp_all add: Cons)
qed

lemma map_res_nth: "map_res f xs = Inr ys \<Longrightarrow> n < length xs \<Longrightarrow> f (xs ! n) = Inr (ys ! n)"
  by (induction xs arbitrary: ys n) (auto simp: attempt_Inr_iff nth_Cons split: nat.splits)

lemma with_rowids_sorted: "sorted_wrt (\<lambda>p q. fst p < fst q) (with_rowids rows)"
proof -
  have "sorted_wrt (<) (map fst (with_rowids rows))"
    by (simp add: with_rowids_def del: upt_Suc)
  then show ?thesis by (simp add: sorted_wrt_map)
qed

lemma with_rowids_snd [simp]: "map snd (with_rowids rows) = rows"
  by (simp add: with_rowids_def del: upt_Suc)

lemma with_rowids_pos: "p \<in> set (with_rowids rows) \<Longrightarrow> 0 < fst p"
proof -
  assume "p \<in> set (with_rowids rows)"
  then have "(fst p, snd p) \<in> set (zip [1..<Suc (length rows)] rows)" by (simp add: with_rowids_def del: upt_Suc)
  then have "fst p \<in> set [1..<Suc (length rows)]" by (rule set_zip_leftD)
  then show ?thesis by (simp del: upt_Suc)
qed

lemma filter_after_nth:
  assumes "sorted_wrt (\<lambda>p q. fst p < (fst q :: nat)) xs" and "n < length xs"
  shows "filter (\<lambda>p. fst (xs ! n) < fst p) xs = drop (Suc n) xs"
proof -
  have split: "xs = take (Suc n) xs @ drop (Suc n) xs" by simp
  have "filter (\<lambda>p. fst (xs ! n) < fst p) (take (Suc n) xs) = []"
    unfolding filter_empty_conv
  proof
    fix p assume "p \<in> set (take (Suc n) xs)"
    then obtain m where m: "m \<le> n" "p = xs ! m" by (auto simp: in_set_conv_nth less_Suc_eq_le)
    then have "m = n \<or> m < n" by auto
    then have "m = n \<or> fst p < fst (xs ! n)" using assms m(2) by (auto simp: sorted_wrt_iff_nth_less)
    then show "\<not> fst (xs ! n) < fst p" using m by auto
  qed
  moreover have "filter (\<lambda>p. fst (xs ! n) < fst p) (drop (Suc n) xs) = drop (Suc n) xs"
    unfolding filter_id_conv
  proof
    fix p assume "p \<in> set (drop (Suc n) xs)"
    then obtain m where "m < length xs - Suc n" "p = xs ! (Suc n + m)" by (auto simp: in_set_conv_nth)
    then show "fst (xs ! n) < fst p" using assms by (auto simp: sorted_wrt_iff_nth_less)
  qed
  ultimately show ?thesis by (metis split filter_append append_Nil)
qed

lemma rowid_of_row:
  assumes "distinct (map ob_id rows)" and "p \<in> set (with_rowids rows)"
  shows "find (\<lambda>q. ob_id (snd q) = ob_id (snd p)) (with_rowids rows) = Some p"
proof -
  have "distinct (map (\<lambda>q. ob_id (snd q)) (with_rowids rows))"
    using assms(1) by (metis (no_types, lifting) map_map comp_def map_cong with_rowids_snd)
  then have "row_find (\<lambda>q. ob_id (snd q)) (ob_id (snd p)) (with_rowids rows) = Some p"
    by (rule row_find_distinct [OF _ assms(2)])
  then show ?thesis by (simp add: row_find_def)
qed

definition page_rows ::
  "ledger \<Rightarrow> string \<Rightarrow> obligation_state list \<Rightarrow> nat \<Rightarrow> nat \<Rightarrow> (nat \<times> obligation_record) list" where
  "page_rows L jobId states watermark cursor =
     filter (\<lambda>p. ob_jobId (snd p) = jobId \<and> ob_state (snd p) \<in> set states \<and> cursor < fst p \<and> fst p \<le> watermark)
       (with_rowids (lg_obligations L))"

lemma page_rows_next:
  assumes "n < length (page_rows L j ss w c)"
  shows "page_rows L j ss w (fst (page_rows L j ss w c ! n)) = drop (Suc n) (page_rows L j ss w c)"
proof -
  let ?M = "page_rows L j ss w c"
  have sorted: "sorted_wrt (\<lambda>p q. fst p < fst q) ?M"
    unfolding page_rows_def by (rule sorted_wrt_filter [OF with_rowids_sorted])
  have "?M ! n \<in> set ?M" using assms by simp
  then have "c < fst (?M ! n)" by (simp add: page_rows_def)
  then have "page_rows L j ss w (fst (?M ! n)) = filter (\<lambda>p. fst (?M ! n) < fst p) ?M"
    unfolding page_rows_def filter_filter by (intro filter_cong) auto
  then show ?thesis using filter_after_nth [OF sorted assms] by simp
qed

lemma applicable_pages_rows:
  assumes "distinct (map ob_id (lg_obligations L))" and "ss \<noteq> []" and "length (page_rows L j ss w c) < fuel"
  shows "applicable_pages fuel E L j ss w c = map_res (\<lambda>p. obligationFromRow (en_plat E) (snd p)) (page_rows L j ss w c)"
  using assms(3)
proof (induction fuel arbitrary: c)
  case 0
  then show ?case by simp
next
  case (Suc fuel)
  let ?M = "page_rows L j ss w c" and ?f = "\<lambda>p. obligationFromRow (en_plat E) (snd p)"
  have list: "listObligations E L \<lparr>oq_jobId = Some j, oq_states = Some ss, oq_limit = Some 200,
      oq_cursor = Some c, oq_maxRowid = Some w\<rparr> = map_res ?f (take 200 ?M)"
    using assms(2)
    by (simp add: listObligations_def query_limit_def or_else_def page_rows_def)
      (rule arg_cong [where f = "\<lambda>x. map_res ?f (take 200 x)"], rule filter_cong, simp_all add: query_matches_def conj_assoc)
  show ?case
  proof (cases "map_res ?f (take 200 ?M)")
    case (Inl e)
    then have "map_res ?f ?M = Inl e"
      using map_res_append [of ?f "take 200 ?M" "drop 200 ?M"] by simp
    then show ?thesis by (simp add: list Inl)
  next
    case (Inr page)
    have len: "length page = min 200 (length ?M)" using map_res_length [OF Inr] by simp
    show ?thesis
    proof (cases "length ?M < 200")
      case True
      then show ?thesis using Inr len by (simp add: list)
    next
      case False
      then have n: "199 < length ?M" and full: "length page = 200" using len by auto
      have "page \<noteq> []" using full by auto
      then have "last page = page ! 199" using full by (simp add: last_conv_nth)
      then have "?f (?M ! 199) = Inr (last page)"
        using map_res_nth [OF Inr, of 199] n by simp
      then have "ob_id (last page) = ob_id (snd (?M ! 199))" by (rule read_fields(1))
      moreover have "?M ! 199 \<in> set (with_rowids (lg_obligations L))"
        using nth_mem [OF n] by (auto simp: page_rows_def)
      ultimately have rowid: "obligationRowid L (ob_id (last page)) = Some (fst (?M ! 199))"
        using rowid_of_row [OF assms(1)] by (simp add: obligationRowid_def)
      have rest: "page_rows L j ss w (fst (?M ! 199)) = drop 200 ?M"
        using page_rows_next [OF n] by simp
      have "applicable_pages fuel E L j ss w (fst (?M ! 199)) = map_res ?f (drop 200 ?M)"
        using Suc.IH [of "fst (?M ! 199)"] Suc.prems n by (simp add: rest)
      then show ?thesis
        using map_res_append [of ?f "take 200 ?M" "drop 200 ?M"] by (simp add: list Inr full rowid)
    qed
  qed
qed

lemma map_res_of_map: "map_res f (map g xs) = map_res (\<lambda>x. f (g x)) xs"
  by (induction xs) auto

lemma listApplicable_rows:
  assumes "distinct (map ob_id (lg_obligations L))" and "ss \<noteq> []"
  shows "listApplicableObligations E L j ss = map_res (obligationFromRow (en_plat E))
     (filter (\<lambda>r. ob_jobId r = j \<and> ob_state r \<in> set ss) (lg_obligations L))"
proof -
  let ?job = "filter (\<lambda>p. ob_jobId (snd p) = j) (with_rowids (lg_obligations L))"
  have all: "filter (\<lambda>r. ob_jobId r = j \<and> ob_state r \<in> set ss) (lg_obligations L)
      = map snd (filter (\<lambda>p. ob_jobId (snd p) = j \<and> ob_state (snd p) \<in> set ss) (with_rowids (lg_obligations L)))"
    using filter_map [of "\<lambda>r. ob_jobId r = j \<and> ob_state r \<in> set ss" snd "with_rowids (lg_obligations L)"]
    by (simp add: comp_def)
  show ?thesis
  proof (cases "max_of fst ?job")
    case None
    then have none: "\<forall>p\<in>set (with_rowids (lg_obligations L)). ob_jobId (snd p) \<noteq> j" by (simp add: filter_empty_conv)
    have "filter (\<lambda>p. ob_jobId (snd p) = j \<and> ob_state (snd p) \<in> set ss) (with_rowids (lg_obligations L)) = []"
      unfolding filter_empty_conv using none by blast
    then show ?thesis unfolding all by (simp add: listApplicableObligations_def None)
  next
    case (Some w)
    have rows: "page_rows L j ss w 0
        = filter (\<lambda>p. ob_jobId (snd p) = j \<and> ob_state (snd p) \<in> set ss) (with_rowids (lg_obligations L))"
      unfolding page_rows_def
    proof (rule filter_cong [OF refl])
      fix p assume p: "p \<in> set (with_rowids (lg_obligations L))"
      have "0 < fst p" by (rule with_rowids_pos [OF p])
      moreover have "ob_jobId (snd p) = j \<longrightarrow> fst p \<le> w" using max_of_ge [OF Some, of p] p by simp
      ultimately show "(ob_jobId (snd p) = j \<and> ob_state (snd p) \<in> set ss \<and> 0 < fst p \<and> fst p \<le> w)
          = (ob_jobId (snd p) = j \<and> ob_state (snd p) \<in> set ss)" by blast
    qed
    have "length (page_rows L j ss w 0) \<le> length (with_rowids (lg_obligations L))"
      by (simp add: page_rows_def)
    also have "\<dots> = length (lg_obligations L)" by (metis length_map with_rowids_snd)
    finally have fuel: "length (page_rows L j ss w 0) < Suc (length (lg_obligations L))" by simp
    have run: "listApplicableObligations E L j ss = applicable_pages (Suc (length (lg_obligations L))) E L j ss w 0"
      unfolding listApplicableObligations_def Some option.case by (rule refl)
    show ?thesis unfolding run applicable_pages_rows [OF assms fuel] all map_res_of_map rows by (rule refl)
  qed
qed

subsection \<open>The debts a ledger owes\<close>

text \<open>The abstract state of the obligation store: the set of incidents that still owe something.\<close>

type_synonym incident = "string \<times> string \<times> string"

definition incident_of :: "obligation_record \<Rightarrow> incident" where
  "incident_of r = (ob_jobId r, ob_logicalStep r, ob_incidentKey r)"

definition owed :: "ledger \<Rightarrow> incident set" where
  "owed L = incident_of ` {r \<in> set (lg_obligations L). live r}"

text \<open>The ids of a job's rows in given states.\<close>

definition pending :: "string \<Rightarrow> obligation_state set \<Rightarrow> ledger \<Rightarrow> string set" where
  "pending j states L = ob_id ` {r \<in> set (lg_obligations L). ob_jobId r = j \<and> ob_state r \<in> states}"

lemma pending_empty: "pending j states L = {} \<longleftrightarrow> (\<forall>r\<in>set (lg_obligations L). ob_jobId r = j \<longrightarrow> ob_state r \<notin> states)"
  by (auto simp: pending_def)

lemma pending_update:
  assumes "lg_obligations L' = row_update ob_id i f (lg_obligations L)"
    and "\<And>r. ob_id (f r) = ob_id r" and "\<And>r. ob_state (f r) \<notin> states"
  shows "pending j states L' = pending j states L - {i}"
proof -
  have "pending j states L' \<subseteq> pending j states L - {i}"
  proof
    fix k assume "k \<in> pending j states L'"
    then obtain r' where r': "r' \<in> set (lg_obligations L')" "ob_jobId r' = j" "ob_state r' \<in> states" "k = ob_id r'"
      by (auto simp: pending_def)
    then obtain r where r: "r \<in> set (lg_obligations L)" "r' = (if ob_id r = i then f r else r)"
      unfolding assms(1) row_update_set_iff by blast
    then have "ob_id r \<noteq> i" using r'(3) assms(3) by auto
    then show "k \<in> pending j states L - {i}" using r r' by (auto simp: pending_def)
  qed
  moreover have "pending j states L - {i} \<subseteq> pending j states L'"
  proof
    fix k assume "k \<in> pending j states L - {i}"
    then obtain r where r: "r \<in> set (lg_obligations L)" "ob_jobId r = j" "ob_state r \<in> states" "k = ob_id r" "k \<noteq> i"
      by (auto simp: pending_def)
    then have "r \<in> set (lg_obligations L')" unfolding assms(1) row_update_set_iff by force
    then show "k \<in> pending j states L'" using r by (auto simp: pending_def)
  qed
  ultimately show ?thesis by blast
qed

lemma listed_pending:
  assumes "listApplicableObligations E L j ss = Inr rows" and "distinct (map ob_id (lg_obligations L))" and "ss \<noteq> []"
  shows "ob_id ` set rows = pending j (set ss) L"
    and "row \<in> set rows \<Longrightarrow> \<exists>r\<in>set (lg_obligations L). ob_jobId r = j \<and> ob_state r \<in> set ss
      \<and> obligationFromRow (en_plat E) r = Inr row"
proof -
  let ?rows = "filter (\<lambda>r. ob_jobId r = j \<and> ob_state r \<in> set ss) (lg_obligations L)"
  have run: "map_res (obligationFromRow (en_plat E)) ?rows = Inr rows"
    using assms(1) listApplicable_rows [OF assms(2,3)] by simp
  have "map ob_id rows = map ob_id ?rows"
  proof (rule nth_equalityI)
    show len: "length (map ob_id rows) = length (map ob_id ?rows)" using map_res_length [OF run] by simp
    show "map ob_id rows ! n = map ob_id ?rows ! n" if "n < length (map ob_id rows)" for n
      using map_res_nth [OF run, of n] that len read_fields(1) by simp
  qed
  then have "ob_id ` set rows = ob_id ` set ?rows" by (metis set_map)
  then show "ob_id ` set rows = pending j (set ss) L" by (simp add: pending_def)
  show "\<exists>r\<in>set (lg_obligations L). ob_jobId r = j \<and> ob_state r \<in> set ss \<and> obligationFromRow (en_plat E) r = Inr row"
    if "row \<in> set rows" using map_res_set [OF run that] by auto
qed

text \<open>A sweep over listed rows, each handled by one write of that row.\<close>

lemma each_pending:
  assumes "\<And>x L L'. f x L = Inr L' \<Longrightarrow> pending j states L' = pending j states L - {ob_id x}"
    and "each f xs L = Inr L'"
  shows "pending j states L' = pending j states L - ob_id ` set xs"
  using assms(2) by (induction xs arbitrary: L) (auto simp: attempt_Inr_iff assms(1))

lemma each_changes:
  assumes "\<And>x s s'. obligations_ok plat (g s) \<Longrightarrow> f x s = Inr s' \<Longrightarrow> debt_changes plat (g s) (g s')"
    and "obligations_ok plat (g s)" and "each f xs s = Inr s'"
  shows "debt_changes plat (g s) (g s')"
  using assms(2,3)
proof (induction xs arbitrary: s)
  case Nil
  then show ?case by simp
next
  case (Cons x xs)
  from Cons.prems(2) obtain t where t: "f x s = Inr t" and rest: "each f xs t = Inr s'"
    by (auto simp: attempt_Inr_iff)
  have step: "debt_changes plat (g s) (g t)" by (rule assms(1) [OF Cons.prems(1) t])
  then have "obligations_ok plat (g t)" by (rule debt_inv.steps_inv [OF _ Cons.prems(1)])
  then have "debt_changes plat (g t) (g s')" by (rule Cons.IH [OF _ rest])
  with step show ?case by (rule rtranclp_trans)
qed

lemma suspend_pending:
  "suspendObligation E i reason L = Inr (L', x) \<Longrightarrow> pending j {O_open, O_waiting} L' = pending j {O_open, O_waiting} L - {i}"
proof -
  assume "suspendObligation E i reason L = Inr (L', x)"
  then obtain row payload where row: "the_obligation E L i = Inr row" and
    put: "put_obligation E ''job.obligation-state'' row (\<lambda>r. r\<lparr>ob_state := O_suspended, ob_updatedAt := en_now E\<rparr>) payload L
      = Inr (L', x)"
    unfolding suspendObligation_def by (blast dest: set_state_InrD)
  show ?thesis
    by (rule pending_update [where f = "\<lambda>r. r\<lparr>ob_state := O_suspended, ob_updatedAt := en_now E\<rparr>"])
      (use put the_obligation_id [OF row] in \<open>simp_all add: put_obligation_Inr\<close>)
qed

lemma settle_pending:
  assumes "settleObligation E i s requestId L = Inr (L', x)" and "states \<subseteq> {O_open, O_waiting, O_suspended}"
  shows "pending j states L' = pending j states L - {i}"
proof -
  from settle_rows [OF assms(1)] obtain row where
    "lg_obligations L' = row_update ob_id i (settled_row E row s) (lg_obligations L)" by blast
  then show ?thesis
    by (rule pending_update) (use assms(2) settlement_target_terminal [of s] in \<open>auto simp: settled_row_def\<close>)
qed

lemma suspend_all_InrD:
  assumes "suspendApplicableObligations E j reason L = Inr L'" and "obligations_ok (en_plat E) L"
  shows "pending j {O_open, O_waiting} L' = {}" and "debt_changes (en_plat E) L L'"
proof -
  from assms(1) obtain rows where rows: "listApplicableObligations E L j [O_open, O_waiting] = Inr rows"
    and run: "each (\<lambda>row L. attempt (suspendObligation E (ob_id row) reason L) (\<lambda>(L', _). Inr L')) rows L = Inr L'"
    by (auto simp: suspendApplicableObligations_def attempt_Inr_iff)
  have "ob_id ` set rows = pending j {O_open, O_waiting} L"
    using listed_pending(1) [OF rows] assms(2) by (simp add: obligations_ok_def)
  moreover have "pending j {O_open, O_waiting} L' = pending j {O_open, O_waiting} L - ob_id ` set rows"
    by (rule each_pending [OF _ run]) (auto simp: attempt_Inr_iff suspend_pending)
  ultimately show "pending j {O_open, O_waiting} L' = {}" by simp
  show "debt_changes (en_plat E) L L'"
    by (rule each_changes [where g = "\<lambda>L. L", OF _ assms(2) run])
      (auto simp: attempt_Inr_iff suspendObligation_def dest!: set_state_change)
qed

lemma close_all_InrD:
  assumes "closeApplicableObligations E j terminal L = Inr L'" and "obligations_ok (en_plat E) L"
  shows "pending j {O_open, O_waiting, O_suspended} L' = {}" and "debt_changes (en_plat E) L L'"
proof -
  from assms(1) obtain rows where rows: "listApplicableObligations E L j [O_open, O_waiting, O_suspended] = Inr rows"
    and run: "each (\<lambda>row L. attempt (settleObligation E (ob_id row) (Job_terminal terminal) None L) (\<lambda>(L', _). Inr L')) rows L
      = Inr L'"
    by (auto simp: closeApplicableObligations_def attempt_Inr_iff)
  have "ob_id ` set rows = pending j {O_open, O_waiting, O_suspended} L"
    using listed_pending(1) [OF rows] assms(2) by (simp add: obligations_ok_def)
  moreover have "pending j {O_open, O_waiting, O_suspended} L' = pending j {O_open, O_waiting, O_suspended} L - ob_id ` set rows"
    by (rule each_pending [OF _ run]) (auto simp: attempt_Inr_iff settle_pending)
  ultimately show "pending j {O_open, O_waiting, O_suspended} L' = {}" by simp
  show "debt_changes (en_plat E) L L'"
    by (rule each_changes [where g = "\<lambda>L. L", OF _ assms(2) run]) (auto simp: attempt_Inr_iff dest!: settle_change)
qed

lemma found_once:
  assumes "obligations_ok plat L" and "row_find ob_id i (lg_obligations L) = Some r" and "x \<in> set (lg_obligations L)" and "ob_id x = i"
  shows "x = r"
  using assms row_find_SomeD [OF assms(2)] by (auto simp: obligations_ok_def distinct_map dest: inj_onD)

lemma owed_iff: "t \<in> owed L \<longleftrightarrow> (\<exists>x\<in>set (lg_obligations L). live x \<and> t = incident_of x)"
  by (auto simp: owed_def)

lemma owed_update_iff:
  assumes "lg_obligations L' = row_update ob_id i f (lg_obligations L)"
  shows "t \<in> owed L' \<longleftrightarrow> (\<exists>x\<in>set (lg_obligations L). live (if ob_id x = i then f x else x)
     \<and> t = incident_of (if ob_id x = i then f x else x))"
  unfolding owed_iff assms row_update_def set_map by blast

lemma owed_event [simp]: "owed (appendEvent E k a j p L) = owed L"
  by (rule set_eqI) (simp add: owed_iff)

lemma owed_status [simp]: "owed (writeJobStatus E i s t x L) = owed L"
  by (rule set_eqI) (simp add: owed_iff)

lemma ok_event [simp]: "obligations_ok plat (appendEvent E k a j p L) = obligations_ok plat L"
  by (simp add: obligations_ok_def)

lemma ok_status [simp]: "obligations_ok plat (writeJobStatus E i s t x L) = obligations_ok plat L"
  by (simp add: obligations_ok_def)

lemma owed_keep:
  assumes ok: "obligations_ok plat L" and r: "row_find ob_id i (lg_obligations L) = Some r"
    and "incident_of (f r) = incident_of r" and "live (f r) \<longleftrightarrow> live r"
    and rows: "lg_obligations L' = row_update ob_id i f (lg_obligations L)"
  shows "owed L' = owed L"
proof (rule set_eqI)
  fix t
  have "(\<exists>x\<in>set (lg_obligations L). live (if ob_id x = i then f x else x) \<and> t = incident_of (if ob_id x = i then f x else x))
      \<longleftrightarrow> (\<exists>x\<in>set (lg_obligations L). live x \<and> t = incident_of x)"
    by (rule bex_cong [OF refl]) (use found_once [OF ok r] assms(3,4) in auto)
  then show "t \<in> owed L' \<longleftrightarrow> t \<in> owed L" unfolding owed_update_iff [OF rows] owed_iff [of t L] .
qed

lemma owed_discharge:
  assumes ok: "obligations_ok plat L" and r: "row_find ob_id i (lg_obligations L) = Some r"
    and "live r" and "\<not> live (f r)" and rows: "lg_obligations L' = row_update ob_id i f (lg_obligations L)"
  shows "owed L' = owed L - {incident_of r}"
proof (rule set_eqI)
  note mem = row_find_SomeD [OF r]
  fix t
  have "t \<in> owed L' \<longleftrightarrow> (\<exists>x\<in>set (lg_obligations L). ob_id x \<noteq> i \<and> live x \<and> t = incident_of x)"
    unfolding owed_update_iff [OF rows] by (rule bex_cong [OF refl]) (use found_once [OF ok r] assms(4) in auto)
  also have "\<dots> \<longleftrightarrow> (\<exists>x\<in>set (lg_obligations L). live x \<and> t = incident_of x) \<and> t \<noteq> incident_of r"
  proof
    assume "\<exists>x\<in>set (lg_obligations L). ob_id x \<noteq> i \<and> live x \<and> t = incident_of x"
    then obtain x where x: "x \<in> set (lg_obligations L)" "ob_id x \<noteq> i" "live x" "t = incident_of x" by blast
    have "x \<noteq> r" using x(2) mem by auto
    then have "incident_of x \<noteq> incident_of r"
      using ok x mem assms(3) by (auto simp: obligations_ok_def one_live_def of_tuple_def incident_of_def)
    then show "(\<exists>x\<in>set (lg_obligations L). live x \<and> t = incident_of x) \<and> t \<noteq> incident_of r" using x by metis
  next
    assume "(\<exists>x\<in>set (lg_obligations L). live x \<and> t = incident_of x) \<and> t \<noteq> incident_of r"
    then show "\<exists>x\<in>set (lg_obligations L). ob_id x \<noteq> i \<and> live x \<and> t = incident_of x"
      using found_once [OF ok r] by blast
  qed
  finally show "t \<in> owed L' \<longleftrightarrow> t \<in> owed L - {incident_of r}" by (auto simp: owed_def)
qed

lemma owed_append: "lg_obligations L' = lg_obligations L @ [r] \<Longrightarrow> live r \<Longrightarrow> owed L' = insert (incident_of r) (owed L)"
  by (auto simp: owed_def)

lemma owed_same: "lg_obligations L' = lg_obligations L \<Longrightarrow> owed L' = owed L"
  by (simp add: owed_def)

lemma incident_read: "obligationFromRow plat r = Inr row \<Longrightarrow> incident_of row = incident_of r \<and> (live row \<longleftrightarrow> live r)"
  by (simp add: incident_of_def live_simps read_fields)

lemma put_owed:
  assumes ok: "obligations_ok (en_plat E) L" and "the_obligation E L i = Inr row"
    and put: "put_obligation E kind row f payload L = Inr (L', x)"
    and keep: "\<And>r. obligationFromRow (en_plat E) r = Inr row \<Longrightarrow> incident_of (f r) = incident_of r \<and> (live (f r) \<longleftrightarrow> live r)"
  shows "owed L' = owed L" and "lg_jobs L' = lg_jobs L" and "log_extends L L'"
proof -
  from assms(2) obtain r where r: "row_find ob_id i (lg_obligations L) = Some r" "obligationFromRow (en_plat E) r = Inr row"
    by (auto simp: the_obligation_Inr)
  have "lg_obligations L' = row_update ob_id i f (lg_obligations L)"
    using put the_obligation_id [OF assms(2)] by (simp add: put_obligation_Inr)
  then show "owed L' = owed L" using owed_keep [OF ok r(1)] keep [OF r(2)] by blast
  show "lg_jobs L' = lg_jobs L" and "log_extends L L'" using put by (simp_all add: put_obligation_Inr write_obligation_log)
qed

lemma settle_owed:
  assumes "settleObligation E i s requestId L = Inr (L', x)" and ok: "obligations_ok (en_plat E) L"
  shows "\<exists>row. the_obligation E L i = Inr row \<and> live row \<and> owed L' = owed L - {incident_of row}"
proof -
  from settle_rows [OF assms(1)] obtain row where row: "the_obligation E L i = Inr row"
    and tr: "settlement_target s \<in> set (the (OBLIGATION_TRANSITIONS (ob_state row)))"
    and rows: "lg_obligations L' = row_update ob_id i (settled_row E row s) (lg_obligations L)" by blast
  from row obtain r where r: "row_find ob_id i (lg_obligations L) = Some r" "obligationFromRow (en_plat E) r = Inr row"
    by (auto simp: the_obligation_Inr)
  have live: "live row" using transition_live [OF tr] by (simp add: live_simps)
  have "owed L' = owed L - {incident_of r}"
    by (rule owed_discharge [OF ok r(1) _ _ rows])
      (use live incident_read [OF r(2)] settlement_target_terminal [of s] in \<open>auto simp: settled_row_def live_simps\<close>)
  then show ?thesis using row live incident_read [OF r(2)] by auto
qed

lemma put_read_live: "the_obligation E L i = Inr row \<Longrightarrow> \<exists>r\<in>set (lg_obligations L). ob_id r = i \<and> obligationFromRow (en_plat E) r = Inr row"
  by (auto simp: the_obligation_Inr dest!: row_find_SomeD)

lemma claim_owed:
  assumes "claimObligation E input L = Inr (L', x)" and ok: "obligations_ok (en_plat E) L"
  shows "owed L' = owed L"
proof -
  from claimObligation_InrD [OF assms(1)] obtain row t payload where
    row: "the_obligation E L (ci_obligationId input) = Inr row"
    and put: "put_obligation E ''job.obligation-claimed'' row
         (\<lambda>r. r\<lparr>ob_claim := Some \<lparr>oc_requestId = ci_requestId input, oc_holder = ci_holder input,
                   oc_generation = int (ob_generation row), oc_expiresAt = Some t\<rparr>,
                ob_claimLog := claimed_log E input row, ob_updatedAt := en_now E\<rparr>) payload L = Inr (L', x)"
    by blast
  show ?thesis by (rule put_owed(1) [OF ok row put]) (simp add: incident_of_def live_simps)
qed

lemma release_owed:
  assumes "releaseClaim E i requestId L = Inr (L', x)" and ok: "obligations_ok (en_plat E) L"
  shows "owed L' = owed L"
proof -
  from assms(1) obtain row payload where row: "the_obligation E L i = Inr row"
    and put: "put_obligation E ''job.obligation-claim-released'' row
        (\<lambda>r. r\<lparr>ob_claim := None, ob_claimLog := log_claim row Released (en_now E) None, ob_updatedAt := en_now E\<rparr>)
        payload L = Inr (L', x)"
    unfolding releaseClaim_def attempt_Inr_iff by (auto split: option.splits)
  show ?thesis by (rule put_owed(1) [OF ok row put]) (simp add: incident_of_def live_simps)
qed

lemma receipt_owed:
  assumes "recordObligationReceipt E input L = Inr (L', x)" and ok: "obligations_ok (en_plat E) L"
  shows "owed L' = owed L"
proof -
  from receipt_InrD [OF assms(1)] obtain row where row: "the_obligation E L (ri_obligationId input) = Inr row"
    and cases: "L' = L \<or> (\<exists>ev payload. put_obligation E ''job.obligation-receipt'' row
             (\<lambda>r. r\<lparr>ob_recordedReceipts := ob_recordedReceipts row @
                      [\<lparr>rr_kind = ri_kind input, rr_eventSeq = \<lfloor>ri_eventSeq input\<rfloor>,
                        rr_at = or_else (ri_at input) (en_now E), rr_applied = receipt_applied input row ev\<rparr>],
                    ob_lastOriginSeq := max (ob_lastOriginSeq r) (nat \<lfloor>ri_eventSeq input\<rfloor>),
                    ob_state := receipt_state input row ev, ob_updatedAt := en_now E\<rparr>) payload L = Inr (L', x))"
    by blast
  from cases show ?thesis
  proof (elim disjE exE)
    fix ev payload
    assume put: "put_obligation E ''job.obligation-receipt'' row
             (\<lambda>r. r\<lparr>ob_recordedReceipts := ob_recordedReceipts row @
                      [\<lparr>rr_kind = ri_kind input, rr_eventSeq = \<lfloor>ri_eventSeq input\<rfloor>,
                        rr_at = or_else (ri_at input) (en_now E), rr_applied = receipt_applied input row ev\<rparr>],
                    ob_lastOriginSeq := max (ob_lastOriginSeq r) (nat \<lfloor>ri_eventSeq input\<rfloor>),
                    ob_state := receipt_state input row ev, ob_updatedAt := en_now E\<rparr>) payload L = Inr (L', x)"
    show ?thesis
      by (rule put_owed(1) [OF ok row put])
        (auto simp: incident_of_def live_simps receipt_state_def dest!: read_fields(6))
  qed simp
qed

lemma set_state_owed:
  assumes "set_obligation_state E i to reason L = Inr (L', x)" and "to \<in> {O_open, O_waiting, O_suspended}"
    and ok: "obligations_ok (en_plat E) L"
  shows "owed L' = owed L" and "lg_jobs L' = lg_jobs L"
proof -
  from set_state_InrD [OF assms(1)] obtain row payload where row: "the_obligation E L i = Inr row"
    and tr: "to \<in> set (the (OBLIGATION_TRANSITIONS (ob_state row)))"
    and put: "put_obligation E ''job.obligation-state'' row (\<lambda>r. r\<lparr>ob_state := to, ob_updatedAt := en_now E\<rparr>) payload L
      = Inr (L', x)" by blast
  have keep: "incident_of (r\<lparr>ob_state := to, ob_updatedAt := en_now E\<rparr>) = incident_of r
      \<and> (live (r\<lparr>ob_state := to, ob_updatedAt := en_now E\<rparr>) \<longleftrightarrow> live r)" if "obligationFromRow (en_plat E) r = Inr row" for r
    using transition_live [OF tr] assms(2) read_fields(6) [OF that] by (auto simp: incident_of_def live_simps)
  show "owed L' = owed L" and "lg_jobs L' = lg_jobs L"
    by (rule put_owed [OF ok row put keep], assumption)+
qed

lemma arm_owed:
  assumes "armReceiptExpectation E input L = Inr (L', x)" and ok: "obligations_ok (en_plat E) L"
  shows "owed L' = owed L"
proof -
  from assms(1) obtain t row payload where row: "the_obligation E L (am_obligationId input) = Inr row"
    and tr: "O_waiting \<in> set (the (OBLIGATION_TRANSITIONS (ob_state row)))"
    and put: "put_obligation E ''job.obligation-state'' row
        (\<lambda>r. r\<lparr>ob_state := O_waiting, ob_receiptKind := Some (am_receiptKind input), ob_deadlineAt := Some t,
               ob_receiptCorrelation := am_correlation input, ob_updatedAt := en_now E\<rparr>) payload L = Inr (L', x)"
    unfolding armReceiptExpectation_def attempt_Inr_iff guard_Inr assert_transition_mem ex_unit by blast
  show ?thesis
    by (rule put_owed(1) [OF ok row put])
      (use transition_live [OF tr] in \<open>auto simp: incident_of_def live_simps dest!: read_fields(6)\<close>)
qed

lemma coalesce_owed:
  assumes "coalesceObservation E existing resolved seq L = Inr (L', x)" and ok: "obligations_ok (en_plat E) L"
    and row: "the_obligation E L (ob_id existing) = Inr existing"
  shows "owed L' = owed L" and "lg_jobs L' = lg_jobs L" and "log_extends L L'"
proof -
  have *: "owed L' = owed L \<and> lg_jobs L' = lg_jobs L \<and> log_extends L L'"
  proof (cases "seq \<le> ob_lastOriginSeq existing")
    case True
    then show ?thesis using assms(1) by (auto simp: coalesceObservation_def log_extends_append intro: owed_same)
  next
    case False
    then have put: "put_obligation E ''job.obligation-updated'' existing (coalesced_row E existing resolved seq)
             (coalesce_payload existing resolved seq) L = Inr (L', x)"
      using assms(1) by (simp add: coalesceObservation_def)
    have keep: "incident_of (coalesced_row E existing resolved seq r) = incident_of r
        \<and> (live (coalesced_row E existing resolved seq r) \<longleftrightarrow> live r)" for r
      by (simp add: coalesced_row_def Let_def incident_of_def live_simps)
    show ?thesis using put_owed [OF ok row put keep] by blast
  qed
  then show "owed L' = owed L" and "lg_jobs L' = lg_jobs L" and "log_extends L L'" by simp_all
qed

definition resolved_incident :: "resolved_obligation \<Rightarrow> incident" where
  "resolved_incident resolved = (ro_jobId resolved, logical_step_name (ro_logicalStep resolved), ro_incidentKey resolved)"

lemma open_owed:
  assumes "open_incarnation E resolved seq extra L = Inr (L', x)" and "plan_ok resolved"
  shows "owed L' = insert (resolved_incident resolved) (owed L)"
    and "\<exists>r\<in>set (lg_obligations L'). live r \<and> incident_of r = resolved_incident resolved \<and> obligationFromRow (en_plat E) r = Inr x"
proof -
  from open_incarnation_InrD(2) [OF assms] obtain i g where
    rows: "lg_obligations L' = lg_obligations L @ [fresh_row E i resolved g seq]"
    and read: "obligationFromRow (en_plat E) (fresh_row E i resolved g seq) = Inr x" by blast
  have new: "live (fresh_row E i resolved g seq)" "incident_of (fresh_row E i resolved g seq) = resolved_incident resolved"
    by (simp_all add: live_simps incident_of_def resolved_incident_def)
  show "owed L' = insert (resolved_incident resolved) (owed L)" using owed_append [OF rows new(1)] new(2) by simp
  show "\<exists>r\<in>set (lg_obligations L'). live r \<and> incident_of r = resolved_incident resolved \<and> obligationFromRow (en_plat E) r = Inr x"
    using rows new read by (intro bexI [of _ "fresh_row E i resolved g seq"]) auto
qed

lemma active_owed:
  assumes "activeIncarnation E L jobId step key = Inr found"
  shows "found = None \<longleftrightarrow> (jobId, step, key) \<notin> owed L"
proof (cases found)
  case None
  then have "\<forall>r\<in>set (lg_obligations L). \<not> (of_tuple jobId step key r \<and> live r)"
    using assms by (simp add: activeIncarnation_def read_newest_None)
  then show ?thesis using None by (auto simp: owed_iff of_tuple_def incident_of_def)
next
  case (Some row)
  then obtain r where "newest (\<lambda>r. of_tuple jobId step key r \<and> live r) (lg_obligations L) = Some r"
    using assms by (auto simp: activeIncarnation_def read_newest_Inr)
  then have "(jobId, step, key) \<in> owed L"
    by (auto simp: owed_iff of_tuple_def incident_of_def dest!: newest_SomeD)
  then show ?thesis using Some by simp
qed

text \<open>What an operation does to the debts: nothing, a new incident, one incident answered, a job closed.\<close>

datatype debt_label = Keep | Owe incident | Discharge incident | Close string

fun apply_label :: "debt_label \<Rightarrow> incident set \<Rightarrow> incident set" where
  "apply_label Keep debts = debts"
| "apply_label (Owe t) debts = insert t debts"
| "apply_label (Discharge t) debts = debts - {t}"
| "apply_label (Close j) debts = {t \<in> debts. fst t \<noteq> j}"

text \<open>A blocked observation owes its incident, unless it already is owed or the observation is not newer
  than everything the incident's history has seen.\<close>

definition observation_label :: "env \<Rightarrow> ledger \<Rightarrow> string \<Rightarrow> blocker_context \<Rightarrow> debt_label" where
  "observation_label E L jobId context = (case resolveObligation (en_plat E) context jobId of
     Inl e \<Rightarrow> Keep
   | Inr resolved \<Rightarrow>
       if resolved_incident resolved \<in> owed L then Keep
       else case newestIncarnationWatermark L jobId (logical_step_name (ro_logicalStep resolved)) (ro_incidentKey resolved) of
         None \<Rightarrow> Owe (resolved_incident resolved)
       | Some m \<Rightarrow> if watermark_of context \<le> m then Keep else Owe (resolved_incident resolved))"

lemma observation_label_event [simp]:
  "observation_label E (appendEvent E' k a j p L) jobId context = observation_label E L jobId context"
  "observation_label E (writeJobStatus E' i s t x L) jobId context = observation_label E L jobId context"
  by (cases "resolveObligation (en_plat E) context jobId";
      simp add: observation_label_def newestIncarnationWatermark_def)+

lemma apply_owed:
  assumes "applyBlockedObservation E jobId context L = Inr (L', x)" and ok: "obligations_ok (en_plat E) L"
  shows "owed L' = apply_label (observation_label E L jobId context) (owed L)"
    and "lg_jobs L' = lg_jobs L" and "log_extends L L'"
proof -
  have *: "owed L' = apply_label (observation_label E L jobId context) (owed L) \<and> lg_jobs L' = lg_jobs L \<and> log_extends L L'"
    using assms(1)
  proof (cases rule: apply_cases)
    case (coalesce resolved existing)
    note A = active_reads [OF coalesce(2) ok]
    have "resolved_incident resolved \<in> owed L"
      using active_owed [OF coalesce(2)] by (simp add: resolved_incident_def resolveObligation_InrD(3) [OF coalesce(1)])
    then show ?thesis using coalesce_owed [OF coalesce(4) ok A(1)] coalesce(1) by (simp add: observation_label_def)
  next
    case (stale resolved m)
    have "resolved_incident resolved \<notin> owed L"
      using active_owed [OF stale(2)] by (simp add: resolved_incident_def resolveObligation_InrD(3) [OF stale(1)])
    then show ?thesis using stale(1,3,4,5) by (simp add: observation_label_def log_extends_append)
  next
    case (opens resolved)
    have new: "resolved_incident resolved \<notin> owed L"
      using active_owed [OF opens(2)] by (simp add: resolved_incident_def resolveObligation_InrD(3) [OF opens(1)])
    have "observation_label E L jobId context = Owe (resolved_incident resolved)"
    proof (cases "newestIncarnationWatermark L jobId (logical_step_name (ro_logicalStep resolved)) (ro_incidentKey resolved)")
      case None
      then show ?thesis using new opens(1) by (simp add: observation_label_def)
    next
      case (Some m)
      then have "m < watermark_of context" using opens(3) by blast
      then show ?thesis using new opens(1) Some by (simp add: observation_label_def)
    qed
    then show ?thesis
      using open_owed(1) [OF opens(4) resolved_plan_ok [OF opens(1)]]
        open_incarnation_InrD(3,4) [OF opens(4) resolved_plan_ok [OF opens(1)]] by simp
  qed
  then show "owed L' = apply_label (observation_label E L jobId context) (owed L)"
    and "lg_jobs L' = lg_jobs L" and "log_extends L L'" by blast+
qed

text \<open>Closing a job's debts.\<close>

definition id_jobs :: "ledger \<Rightarrow> (string \<times> string) list" where
  "id_jobs L = map (\<lambda>r. (ob_id r, ob_jobId r)) (lg_obligations L)"

lemma settle_frame:
  assumes "settleObligation E i s requestId L = Inr (L', x)" and ok: "obligations_ok (en_plat E) L"
    and "(i, j) \<in> set (id_jobs L)"
  shows "id_jobs L' = id_jobs L" and "{t \<in> owed L'. fst t \<noteq> j} = {t \<in> owed L. fst t \<noteq> j}"
    and "lg_jobs L' = lg_jobs L" and "owed L' \<subseteq> owed L"
proof -
  from settle_rows [OF assms(1)] obtain row0 where
    rows: "lg_obligations L' = row_update ob_id i (settled_row E row0 s) (lg_obligations L)" and jobs: "lg_jobs L' = lg_jobs L"
    by blast
  show "lg_jobs L' = lg_jobs L" by (rule jobs)
  show "id_jobs L' = id_jobs L" by (simp add: id_jobs_def rows row_update_def settled_row_def)
  from settle_owed [OF assms(1) ok] obtain row where row: "the_obligation E L i = Inr row"
    and o: "owed L' = owed L - {incident_of row}" by blast
  have "ob_jobId row = j"
  proof -
    from row obtain r where r: "row_find ob_id i (lg_obligations L) = Some r" "obligationFromRow (en_plat E) r = Inr row"
      by (auto simp: the_obligation_Inr)
    from assms(3) obtain x where "x \<in> set (lg_obligations L)" "ob_id x = i" "ob_jobId x = j" by (auto simp: id_jobs_def)
    with found_once [OF ok r(1)] read_fields(2) [OF r(2)] show ?thesis by auto
  qed
  then show "{t \<in> owed L'. fst t \<noteq> j} = {t \<in> owed L. fst t \<noteq> j}" unfolding o by (auto simp: incident_of_def)
  show "owed L' \<subseteq> owed L" unfolding o by blast
qed

lemma close_all_owed:
  assumes "closeApplicableObligations E j terminal L = Inr L'" and ok: "obligations_ok (en_plat E) L"
  shows "owed L' = {t \<in> owed L. fst t \<noteq> j}" and "lg_jobs L' = lg_jobs L"
proof -
  from assms(1) obtain rows where rows: "listApplicableObligations E L j [O_open, O_waiting, O_suspended] = Inr rows"
    and run: "each (\<lambda>row L. attempt (settleObligation E (ob_id row) (Job_terminal terminal) None L) (\<lambda>(L', _). Inr L')) rows L
      = Inr L'"
    by (auto simp: closeApplicableObligations_def attempt_Inr_iff)
  have listed: "(ob_id row, j) \<in> set (id_jobs L)" if "row \<in> set rows" for row
  proof -
    have "distinct (map ob_id (lg_obligations L))" using ok by (simp add: obligations_ok_def)
    from listed_pending(2) [OF rows this _ that] obtain r where "r \<in> set (lg_obligations L)" "ob_jobId r = j"
      "obligationFromRow (en_plat E) r = Inr row" by auto
    then show ?thesis using read_fields(1) by (fastforce simp: id_jobs_def)
  qed
  let ?P = "\<lambda>M. obligations_ok (en_plat E) M \<and> id_jobs M = id_jobs L \<and> lg_jobs M = lg_jobs L
    \<and> {t \<in> owed M. fst t \<noteq> j} = {t \<in> owed L. fst t \<noteq> j}"
  have "?P L'"
  proof (rule each_invariant [where P = ?P, OF _ _ run])
    fix row M M' assume row: "row \<in> set rows" and P: "?P M"
      and step: "attempt (settleObligation E (ob_id row) (Job_terminal terminal) None M) (\<lambda>(L', _). Inr L') = Inr M'"
    from step obtain x where s: "settleObligation E (ob_id row) (Job_terminal terminal) None M = Inr (M', x)"
      by (auto simp: attempt_Inr_iff)
    have "(ob_id row, j) \<in> set (id_jobs M)" using listed [OF row] P by simp
    note F = settle_frame [OF s conjunct1 [OF P] this]
    show "?P M'" using F P debt_change_ok [OF conjunct1 [OF P] settle_change [OF s]] by simp
  qed (simp add: ok)
  moreover have "fst t \<noteq> j" if "t \<in> owed L'" for t
    using that close_all_InrD(1) [OF assms] unfolding pending_empty
    by (auto simp: owed_iff incident_of_def live_simps) (metis obligation_state.exhaust)
  ultimately show "owed L' = {t \<in> owed L. fst t \<noteq> j}" and "lg_jobs L' = lg_jobs L" by auto
qed

lemma suspend_all_owed:
  assumes "suspendApplicableObligations E j reason L = Inr L'" and ok: "obligations_ok (en_plat E) L"
  shows "owed L' = owed L" and "lg_jobs L' = lg_jobs L"
proof -
  from assms(1) obtain rows where rows: "listApplicableObligations E L j [O_open, O_waiting] = Inr rows"
    and run: "each (\<lambda>row L. attempt (suspendObligation E (ob_id row) reason L) (\<lambda>(L', _). Inr L')) rows L = Inr L'"
    by (auto simp: suspendApplicableObligations_def attempt_Inr_iff)
  let ?P = "\<lambda>M. obligations_ok (en_plat E) M \<and> owed M = owed L \<and> lg_jobs M = lg_jobs L"
  have "?P L'"
  proof (rule each_invariant [where P = ?P, OF _ _ run])
    fix row M M' assume P: "?P M" and "attempt (suspendObligation E (ob_id row) reason M) (\<lambda>(L', _). Inr L') = Inr M'"
    then obtain x where s: "set_obligation_state E (ob_id row) O_suspended reason M = Inr (M', x)"
      by (auto simp: attempt_Inr_iff suspendObligation_def)
    note F = set_state_owed [OF s _ conjunct1 [OF P]]
    show "?P M'" using F P debt_change_ok [OF conjunct1 [OF P] set_state_change [OF s]] by simp
  qed (simp add: ok)
  then show "owed L' = owed L" and "lg_jobs L' = lg_jobs L" by simp_all
qed

subsection \<open>The status boundary and the composite operations\<close>

definition status_label :: "env \<Rightarrow> ledger \<Rightarrow> string \<Rightarrow> job_status \<Rightarrow> blocker_context option \<Rightarrow> nat \<Rightarrow> debt_label" where
  "status_label E L i status context seq =
     (if status = Blocked then observation_label E L i (or_else context (default_blocker seq))
      else if isJobTerminal status then Close i else Keep)"

lemma follow_status_InrD:
  assumes "follow_status E i status context seq L = Inr L'" and ok: "obligations_ok (en_plat E) L"
  shows "owed L' = apply_label (status_label E L i status context seq) (owed L)" and "lg_jobs L' = lg_jobs L"
    and "debt_changes (en_plat E) L L'"
    and "status = Parked \<Longrightarrow> pending i {O_open, O_waiting} L' = {}"
    and "isJobTerminal status \<Longrightarrow> pending i {O_open, O_waiting, O_suspended} L' = {}"
proof -
  consider "status = Blocked" | "status = Parked" | "isJobTerminal status" | "status \<notin> {Blocked, Parked}" "\<not> isJobTerminal status"
    by blast
  then have "owed L' = apply_label (status_label E L i status context seq) (owed L) \<and> lg_jobs L' = lg_jobs L
    \<and> debt_changes (en_plat E) L L' \<and> (status = Parked \<longrightarrow> pending i {O_open, O_waiting} L' = {})
    \<and> (isJobTerminal status \<longrightarrow> pending i {O_open, O_waiting, O_suspended} L' = {})"
  proof cases
    case 1
    then obtain x where run: "applyBlockedObservation E i (or_else context (default_blocker seq)) L = Inr (L', x)"
      using assms(1) by (auto simp: follow_status_def attempt_Inr_iff)
    show ?thesis
      using apply_owed [OF run ok] apply_change [OF run ok] 1 by (auto simp: status_label_def)
  next
    case 2
    then have run: "suspendApplicableObligations E i ''job parked'' L = Inr L'"
      using assms(1) by (simp add: follow_status_def)
    show ?thesis
      using suspend_all_owed [OF run ok] suspend_all_InrD [OF run ok] 2 by (simp add: status_label_def)
  next
    case 3
    then have run: "closeApplicableObligations E i status L = Inr L'"
      using assms(1) by (auto simp: follow_status_def)
    show ?thesis
      using close_all_owed [OF run ok] close_all_InrD [OF run ok] 3 by (auto simp: status_label_def)
  next
    case 4
    then have "L' = L" using assms(1) by (simp add: follow_status_def)
    then show ?thesis using 4 by (auto simp: status_label_def)
  qed
  then show "owed L' = apply_label (status_label E L i status context seq) (owed L)" and "lg_jobs L' = lg_jobs L"
    and "debt_changes (en_plat E) L L'"
    and "status = Parked \<Longrightarrow> pending i {O_open, O_waiting} L' = {}"
    and "isJobTerminal status \<Longrightarrow> pending i {O_open, O_waiting, O_suspended} L' = {}" by blast+
qed

text \<open>Everything a successful status write says about the ledger it leaves.\<close>

definition set_status_label :: "env \<Rightarrow> ledger \<Rightarrow> string \<Rightarrow> job_status \<Rightarrow> blocker_context option \<Rightarrow> debt_label" where
  "set_status_label E L i status context = (case getJob L i of
     None \<Rightarrow> Keep
   | Some current \<Rightarrow>
       if jb_status current \<noteq> status then status_label E L i status context (Suc (lg_seq L))
       else case context of None \<Rightarrow> Keep | Some blocker \<Rightarrow> observation_label E L i blocker)"

lemma debt_changes_event:
  "debt_changes plat (appendEvent E k a j p L) L' \<Longrightarrow> debt_changes plat L L'"
  "debt_changes plat (writeJobStatus E i s t x L) L' \<Longrightarrow> debt_changes plat L L'"
  by (rule converse_rtranclp_into_rtranclp [rotated], assumption, rule dc_same, simp)+

lemma setJobStatus_InrD:
  assumes "setJobStatus E i name context L = Inr (L', job)"
  shows "\<exists>status current. status_of_name job_status_name JOB_STATUSES name = Some status \<and> getJob L i = Some current
     \<and> getJob L' i = Some job \<and> (context \<noteq> None \<longrightarrow> status = Blocked)
     \<and> (if jb_status current \<noteq> status then enter_status E current status context L = Inr L'
        else case context of None \<Rightarrow> L' = L | Some blocker \<Rightarrow> reobserve_blocked E current blocker L = Inr L')"
proof -
  obtain status where status: "status_of_name job_status_name JOB_STATUSES name = Some status"
    using assms by (cases "status_of_name job_status_name JOB_STATUSES name") (auto simp: setJobStatus_def)
  have run: "\<not> (context \<noteq> None \<and> status \<noteq> Blocked) \<and> attempt (the_job L i) (\<lambda>current.
       attempt (if jb_status current \<noteq> status then enter_status E current status context L
                else case context of
                  Some blocker \<Rightarrow> if status = Blocked then reobserve_blocked E current blocker L else Inr L
                | None \<Rightarrow> Inr L) (\<lambda>L'.
       attempt (the_job L' i) (\<lambda>job. Inr (L', job)))) = Inr (L', job)"
    using assms unfolding setJobStatus_def status option.case guard_Inr .
  then obtain current where cur: "the_job L i = Inr current" and body:
    "(if jb_status current \<noteq> status then enter_status E current status context L
      else case context of
         Some blocker \<Rightarrow> if status = Blocked then reobserve_blocked E current blocker L else Inr L
       | None \<Rightarrow> Inr L) = Inr L'" and fin: "the_job L' i = Inr job"
    unfolding attempt_Inr_iff by blast
  have "getJob L i = Some current" and "getJob L' i = Some job"
    using cur fin by (auto simp: the_job_def split: option.splits)
  then show ?thesis using status run body by (intro exI [of _ status] exI [of _ current]) (auto split: option.splits)
qed

lemma enter_status_InrD:
  assumes "enter_status E current status context L = Inr L'"
  shows "assertJobTransition (jb_status current) status = Inr () \<and> check_live_work E L (jb_id current) status = Inr ()
     \<and> follow_status E (jb_id current) status context (Suc (lg_seq L))
         (writeJobStatus E (jb_id current) (jb_status current) status [] L) = Inr L'"
  using assms unfolding enter_status_def attempt_Inr_iff Let_def lift_error_Inr ex_unit
  by (simp add: writeJobStatus_def)

lemma status_label_write [simp]:
  "status_label E (writeJobStatus E' i s t x L) j status context seq = status_label E L j status context seq"
  by (simp add: status_label_def)

lemma set_status_facts:
  assumes "setJobStatus E i name context L = Inr (L', job)" and ok: "obligations_ok (en_plat E) L"
    and name: "status_of_name job_status_name JOB_STATUSES name = Some status" and job: "getJob L i = Some current"
  shows "owed L' = apply_label (set_status_label E L i status context) (owed L)"
    and "debt_changes (en_plat E) L L'"
    and "jb_status current \<noteq> status \<Longrightarrow> assertJobTransition (jb_status current) status = Inr ()"
    and "jb_status current \<noteq> status \<Longrightarrow> status = Parked \<Longrightarrow> pending i {O_open, O_waiting} L' = {}"
    and "jb_status current \<noteq> status \<Longrightarrow> isJobTerminal status \<Longrightarrow> pending i {O_open, O_waiting, O_suspended} L' = {}"
    and "jb_status current \<noteq> status \<Longrightarrow> check_live_work E L i status = Inr ()"
    and "jb_status job = status \<and> jb_id job = i"
proof -
  have i: "jb_id current = i" using getJob_SomeD [OF job] by simp
  from setJobStatus_InrD [OF assms(1)] name job have
    new: "getJob L' i = Some job" and ctx: "context \<noteq> None \<longrightarrow> status = Blocked" and
    run: "if jb_status current \<noteq> status then enter_status E current status context L = Inr L'
        else case context of None \<Rightarrow> L' = L | Some blocker \<Rightarrow> reobserve_blocked E current blocker L = Inr L'"
    by auto
  have "owed L' = apply_label (set_status_label E L i status context) (owed L) \<and> debt_changes (en_plat E) L L'
    \<and> (jb_status current \<noteq> status \<longrightarrow> assertJobTransition (jb_status current) status = Inr ()
        \<and> (status = Parked \<longrightarrow> pending i {O_open, O_waiting} L' = {})
        \<and> (isJobTerminal status \<longrightarrow> pending i {O_open, O_waiting, O_suspended} L' = {})
        \<and> check_live_work E L i status = Inr ())
    \<and> jb_status job = status \<and> jb_id job = i"
  proof (cases "jb_status current = status")
    case False
    then have enter: "enter_status E current status context L = Inr L'" using run by simp
    let ?L1 = "writeJobStatus E i (jb_status current) status [] L"
    note D = enter_status_InrD [OF enter, unfolded i]
    have ok1: "obligations_ok (en_plat E) ?L1" using ok by simp
    note F = follow_status_InrD [OF conjunct2 [OF conjunct2 [OF D]] ok1]
    have "getJob L' i = map_option (\<lambda>j. j\<lparr>jb_status := status, jb_updatedAt := en_now E\<rparr>) (getJob L i)"
      by (simp add: getJob_def F(2) row_update_find)
    then have "jb_status job = status \<and> jb_id job = i" using new job i by auto
    moreover have "debt_changes (en_plat E) L L'" by (rule debt_changes_event(2) [OF F(3)])
    ultimately show ?thesis
      using F(1,4,5) D False job by (simp add: set_status_label_def)
  next
    case True
    show ?thesis
    proof (cases "context")
      case None
      then have "L' = L" using run True by simp
      then show ?thesis using True None new job i by (simp add: set_status_label_def)
    next
      case (Some blocker)
      let ?L1 = "appendEvent E ''job.status'' None (Some i)
           (JObj [(''from'', JStr (job_status_name (jb_status current))), (''to'', JStr ''blocked''),
              (''note'', JStr ''re-observed blocked'')]) L"
      from run True Some obtain x where ap: "applyBlockedObservation E i blocker ?L1 = Inr (L', x)"
        by (auto simp: reobserve_blocked_def attempt_Inr_iff i)
      have ok1: "obligations_ok (en_plat E) ?L1" using ok by simp
      note A = apply_owed [OF ap ok1]
      have "debt_changes (en_plat E) L L'"
        by (rule debt_changes_event(1)) (rule r_into_rtranclp [where r = "debt_change (en_plat E)"], rule apply_change [OF ap ok1])
      moreover have "getJob L' i = getJob L i" by (simp add: getJob_def A(2))
      ultimately show ?thesis using A(1) True Some new job i by (simp add: set_status_label_def)
    qed
  qed
  then show "owed L' = apply_label (set_status_label E L i status context) (owed L)"
    and "debt_changes (en_plat E) L L'"
    and "jb_status current \<noteq> status \<Longrightarrow> assertJobTransition (jb_status current) status = Inr ()"
    and "jb_status current \<noteq> status \<Longrightarrow> status = Parked \<Longrightarrow> pending i {O_open, O_waiting} L' = {}"
    and "jb_status current \<noteq> status \<Longrightarrow> isJobTerminal status \<Longrightarrow> pending i {O_open, O_waiting, O_suspended} L' = {}"
    and "jb_status current \<noteq> status \<Longrightarrow> check_live_work E L i status = Inr ()"
    and "jb_status job = status \<and> jb_id job = i" by blast+
qed

definition id_incidents :: "ledger \<Rightarrow> (string \<times> incident) set" where
  "id_incidents L = (\<lambda>r. (ob_id r, incident_of r)) ` set (lg_obligations L)"

lemma debt_change_incidents:
  assumes "obligations_ok plat L" and "debt_change plat L L'"
  shows "id_incidents L \<subseteq> id_incidents L'"
proof
  fix p assume "p \<in> id_incidents L"
  then obtain r where r: "r \<in> set (lg_obligations L)" "p = (ob_id r, incident_of r)" by (auto simp: id_incidents_def)
  from debt_change_keeps [OF assms r(1)] obtain r' where r': "r' \<in> set (lg_obligations L')"
    and "r' = r \<or> debt_step plat r r' \<and> readable plat r'" by blast
  then have "(ob_id r', incident_of r') = p" using r(2) by (auto simp: debt_step_def same_identity_def incident_of_def)
  then show "p \<in> id_incidents L'" using r' by (auto simp: id_incidents_def)
qed

lemma debt_changes_incidents:
  assumes "debt_changes plat L L'" and "obligations_ok plat L"
  shows "id_incidents L \<subseteq> id_incidents L'"
  using assms(1)
proof (induction rule: rtranclp_induct)
  case (step M N)
  have "obligations_ok plat M" by (rule debt_inv.steps_inv [OF step.hyps(1) assms(2)])
  with step debt_change_incidents show ?case by blast
qed simp

lemma incident_of_id:
  assumes "(i, t) \<in> id_incidents L" and "the_obligation E L i = Inr row" and "obligations_ok plat L"
  shows "incident_of row = t"
proof -
  from assms(2) obtain r where r: "row_find ob_id i (lg_obligations L) = Some r" "obligationFromRow (en_plat E) r = Inr row"
    by (auto simp: the_obligation_Inr)
  from assms(1) obtain x where "x \<in> set (lg_obligations L)" "ob_id x = i" "incident_of x = t" by (auto simp: id_incidents_def)
  with found_once [OF assms(3) r(1)] incident_read [OF r(2)] show ?thesis by auto
qed

lemma step_or_operation_name: "isObligationLogicalStep s \<Longrightarrow> logical_step_name (step_or_operation s) = s"
  by (auto simp: isObligationLogicalStep_def step_or_operation_def or_else_def status_of_name_def find_Some_iff find_None_iff
      split: option.splits)

lemma successor_row_simps [simp]:
  "ob_id (successor_row E row i g n reason rule) = i" "ob_jobId (successor_row E row i g n reason rule) = ob_jobId row"
  "ob_logicalStep (successor_row E row i g n reason rule) = logical_step_name (step_or_operation (ob_logicalStep row))"
  "ob_incidentKey (successor_row E row i g n reason rule) = ob_incidentKey row"
  "ob_state (successor_row E row i g n reason rule) = O_open" "ob_settlement (successor_row E row i g n reason rule) = None"
  "ob_claim (successor_row E row i g n reason rule) = None" "ob_claimLog (successor_row E row i g n reason rule) = []"
  "ob_firstOriginSeq (successor_row E row i g n reason rule) = n" "ob_lastOriginSeq (successor_row E row i g n reason rule) = n"
  "ob_authority (successor_row E row i g n reason rule) = None"
  "ob_nextAction (successor_row E row i g n reason rule)
     = Gru_decision (''re-derive the next action after durable truth changed: '' @ reason)"
  by (simp_all add: successor_row_def)

text \<open>How an invalidated row and its successor relate.\<close>

definition succeeded :: "string \<Rightarrow> nat \<Rightarrow> obligation_record \<Rightarrow> obligation_record \<Rightarrow> bool" where
  "succeeded reason seq old new \<longleftrightarrow> ob_state old = O_closed
     \<and> ob_settlement old = Some (Superseded (Some (ob_id new)) reason) \<and> ob_claim old = None
     \<and> ob_state new = O_open \<and> ob_authority new = None \<and> ob_claim new = None
     \<and> obligationRouting (ob_nextAction new) = Action_required
     \<and> incident_of new = incident_of old \<and> ob_lastOriginSeq new = seq"

lemma obligationId_not_Nil [simp]: "obligationId j s k \<noteq> []"
  by (simp add: obligationId_def)

lemma incarnation_name_not_Nil [simp]: "incarnation_name (obligationId j s k) n \<noteq> []"
  by (simp add: incarnation_name_def)

lemma parse_superseded: "parseSettlement (settlement_json (Superseded (Some i) reason)) = Inr s \<Longrightarrow> i \<noteq> []
    \<Longrightarrow> s = Superseded (Some i) reason"
  by (auto simp: parseSettlement_def codec_simps optStr_def)

lemma invalidate_one_InrD:
  assumes "invalidate_one E jobId seq reason row L = Inr (L', old, new)" and ok: "obligations_ok (en_plat E) L"
    and known: "(ob_id row, incident_of row) \<in> id_incidents L" and step: "isObligationLogicalStep (ob_logicalStep row)"
  shows "debt_changes (en_plat E) L L'" and "owed L' = owed L" and "succeeded reason seq old new"
    and "incident_of old = incident_of row"
proof -
  let ?base = "obligationId (ob_jobId row) (step_or_operation (ob_logicalStep row)) (ob_incidentKey row)"
  from assms(1) obtain i L1 z rule L2 g L3 where
    i: "nextIncarnationId E L ?base = Inr i"
    and settle: "settleObligation E (ob_id row) (Superseded (Some i) reason) None L = Inr (L1, z)"
    and ins: "insert_row (successor_row E row i g seq reason rule) L1 = Inr L2"
    and L3: "lg_obligations L3 = lg_obligations L2" and old: "the_obligation E L3 (ob_id row) = Inr old"
    and new: "the_obligation E L3 i = Inr new" and eq: "L' = L3"
  proof -
    from assms(1) obtain i settled rule where 1: "nextIncarnationId E L ?base = Inr i"
      "settleObligation E (ob_id row) (Superseded (Some i) reason) None L = Inr settled"
      and run: "open_successor E row (successor_row E row i (Suc (currentJobGeneration (fst settled) jobId)) seq reason rule)
        reason (fst settled) = Inr (L', old, new)"
      unfolding invalidate_one_def attempt_Inr_iff by blast
    from run obtain L2 where 2: "insert_row (successor_row E row i (Suc (currentJobGeneration (fst settled) jobId)) seq reason rule)
        (fst settled) = Inr L2" "lg_obligations L' = lg_obligations L2"
        "the_obligation E L' (ob_id row) = Inr old" "the_obligation E L' i = Inr new"
      by (auto simp: open_successor_def attempt_Inr_iff Let_def)
    have "settleObligation E (ob_id row) (Superseded (Some i) reason) None L = Inr (fst settled, snd settled)"
      using 1(2) by simp
    then show thesis by (rule that [OF 1(1) _ 2(1,2,3,4) refl])
  qed
  have plan: "\<not> mechanical_without_authority (successor_row E row i g seq reason rule)"
    by (simp add: mechanical_without_authority_def)
  have new': "the_obligation E L3 (ob_id (successor_row E row i g seq reason rule)) = Inr new" using new by simp
  have C: "debt_change (en_plat E) L1 L3"
    by (rule insert_change(1) [OF ins new' L3]) (simp_all add: plan)
  have read: "obligationFromRow (en_plat E) (successor_row E row i g seq reason rule) = Inr new"
    by (rule insert_change(2) [OF ins new' L3]) (simp_all add: plan)
  have rows: "lg_obligations L3 = lg_obligations L1 @ [successor_row E row i g seq reason rule]"
    by (rule insert_change(3) [OF ins new' L3]) (simp_all add: plan)
  show "debt_changes (en_plat E) L L'"
    unfolding eq using settle_change [OF settle] C by (meson converse_rtranclp_into_rtranclp r_into_rtranclp)
  from settle_owed [OF settle ok] obtain row' where row': "the_obligation E L (ob_id row) = Inr row'" "live row'"
    and o: "owed L1 = owed L - {incident_of row'}" by blast
  have inc: "incident_of row' = incident_of row" by (rule incident_of_id [OF known row'(1) ok])
  have here: "incident_of row \<in> owed L"
  proof -
    from row'(1) obtain r where r: "r \<in> set (lg_obligations L)" "obligationFromRow (en_plat E) r = Inr row'"
      by (auto simp: the_obligation_Inr dest!: row_find_SomeD)
    then show ?thesis using incident_read [OF r(2)] row'(2) inc by (auto simp: owed_iff)
  qed
  have succ: "incident_of (successor_row E row i g seq reason rule) = incident_of row"
    by (simp add: incident_of_def step_or_operation_name [OF step])
  have "owed L3 = insert (incident_of row) (owed L1)"
    using owed_append [OF rows] succ by (simp add: live_simps)
  then show "owed L' = owed L" using o inc here eq by auto
  have fresh: "i \<notin> ob_id ` set (lg_obligations L)" and name: "i \<noteq> []"
    using incarnation_search_free [OF i [unfolded nextIncarnationId_def]] by auto
  from settle_rows [OF settle] obtain q where
    urows: "lg_obligations L1 = row_update ob_id (ob_id row) (settled_row E q (Superseded (Some i) reason)) (lg_obligations L)"
    by blast
  from row'(1) obtain r where r: "row_find ob_id (ob_id row) (lg_obligations L) = Some r" "obligationFromRow (en_plat E) r = Inr row'"
    by (auto simp: the_obligation_Inr)
  let ?r = "settled_row E q (Superseded (Some i) reason) r"
  have "row_find ob_id (ob_id row) (lg_obligations L1) = Some ?r"
    unfolding urows by (rule row_update_found [OF r(1)]) (use row_find_SomeD [OF r(1)] in \<open>simp add: settled_row_def\<close>)
  then have "row_find ob_id (ob_id row) (lg_obligations L3) = Some ?r" by (simp add: rows row_find_None_append)
  then have readold: "obligationFromRow (en_plat E) ?r = Inr old" using old by (simp add: the_obligation_Inr)
  have fields: "ob_settlement ?r = Some (Superseded (Some i) reason)" "ob_state ?r = O_closed" "ob_claim ?r = None"
    "incident_of ?r = incident_of r"
    by (simp_all add: settled_row_def settlement_target_def incident_of_def)
  have incold: "incident_of old = incident_of row"
    using incident_read [OF readold] fields(4) incident_read [OF r(2)] inc by simp
  show "incident_of old = incident_of row" by (rule incold)
  have "ob_settlement old = Some (Superseded (Some i) reason)"
    using obligationFromRow_Inr(5) [OF readold fields(1)] parse_superseded [OF _ name] by auto
  moreover have "ob_claim old = None"
    using obligationFromRow_Inr(2) [OF readold] fields(3) by (simp add: parseClaim_NULL)
  moreover have "ob_claim new = None" using obligationFromRow_Inr(2) [OF read] by (simp add: parseClaim_NULL)
  ultimately show "succeeded reason seq old new"
    using read_fields [OF read] incident_read [OF read] read_fields(6) [OF readold] fields(2) succ incold
    by (simp add: succeeded_def)
qed

lemma invalidate_InrD:
  assumes "invalidateStaleContinuations E jobId seq reason L = Inr (L', superseded, successors)"
    and ok: "obligations_ok (en_plat E) L"
  shows "debt_changes (en_plat E) L L'" and "owed L' = owed L" and "list_all2 (succeeded reason seq) superseded successors"
proof -
  from assms(1) obtain rows where rows: "listApplicableObligations E L jobId [O_open, O_waiting] = Inr rows"
    and run: "each (invalidate_step E jobId seq reason) (filter (\<lambda>row. ob_lastOriginSeq row \<le> seq) rows) (L, [], [])
      = Inr (L', superseded, successors)"
    unfolding invalidateStaleContinuations_def attempt_Inr_iff by blast
  have d: "distinct (map ob_id (lg_obligations L))" using ok by (simp add: obligations_ok_def)
  have listed: "(ob_id row, incident_of row) \<in> id_incidents L \<and> isObligationLogicalStep (ob_logicalStep row)"
    if "row \<in> set rows" for row
  proof -
    from listed_pending(2) [OF rows d _ that] obtain r where r: "r \<in> set (lg_obligations L)"
      "obligationFromRow (en_plat E) r = Inr row" by auto
    have "debt_ok (en_plat E) r" using ok r(1) by (simp add: obligations_ok_def)
    then show ?thesis
      using r(1) incident_read [OF r(2)] read_fields(1,3) [OF r(2)] by (auto simp: id_incidents_def debt_ok_def)
  qed
  let ?P = "\<lambda>(M, old, new). debt_changes (en_plat E) L M \<and> owed M = owed L \<and> list_all2 (succeeded reason seq) old new"
  have "?P (L', superseded, successors)"
  proof (rule each_invariant [where P = ?P, OF _ _ run])
    fix row and st st' :: "ledger \<times> obligation_record list \<times> obligation_record list"
    assume row: "row \<in> set (filter (\<lambda>row. ob_lastOriginSeq row \<le> seq) rows)" and P: "?P st"
      and step: "invalidate_step E jobId seq reason row st = Inr st'"
    obtain M old new where st: "st = (M, old, new)" by (cases st)
    from P have changes: "debt_changes (en_plat E) L M" and o: "owed M = owed L"
      and l: "list_all2 (succeeded reason seq) old new" by (simp_all add: st)
    have okM: "obligations_ok (en_plat E) M" by (rule debt_inv.steps_inv [OF changes ok])
    show "?P st'"
    proof (cases "st' = (M, old, new)")
      case True
      then show ?thesis using P st by simp
    next
      case False
      then obtain M' a b where one: "invalidate_one E jobId seq reason row M = Inr (M', a, b)"
        and st': "st' = (M', old @ [a], new @ [b])"
        using step by (auto simp: invalidate_step_def st attempt_Inr_iff split: if_splits)
      have "(ob_id row, incident_of row) \<in> id_incidents M"
        using listed row debt_changes_incidents [OF changes ok] by auto
      note I = invalidate_one_InrD [OF one okM this]
      have "isObligationLogicalStep (ob_logicalStep row)" using listed row by simp
      note I = I [OF this]
      have "list_all2 (succeeded reason seq) (old @ [a]) (new @ [b])"
        using l I(3) by (simp add: list_all2_appendI)
      then show ?thesis using rtranclp_trans [OF changes I(1)] I(2) o by (simp add: st')
    qed
  qed simp
  then show "debt_changes (en_plat E) L L'" and "owed L' = owed L" and "list_all2 (succeeded reason seq) superseded successors"
    by simp_all
qed

lemma the_job_Inr: "the_job L i = Inr job \<longleftrightarrow> getJob L i = Some job"
  by (auto simp: the_job_def split: option.splits)

lemma report_kind_Some: "report_kind d = Some kind \<longleftrightarrow> d = Some (report_deliverable_name kind)"
proof -
  have "status_of_name report_deliverable_name REPORT_DELIVERABLES s = Some kind \<longleftrightarrow> s = report_deliverable_name kind" for s
    by (cases kind) (auto simp: status_of_name_def REPORT_DELIVERABLES_def)
  then show ?thesis by (auto simp: report_kind_def split: option.splits)
qed

definition report_incident :: "string \<Rightarrow> report_deliverable \<Rightarrow> incident" where
  "report_incident jobId kind = (jobId, logical_step_name (reportLogicalStep kind), reportIncidentKey jobId)"

lemma openReport_InrD:
  assumes "openReportObligation E jobId seq remark L = Inr (L', row, created)" and ok: "obligations_ok (en_plat E) L"
  shows "\<exists>job kind. getJob L jobId = Some job \<and> jb_deliverable job = Some (report_deliverable_name kind)
     \<and> owed L' = insert (report_incident jobId kind) (owed L) \<and> debt_changes (en_plat E) L L'
     \<and> incident_of row = report_incident jobId kind \<and> live row
     \<and> (if created then report_incident jobId kind \<notin> owed L else L' = L)"
proof -
  from assms(1) obtain job where job: "getJob L jobId = Some job"
    and run0: "(case report_kind (jb_deliverable job) of
       None \<Rightarrow> Inl (Bad_input ''deliverable'')
     | Some kind \<Rightarrow>
         if \<not> js_safe_int seq \<or> seq < 0 then Inl (Bad_input ''observedAtSeq'') else
         attempt (activeIncarnation E L (jb_id job) (logical_step_name (reportLogicalStep kind)) (reportIncidentKey (jb_id job)))
           (\<lambda>active. case active of
              Some existing \<Rightarrow> Inr (L, existing, False)
            | None \<Rightarrow>
                attempt (lift_error Obligation_error
                  (resolveObligation (en_plat E) (report_blocker job kind seq remark) (jb_id job))) (\<lambda>resolved.
                attempt (open_incarnation E resolved (nat \<lfloor>seq\<rfloor>)
                  [(''commissioner'', JStr (commissioner_of job))] L) (\<lambda>(L', r). Inr (L', r, True))))) = Inr (L', row, created)"
    unfolding openReportObligation_def attempt_Inr_iff the_job_Inr by blast
  obtain kind where kind: "report_kind (jb_deliverable job) = Some kind"
    using run0 by (cases "report_kind (jb_deliverable job)") auto
  have i: "jb_id job = jobId" using getJob_SomeD [OF job] by simp
  from run0 obtain active where
    active: "activeIncarnation E L jobId (logical_step_name (reportLogicalStep kind)) (reportIncidentKey jobId) = Inr active"
    and run: "(case active of
              Some existing \<Rightarrow> Inr (L, existing, False)
            | None \<Rightarrow>
                attempt (lift_error Obligation_error
                  (resolveObligation (en_plat E) (report_blocker job kind seq remark) jobId)) (\<lambda>resolved.
                attempt (open_incarnation E resolved (nat \<lfloor>seq\<rfloor>)
                  [(''commissioner'', JStr (commissioner_of job))] L) (\<lambda>(L', r). Inr (L', r, True)))) = Inr (L', row, created)"
    unfolding kind option.case guard_Inr attempt_Inr_iff i by blast
  have "owed L' = insert (report_incident jobId kind) (owed L) \<and> debt_changes (en_plat E) L L'
     \<and> incident_of row = report_incident jobId kind \<and> live row
     \<and> (if created then report_incident jobId kind \<notin> owed L else L' = L)"
  proof (cases active)
    case (Some existing)
    then have "L' = L" "row = existing" "\<not> created" using run by auto
    then show ?thesis
      using active_owed [OF active] active_reads(2,3) [OF active [unfolded Some] ok] Some
      by (auto simp: report_incident_def incident_of_def of_tuple_def)
  next
    case None
    then obtain resolved where R: "resolveObligation (en_plat E) (report_blocker job kind seq remark) jobId = Inr resolved"
      and O: "open_incarnation E resolved (nat \<lfloor>seq\<rfloor>) [(''commissioner'', JStr (commissioner_of job))] L = Inr (L', row)"
      and c: "created"
      using run by (auto simp: attempt_Inr_iff)
    have t: "resolved_incident resolved = report_incident jobId kind"
      using resolveObligation_InrD(3,4,10) [OF R]
      by (simp add: resolved_incident_def report_incident_def report_blocker_def or_else_def i)
    from open_owed(2) [OF O resolved_plan_ok [OF R]] obtain r where
      r: "live r" "incident_of r = report_incident jobId kind" "obligationFromRow (en_plat E) r = Inr row" using t by auto
    then have "live row \<and> incident_of row = report_incident jobId kind" using incident_read [OF r(3)] by simp
    then show ?thesis
      using open_owed(1) [OF O resolved_plan_ok [OF R]] open_incarnation_InrD(1) [OF O resolved_plan_ok [OF R]]
        active_owed [OF active] None t c by (auto simp: report_incident_def)
  qed
  then show ?thesis using job kind by (auto simp: report_kind_Some)
qed

lemma findReport_reads:
  assumes "findReportObligation E L jobId = Inr (Some row)"
  obtains p where "read_newest E L p = Inr (Some row)"
    and "\<And>r. p r \<Longrightarrow> ob_jobId r = jobId \<and> ob_incidentKey r = reportIncidentKey jobId"
proof -
  let ?all = "\<lambda>r. ob_jobId r = jobId \<and> ob_incidentKey r = reportIncidentKey jobId"
  let ?act = "\<lambda>r. ob_jobId r = jobId \<and> ob_incidentKey r = reportIncidentKey jobId
    \<and> ob_state r \<in> {O_open, O_waiting, O_suspended}"
  from assms obtain active where a: "read_newest E L ?act = Inr active"
    and run: "(case active of Some row \<Rightarrow> Inr (Some row) | None \<Rightarrow> read_newest E L ?all) = Inr (Some row)"
    unfolding findReportObligation_def attempt_Inr_iff by blast
  show thesis
  proof (cases active)
    case None
    show thesis by (rule that [of ?all]) (use run None in simp_all)
  next
    case (Some r)
    show thesis by (rule that [of ?act]) (use run a Some in simp_all)
  qed
qed

lemma live_report_InrD:
  assumes "live_report E L jobId = Inr row" and ok: "obligations_ok plat L"
  shows "the_obligation E L (ob_id row) = Inr row" and "live row" and "ob_jobId row = jobId"
    and "ob_incidentKey row = reportIncidentKey jobId" and "(ob_id row, incident_of row) \<in> id_incidents L"
proof -
  have d: "distinct (map ob_id (lg_obligations L))" using ok by (simp add: obligations_ok_def)
  from assms(1) have found: "findReportObligation E L jobId = Inr (Some row)"
    and state: "ob_state row \<in> {O_open, O_waiting, O_suspended}"
    by (auto simp: live_report_def attempt_Inr_iff split: option.splits if_splits)
  obtain p where p: "read_newest E L p = Inr (Some row)"
    and sub: "\<And>r. p r \<Longrightarrow> ob_jobId r = jobId \<and> ob_incidentKey r = reportIncidentKey jobId"
    by (rule findReport_reads [OF found]) (rule that)
  show "the_obligation E L (ob_id row) = Inr row" by (rule read_newest_the(1) [OF p d])
  from read_newest_the(2) [OF p d] obtain r where r: "r \<in> set (lg_obligations L)" "p r" "obligationFromRow (en_plat E) r = Inr row"
    by blast
  show "ob_jobId row = jobId" and "ob_incidentKey row = reportIncidentKey jobId"
    using sub [OF r(2)] read_fields(2,4) [OF r(3)] by simp_all
  show "live row" using state by (auto simp: live_simps)
  show "(ob_id row, incident_of row) \<in> id_incidents L"
    using r(1) incident_read [OF r(3)] read_fields(1) [OF r(3)] by (auto simp: id_incidents_def)
qed

lemma settle_then_done:
  assumes ok: "obligations_ok (en_plat E) L" and row: "the_obligation E L i = Inr row" and j: "ob_jobId row = j"
    and settle: "settleObligation E i s None L = Inr (L1, x)"
    and L2: "lg_obligations L2 = lg_obligations L1" "lg_jobs L2 = lg_jobs L1"
    and job: "getJob L j = Some job" and "jb_status job = Delivered"
    and fin: "setJobStatus E j ''done'' None L2 = Inr (L3, job')"
  shows "owed L3 = {t \<in> owed L. fst t \<noteq> j}" and "debt_changes (en_plat E) L L3" and "jb_status job' = Done"
proof -
  have ok1: "obligations_ok (en_plat E) L1" by (rule debt_change_ok [OF ok settle_change [OF settle]])
  then have ok2: "obligations_ok (en_plat E) L2" by (simp add: obligations_ok_def L2)
  from settle_owed [OF settle ok] row have o: "owed L1 = owed L - {incident_of row}" by auto
  have jobs: "lg_jobs L1 = lg_jobs L" using settle_rows [OF settle] by blast
  have name: "status_of_name job_status_name JOB_STATUSES ''done'' = Some Done"
    by (simp add: status_of_name_def JOB_STATUSES_def)
  have job2: "getJob L2 j = Some job" using job by (simp add: getJob_def L2 jobs)
  note F = set_status_facts [OF fin ok2 name job2]
  have "set_status_label E L2 j Done None = Close j"
    by (simp add: set_status_label_def job2 assms(8) status_label_def)
  then have "owed L3 = {t \<in> owed L - {incident_of row}. fst t \<noteq> j}"
    using F(1) o owed_same [OF L2(1)] by simp
  moreover have "fst (incident_of row) = j" by (simp add: incident_of_def j)
  ultimately show "owed L3 = {t \<in> owed L. fst t \<noteq> j}" by blast
  have "debt_changes (en_plat E) L L1" using settle_change [OF settle] by blast
  moreover have "debt_changes (en_plat E) L1 L2" by (intro r_into_rtranclp dc_same L2)
  ultimately show "debt_changes (en_plat E) L L3" using F(2) by (meson rtranclp_trans)
  show "jb_status job' = Done" using F(7) by simp
qed

lemma disposition_InrD:
  assumes "settleReportDisposition E input L = Inr (L', job', settled)" and ok: "obligations_ok (en_plat E) L"
  shows "owed L' = {t \<in> owed L. fst t \<noteq> di_jobId input}" and "debt_changes (en_plat E) L L'" and "jb_status job' = Done"
    and "\<exists>job row. getJob L (di_jobId input) = Some job \<and> check_disposition L input job = Inr ()
       \<and> live_report E L (di_jobId input) = Inr row
       \<and> (\<exists>L1 L2. L1 = appendEvent E REPORT_DISPOSITION_EVENT None (Some (jb_id job)) (disposition_payload input job row) L
          \<and> settleObligation E (ob_id row) (disposition_settlement input (lg_seq L1)) None L1 = Inr (L2, settled))"
proof -
  define L1 where "L1 job row = appendEvent E REPORT_DISPOSITION_EVENT None (Some (jb_id job)) (disposition_payload input job row) L"
    for job row
  from assms(1) obtain job row S where job: "getJob L (di_jobId input) = Some job" and chk: "check_disposition L input job = Inr ()"
    and row: "live_report E L (di_jobId input) = Inr row"
    and settle: "settleObligation E (ob_id row) (disposition_settlement input (lg_seq (L1 job row))) None (L1 job row) = Inr S"
    and run: "(\<lambda>(L2, settled). attempt (setJobStatus E (jb_id job) ''done'' None L2) (\<lambda>(L3, done'). Inr (L3, done', settled))) S
      = Inr (L', job', settled)"
    unfolding settleReportDisposition_def attempt_Inr_iff the_job_Inr Let_def L1_def [symmetric] ex_unit by blast
  from run obtain L2 where S: "S = (L2, settled)" and fin: "setJobStatus E (jb_id job) ''done'' None L2 = Inr (L', job')"
    by (cases S) (auto simp: attempt_Inr_iff)
  have i: "jb_id job = di_jobId input" using getJob_SomeD [OF job] by simp
  note R = live_report_InrD [OF row ok]
  have ok1: "obligations_ok (en_plat E) (L1 job row)" using ok by (simp add: L1_def)
  have row1: "the_obligation E (L1 job row) (ob_id row) = Inr row"
    using R(1) by (simp add: L1_def the_obligation_Inr)
  have job1: "getJob (L1 job row) (di_jobId input) = Some job" using job by (simp add: L1_def getJob_def)
  have del: "jb_status job = Delivered" using chk by (auto simp: check_disposition_def split: if_splits)
  note T = settle_then_done [OF ok1 row1 R(3) settle [unfolded S] refl refl job1 del fin [unfolded i]]
  show "owed L' = {t \<in> owed L. fst t \<noteq> di_jobId input}" using T(1) by (simp add: L1_def)
  show "debt_changes (en_plat E) L L'" using T(2) unfolding L1_def by (rule debt_changes_event(1))
  show "jb_status job' = Done" by (rule T(3))
  show "\<exists>job row. getJob L (di_jobId input) = Some job \<and> check_disposition L input job = Inr ()
       \<and> live_report E L (di_jobId input) = Inr row
       \<and> (\<exists>L1 L2. L1 = appendEvent E REPORT_DISPOSITION_EVENT None (Some (jb_id job)) (disposition_payload input job row) L
          \<and> settleObligation E (ob_id row) (disposition_settlement input (lg_seq L1)) None L1 = Inr (L2, settled))"
    using job chk row settle unfolding S L1_def by blast
qed

lemma supersede_report_InrD:
  assumes "supersedeReportObligation E jobId reason L = Inr (L', job', settled)" and ok: "obligations_ok (en_plat E) L"
  shows "owed L' = {t \<in> owed L. fst t \<noteq> jobId}" and "debt_changes (en_plat E) L L'" and "jb_status job' = Done"
proof -
  define L2 where "L2 job row L1 = appendEvent E REPORT_SUPERSEDED_EVENT None (Some (jb_id job))
           (JObj [(''reason'', JStr reason), (''target_ref'', or_null JStr (jb_targetRef job)),
              (''target_sha'', or_null JStr (jb_targetSha job)), (''obligation_id'', JStr (ob_id row))]) L1"
    for job :: job_record and row :: obligation_record and L1
  from assms(1) obtain job row S where job: "getJob L jobId = Some job" and del: "jb_status job = Delivered"
    and row: "live_report E L jobId = Inr row"
    and settle: "settleObligation E (ob_id row) (Superseded None reason) None L = Inr S"
    and run: "(\<lambda>(L1, settled). attempt (setJobStatus E (jb_id job) ''done'' None (L2 job row L1))
      (\<lambda>(L3, done'). Inr (L3, done', settled))) S = Inr (L', job', settled)"
    unfolding supersedeReportObligation_def attempt_Inr_iff the_job_Inr Let_def L2_def [symmetric] guard_Inr by blast
  from run obtain L1 where S: "S = (L1, settled)" and fin: "setJobStatus E (jb_id job) ''done'' None (L2 job row L1) = Inr (L', job')"
    by (cases S) (auto simp: attempt_Inr_iff)
  have i: "jb_id job = jobId" using getJob_SomeD [OF job] by simp
  note R = live_report_InrD [OF row ok]
  have L2: "lg_obligations (L2 job row L1) = lg_obligations L1" "lg_jobs (L2 job row L1) = lg_jobs L1" by (simp_all add: L2_def)
  note T = settle_then_done [OF ok R(1,3) settle [unfolded S] L2 job del fin [unfolded i]]
  show "owed L' = {t \<in> owed L. fst t \<noteq> jobId}" and "debt_changes (en_plat E) L L'" and "jb_status job' = Done"
    by (rule T)+
qed

subsection \<open>The obligation store as a transition system\<close>

text \<open>Every operation of the store with the label its abstract specification gives it; operations of the
  other components leave the obligation table alone.\<close>

inductive debt_op :: "platform \<Rightarrow> ledger \<Rightarrow> debt_label \<Rightarrow> ledger \<Rightarrow> bool" for plat :: platform where
  do_observe: "en_plat E = plat \<Longrightarrow> recordBlockedObservation E jobId context L = Inr (L', x) \<Longrightarrow>
    debt_op plat L (observation_label E L jobId context) L'"
| do_claim: "en_plat E = plat \<Longrightarrow> claimObligation E claim_in L = Inr (L', x) \<Longrightarrow> debt_op plat L Keep L'"
| do_release: "en_plat E = plat \<Longrightarrow> releaseClaim E i requestId L = Inr (L', x) \<Longrightarrow> debt_op plat L Keep L'"
| do_receipt: "en_plat E = plat \<Longrightarrow> recordObligationReceipt E receipt L = Inr (L', x) \<Longrightarrow> debt_op plat L Keep L'"
| do_settle: "en_plat E = plat \<Longrightarrow> settleObligation E i s q L = Inr (L', x) \<Longrightarrow> the_obligation E L i = Inr row \<Longrightarrow>
    debt_op plat L (Discharge (incident_of row)) L'"
| do_arm: "en_plat E = plat \<Longrightarrow> armReceiptExpectation E am L = Inr (L', x) \<Longrightarrow> debt_op plat L Keep L'"
| do_suspend: "en_plat E = plat \<Longrightarrow> suspendObligation E i reason L = Inr (L', x) \<Longrightarrow> debt_op plat L Keep L'"
| do_resume: "en_plat E = plat \<Longrightarrow> resumeObligation E i reason L = Inr (L', x) \<Longrightarrow> debt_op plat L Keep L'"
| do_status: "en_plat E = plat \<Longrightarrow> setJobStatus E i name blocker L = Inr (L', job) \<Longrightarrow>
    status_of_name job_status_name JOB_STATUSES name = Some status \<Longrightarrow>
    debt_op plat L (set_status_label E L i status blocker) L'"
| do_invalidate: "en_plat E = plat \<Longrightarrow> invalidateStaleContinuations E jobId seq reason L = Inr (L', old, new) \<Longrightarrow>
    debt_op plat L Keep L'"
| do_report: "en_plat E = plat \<Longrightarrow> openReportObligation E jobId seqno remark L = Inr (L', x, created) \<Longrightarrow>
    debt_op plat L (Owe (incident_of x)) L'"
| do_disposition: "en_plat E = plat \<Longrightarrow> settleReportDisposition E disposition L = Inr (L', job, x) \<Longrightarrow>
    debt_op plat L (Close (di_jobId disposition)) L'"
| do_supersede: "en_plat E = plat \<Longrightarrow> supersedeReportObligation E jobId reason L = Inr (L', job, x) \<Longrightarrow>
    debt_op plat L (Close jobId) L'"
| do_job: "createJob E job_in L = Inr (L', job) \<Longrightarrow> debt_op plat L Keep L'"
| do_other: "lg_obligations L' = lg_obligations L \<Longrightarrow> debt_op plat L Keep L'"

definition any_debt_op :: "platform \<Rightarrow> ledger \<Rightarrow> ledger \<Rightarrow> bool" where
  "any_debt_op plat L L' \<longleftrightarrow> (\<exists>label. debt_op plat L label L')"

lemma observe_apply:
  "recordBlockedObservation E jobId context L = Inr (L', x) \<Longrightarrow> applyBlockedObservation E jobId context L = Inr (L', x)"
  by (simp add: recordBlockedObservation_def)

lemma debt_op_facts:
  assumes "debt_op plat L label L'" and ok: "obligations_ok plat L"
  shows "owed L' = apply_label label (owed L) \<and> debt_changes plat L L'"
  using assms
proof (induction rule: debt_op.induct)
  case (do_observe E jobId ctx L L' x)
  note ap = observe_apply [OF do_observe.hyps(2)]
  show ?case using apply_owed(1) [OF ap] apply_change [OF ap] do_observe by auto
next
  case (do_claim E claim_in L L' x)
  then show ?case using claim_owed [OF do_claim.hyps(2)] claim_change [OF do_claim.hyps(2)] by auto
next
  case (do_release E i requestId L L' x)
  then show ?case using release_owed [OF do_release.hyps(2)] release_claim_change [OF do_release.hyps(2)] by auto
next
  case (do_receipt E receipt L L' x)
  then show ?case using receipt_owed [OF do_receipt.hyps(2)] receipt_change [OF do_receipt.hyps(2)] by auto
next
  case (do_settle E i s q L L' x row)
  then show ?case using settle_owed [OF do_settle.hyps(2)] settle_change [OF do_settle.hyps(2)] by auto
next
  case (do_arm E am L L' x)
  then show ?case using arm_owed [OF do_arm.hyps(2)] arm_change [OF do_arm.hyps(2)] by auto
next
  case (do_suspend E i reason L L' x)
  note s = do_suspend.hyps(2) [unfolded suspendObligation_def]
  show ?case using set_state_owed(1) [OF s] set_state_change [OF s] do_suspend by auto
next
  case (do_resume E i reason L L' x)
  note s = do_resume.hyps(2) [unfolded resumeObligation_def]
  show ?case using set_state_owed(1) [OF s] set_state_change [OF s] do_resume by auto
next
  case (do_status E i name blocker L L' job status)
  obtain current where "getJob L i = Some current" using setJobStatus_InrD [OF do_status.hyps(2)] by blast
  note F = set_status_facts [OF do_status.hyps(2) _ do_status.hyps(3) this]
  show ?case using F(1,2) do_status by simp
next
  case (do_invalidate E jobId seq reason L L' old new)
  then show ?case using invalidate_InrD(1,2) [OF do_invalidate.hyps(2)] by simp
next
  case (do_report E jobId seqno remark L L' x created)
  then have "obligations_ok (en_plat E) L" by simp
  from openReport_InrD [OF do_report.hyps(2) this] obtain kind where
    "owed L' = insert (report_incident jobId kind) (owed L)" "debt_changes (en_plat E) L L'"
    "incident_of x = report_incident jobId kind" by blast
  then show ?case using do_report.hyps(1) by simp
next
  case (do_disposition E disposition L L' job x)
  then show ?case using disposition_InrD(1,2) [OF do_disposition.hyps(2)] by simp
next
  case (do_supersede E jobId reason L L' job x)
  then show ?case using supersede_report_InrD(1,2) [OF do_supersede.hyps(2)] by simp
next
  case (do_job E job_in L L' job)
  note rows = createJob_InrD(11) [OF do_job.hyps]
  show ?case using owed_same [OF rows] r_into_rtranclp [of "debt_change plat", OF dc_same [OF rows]] by simp
next
  case (do_other L' L)
  note rows = do_other.hyps
  show ?case using owed_same [OF rows] r_into_rtranclp [of "debt_change plat", OF dc_same [OF rows]] by simp
qed

lemma debt_op_ok: "obligations_ok plat L \<Longrightarrow> any_debt_op plat L L' \<Longrightarrow> obligations_ok plat L'"
  unfolding any_debt_op_def using debt_op_facts debt_inv.steps_inv by blast

interpretation store_inv: invariant_system no_obligations "any_debt_op plat" "obligations_ok plat" for plat
  by unfold_locales (fact debt_inv.inv_init, fact debt_op_ok)

text \<open>How a row's later self relates to it.\<close>

definition outlives :: "platform \<Rightarrow> obligation_record \<Rightarrow> obligation_record \<Rightarrow> bool" where
  "outlives plat r r' \<longleftrightarrow> same_identity r r' \<and> ob_lastOriginSeq r \<le> ob_lastOriginSeq r'
     \<and> (\<not> live r \<longrightarrow> frozen_part r' = frozen_part r)
     \<and> (\<exists>x x' es. obligationFromRow plat r = Inr x \<and> obligationFromRow plat r' = Inr x' \<and> ob_claimLog x' = ob_claimLog x @ es)"

lemma parseClaimLog_prefix:
  assumes iso: "iso_platform plat" and "parseClaimLog plat j = Inr lg"
    and "parseClaimLog plat (JArr (map claim_log_entry_json (lg @ es))) = Inr lg'"
  shows "\<exists>es'. lg' = lg @ es'"
proof -
  from assms(2) obtain js where js: "map_res (parse_claim_log_entry plat) js = Inr lg"
    by (auto simp: parseClaimLog_def split: json.splits)
  have "parse_claim_log_entry plat (claim_log_entry_json e) = Inr e" if "e \<in> set lg" for e
    using map_res_set [OF js that] parse_claim_log_entry_ok [OF iso] parse_claim_log_entry_encode by blast
  then have "map_res (parse_claim_log_entry plat) (map claim_log_entry_json lg) = Inr lg"
    by (rule map_res_total)
  then show ?thesis using assms(3) by (auto simp: parseClaimLog_def map_res_append attempt_Inr_iff)
qed

lemma step_outlives:
  assumes iso: "iso_platform plat" and step: "debt_step plat r r'" and "readable plat r" and "readable plat r'"
  shows "outlives plat r r'"
proof -
  from assms(3,4) obtain x x' where x: "obligationFromRow plat r = Inr x" and x': "obligationFromRow plat r' = Inr x'"
    by (auto simp: readable_def)
  have "log_grows plat r r'" using step by (simp add: debt_step_def)
  then have log: "\<exists>es. ob_claimLog x' = ob_claimLog x @ es"
    unfolding log_grows_def
  proof (elim disjE exE conjE)
    assume "ob_claimLog r' = ob_claimLog r"
    then show ?thesis using obligationFromRow_Inr(3) [OF x] obligationFromRow_Inr(3) [OF x'] by auto
  next
    fix y es assume "obligationFromRow plat r = Inr y" and es: "ob_claimLog r' = ob_claimLog y @ es"
    then have "y = x" using x by simp
    then show ?thesis
      using parseClaimLog_prefix [OF iso obligationFromRow_Inr(3) [OF x]] obligationFromRow_Inr(3) [OF x'] es by auto
  qed
  have "same_identity r r'" and "ob_lastOriginSeq r \<le> ob_lastOriginSeq r'" and "\<not> live r \<longrightarrow> frozen_part r' = frozen_part r"
    using step unfolding debt_step_def by blast+
  then show ?thesis using log x x' unfolding outlives_def by metis
qed

lemma outlives_refl: "readable plat r \<Longrightarrow> outlives plat r r"
  by (auto simp: outlives_def same_identity_def readable_def)

lemma frozen_part_not_live: "frozen_part r' = frozen_part r \<Longrightarrow> \<not> live r \<Longrightarrow> \<not> live r'"
  using frozen_part_fields(3) [of r' r] by (simp add: live_simps)

lemma outlives_trans:
  assumes "outlives plat r s" and "outlives plat s t"
  shows "outlives plat r t"
proof -
  from assms have "same_identity r t" and "ob_lastOriginSeq r \<le> ob_lastOriginSeq t"
    by (auto simp: outlives_def same_identity_def)
  moreover have "\<not> live r \<longrightarrow> frozen_part t = frozen_part r"
    using assms frozen_part_not_live unfolding outlives_def by metis
  moreover from assms obtain x y es fs where "obligationFromRow plat r = Inr x" "obligationFromRow plat t = Inr y"
    "ob_claimLog y = ob_claimLog x @ es @ fs"
    unfolding outlives_def by fastforce
  ultimately show ?thesis unfolding outlives_def by blast
qed

lemma changes_outlive:
  assumes iso: "iso_platform plat" and "debt_changes plat L L'" and ok: "obligations_ok plat L" and "r \<in> set (lg_obligations L)"
  shows "\<exists>r'\<in>set (lg_obligations L'). outlives plat r r'"
  using assms(2)
proof (induction rule: rtranclp_induct)
  case base
  have "readable plat r" using ok assms(4) by (simp add: obligations_ok_def debt_ok_def)
  then show ?case using assms(4) outlives_refl by blast
next
  case (step M N)
  then obtain s where s: "s \<in> set (lg_obligations M)" "outlives plat r s" by blast
  have okM: "obligations_ok plat M" by (rule debt_inv.steps_inv [OF step.hyps(1) ok])
  then have "readable plat s" using s(1) by (simp add: obligations_ok_def debt_ok_def)
  moreover from debt_change_keeps [OF okM step.hyps(2) s(1)] obtain t where
    "t \<in> set (lg_obligations N)" "t = s \<or> debt_step plat s t \<and> readable plat t" by blast
  ultimately show ?case using s(2) step_outlives [OF iso] outlives_trans by blast
qed

end
