(* ===== verification/Obligation_Properties.thy ===== *)
theory Obligation_Properties
  imports Obligation_Lifecycle
begin

text \<open>
  The properties of the obligation store and of the operations that move a job and its obligations
  together, each with a concrete run as its witness.
\<close>

subsection \<open>A sample run\<close>

definition sample_job :: "string \<Rightarrow> job_status \<Rightarrow> job_record" where
  "sample_job i status = \<lparr>jb_id = i, jb_repo = ''r'', jb_title = ''t'', jb_displayName = None,
     jb_deliverable = Some ''review'', jb_commissioner = None, jb_targetRef = None, jb_targetSha = None,
     jb_parentJobId = None, jb_status = status, jb_baseBranch = None, jb_prUrl = None, jb_note = None,
     jb_briefing = None, jb_createdAt = ''t0'', jb_updatedAt = ''t0''\<rparr>"

definition job_ledger :: "job_status \<Rightarrow> ledger" where
  "job_ledger status = empty_ledger\<lparr>lg_jobs := [sample_job ''j-1'' status]\<rparr>"

definition result_or :: "'a \<Rightarrow> 'e + 'a \<Rightarrow> 'a" where
  "result_or d r = (case r of Inl e \<Rightarrow> d | Inr x \<Rightarrow> x)"

definition blocked_ledger :: ledger where
  "blocked_ledger = fst (result_or (empty_ledger, sample_job ''x'' Working)
     (setJobStatus sample_env ''j-1'' ''blocked'' None (job_ledger Working)))"

lemma blocked_run:
  "setJobStatus sample_env ''j-1'' ''blocked'' None (job_ledger Working) = Inr (blocked_ledger, snd (result_or
     (empty_ledger, sample_job ''x'' Working) (setJobStatus sample_env ''j-1'' ''blocked'' None (job_ledger Working))))"
  unfolding blocked_ledger_def
  by (cases "setJobStatus sample_env ''j-1'' ''blocked'' None (job_ledger Working)") (simp_all add: result_or_def, code_simp)

lemma job_ledger_start [simp]: "no_obligations (job_ledger s)" "lg_obligations (job_ledger s) = []"
  "getJob (job_ledger s) ''j-1'' = Some (sample_job ''j-1'' s)"
  by (simp_all add: no_obligations_def job_ledger_def empty_ledger_def getJob_def row_find_def sample_job_def)

lemma job_ledger_ok [simp]: "obligations_ok plat (job_ledger s)"
  by (rule store_inv.inv_init) simp

lemma sample_plat [simp]: "en_plat sample_env = sample_platform"
  by (simp add: sample_env_def)

lemma blocked_step: "debt_op sample_platform (job_ledger Working) (set_status_label sample_env (job_ledger Working) ''j-1'' Blocked None) blocked_ledger"
  by (rule do_status [where name = "''blocked''" and status = Blocked, OF sample_plat blocked_run])
    (simp add: status_of_name_def JOB_STATUSES_def)

lemma blocked_ok: "obligations_ok sample_platform blocked_ledger"
  using debt_op_ok [of sample_platform "job_ledger Working"] blocked_step by (auto simp: any_debt_op_def)

subsection \<open>The store against its specification\<close>

text \<open>C5. The obligation store refines the set of owed incidents: every operation changes that set exactly as
  its label says (claims, receipts, arming, suspension, resumption and the invalidation of stale
  continuations keep it; an observation adds its incident unless it is owed already or the observation
  is an old replay; a settlement removes one incident; a terminal status removes the job's), and the
  table's invariant survives.\<close>

theorem debt_refinement:
  assumes "obligations_ok plat L" and "debt_op plat L label L'"
  shows "owed L' = apply_label label (owed L) \<and> obligations_ok plat L'"
  using debt_op_facts [OF assms(2,1)] debt_op_ok [OF assms(1)] assms(2) by (auto simp: any_debt_op_def)

theorem debt_refinement_witness: "owed blocked_ledger = {(''j-1'', ''operation'', ''unknown'')}"
proof -
  have "set_status_label sample_env (job_ledger Working) ''j-1'' Blocked None = Owe (''j-1'', ''operation'', ''unknown'')"
    by code_simp
  then show ?thesis
    using debt_refinement [OF job_ledger_ok blocked_step] by (simp add: owed_def)
qed

text \<open>C2. In every ledger the operations reach from an empty obligation table: ids are distinct, an incident
  has at most one live obligation, exactly the terminal rows carry a settlement and its kind decides
  their state, a terminal row holds no claim, and a machine action never lacks typed authority.\<close>

theorem obligations_reachable:
  assumes "reach no_obligations (any_debt_op plat) L"
  shows "distinct (map ob_id (lg_obligations L))
   \<and> (\<forall>r\<in>set (lg_obligations L). \<forall>s\<in>set (lg_obligations L). live r \<and> live s \<and> incident_of r = incident_of s \<longrightarrow> r = s)
   \<and> (\<forall>r\<in>set (lg_obligations L). (live r \<longleftrightarrow> ob_settlement r = None)
        \<and> (\<forall>s. ob_settlement r = Some s \<longrightarrow> ob_state r = settlement_target s)
        \<and> (\<not> live r \<longrightarrow> ob_claim r = None)
        \<and> (obligationRouting (ob_nextAction r) = Machine_silas \<longrightarrow> ob_authority r \<noteq> None))"
proof -
  have ok: "obligations_ok plat L" by (rule store_inv.reach_inv [OF assms])
  have "one_live (lg_obligations L)" using ok by (simp add: obligations_ok_def)
  then have "\<forall>r\<in>set (lg_obligations L). \<forall>s\<in>set (lg_obligations L). live r \<and> live s \<and> incident_of r = incident_of s \<longrightarrow> r = s"
    by (auto simp: one_live_def of_tuple_def incident_of_def)
  moreover have "obligationRouting (ob_nextAction r) = Machine_silas \<longrightarrow> ob_authority r \<noteq> None"
    if "r \<in> set (lg_obligations L)" for r
    using ok that by (cases "ob_nextAction r") (auto simp: obligations_ok_def debt_ok_def mechanical_without_authority_def)
  ultimately show ?thesis using ok by (simp add: obligations_ok_def debt_ok_def)
qed

theorem obligations_reachable_witness: "distinct (map ob_id (lg_obligations blocked_ledger)) \<and> lg_obligations blocked_ledger \<noteq> []"
proof -
  have "reach no_obligations (any_debt_op sample_platform) blocked_ledger"
    by (rule reach_step [OF reach_init [of no_obligations]]) (use blocked_step in \<open>auto simp: any_debt_op_def\<close>)
  moreover have "lg_obligations blocked_ledger \<noteq> []" by code_simp
  ultimately show ?thesis using obligations_reachable by blast
qed

text \<open>C15. History is append-only: across any later operations a row keeps its identity, its watermark only
  rises, its claim log only grows at the end, and once it is settled or closed its state, settlement,
  plan, claim log and successor link never change again.\<close>

theorem obligation_history:
  assumes "iso_platform plat" and "obligations_ok plat L" and "(any_debt_op plat)\<^sup>*\<^sup>* L M" and "r \<in> set (lg_obligations L)"
  shows "\<exists>r'\<in>set (lg_obligations M). ob_id r' = ob_id r \<and> incident_of r' = incident_of r
     \<and> ob_lastOriginSeq r \<le> ob_lastOriginSeq r'
     \<and> (\<exists>x x' es. obligationFromRow plat r = Inr x \<and> obligationFromRow plat r' = Inr x' \<and> ob_claimLog x' = ob_claimLog x @ es)
     \<and> (ob_state r \<in> {O_settled, O_closed} \<longrightarrow> ob_state r' = ob_state r \<and> ob_settlement r' = ob_settlement r
          \<and> ob_nextAction r' = ob_nextAction r \<and> ob_claimLog r' = ob_claimLog r \<and> ob_supersededBy r' = ob_supersededBy r)"
proof -
  have "debt_changes plat L M"
    using assms(3)
  proof (induction rule: rtranclp_induct)
    case (step N N')
    have "obligations_ok plat N" by (rule store_inv.steps_inv [OF step.hyps(1) assms(2)])
    then show ?case using step debt_op_facts unfolding any_debt_op_def by (meson rtranclp_trans)
  qed simp
  from changes_outlive [OF assms(1) this assms(2,4)] obtain r' where r': "r' \<in> set (lg_obligations M)" and o: "outlives plat r r'"
    by blast
  have fin: "ob_state r \<in> {O_settled, O_closed} \<longrightarrow> ob_state r' = ob_state r \<and> ob_settlement r' = ob_settlement r
      \<and> ob_nextAction r' = ob_nextAction r \<and> ob_claimLog r' = ob_claimLog r \<and> ob_supersededBy r' = ob_supersededBy r"
  proof
    assume "ob_state r \<in> {O_settled, O_closed}"
    then have "frozen_part r' = frozen_part r" using o by (auto simp: outlives_def live_simps)
    from frozen_part_fields [OF this] show "ob_state r' = ob_state r \<and> ob_settlement r' = ob_settlement r
      \<and> ob_nextAction r' = ob_nextAction r \<and> ob_claimLog r' = ob_claimLog r \<and> ob_supersededBy r' = ob_supersededBy r" by simp
  qed
  show ?thesis
    by (rule bexI [OF _ r']) (use o fin in \<open>auto simp: outlives_def same_identity_def incident_of_def\<close>)
qed

lemma sample_platform_iso: "iso_platform sample_platform"
  by (simp add: iso_platform_def sample_platform_def js_space_def)

definition binned_ledger :: ledger where
  "binned_ledger = fst (result_or (empty_ledger, sample_job ''x'' Working)
     (setJobStatus sample_env ''j-1'' ''binned'' None blocked_ledger))"

lemma binned_run:
  "setJobStatus sample_env ''j-1'' ''binned'' None blocked_ledger = Inr (binned_ledger, snd (result_or
     (empty_ledger, sample_job ''x'' Working) (setJobStatus sample_env ''j-1'' ''binned'' None blocked_ledger)))"
  unfolding binned_ledger_def
  by (cases "setJobStatus sample_env ''j-1'' ''binned'' None blocked_ledger") (simp_all add: result_or_def, code_simp)

theorem obligation_history_witness:
  "\<exists>r r'. r \<in> set (lg_obligations blocked_ledger) \<and> r' \<in> set (lg_obligations binned_ledger) \<and> ob_id r' = ob_id r
     \<and> incident_of r' = incident_of r"
proof -
  have step: "(any_debt_op sample_platform)\<^sup>*\<^sup>* blocked_ledger binned_ledger"
    by (rule r_into_rtranclp, unfold any_debt_op_def, rule exI)
      (rule do_status [where name = "''binned''" and status = Binned, OF sample_plat binned_run],
        simp add: status_of_name_def JOB_STATUSES_def)
  have "lg_obligations blocked_ledger \<noteq> []" by code_simp
  then obtain r where "r \<in> set (lg_obligations blocked_ledger)" by (cases "lg_obligations blocked_ledger") auto
  from obligation_history [OF sample_platform_iso blocked_ok step this] this show ?thesis by blast
qed

subsection \<open>Claims, receipts and settlements\<close>

lemma the_obligation_plat: "en_plat E' = en_plat E \<Longrightarrow> the_obligation E' L i = the_obligation E L i"
  by (cases "row_find ob_id i (lg_obligations L)") (simp_all add: the_obligation_def getObligation_def)

lemma claim_reread:
  "parseClaim plat (Some (claim_json c)) = Inr v \<Longrightarrow> \<exists>d. v = Some d \<and> oc_requestId d = oc_requestId c
     \<and> oc_holder d = oc_holder c \<and> oc_generation d = oc_generation c"
  by (auto simp: parseClaim_def claim_json_def codec_simps)

lemma put_reads:
  assumes "the_obligation E L i = Inr row" and "put_obligation E kind row f payload L = Inr (L', x)"
    and "\<And>r. ob_id (f r) = ob_id r"
  obtains r where "row_find ob_id i (lg_obligations L) = Some r" and "obligationFromRow (en_plat E) r = Inr row"
    and "obligationFromRow (en_plat E) (f r) = Inr x" and "the_obligation E L' i = Inr x"
proof -
  from assms(1) obtain r where r: "row_find ob_id i (lg_obligations L) = Some r" "obligationFromRow (en_plat E) r = Inr row"
    by (auto simp: the_obligation_Inr)
  have back': "the_obligation E L' i = Inr x" and rows: "lg_obligations L' = row_update ob_id i f (lg_obligations L)"
    using assms(2) the_obligation_id [OF assms(1)] by (auto simp: put_obligation_Inr)
  have "row_find ob_id i (lg_obligations L') = Some (f r)"
    unfolding rows by (rule row_update_found [OF r(1)]) (use row_find_SomeD [OF r(1)] assms(3) in simp)
  then show thesis using that r back' by (simp add: the_obligation_Inr)
qed

text \<open>C9. A claim is a fence, never a grant: it succeeds only on an open or waiting obligation of the expected
  generation, never on a machine action without typed authority, and against another request's claim
  only when that claim has expired and positive proof is supplied. Afterwards no other request can
  claim the obligation without such proof, whatever the clock says.\<close>

theorem claim_fencing:
  assumes run: "claimObligation E input L = Inr (L', x)"
  shows "\<exists>row. the_obligation E L (ci_obligationId input) = Inr row \<and> ob_state row \<in> {O_open, O_waiting}
     \<and> ob_generation row = ci_expectedGeneration input
     \<and> (obligationRouting (ob_nextAction row) = Machine_silas \<longrightarrow> ob_authority row \<noteq> None)
     \<and> (\<forall>c. ob_claim row = Some c \<longrightarrow>
          (if oc_requestId c = ci_requestId input then oc_holder c = ci_holder input
           else (\<exists>t. oc_expiresAt c = Some t \<and> t \<le> en_now E) \<and> \<not> is_blank (ci_supersedeProof input)))
     \<and> (\<exists>d. ob_claim x = Some d \<and> oc_requestId d = ci_requestId input \<and> oc_holder d = ci_holder input
          \<and> oc_generation d = int (ci_expectedGeneration input))
     \<and> (\<forall>E' input' L'' x'. en_plat E' = en_plat E \<longrightarrow> ci_obligationId input' = ci_obligationId input \<longrightarrow>
          ci_requestId input' \<noteq> ci_requestId input \<longrightarrow> is_blank (ci_supersedeProof input') \<longrightarrow>
          claimObligation E' input' L' \<noteq> Inr (L'', x'))"
proof -
  from claimObligation_InrD [OF run] obtain row t payload where
    row: "the_obligation E L (ci_obligationId input) = Inr row" and ok: "check_claim E input row = Inr ()"
    and put: "put_obligation E ''job.obligation-claimed'' row
         (\<lambda>r. r\<lparr>ob_claim := Some \<lparr>oc_requestId = ci_requestId input, oc_holder = ci_holder input,
                   oc_generation = int (ob_generation row), oc_expiresAt = Some t\<rparr>,
                ob_claimLog := claimed_log E input row, ob_updatedAt := en_now E\<rparr>) payload L = Inr (L', x)"
    by blast
  have gen: "ob_generation row = ci_expectedGeneration input" and holder: "check_claim_holder E input row = Inr ()"
    and state: "ob_state row \<in> {O_open, O_waiting}" and act: "\<not> mechanical_without_authority row"
    using ok by (auto simp: check_claim_def split: if_splits)
  have typed: "obligationRouting (ob_nextAction row) = Machine_silas \<longrightarrow> ob_authority row \<noteq> None"
    using act by (cases "ob_nextAction row") (auto simp: mechanical_without_authority_def)
  have held: "if oc_requestId c = ci_requestId input then oc_holder c = ci_holder input
           else (\<exists>t. oc_expiresAt c = Some t \<and> t \<le> en_now E) \<and> \<not> is_blank (ci_supersedeProof input)"
    if "ob_claim row = Some c" for c
    using holder that by (auto simp: check_claim_holder_def split: if_splits option.splits)
  obtain r where back': "the_obligation E L' (ci_obligationId input) = Inr x" and
    read: "obligationFromRow (en_plat E) (r\<lparr>ob_claim := Some \<lparr>oc_requestId = ci_requestId input,
                   oc_holder = ci_holder input, oc_generation = int (ob_generation row), oc_expiresAt = Some t\<rparr>,
                ob_claimLog := claimed_log E input row, ob_updatedAt := en_now E\<rparr>) = Inr x"
    by (rule put_reads [OF row put]) simp_all
  from claim_reread [of "en_plat E"] obligationFromRow_Inr(2) [OF read] obtain d where
    d: "ob_claim x = Some d" "oc_requestId d = ci_requestId input" "oc_holder d = ci_holder input"
      "oc_generation d = int (ob_generation row)" by fastforce
  have fence: "claimObligation E' input' L' \<noteq> Inr (L'', x')"
    if "en_plat E' = en_plat E" "ci_obligationId input' = ci_obligationId input"
      "ci_requestId input' \<noteq> ci_requestId input" "is_blank (ci_supersedeProof input')" for E' input' L'' x'
  proof
    assume "claimObligation E' input' L' = Inr (L'', x')"
    then obtain row' where "the_obligation E' L' (ci_obligationId input') = Inr row'" and chk: "check_claim E' input' row' = Inr ()"
      using claimObligation_InrD by blast
    then have "row' = x" using back' the_obligation_plat [OF that(1)] that(2) by simp
    then show False using chk d that(3,4) by (auto simp: check_claim_def check_claim_holder_def split: if_splits)
  qed
  show ?thesis
    by (intro exI [of _ row] conjI allI impI exI [of _ d] fence row state gen typed [rule_format] held d(1-3))
      (simp_all add: d(4) gen)
qed

definition sample_claim :: "string \<Rightarrow> claim_input" where
  "sample_claim q = \<lparr>ci_obligationId = ''j-1:operation:unknown'', ci_requestId = q, ci_holder = ''silas'',
     ci_expiresAt = ''2026-01-01T00:00:00.000Z'', ci_expectedGeneration = 1, ci_supersedeProof = None\<rparr>"

definition claimed :: "ledger \<times> obligation_record" where
  "claimed = result_or (empty_ledger, hd (lg_obligations blocked_ledger))
     (claimObligation sample_env (sample_claim ''q1'') blocked_ledger)"

lemma claim_run: "claimObligation sample_env (sample_claim ''q1'') blocked_ledger = Inr claimed"
  unfolding claimed_def
  by (cases "claimObligation sample_env (sample_claim ''q1'') blocked_ledger") (simp_all add: result_or_def, code_simp)

theorem claim_fencing_witness:
  "(\<exists>d. ob_claim (snd claimed) = Some d \<and> oc_requestId d = ''q1'')
   \<and> (\<nexists>r. claimObligation sample_env (sample_claim ''q2'') (fst claimed) = Inr r)"
proof -
  have run: "claimObligation sample_env (sample_claim ''q1'') blocked_ledger = Inr (fst claimed, snd claimed)"
    using claim_run by simp
  have "claimObligation sample_env (sample_claim ''q2'') (fst claimed) \<noteq> Inr (M, y)" for M y
    using claim_fencing [OF run] by (elim exE conjE allE [of _ sample_env] allE [of _ "sample_claim ''q2''"])
      (simp add: sample_claim_def is_blank_def)
  moreover have "\<exists>d. ob_claim (snd claimed) = Some d \<and> oc_requestId d = ''q1''"
    using claim_fencing [OF run] by (auto simp: sample_claim_def)
  ultimately show ?thesis by auto
qed

text \<open>C27. A receipt is evidence, never a settlement: it is recorded only for an event that exists, has the claimed
  kind and sits on the obligation's job; replaying it changes nothing; it never ends or revives a debt;
  and it wakes a waiting obligation only when it is newer than the watermark, has the awaited kind and
  carries the armed correlation.\<close>

theorem receipt_evidence:
  assumes run: "recordObligationReceipt E input L = Inr (L', x)"
  shows "\<exists>row. the_obligation E L (ri_obligationId input) = Inr row
     \<and> (already_recorded input row \<longrightarrow> L' = L \<and> x = row)
     \<and> (\<not> already_recorded input row \<longrightarrow> (\<exists>ev. getEvent L (ri_eventSeq input) = Some ev \<and> er_kind ev = ri_kind input
          \<and> er_jobId ev = Some (ob_jobId row)
          \<and> (ob_state x \<noteq> ob_state row \<longrightarrow> ob_state row = O_waiting \<and> ob_state x = O_open
               \<and> ob_receiptKind row = Some (ri_kind input) \<and> correlated (ob_receiptCorrelation row) (er_payload ev)
               \<and> of_nat (ob_lastOriginSeq row) < ri_eventSeq input)))
     \<and> (live x \<longleftrightarrow> live row) \<and> (ob_settlement x = None \<longleftrightarrow> ob_settlement row = None)
     \<and> ob_nextAction x = ob_nextAction row \<and> ob_authority x = ob_authority row"
proof -
  from receipt_InrD [OF run] obtain row where row: "the_obligation E L (ri_obligationId input) = Inr row"
    and cases: "L' = L \<and> x = row \<and> already_recorded input row
      \<or> (\<exists>ev payload. \<not> already_recorded input row
          \<and> cited_event L (ob_jobId row) (ri_eventSeq input) (ri_kind input) = Inr ev
          \<and> put_obligation E ''job.obligation-receipt'' row
             (\<lambda>r. r\<lparr>ob_recordedReceipts := ob_recordedReceipts row @
                      [\<lparr>rr_kind = ri_kind input, rr_eventSeq = \<lfloor>ri_eventSeq input\<rfloor>,
                        rr_at = or_else (ri_at input) (en_now E), rr_applied = receipt_applied input row ev\<rparr>],
                    ob_lastOriginSeq := max (ob_lastOriginSeq r) (nat \<lfloor>ri_eventSeq input\<rfloor>),
                    ob_state := receipt_state input row ev, ob_updatedAt := en_now E\<rparr>) payload L = Inr (L', x))"
    by blast
  from cases show ?thesis
  proof (elim disjE exE conjE)
    assume "L' = L" "x = row" "already_recorded input row"
    then show ?thesis using row by (intro exI [of _ row]) simp
  next
    fix ev payload
    assume new: "\<not> already_recorded input row"
      and ev: "cited_event L (ob_jobId row) (ri_eventSeq input) (ri_kind input) = Inr ev"
      and put: "put_obligation E ''job.obligation-receipt'' row
             (\<lambda>r. r\<lparr>ob_recordedReceipts := ob_recordedReceipts row @
                      [\<lparr>rr_kind = ri_kind input, rr_eventSeq = \<lfloor>ri_eventSeq input\<rfloor>,
                        rr_at = or_else (ri_at input) (en_now E), rr_applied = receipt_applied input row ev\<rparr>],
                    ob_lastOriginSeq := max (ob_lastOriginSeq r) (nat \<lfloor>ri_eventSeq input\<rfloor>),
                    ob_state := receipt_state input row ev, ob_updatedAt := en_now E\<rparr>) payload L = Inr (L', x)"
    obtain r where r: "obligationFromRow (en_plat E) r = Inr row" and
      x: "obligationFromRow (en_plat E) (r\<lparr>ob_recordedReceipts := ob_recordedReceipts row @
                      [\<lparr>rr_kind = ri_kind input, rr_eventSeq = \<lfloor>ri_eventSeq input\<rfloor>,
                        rr_at = or_else (ri_at input) (en_now E), rr_applied = receipt_applied input row ev\<rparr>],
                    ob_lastOriginSeq := max (ob_lastOriginSeq r) (nat \<lfloor>ri_eventSeq input\<rfloor>),
                    ob_state := receipt_state input row ev, ob_updatedAt := en_now E\<rparr>) = Inr x"
      by (rule put_reads [OF row put]) simp_all
    have state: "ob_state x = receipt_state input row ev" and act: "ob_nextAction x = ob_nextAction row"
      and auth: "ob_authority x = ob_authority row" and set: "ob_settlement x = None \<longleftrightarrow> ob_settlement row = None"
      using read_fields(6,7,8) [OF x] read_fields(7,8) [OF r] obligationFromRow_Inr(4) [OF x] obligationFromRow_Inr(4) [OF r]
      by simp_all
    have ev': "getEvent L (ri_eventSeq input) = Some ev \<and> er_kind ev = ri_kind input \<and> er_jobId ev = Some (ob_jobId row)"
      using ev by (auto simp: cited_event_def split: option.splits if_splits)
    have "live x \<longleftrightarrow> live row" using state by (auto simp: live_simps receipt_state_def)
    then show ?thesis
      using row new ev' state act auth set
      by (intro exI [of _ row]) (auto simp: receipt_state_def receipt_applied_def split: if_splits)
  qed
qed

definition sample_receipt :: receipt_input where
  "sample_receipt = \<lparr>ri_obligationId = ''j-1:operation:unknown'', ri_kind = ''job.status'', ri_eventSeq = 1, ri_at = None\<rparr>"

definition receipted :: "ledger \<times> obligation_record" where
  "receipted = result_or (empty_ledger, hd (lg_obligations blocked_ledger))
     (recordObligationReceipt sample_env sample_receipt blocked_ledger)"

lemma receipt_run: "recordObligationReceipt sample_env sample_receipt blocked_ledger = Inr receipted"
  unfolding receipted_def
  by (cases "recordObligationReceipt sample_env sample_receipt blocked_ledger") (simp_all add: result_or_def, code_simp)

theorem receipt_evidence_witness:
  "\<exists>row. the_obligation sample_env blocked_ledger ''j-1:operation:unknown'' = Inr row
     \<and> (live (snd receipted) \<longleftrightarrow> live row)"
  using receipt_evidence [of sample_env sample_receipt blocked_ledger "fst receipted" "snd receipted"] receipt_run
  by (auto simp: sample_receipt_def)


lemma settled_reads:
  assumes "settleObligation E i s requestId L = Inr (L', x)" and "the_obligation E L i = Inr row"
  obtains r where "row_find ob_id i (lg_obligations L') = Some (settled_row E row s r)"
    and "obligationFromRow (en_plat E) (settled_row E row s r) = Inr x"
proof -
  from settle_InrD [OF assms(1)] have x: "the_obligation E L' i = Inr x" by blast
  from settle_rows [OF assms(1)] assms(2)
  have rows: "lg_obligations L' = row_update ob_id i (settled_row E row s) (lg_obligations L)" by auto
  from assms(2) obtain r where r: "row_find ob_id i (lg_obligations L) = Some r" by (auto simp: the_obligation_Inr)
  have found: "row_find ob_id i (lg_obligations L') = Some (settled_row E row s r)"
    unfolding rows by (rule row_update_found [OF r]) (use row_find_SomeD [OF r] in \<open>simp add: settled_row_def\<close>)
  moreover have "obligationFromRow (en_plat E) (settled_row E row s r) = Inr x"
    using x found by (simp add: the_obligation_Inr)
  ultimately show thesis by (rule that)
qed

text \<open>What an obligation asks of a settlement. An executed action and an accepted gate (the settlements that claim
  the work was done) need an open or waiting obligation, an event on record of its own job with the cited kind, and
  no claim of another request. The administrative closes need a live obligation and nothing else.\<close>

definition event_cited :: "ledger \<Rightarrow> obligation_record \<Rightarrow> nat \<Rightarrow> string \<Rightarrow> bool" where
  "event_cited L row seq kind \<longleftrightarrow> (\<exists>ev. getEvent L (of_nat seq) = Some ev \<and> er_jobId ev = Some (ob_jobId row) \<and> er_kind ev = kind)"

definition claimed_by_none_but :: "string option \<Rightarrow> obligation_record \<Rightarrow> bool" where
  "claimed_by_none_but requestId row \<longleftrightarrow> (\<forall>c. ob_claim row = Some c \<longrightarrow> requestId = Some (oc_requestId c))"

fun settlement_proven :: "ledger \<Rightarrow> obligation_record \<Rightarrow> string option \<Rightarrow> settlement \<Rightarrow> bool" where
  "settlement_proven L row requestId (Executed_action action seq kind) \<longleftrightarrow>
     ob_state row \<in> {O_open, O_waiting} \<and> event_cited L row seq kind \<and> claimed_by_none_but requestId row"
| "settlement_proven L row requestId (Accepted_evidence gate seq kind) \<longleftrightarrow>
     ob_state row \<in> {O_open, O_waiting} \<and> event_cited L row seq kind \<and> claimed_by_none_but requestId row"
| "settlement_proven L row requestId (Superseded by' reason) \<longleftrightarrow> live row"
| "settlement_proven L row requestId (Cancelled reason) \<longleftrightarrow> live row"
| "settlement_proven L row requestId (Job_terminal status) \<longleftrightarrow> live row"

text \<open>What answers a gate duty that still stands on the obligation: its completion at the cited event; a transfer to
  another live obligation of the job that owes the same decision and no duty of its own; or the end of the job, in
  the status named. Never a cancellation, nor a transfer to nobody.\<close>

fun duty_answered :: "env \<Rightarrow> ledger \<Rightarrow> obligation_record \<Rightarrow> json \<Rightarrow> settlement \<Rightarrow> bool" where
  "duty_answered E L row duty (Executed_action action seq kind) \<longleftrightarrow> en_gateDutyCompleted E L row duty seq"
| "duty_answered E L row duty (Accepted_evidence gate seq kind) \<longleftrightarrow> en_gateDutyCompleted E L row duty seq"
| "duty_answered E L row duty (Superseded None reason) \<longleftrightarrow> False"
| "duty_answered E L row duty (Superseded (Some i) reason) \<longleftrightarrow>
     (\<exists>recipient d. getObligation E L i = Inr (Some recipient) \<and> ob_id recipient \<noteq> ob_id row
        \<and> ob_jobId recipient = ob_jobId row \<and> live recipient \<and> currentGateDutyAction E L (ob_id recipient) = Inr None
        \<and> decision_text (ob_nextAction recipient) = Some d \<and> payload_get duty ''decision'' = Some (JStr d))"
| "duty_answered E L row duty (Cancelled reason) \<longleftrightarrow> False"
| "duty_answered E L row duty (Job_terminal status) \<longleftrightarrow>
     (\<exists>job. getJob L (ob_jobId row) = Some job \<and> jb_status job = status \<and> isJobTerminal status)"

definition no_duty_left :: "env \<Rightarrow> ledger \<Rightarrow> obligation_record \<Rightarrow> settlement \<Rightarrow> bool" where
  "no_duty_left E L row s \<longleftrightarrow> (\<exists>stands. currentGateDutyAction E L (ob_id row) = Inr stands
     \<and> (\<forall>duty. stands = Some duty \<longrightarrow> duty_answered E L row duty s))"

lemma gate_recipient_iff:
  "check_gate_recipient E L row duty recipient = Inr () \<longleftrightarrow> ob_id recipient \<noteq> ob_id row \<and> ob_jobId recipient = ob_jobId row
     \<and> live recipient \<and> currentGateDutyAction E L (ob_id recipient) = Inr None
     \<and> (\<exists>d. decision_text (ob_nextAction recipient) = Some d \<and> payload_get duty ''decision'' = Some (JStr d))"
  by (cases "decision_text (ob_nextAction recipient)")
    (auto simp: attempt_Inr_iff check_gate_recipient_def live_def split: if_splits)

lemma gate_settlement_iff: "check_gate_settlement E L row duty s = Inr () \<longleftrightarrow> duty_answered E L row duty s"
proof (cases s)
  case (Superseded by' reason)
  show ?thesis
  proof (cases by')
    case (Some i)
    then show ?thesis using Superseded
      by (cases "getObligation E L i") (auto simp: gate_recipient_iff split: option.split)
  qed (simp add: Superseded)
qed (auto split: option.splits if_splits)

lemma duty_iff: "check_gate_duty E L row s = Inr () \<longleftrightarrow> no_duty_left E L row s"
  by (auto simp: check_gate_duty_def no_duty_left_def attempt_Inr_iff gate_settlement_iff split: option.splits)

lemma proven_iff:
  "settlement_proven L row requestId s \<longleftrightarrow> assertObligationTransition (ob_state row) (settlement_target s) = Inr ()
     \<and> check_settlement_evidence L row s = Inr () \<and> check_settlement_claim row s requestId = Inr ()"
  by (cases s; cases "ob_state row")
    (auto simp: assertObligationTransition_iff settlement_target_def check_settlement_evidence_def check_settlement_claim_def event_cited_def
      claimed_by_none_but_def live_def isObligationTerminal_def split: option.splits if_splits)

text \<open>C10. A settlement needs its proof. It is allowed exactly when it is proven and no gate duty is left. An executed
  action or an accepted gate must cite an event on record, of the obligation's own job and of the cited kind, on an
  open or waiting obligation, and is refused while another request holds the claim; an administrative close
  (superseded, cancelled, job terminal) cites nothing and overrides any claim, but only on a live obligation. A gate
  duty that stands is answered only by its completion, by a transfer to another live obligation of the job that owes
  the same decision and no duty, or by the job's end in the named status. Afterwards the row holds exactly this
  settlement, settled or closed by its kind, and no claim; a claim it held is closed in its log, not lost.\<close>

theorem settlement_needs_proof:
  assumes row: "the_obligation E L i = Inr row"
  shows "(check_settlement E L row s requestId = Inr () \<longleftrightarrow> settlement_proven L row requestId s \<and> no_duty_left E L row s)
     \<and> (\<forall>L' x. settleObligation E i s requestId L = Inr (L', x) \<longrightarrow>
          settlement_proven L row requestId s \<and> no_duty_left E L row s
          \<and> (\<exists>r'. row_find ob_id i (lg_obligations L') = Some r' \<and> ob_settlement r' = Some s \<and> ob_claim r' = None
               \<and> ob_state r' = (if settlement_evidence s = None then O_closed else O_settled)
               \<and> (\<forall>c. ob_claim row = Some c \<longrightarrow> (\<exists>entry. ob_claimLog r' = ob_claimLog row @ [entry]
                    \<and> le_requestId entry = oc_requestId c
                    \<and> le_disposition entry = (if settlement_evidence s = None then Terminal_close else Released)))
               \<and> ob_state x = ob_state r' \<and> ob_claim x = None))"
proof -
  have iff: "check_settlement E L row s requestId = Inr () \<longleftrightarrow> settlement_proven L row requestId s \<and> no_duty_left E L row s"
    unfolding check_settlement_def attempt_Inr_iff ex_unit lift_error_Inr proven_iff duty_iff by blast
  have "settlement_proven L row requestId s \<and> no_duty_left E L row s
     \<and> (\<exists>r'. row_find ob_id i (lg_obligations L') = Some r' \<and> ob_settlement r' = Some s \<and> ob_claim r' = None
          \<and> ob_state r' = (if settlement_evidence s = None then O_closed else O_settled)
          \<and> (\<forall>c. ob_claim row = Some c \<longrightarrow> (\<exists>entry. ob_claimLog r' = ob_claimLog row @ [entry]
               \<and> le_requestId entry = oc_requestId c
               \<and> le_disposition entry = (if settlement_evidence s = None then Terminal_close else Released)))
          \<and> ob_state x = ob_state r' \<and> ob_claim x = None)"
    if run: "settleObligation E i s requestId L = Inr (L', x)" for L' x
  proof -
    have "check_settlement E L row s requestId = Inr ()" using settle_InrD [OF run] row by auto
    moreover from settled_reads [OF run row] obtain r where r: "row_find ob_id i (lg_obligations L') = Some (settled_row E row s r)"
      and x: "obligationFromRow (en_plat E) (settled_row E row s r) = Inr x" by blast
    moreover have "ob_claim x = None" using obligationFromRow_Inr(2) [OF x] by (simp add: settled_row_def parseClaim_def)
    ultimately show ?thesis
      using iff read_fields(6) [OF x]
      by (auto simp: settled_row_def settlement_target_def settled_log_def log_claim_def closed_claim_def)
  qed
  then show ?thesis using iff by blast
qed

definition sample_settlement :: settlement where
  "sample_settlement = Executed_action ''restarted'' 1 ''job.status''"

definition settled_ledger :: "ledger \<times> obligation_record" where
  "settled_ledger = result_or (empty_ledger, hd (lg_obligations blocked_ledger))
     (settleObligation sample_env ''j-1:operation:unknown'' sample_settlement (Some ''q1'') (fst claimed))"

lemma settle_run: "settleObligation sample_env ''j-1:operation:unknown'' sample_settlement (Some ''q1'') (fst claimed) = Inr settled_ledger"
  unfolding settled_ledger_def
  by (cases "settleObligation sample_env ''j-1:operation:unknown'' sample_settlement (Some ''q1'') (fst claimed)")
    (simp_all add: result_or_def, code_simp)

theorem settlement_needs_proof_witness:
  "\<exists>row. the_obligation sample_env (fst claimed) ''j-1:operation:unknown'' = Inr row
     \<and> event_cited (fst claimed) row 1 ''job.status'' \<and> ob_state (snd settled_ledger) = O_settled
     \<and> check_settlement sample_env (fst claimed) row sample_settlement (Some ''q2'') \<noteq> Inr ()"
proof -
  have run: "settleObligation sample_env ''j-1:operation:unknown'' sample_settlement (Some ''q1'') (fst claimed)
      = Inr (fst settled_ledger, snd settled_ledger)" using settle_run by simp
  from settle_InrD [OF run] obtain row where row: "the_obligation sample_env (fst claimed) ''j-1:operation:unknown'' = Inr row"
    by blast
  have "map_sum id (\<lambda>r. map_option oc_requestId (ob_claim r)) (the_obligation sample_env (fst claimed) ''j-1:operation:unknown'')
      = Inr (Some ''q1'')" by code_simp
  then have "\<not> claimed_by_none_but (Some ''q2'') row" using row by (auto simp: claimed_by_none_but_def)
  then have "check_settlement sample_env (fst claimed) row sample_settlement (Some ''q2'') \<noteq> Inr ()"
    using settlement_needs_proof [OF row, of sample_settlement "Some ''q2''"] by (auto simp: sample_settlement_def)
  moreover from settlement_needs_proof [OF row, THEN conjunct2, rule_format, OF run]
  have "event_cited (fst claimed) row 1 ''job.status''" "ob_state (snd settled_ledger) = O_settled"
    by (auto simp: sample_settlement_def)
  ultimately show ?thesis using row by blast
qed


subsection \<open>Status boundaries\<close>

lemma observation_label_own:
  "observation_label E L i blocker = Keep \<or> (\<exists>t. observation_label E L i blocker = Owe t \<and> fst t = i)"
  by (cases "resolveObligation (en_plat E) blocker i")
    (auto simp: observation_label_def resolved_incident_def dest!: resolveObligation_InrD(3) split: option.splits)

lemma status_label_own:
  "{t \<in> apply_label (status_label E L i status blocker seq) D. fst t \<noteq> i} = {t \<in> D. fst t \<noteq> i}"
  using observation_label_own [of E L i "or_else blocker (default_blocker seq)"] by (auto simp: status_label_def)

text \<open>C16. A job's status and its obligations move together: a status write is a transition of the job table, a
  parked job has no open or waiting obligation, a terminal job has no live obligation at all and had no
  live work, and no other job's debts change.\<close>

theorem status_boundary:
  assumes "setJobStatus E i name context L = Inr (L', job)" and "obligations_ok (en_plat E) L"
    and "getJob L i = Some current" and "jb_status current \<noteq> jb_status job"
  shows "assertJobTransition (jb_status current) (jb_status job) = Inr ()
     \<and> (jb_status job = Parked \<longrightarrow> pending i {O_open, O_waiting} L' = {})
     \<and> (isJobTerminal (jb_status job) \<longrightarrow> pending i {O_open, O_waiting, O_suspended} L' = {})
     \<and> (jb_status job = Done \<longrightarrow> en_doneBlockers E L i = [])
     \<and> (jb_status job = Binned \<longrightarrow> terminalLiveWorkBlockers E L i = [])
     \<and> {t \<in> owed L'. fst t \<noteq> i} = {t \<in> owed L. fst t \<noteq> i}"
proof -
  from setJobStatus_InrD [OF assms(1)] obtain status where
    name: "status_of_name job_status_name JOB_STATUSES name = Some status" by blast
  note F = set_status_facts [OF assms(1,2) name assms(3)]
  have same: "jb_status job = status" using F(7) by simp
  have "{t \<in> apply_label (set_status_label E L i status context) (owed L). fst t \<noteq> i} = {t \<in> owed L. fst t \<noteq> i}"
    using assms(3,4) same status_label_own by (simp add: set_status_label_def)
  then show ?thesis
    using F(1,3,4,5,6) assms(4) same by (auto simp: check_live_work_def split: if_splits)
qed

text \<open>A sample: the blocked job is binned.\<close>

theorem status_boundary_witness: "pending ''j-1'' {O_open, O_waiting, O_suspended} binned_ledger = {}"
proof -
  have "map_option jb_status (getJob blocked_ledger ''j-1'') = Some Blocked" by code_simp
  then obtain current where cur: "getJob blocked_ledger ''j-1'' = Some current" "jb_status current = Blocked" by auto
  have "jb_status (snd (result_or (empty_ledger, sample_job ''x'' Working)
     (setJobStatus sample_env ''j-1'' ''binned'' None blocked_ledger))) = Binned" by code_simp
  then show ?thesis
    using status_boundary [OF binned_run _ cur(1)] blocked_ok cur(2) by (simp add: isJobTerminal_def)
qed

lemma blocked_incident:
  assumes "resolveObligation plat (default_blocker seq) i = Inr resolved"
  shows "resolved_incident resolved = (i, ''operation'', ''unknown'')"
  using resolveObligation_InrD(3,4,10) [OF assms]
  by (simp add: resolved_incident_def default_blocker_def or_else_def)

lemma watermark_default: "watermark_of (default_blocker n) = n"
  by (simp add: watermark_of_def default_blocker_def)

text \<open>A row of the incident that claims to have seen an event this ledger has not yet written.\<close>

definition ahead_of_log :: "ledger \<Rightarrow> incident \<Rightarrow> bool" where
  "ahead_of_log L incident \<longleftrightarrow> (\<exists>r\<in>set (lg_obligations L). incident_of r = incident \<and> lg_seq L < ob_lastOriginSeq r)"

lemma watermark_ahead:
  "(case newestIncarnationWatermark L i step key of None \<Rightarrow> False | Some m \<Rightarrow> Suc (lg_seq L) \<le> m)
     \<longleftrightarrow> ahead_of_log L (i, step, key)"
proof (cases "newestIncarnationWatermark L i step key")
  case None
  then have "\<not> of_tuple i step key r" if "r \<in> set (lg_obligations L)" for r
    using that by (auto simp: newestIncarnationWatermark_def filter_empty_conv)
  then show ?thesis using None by (auto simp: ahead_of_log_def incident_of_def of_tuple_def)
next
  case (Some m)
  then have max: "max_of ob_lastOriginSeq (filter (of_tuple i step key) (lg_obligations L)) = Some m"
    by (simp add: newestIncarnationWatermark_def)
  show ?thesis
    using max_of_mem [OF max] max_of_ge [OF max] Some
    by (auto simp: ahead_of_log_def incident_of_def of_tuple_def Suc_le_eq dest: less_le_trans)
qed

text \<open>C25. What a job owes when it becomes blocked without further context: the transition leaves a live
  obligation for the incident unknown of the operation step, next to all that was owed before, unless a stored
  incarnation of that very incident claims to have seen an event beyond the transition's own; then the transition
  counts as stale and the debts are exactly what they were. (The store never checks the sequence number a caller
  says it observed, so such a row can exist.)\<close>

theorem blocked_job_owes:
  assumes "setJobStatus E i ''blocked'' None L = Inr (L', job)" and "obligations_ok (en_plat E) L"
    and "getJob L i = Some current" and "jb_status current \<noteq> Blocked"
  shows "owed L' = (if ahead_of_log L (i, ''operation'', ''unknown'') then owed L
     else insert (i, ''operation'', ''unknown'') (owed L))"
proof -
  have name: "status_of_name job_status_name JOB_STATUSES ''blocked'' = Some Blocked"
    by (simp add: status_of_name_def JOB_STATUSES_def)
  from setJobStatus_InrD [OF assms(1)] name assms(3,4) have
    "enter_status E current Blocked None L = Inr L'" by auto
  from enter_status_InrD [OF this] have "follow_status E (jb_id current) Blocked None (Suc (lg_seq L))
         (writeJobStatus E (jb_id current) (jb_status current) Blocked [] L) = Inr L'" by blast
  then obtain resolved where res: "resolveObligation (en_plat E) (default_blocker (Suc (lg_seq L))) i = Inr resolved"
    using getJob_SomeD [OF assms(3)]
    by (auto simp: follow_status_def attempt_Inr_iff applyBlockedObservation_def or_else_def)
  note incident = blocked_incident [OF res]
  have "set_status_label E L i Blocked None = observation_label E L i (default_blocker (Suc (lg_seq L)))"
    using assms(3,4) by (simp add: set_status_label_def status_label_def or_else_def)
  then have step: "owed L' = apply_label (observation_label E L i (default_blocker (Suc (lg_seq L)))) (owed L)"
    using set_status_facts(1) [OF assms(1,2) name assms(3)] by simp
  have parts: "logical_step_name (ro_logicalStep resolved) = ''operation''" "ro_incidentKey resolved = ''unknown''"
    using incident by (simp_all add: resolved_incident_def)
  show ?thesis
    unfolding step watermark_ahead [symmetric] observation_label_def res sum.case incident parts watermark_default
    by (auto split: option.split)
qed

theorem blocked_job_owes_witness: "(''j-1'', ''operation'', ''unknown'') \<in> owed blocked_ledger"
proof -
  have "\<not> ahead_of_log (job_ledger Working) (''j-1'', ''operation'', ''unknown'')" by (simp add: ahead_of_log_def)
  then show ?thesis
    using blocked_job_owes [OF blocked_run job_ledger_ok job_ledger_start(3)] by (simp add: sample_job_def)
qed


subsection \<open>Composite operations\<close>





text \<open>C37. Paging is invisible: the loop that reads a job's obligations in pages of two hundred up to the
  watermark returns exactly the rows of the job in the wanted states, each once, in insertion order.\<close>

theorem applicable_paging:
  assumes "distinct (map ob_id (lg_obligations L))" and "states \<noteq> []"
  shows "listApplicableObligations E L jobId states = map_res (obligationFromRow (en_plat E))
     (filter (\<lambda>r. ob_jobId r = jobId \<and> ob_state r \<in> set states) (lg_obligations L))"
  by (rule listApplicable_rows [OF assms])

theorem applicable_paging_witness:
  "listApplicableObligations sample_env blocked_ledger ''j-1'' [O_open, O_waiting] = map_res (obligationFromRow sample_platform)
     (filter (\<lambda>r. ob_jobId r = ''j-1'' \<and> ob_state r \<in> {O_open, O_waiting}) (lg_obligations blocked_ledger))"
proof -
  have "distinct (map ob_id (lg_obligations blocked_ledger))" by code_simp
  from applicable_paging [OF this, of "[O_open, O_waiting]" sample_env "''j-1''"] show ?thesis by simp
qed

lemma incarnation_search_first:
  assumes "\<forall>r\<in>set (lg_obligations L). readable (en_plat E) r"
  shows "\<exists>m\<ge>n. incarnation_search E L base n = Inr (incarnation_name base m)
     \<and> incarnation_name base m \<notin> ob_id ` set (lg_obligations L)
     \<and> (\<forall>k. n \<le> k \<longrightarrow> k < m \<longrightarrow> incarnation_name base k \<in> ob_id ` set (lg_obligations L))"
  using assms
proof (induction E L base n rule: incarnation_search.induct)
  case (1 E L base n)
  show ?case
  proof (cases "incarnation_name base n \<in> ob_id ` set (lg_obligations L)")
    case False
    then have "getObligation E L (incarnation_name base n) = Inr None" by (simp add: getObligation_None)
    then show ?thesis using False by (intro exI [of _ n]) (simp add: incarnation_search.simps [of E L base n])
  next
    case True
    then obtain r where r: "row_find ob_id (incarnation_name base n) (lg_obligations L) = Some r"
      by (cases "row_find ob_id (incarnation_name base n) (lg_obligations L)") (simp_all add: row_find_None_iff)
    then obtain row where "obligationFromRow (en_plat E) r = Inr row"
      using "1.prems" row_find_SomeD [OF r] by (auto simp: readable_def)
    then have found: "getObligation E L (incarnation_name base n) = Inr (Some row)" by (simp add: getObligation_def r)
    from "1.IH" [OF found refl "1.prems"] obtain m where m: "Suc n \<le> m"
      "incarnation_search E L base (Suc n) = Inr (incarnation_name base m)"
      "incarnation_name base m \<notin> ob_id ` set (lg_obligations L)"
      "\<forall>k. Suc n \<le> k \<longrightarrow> k < m \<longrightarrow> incarnation_name base k \<in> ob_id ` set (lg_obligations L)" by blast
    have "incarnation_name base k \<in> ob_id ` set (lg_obligations L)" if "n \<le> k" "k < m" for k
      using that m(4) True by (cases "k = n") auto
    then show ?thesis
      using m found by (intro exI [of _ m]) (simp add: incarnation_search.simps [of E L base n] Suc_leD)
  qed
qed

text \<open>The search for a fresh incarnation id ends: in every well-formed store it returns the first of the
  names base, base#2, base#3, ... that no row of the table has, live or settled.\<close>

theorem next_incarnation_free:
  assumes "obligations_ok (en_plat E) L"
  shows "\<exists>n\<ge>1. nextIncarnationId E L base = Inr (incarnation_name base n)
     \<and> incarnation_name base n \<notin> ob_id ` set (lg_obligations L)
     \<and> (\<forall>k. 1 \<le> k \<longrightarrow> k < n \<longrightarrow> incarnation_name base k \<in> ob_id ` set (lg_obligations L))"
  unfolding nextIncarnationId_def
  by (rule incarnation_search_first) (use assms in \<open>simp add: obligations_ok_def debt_ok_def\<close>)

theorem next_incarnation_free_witness:
  "\<exists>n\<ge>1. nextIncarnationId sample_env blocked_ledger ''j-1:operation:unknown'' = Inr (incarnation_name ''j-1:operation:unknown'' n)
     \<and> n \<noteq> 1"
proof -
  have "''j-1:operation:unknown'' \<in> ob_id ` set (lg_obligations blocked_ledger)" by code_simp
  then show ?thesis
    using next_incarnation_free [of sample_env blocked_ledger "''j-1:operation:unknown''"] blocked_ok
    by (force simp: incarnation_name_def)
qed

text \<open>A recorded authority is only as good as the durable record behind it: verification holds exactly when
  the named directive exists, belongs to the obligation's job and was admitted or settled, or when the named
  ruling in that version is among the job's recorded events; an obligation without authority never verifies.\<close>

theorem authority_verification:
  assumes "verifyObligationAuthority E i L = Inr (valid, reason)"
  shows "\<exists>row. the_obligation E L i = Inr row \<and> (valid \<longleftrightarrow>
     (\<exists>operation version d. ob_authority row = Some (Accepted_operation operation version) \<and> getDirective L operation = Some d
        \<and> dr_jobId d = ob_jobId row \<and> dr_state d \<in> {''admitted'', ''settled''})
     \<or> (\<exists>ref version. ob_authority row \<in> {Some (Chief_ruling ref version), Some (Owner_ruling ref version)}
        \<and> (\<exists>e\<in>set (listJobEvents L (ob_jobId row) 1000). er_kind e = ''ruling.recorded''
             \<and> payload_get (er_payload e) ''ref'' = Some (JStr ref) \<and> payload_get (er_payload e) ''version'' = Some (JStr version))))"
proof -
  from assms obtain row where row: "the_obligation E L i = Inr row" and res: "(valid, reason) = (case ob_authority row of
     None \<Rightarrow> (False, No_typed_authority)
   | Some (Accepted_operation operation version) \<Rightarrow> check_operation L (ob_jobId row) operation version
   | Some (Chief_ruling ref version) \<Rightarrow> check_ruling L (ob_jobId row) ref version
   | Some (Owner_ruling ref version) \<Rightarrow> check_ruling L (ob_jobId row) ref version)"
    by (auto simp: verifyObligationAuthority_def attempt_Inr_iff)
  show ?thesis
    using row res
    by (intro exI [of _ row])
      (auto simp: check_operation_def check_ruling_def ruling_recorded_def list_ex_iff split: option.splits authority.splits if_splits)
qed

definition authorised_ledger :: ledger where
  "authorised_ledger = (fst (result_or (empty_ledger, sample_job ''x'' Working)
     (setJobStatus sample_env ''j-1'' ''blocked''
        (Some ((default_blocker 1)\<lparr>bc_authority := Some (Accepted_operation ''d-1'' ''v1'')\<rparr>)) (job_ledger Working))))
     \<lparr>lg_directives := [\<lparr>dr_requestId = ''d-1'', dr_jobId = ''j-1'', dr_state = ''admitted''\<rparr>]\<rparr>"

theorem authority_verification_witness:
  "\<exists>row. the_obligation sample_env authorised_ledger ''j-1:operation:unknown'' = Inr row \<and> ob_authority row \<noteq> None"
proof -
  have "verifyObligationAuthority sample_env ''j-1:operation:unknown'' authorised_ledger
    = Inr (True, Admitted_operation ''d-1'' ''v1'')" by code_simp
  from authority_verification [OF this] show ?thesis by auto
qed

text \<open>A report is disposed of only by whoever commissioned it or gru, for a delivered report job with a
  live report obligation; acting on it names an existing directive job of the same repository, any other
  outcome a reason; the obligation is then settled or closed without a claim, the job is done and
  owes nothing more, while other jobs' debts are untouched.\<close>

theorem report_disposition:
  assumes "settleReportDisposition E input L = Inr (L', job', settled)" and "obligations_ok (en_plat E) L"
  shows "\<exists>job row. getJob L (di_jobId input) = Some job \<and> jb_status job = Delivered
     \<and> (\<exists>kind. jb_deliverable job = Some (report_deliverable_name kind))
     \<and> (\<forall>c. jb_commissioner job = Some c \<longrightarrow> disposition_actor input job \<in> {c, ''gru''})
     \<and> (if di_outcome input = Acted
         then \<exists>d directive. di_directiveJobId input = Some d \<and> getJob L d = Some directive \<and> jb_repo directive = jb_repo job
         else disposition_note input \<noteq> [])
     \<and> the_obligation E L (ob_id row) = Inr row \<and> live row \<and> ob_jobId row = di_jobId input
     \<and> ob_incidentKey row = reportIncidentKey (di_jobId input)
     \<and> ob_state settled = (if di_outcome input = Acted then O_settled else O_closed) \<and> ob_claim settled = None
     \<and> jb_status job' = Done \<and> owed L' = {t \<in> owed L. fst t \<noteq> di_jobId input}"
proof -
  note D = disposition_InrD [OF assms]
  from D(4) obtain job row L1 L2 where job: "getJob L (di_jobId input) = Some job"
    and chk: "check_disposition L input job = Inr ()" and live: "live_report E L (di_jobId input) = Inr row"
    and L1: "L1 = appendEvent E REPORT_DISPOSITION_EVENT None (Some (jb_id job)) (disposition_payload input job row) L"
    and run: "settleObligation E (ob_id row) (disposition_settlement input (lg_seq L1)) None L1 = Inr (L2, settled)" by blast
  note R = live_report_InrD [OF live assms(2)]
  have "the_obligation E L1 (ob_id row) = Inr row" using R(1) by (simp add: L1 the_obligation_def getObligation_def)
  from settled_reads [OF run this] obtain r where
    x: "obligationFromRow (en_plat E) (settled_row E row (disposition_settlement input (lg_seq L1)) r) = Inr settled" by blast
  have claim: "ob_claim settled = None" using obligationFromRow_Inr(2) [OF x] by (simp add: settled_row_def parseClaim_def)
  have state: "ob_state settled = (if di_outcome input = Acted then O_settled else O_closed)"
    using read_fields(6) [OF x]
    by (cases "di_outcome input") (simp_all add: settled_row_def disposition_settlement_def settlement_target_def)
  have "jb_status job = Delivered" and "\<exists>kind. jb_deliverable job = Some (report_deliverable_name kind)"
    and "\<forall>c. jb_commissioner job = Some c \<longrightarrow> disposition_actor input job \<in> {c, ''gru''}"
    and "check_routing L input job = Inr ()"
    using chk report_kind_Some by (auto simp: check_disposition_def split: if_splits)
  moreover from this(4) have "if di_outcome input = Acted
         then \<exists>d directive. di_directiveJobId input = Some d \<and> getJob L d = Some directive \<and> jb_repo directive = jb_repo job
         else disposition_note input \<noteq> []"
    by (auto simp: check_routing_def attempt_Inr_iff the_job_Inr split: if_splits option.splits)
  ultimately show ?thesis using job R claim state D(1,3) by (intro exI [of _ job] exI [of _ row]) simp
qed

definition reported :: "ledger \<times> obligation_record \<times> bool" where
  "reported = result_or (empty_ledger, hd (lg_obligations blocked_ledger), True)
     (openReportObligation sample_env ''j-1'' 0 None (job_ledger Delivered))"

lemma report_run: "openReportObligation sample_env ''j-1'' 0 None (job_ledger Delivered) = Inr (fst reported, fst (snd reported), snd (snd reported))"
  unfolding reported_def
  by (cases "openReportObligation sample_env ''j-1'' 0 None (job_ledger Delivered)") (simp_all add: result_or_def, code_simp)

lemma report_ok: "obligations_ok sample_platform (fst reported)"
  using openReport_InrD [OF report_run] debt_inv.steps_inv [OF _ job_ledger_ok] by auto

text \<open>The opening does not look at the job's status: a working job can owe its report already.\<close>

lemma report_opens_before_delivery:
  "\<exists>L' row. openReportObligation sample_env ''j-1'' 0 None (job_ledger Working) = Inr (L', row, True) \<and> live row"
proof -
  have "\<not> (case openReportObligation sample_env ''j-1'' 0 None (job_ledger Working) of
      Inl e \<Rightarrow> True | Inr (L', row, created) \<Rightarrow> \<not> created \<or> \<not> live row)" by code_simp
  then show ?thesis by (auto split: sum.splits)
qed

definition sample_disposition :: disposition_input where
  "sample_disposition = \<lparr>di_jobId = ''j-1'', di_outcome = Dismissed, di_note = Some ''not needed'',
     di_directiveJobId = None, di_by = Some ''gru''\<rparr>"

definition disposed :: "ledger \<times> job_record \<times> obligation_record" where
  "disposed = result_or (empty_ledger, sample_job ''x'' Working, hd (lg_obligations blocked_ledger))
     (settleReportDisposition sample_env sample_disposition (fst reported))"

lemma dispose_run: "settleReportDisposition sample_env sample_disposition (fst reported) = Inr (fst disposed, fst (snd disposed), snd (snd disposed))"
  unfolding disposed_def
  by (cases "settleReportDisposition sample_env sample_disposition (fst reported)") (simp_all add: result_or_def, code_simp)

theorem report_disposition_witness: "jb_status (fst (snd disposed)) = Done \<and> ob_state (snd (snd disposed)) = O_closed"
  using report_disposition [OF dispose_run] report_ok by (auto simp: sample_disposition_def)

end
