(* ===== verification/Admission.thy ===== *)
theory Admission
  imports Prelude
begin

text \<open>
  The contract that the admission queues of \<^verbatim>\<open>src/src/runtime/\<close> share: requests join at the tail, are
  admitted from the head only, and may leave at any time. \<open>replay\<close> is the abstract queue; the locale
  states what a provider's steps owe it, and the facts its clients rely on are proved once here.
\<close>

datatype 't admission = Joined 't | Admitted 't | Left 't

text \<open>The abstract queue: \<open>None\<close> when a request that is not at the head is admitted.\<close>

fun replay :: "'t admission list \<Rightarrow> 't list \<Rightarrow> 't list option" where
  "replay [] q = Some q"
| "replay (Joined t # es) q = replay es (q @ [t])"
| "replay (Admitted t # es) q = (case q of [] \<Rightarrow> None | u # us \<Rightarrow> if u = t then replay es us else None)"
| "replay (Left t # es) q = replay es (remove1 t q)"

lemma replay_append:
  "replay (es @ fs) q = (case replay es q of None \<Rightarrow> None | Some q' \<Rightarrow> replay fs q')"
  by (induction es q rule: replay.induct) (simp_all split: list.split)

lemma remove1_split:
  assumes "t \<noteq> v"
  shows "\<exists>a' b'. remove1 v (a @ t # b) = a' @ t # b' \<and> set a' \<subseteq> set a"
  using assms by (cases "v \<in> set a") (auto simp: remove1_append dest: notin_set_remove1 intro: set_remove1_subset [THEN subsetD])

text \<open>A request that is neither admitted nor gone is still queued, behind a part of those ahead of it.\<close>

lemma replay_waits:
  assumes "replay es (a @ t # b) = Some q" and "Admitted t \<notin> set es" and "Left t \<notin> set es"
  shows "\<exists>a' b'. q = a' @ t # b' \<and> set a' \<subseteq> set a"
  using assms
proof (induction es arbitrary: a b)
  case Nil
  then show ?case by (intro exI [of _ a] exI [of _ b]) simp
next
  case (Cons e es)
  show ?case
  proof (cases e)
    case (Joined v)
    then show ?thesis using Cons.IH [of a "b @ [v]"] Cons.prems by simp
  next
    case (Admitted v)
    then obtain w ws where a: "a = w # ws" using Cons.prems by (cases a) auto
    then show ?thesis using Cons.IH [of ws b] Cons.prems Admitted by (auto split: if_splits)
  next
    case (Left v)
    then obtain a' b' where "remove1 v (a @ t # b) = a' @ t # b'" "set a' \<subseteq> set a"
      using remove1_split [of t v a b] Cons.prems(3) by auto
    then show ?thesis using Cons.IH [of a' b'] Cons.prems Left by force
  qed
qed

lemma replay_no_overtaking:
  assumes "replay (es @ Admitted u # fs) (a @ t # b) \<noteq> None" and "u \<noteq> t" and "u \<notin> set a"
  shows "Admitted t \<in> set es \<or> Left t \<in> set es"
proof (rule ccontr)
  assume still: "\<not> (Admitted t \<in> set es \<or> Left t \<in> set es)"
  from assms(1) obtain q where q: "replay es (a @ t # b) = Some q" and next': "replay (Admitted u # fs) q \<noteq> None"
    by (auto simp: replay_append split: option.splits)
  from replay_waits [OF q] still obtain a' b' where "q = a' @ t # b'" "set a' \<subseteq> set a" by blast
  then show False using next' assms(2,3) by (cases a') (auto split: if_splits)
qed

text \<open>Runs of a labelled step relation.\<close>

inductive labelled_run :: "('s \<Rightarrow> 'l list \<Rightarrow> 's \<Rightarrow> bool) \<Rightarrow> 's \<Rightarrow> 'l list \<Rightarrow> 's \<Rightarrow> bool" for step where
  run_refl: "labelled_run step s [] s"
| run_step: "labelled_run step s es s' \<Longrightarrow> step s' fs s'' \<Longrightarrow> labelled_run step s (es @ fs) s''"

lemma labelled_run_single: "step s es s' \<Longrightarrow> labelled_run step s es s'"
  using run_step [OF run_refl, of step s es s'] by simp

text \<open>What an admission queue owes: its steps keep its invariant and move its queue as their events say, and
  the invariant bounds what is in use.\<close>

locale fifo_admission =
  fixes inv :: "'s \<Rightarrow> bool" and queue :: "'s \<Rightarrow> 't list" and step :: "'s \<Rightarrow> 't admission list \<Rightarrow> 's \<Rightarrow> bool"
  assumes step_keeps: "inv s \<Longrightarrow> step s es s' \<Longrightarrow> inv s'"
    and step_queue: "inv s \<Longrightarrow> step s es s' \<Longrightarrow> replay es (queue s) = Some (queue s')"
begin

lemma run_facts: "labelled_run step s es s' \<Longrightarrow> inv s \<Longrightarrow> inv s' \<and> replay es (queue s) = Some (queue s')"
  by (induction rule: labelled_run.induct) (auto simp: replay_append step_keeps step_queue)

lemma no_overtaking:
  assumes "labelled_run step s (es @ Admitted u # fs) s'" and "inv s"
    and "queue s = a @ t # b" and "u \<noteq> t" and "u \<notin> set a"
  shows "Admitted t \<in> set es \<or> Left t \<in> set es"
  by (rule replay_no_overtaking [of es u fs a t b]) (use run_facts [OF assms(1,2)] assms(3-5) in auto)

end

locale bounded_admission = fifo_admission inv queue step
  for inv :: "'s \<Rightarrow> bool" and queue :: "'s \<Rightarrow> 't list" and step +
  fixes used :: "'s \<Rightarrow> nat" and limit :: "'s \<Rightarrow> nat option"
  assumes within: "inv s \<Longrightarrow> limit s = Some n \<Longrightarrow> used s \<le> n"
    and fixed: "inv s \<Longrightarrow> step s es s' \<Longrightarrow> limit s' = limit s"
begin

lemma run_limit: "labelled_run step s es s' \<Longrightarrow> inv s \<Longrightarrow> limit s' = limit s"
  by (induction rule: labelled_run.induct) (auto simp: fixed dest: run_facts)

lemma run_within:
  assumes "labelled_run step s es s'" and "inv s" and "limit s = Some n"
  shows "used s' \<le> n"
  using run_facts [OF assms(1,2)] run_limit [OF assms(1,2)] assms(3) within by auto

end

sublocale fifo_admission \<subseteq> admission_inv: invariant_system inv "\<lambda>s s'. \<exists>es. step s es s'" inv
  by unfold_locales (auto intro: step_keeps)

end
