(* ===== verification/Pacing_Gate.thy ===== *)
theory Pacing_Gate
  imports Admission
begin

text \<open>
  Provider pacing, \<^verbatim>\<open>src/src/runtime/pacing.ts\<close>: the FIFO admission gate with its two pools. A promise
  is a ticket, a lease object its position among the leases minted, and an operation returns what it
  resolved or rejected. The recorder is a parameter that accepts or throws on each of its calls.
\<close>

subsection \<open>Payload texts\<close>

definition MAX_PACING_ERROR_CHARS :: nat where "MAX_PACING_ERROR_CHARS = 500"

text \<open>Strings here hold code units below 256, so the surrogate case of the cut never arises.\<close>

definition boundedErrorText :: "string \<Rightarrow> (string \<times> json) list" where
  "boundedErrorText error = (if length error \<le> MAX_PACING_ERROR_CHARS then [(''error'', JStr error)]
     else [(''error'', JStr (take MAX_PACING_ERROR_CHARS error)), (''error_truncated'', JBool True),
           (''error_length'', JNum (of_nat (length error)))])"

definition pacingRetryPayload :: "nat \<Rightarrow> nat \<Rightarrow> rat \<Rightarrow> string \<Rightarrow> json" where
  "pacingRetryPayload try maxAutoRetries delayMs error =
     JObj ([(''attempt'', JNum (of_nat try)), (''max_auto_retries'', JNum (of_nat maxAutoRetries)),
            (''delay_ms'', JNum delayMs)] @ boundedErrorText error)"

definition pacingExhaustedPayload :: "nat \<Rightarrow> nat \<Rightarrow> string \<Rightarrow> json" where
  "pacingExhaustedPayload attempts maxAutoRetries error =
     JObj ([(''attempts'', JNum (of_nat attempts)), (''max_auto_retries'', JNum (of_nat maxAutoRetries))]
       @ boundedErrorText error)"

definition pacingRecoveredPayload :: "nat \<Rightarrow> nat \<Rightarrow> json" where
  "pacingRecoveredPayload attempts maxAutoRetries =
     JObj [(''attempts'', JNum (of_nat attempts)), (''max_auto_retries'', JNum (of_nat maxAutoRetries))]"

subsection \<open>Pools, turns and leases\<close>

datatype pacing_pool = Worker_pool | Review_pool

fun pacing_pool_name :: "pacing_pool \<Rightarrow> string" where
  "pacing_pool_name Worker_pool = ''worker''"
| "pacing_pool_name Review_pool = ''review''"

record pacing_turn =
  pt_id :: string
  pt_label :: string
  pt_jobId :: "string option"
  pt_agentId :: "string option"

text \<open>The caller's signal and callback as this call finds them: aborted on entry, aborted by the time the
  turn is queued, and whether the \<open>queued\<close> callback returns.\<close>

record pacing_input = pacing_turn +
  pi_signal :: bool
  pi_aborted :: bool
  pi_abortedQueued :: bool
  pi_queuedReturns :: bool

record pacing_waiter = pacing_turn +
  pw_ticket :: nat
  pw_queuedAt :: string
  pw_enqueueMs :: int
  pw_signal :: bool

record pacing_lease =
  pl_key :: nat
  pl_kind :: pacing_pool
  pl_waitedMs :: int
  pl_jobId :: "string option"

record pacing_event =
  pv_kind :: string
  pv_jobId :: "string option"
  pv_agentId :: "string option"
  pv_payload :: json

datatype gate_error =
    Bad_cap string | Wait_aborted | Record_failed | Callback_failed | Released_twice pacing_pool

record gate_config =
  gc_enabled :: bool
  gc_limits :: "pacing_pool \<Rightarrow> nat"
  gc_record :: "(nat \<Rightarrow> pacing_event \<Rightarrow> bool) option"
  gc_prepare :: bool
  gc_iso :: "int \<Rightarrow> string"

record gate_state =
  gt_running :: "pacing_pool \<Rightarrow> nat"
  gt_queues :: "pacing_pool \<Rightarrow> pacing_waiter list"
  gt_released :: "nat list"
  gt_held :: "string \<rightharpoonup> nat"
  gt_leases :: "pacing_lease list"
  gt_tickets :: nat
  gt_calls :: nat
  gt_events :: "pacing_event list"

text \<open>The constructor; a number that is not finite is \<open>None\<close>.\<close>

definition new_gate_config ::
  "bool \<Rightarrow> rat option \<Rightarrow> rat option \<Rightarrow> (nat \<Rightarrow> pacing_event \<Rightarrow> bool) option \<Rightarrow> bool \<Rightarrow> (int \<Rightarrow> string)
     \<Rightarrow> gate_error + gate_config" where
  "new_gate_config enabled minions reviews recorder prepare to_iso = (case minions of
     None \<Rightarrow> Inl (Bad_cap ''maxConcurrentMinions'')
   | Some m \<Rightarrow> (case reviews of
       None \<Rightarrow> Inl (Bad_cap ''maxConcurrentReviewTurns'')
     | Some r \<Rightarrow> Inr \<lparr>gc_enabled = enabled,
         gc_limits = (\<lambda>k. case k of Worker_pool \<Rightarrow> nat \<lfloor>m\<rfloor> | Review_pool \<Rightarrow> nat \<lfloor>r\<rfloor>),
         gc_record = recorder, gc_prepare = prepare, gc_iso = to_iso\<rparr>))"

definition new_gate :: gate_state where
  "new_gate = \<lparr>gt_running = (\<lambda>_. 0), gt_queues = (\<lambda>_. []), gt_released = [], gt_held = (\<lambda>_. None),
     gt_leases = [], gt_tickets = 0, gt_calls = 0, gt_events = []\<rparr>"

definition limitFor :: "gate_config \<Rightarrow> pacing_pool \<Rightarrow> nat" where
  "limitFor C kind = (if gc_enabled C then gc_limits C kind else 0)"

text \<open>Each call of the recorder is counted; one that throws leaves nothing.\<close>

definition recordEvent ::
  "gate_config \<Rightarrow> string \<Rightarrow> 'a pacing_turn_scheme \<Rightarrow> (string \<times> json) list \<Rightarrow> gate_state \<Rightarrow> gate_state \<times> bool" where
  "recordEvent C kind turn payload G = (case gc_record C of
     None \<Rightarrow> (G, True)
   | Some accepts \<Rightarrow>
       let e = \<lparr>pv_kind = kind, pv_jobId = pt_jobId turn, pv_agentId = pt_agentId turn,
                pv_payload = JObj ([(''id'', JStr (pt_id turn)), (''label'', JStr (pt_label turn))] @ payload)\<rparr>
       in if accepts (gt_calls G) e then (G\<lparr>gt_calls := Suc (gt_calls G), gt_events := gt_events G @ [e]\<rparr>, True)
          else (G\<lparr>gt_calls := Suc (gt_calls G)\<rparr>, False))"

definition pool_field :: "pacing_pool \<Rightarrow> string \<times> json" where
  "pool_field kind = (''pool'', JStr (pacing_pool_name kind))"

definition waited_fields :: "pacing_pool \<Rightarrow> int \<Rightarrow> (string \<times> json) list" where
  "waited_fields kind ms = [pool_field kind, (''waited_ms'', JNum (of_int ms))]"

definition mintLease ::
  "pacing_pool \<Rightarrow> int \<Rightarrow> string option \<Rightarrow> gate_state \<Rightarrow> gate_state \<times> pacing_lease" where
  "mintLease kind waitedMs jobId G =
     (let lease = \<lparr>pl_key = length (gt_leases G), pl_kind = kind, pl_waitedMs = waitedMs, pl_jobId = jobId\<rparr> in
      (G\<lparr>gt_leases := gt_leases G @ [lease],
         gt_held := (if kind = Worker_pool then (case jobId of None \<Rightarrow> gt_held G
                       | Some j \<Rightarrow> (gt_held G)(j \<mapsto> Suc (or_else (gt_held G j) 0))) else gt_held G)\<rparr>, lease))"

subsection \<open>Acquire\<close>

datatype acquire_outcome = Leased pacing_lease | Waiting nat | Refused gate_error

definition admit_now ::
  "gate_config \<Rightarrow> pacing_pool \<Rightarrow> pacing_input \<Rightarrow> gate_state \<Rightarrow> gate_state \<times> acquire_outcome" where
  "admit_now C kind input G =
     (let G1 = G\<lparr>gt_running := (gt_running G)(kind := Suc (gt_running G kind))\<rparr>;
          (G2, recorded) = (if 0 < limitFor C kind then recordEvent C ''pacing.admitted'' input (waited_fields kind 0) G1
                            else (G1, True)) in
      if \<not> recorded then (G2\<lparr>gt_running := (gt_running G2)(kind := gt_running G2 kind - 1)\<rparr>, Refused Record_failed)
      else let (G3, lease) = mintLease kind 0 (pt_jobId input) G2 in (G3, Leased lease))"

definition leave_queue :: "pacing_pool \<Rightarrow> pacing_waiter \<Rightarrow> gate_state \<Rightarrow> gate_state" where
  "leave_queue kind w G = G\<lparr>gt_queues := (gt_queues G)(kind := remove1 w (gt_queues G kind))\<rparr>"

text \<open>The abort listener of a queued turn; an admitted one keeps its lease.\<close>

definition abort_wait ::
  "gate_config \<Rightarrow> pacing_pool \<Rightarrow> nat \<Rightarrow> gate_state \<Rightarrow> gate_state \<times> gate_error option" where
  "abort_wait C kind ticket G = (case find (\<lambda>w. pw_ticket w = ticket \<and> pw_signal w) (gt_queues G kind) of
     None \<Rightarrow> (G, None)
   | Some w \<Rightarrow>
       let (G1, recorded) = recordEvent C ''pacing.wait-cancelled'' w [pool_field kind] (leave_queue kind w G) in
       (G1, Some (if recorded then Wait_aborted else Record_failed)))"

definition new_waiter :: "gate_config \<Rightarrow> int \<Rightarrow> pacing_input \<Rightarrow> nat \<Rightarrow> pacing_waiter" where
  "new_waiter C now input ticket = \<lparr>pt_id = pt_id input, pt_label = pt_label input, pt_jobId = pt_jobId input,
     pt_agentId = pt_agentId input, pw_ticket = ticket, pw_queuedAt = gc_iso C now, pw_enqueueMs = now,
     pw_signal = pi_signal input\<rparr>"

definition enqueue_turn ::
  "gate_config \<Rightarrow> int \<Rightarrow> pacing_pool \<Rightarrow> pacing_input \<Rightarrow> nat \<Rightarrow> gate_state \<Rightarrow> gate_state \<times> acquire_outcome" where
  "enqueue_turn C now kind input ticket G =
     (let w = new_waiter C now input ticket;
          G1 = G\<lparr>gt_queues := (gt_queues G)(kind := gt_queues G kind @ [w])\<rparr>;
          (G2, recorded) = recordEvent C ''pacing.queued'' w
            [pool_field kind, (''position'', JNum (of_nat (length (gt_queues G1 kind)))),
             (''limit'', JNum (of_nat (limitFor C kind)))] G1 in
      if \<not> recorded then (leave_queue kind w G2, Refused Record_failed)
      else if \<not> pi_queuedReturns input then
        (fst (recordEvent C ''pacing.queued-rollback'' w [pool_field kind] (leave_queue kind w G2)), Refused Callback_failed)
      else if pi_signal input \<and> pi_abortedQueued input then
        (case abort_wait C kind ticket G2 of
           (G3, None) \<Rightarrow> (G3, Waiting ticket) | (G3, Some e) \<Rightarrow> (G3, Refused e))
      else (G2, Waiting ticket))"

definition gate_acquire ::
  "gate_config \<Rightarrow> int \<Rightarrow> pacing_pool \<Rightarrow> pacing_input \<Rightarrow> gate_state \<Rightarrow> gate_state \<times> acquire_outcome" where
  "gate_acquire C now kind input G =
     (let ticket = gt_tickets G; G0 = G\<lparr>gt_tickets := Suc ticket\<rparr> in
      if pi_signal input \<and> pi_aborted input then (G0, Refused Wait_aborted)
      else if limitFor C kind = 0 \<or> gt_running G kind < limitFor C kind then admit_now C kind input G0
      else enqueue_turn C now kind input ticket G0)"

definition acquireWorkerTurn where "acquireWorkerTurn C now = gate_acquire C now Worker_pool"
definition acquireReviewTurn where "acquireReviewTurn C now = gate_acquire C now Review_pool"

text \<open>A worker turn of a job awaits the prepare hook while it holds its slot; a hook that fails is recorded at
  best effort and the turn proceeds. The hook therefore only adds this step.\<close>

definition awaits_prepare :: "gate_config \<Rightarrow> pacing_pool \<Rightarrow> string option \<Rightarrow> bool" where
  "awaits_prepare C kind jobId \<longleftrightarrow> kind = Worker_pool \<and> jobId \<noteq> None \<and> gc_prepare C"

definition prepare_failed ::
  "gate_config \<Rightarrow> pacing_pool \<Rightarrow> 'a pacing_turn_scheme \<Rightarrow> string \<Rightarrow> gate_state \<Rightarrow> gate_state" where
  "prepare_failed C kind turn error G = (if awaits_prepare C kind (pt_jobId turn)
     then fst (recordEvent C ''pacing.prepare-failed'' turn (pool_field kind # boundedErrorText error) G) else G)"

subsection \<open>Release\<close>

datatype handover = Turn_admitted nat pacing_lease | Turn_rejected nat gate_error

definition grant_turn :: "pacing_pool \<Rightarrow> int \<Rightarrow> pacing_waiter \<Rightarrow> gate_state \<Rightarrow> gate_state \<times> pacing_lease" where
  "grant_turn kind waited w G =
     mintLease kind waited (pt_jobId w) (G\<lparr>gt_running := (gt_running G)(kind := Suc (gt_running G kind))\<rparr>)"

text \<open>The slot goes to the first queued turn whose admission can be recorded.\<close>

fun hand_over ::
  "gate_config \<Rightarrow> int \<Rightarrow> pacing_pool \<Rightarrow> pacing_waiter list \<Rightarrow> gate_state \<Rightarrow> gate_state \<times> handover list" where
  "hand_over C now kind [] G = (G\<lparr>gt_queues := (gt_queues G)(kind := [])\<rparr>, [])"
| "hand_over C now kind (w # ws) G =
     (let waited = max 0 (now - pw_enqueueMs w);
          (G1, recorded) = recordEvent C ''pacing.admitted'' w (waited_fields kind waited)
             (G\<lparr>gt_queues := (gt_queues G)(kind := ws)\<rparr>) in
      if recorded then let (G2, lease) = grant_turn kind waited w G1 in (G2, [Turn_admitted (pw_ticket w) lease])
      else let (G2, rest) = hand_over C now kind ws G1 in (G2, Turn_rejected (pw_ticket w) Record_failed # rest))"

definition give_back :: "pacing_lease \<Rightarrow> gate_state \<Rightarrow> gate_state" where
  "give_back lease G = G\<lparr>gt_released := pl_key lease # gt_released G,
     gt_running := (gt_running G)(pl_kind lease := gt_running G (pl_kind lease) - 1),
     gt_held := (if pl_kind lease = Worker_pool then (case pl_jobId lease of None \<Rightarrow> gt_held G
        | Some j \<Rightarrow> (gt_held G)(j := (if 0 < or_else (gt_held G j) 0 - 1 then Some (or_else (gt_held G j) 0 - 1) else None)))
        else gt_held G)\<rparr>"

definition gate_release ::
  "gate_config \<Rightarrow> int \<Rightarrow> pacing_lease \<Rightarrow> gate_state \<Rightarrow> gate_error + gate_state \<times> handover list" where
  "gate_release C now lease G =
     (if pl_key lease \<in> set (gt_released G) then Inl (Released_twice (pl_kind lease))
      else let G1 = give_back lease G in
        Inr (hand_over C now (pl_kind lease) (gt_queues G1 (pl_kind lease)) G1))"

subsection \<open>Views\<close>

definition workerTurnsFor :: "gate_state \<Rightarrow> string \<Rightarrow> nat \<times> nat" where
  "workerTurnsFor G jobId = (or_else (gt_held G jobId) 0,
     length (filter (\<lambda>w. pt_jobId w = Some jobId) (gt_queues G Worker_pool)))"

definition queueReason :: "gate_config \<Rightarrow> pacing_pool \<Rightarrow> gate_state \<Rightarrow> string" where
  "queueReason C kind G = ''queued: '' @ nat_str (gt_running G kind) @ ''/'' @ nat_str (gc_limits C kind) @
     (case kind of Worker_pool \<Rightarrow> '' minion turns running (pacing.max_concurrent_minions)''
      | Review_pool \<Rightarrow> '' review turns running (pacing.max_concurrent_review_turns)'')"

record queue_entry_view =
  qv_id :: string
  qv_kind :: pacing_pool
  qv_label :: string
  qv_queuedAt :: string
  qv_reason :: string

record pool_view =
  pv_limit :: nat
  pv_running :: nat
  pv_queued :: "queue_entry_view list"

definition poolView :: "gate_config \<Rightarrow> pacing_pool \<Rightarrow> gate_state \<Rightarrow> pool_view" where
  "poolView C kind G = \<lparr>pv_limit = limitFor C kind, pv_running = gt_running G kind,
     pv_queued = map (\<lambda>w. \<lparr>qv_id = pt_id w, qv_kind = kind, qv_label = pt_label w, qv_queuedAt = pw_queuedAt w,
       qv_reason = queueReason C kind G\<rparr>) (gt_queues G kind)\<rparr>"

record gate_view =
  gv_enabled :: bool
  gv_worker :: pool_view
  gv_review :: pool_view

definition view_gate :: "gate_config \<Rightarrow> gate_state \<Rightarrow> gate_view" where
  "view_gate C G = \<lparr>gv_enabled = gc_enabled C, gv_worker = poolView C Worker_pool G, gv_review = poolView C Review_pool G\<rparr>"

subsection \<open>What every state of the gate satisfies\<close>

text \<open>The leases not given back, of a kind.\<close>

definition out_leases :: "(pacing_lease \<Rightarrow> bool) \<Rightarrow> gate_state \<Rightarrow> pacing_lease list" where
  "out_leases p G = filter (\<lambda>l. p l \<and> pl_key l \<notin> set (gt_released G)) (gt_leases G)"

abbreviation of_pool :: "pacing_pool \<Rightarrow> pacing_lease \<Rightarrow> bool" where
  "of_pool k l \<equiv> pl_kind l = k"

abbreviation of_job :: "string \<Rightarrow> pacing_lease \<Rightarrow> bool" where
  "of_job j l \<equiv> pl_kind l = Worker_pool \<and> pl_jobId l = Some j"

definition slots_ok :: "gate_state \<Rightarrow> bool" where
  "slots_ok G \<longleftrightarrow> map pl_key (gt_leases G) = [0..<length (gt_leases G)]
     \<and> set (gt_released G) \<subseteq> {..<length (gt_leases G)}
     \<and> (\<forall>k. gt_running G k = length (out_leases (of_pool k) G))
     \<and> (\<forall>j. gt_held G j = (if out_leases (of_job j) G = [] then None else Some (length (out_leases (of_job j) G))))"

definition pool_ok :: "gate_config \<Rightarrow> gate_state \<Rightarrow> pacing_pool \<Rightarrow> bool" where
  "pool_ok C G k \<longleftrightarrow> (gt_queues G k \<noteq> [] \<longrightarrow> 0 < limitFor C k \<and> gt_running G k = limitFor C k)
     \<and> (0 < limitFor C k \<longrightarrow> gt_running G k \<le> limitFor C k)
     \<and> distinct (map pw_ticket (gt_queues G k)) \<and> (\<forall>w\<in>set (gt_queues G k). pw_ticket w < gt_tickets G)"

definition gate_ok :: "gate_config \<Rightarrow> gate_state \<Rightarrow> bool" where
  "gate_ok C G \<longleftrightarrow> slots_ok G \<and> (\<forall>k. pool_ok C G k)"

text \<open>Recording touches the record only.\<close>

lemma recordEvent_shape:
  "\<exists>n es. fst (recordEvent C kind turn payload G) = G\<lparr>gt_calls := n, gt_events := es\<rparr>"
proof (cases "gc_record C")
  case None
  then show ?thesis by (intro exI [of _ "gt_calls G"] exI [of _ "gt_events G"]) (simp add: recordEvent_def)
next
  case (Some accepts)
  then show ?thesis
    by (intro exI [of _ "Suc (gt_calls G)"] exI [of _ "gt_events (fst (recordEvent C kind turn payload G))"])
      (simp add: recordEvent_def Let_def)
qed

lemma recordEvent_keeps [simp]:
  "gt_running (fst (recordEvent C kind turn payload G)) = gt_running G"
  "gt_queues (fst (recordEvent C kind turn payload G)) = gt_queues G"
  "gt_released (fst (recordEvent C kind turn payload G)) = gt_released G"
  "gt_held (fst (recordEvent C kind turn payload G)) = gt_held G"
  "gt_leases (fst (recordEvent C kind turn payload G)) = gt_leases G"
  "gt_tickets (fst (recordEvent C kind turn payload G)) = gt_tickets G"
  using recordEvent_shape [of C kind turn payload G] by auto

lemma slots_ok_cong:
  assumes "gt_running G' = gt_running G" and "gt_leases G' = gt_leases G" and "gt_released G' = gt_released G"
    and "gt_held G' = gt_held G"
  shows "slots_ok G' = slots_ok G"
  using assms by (simp add: slots_ok_def out_leases_def)

lemma pool_ok_cong:
  assumes "gt_running G' k = gt_running G k" and "gt_queues G' k = gt_queues G k" and "gt_tickets G \<le> gt_tickets G'"
    and "pool_ok C G k"
  shows "pool_ok C G' k"
  using assms by (fastforce simp: pool_ok_def)

text \<open>A grant adds one lease to its pool and job.\<close>

lemma out_leases_grow:
  assumes "gt_leases G' = gt_leases G @ [l]" and "gt_released G' = gt_released G" and "pl_key l = length (gt_leases G)"
    and "set (gt_released G) \<subseteq> {..<length (gt_leases G)}"
  shows "out_leases p G' = out_leases p G @ (if p l then [l] else [])"
  using assms by (auto simp: out_leases_def)

lemma slots_okD:
  assumes "slots_ok G"
  shows "map pl_key (gt_leases G) = [0..<length (gt_leases G)]"
    and "set (gt_released G) \<subseteq> {..<length (gt_leases G)}"
    and "gt_running G k = length (out_leases (of_pool k) G)"
    and "gt_held G j = (if out_leases (of_job j) G = [] then None else Some (length (out_leases (of_job j) G)))"
  using assms unfolding slots_ok_def by blast+

lemma slots_okI:
  assumes "map pl_key (gt_leases G) = [0..<length (gt_leases G)]"
    and "set (gt_released G) \<subseteq> {..<length (gt_leases G)}"
    and "\<And>k. gt_running G k = length (out_leases (of_pool k) G)"
    and "\<And>j. gt_held G j = (if out_leases (of_job j) G = [] then None else Some (length (out_leases (of_job j) G)))"
  shows "slots_ok G"
  using assms unfolding slots_ok_def by blast

lemma mintLease_held:
  "gt_held (fst (mintLease kind ms job G)) j = (if kind = Worker_pool \<and> job = Some j
     then Some (Suc (or_else (gt_held G j) 0)) else gt_held G j)"
  by (auto simp: mintLease_def Let_def split: option.splits)

lemma give_back_keeps [simp]:
  "gt_queues (give_back l G) = gt_queues G" "gt_leases (give_back l G) = gt_leases G"
  "gt_released (give_back l G) = pl_key l # gt_released G" "gt_tickets (give_back l G) = gt_tickets G"
  "gt_running (give_back l G) = (gt_running G)(pl_kind l := gt_running G (pl_kind l) - 1)"
  by (simp_all add: give_back_def)

lemma give_back_held:
  "gt_held (give_back l G) j = (if of_job j l
     then (if 0 < or_else (gt_held G j) 0 - 1 then Some (or_else (gt_held G j) 0 - 1) else None) else gt_held G j)"
  by (auto simp: give_back_def split: option.splits)

lemma mintLease_keeps [simp]:
  "gt_running (fst (mintLease kind ms job G)) = gt_running G"
  "gt_queues (fst (mintLease kind ms job G)) = gt_queues G"
  "gt_released (fst (mintLease kind ms job G)) = gt_released G"
  "gt_tickets (fst (mintLease kind ms job G)) = gt_tickets G"
  "gt_leases (fst (mintLease kind ms job G)) = gt_leases G
     @ [\<lparr>pl_key = length (gt_leases G), pl_kind = kind, pl_waitedMs = ms, pl_jobId = job\<rparr>]"
  by (simp_all add: mintLease_def Let_def)

lemma slots_grant:
  assumes ok: "slots_ok G" and "gt_running G2 = (gt_running G)(kind := Suc (gt_running G kind))"
    and "gt_leases G2 = gt_leases G" and "gt_released G2 = gt_released G" and "gt_held G2 = gt_held G"
  shows "slots_ok (fst (mintLease kind ms job G2))"
proof -
  let ?l = "\<lparr>pl_key = length (gt_leases G), pl_kind = kind, pl_waitedMs = ms, pl_jobId = job\<rparr>"
  let ?G3 = "fst (mintLease kind ms job G2)"
  have leases: "gt_leases ?G3 = gt_leases G @ [?l]" and rel: "gt_released ?G3 = gt_released G"
    and run: "gt_running ?G3 = (gt_running G)(kind := Suc (gt_running G kind))"
    using assms by simp_all
  have sub: "set (gt_released G) \<subseteq> {..<length (gt_leases G)}" using ok by (simp add: slots_ok_def)
  note grow = out_leases_grow [OF leases rel _ sub, simplified]
  show ?thesis
  proof (rule slots_okI)
    show "map pl_key (gt_leases ?G3) = [0..<length (gt_leases ?G3)]"
      unfolding leases using slots_okD(1) [OF ok] by simp
    show "set (gt_released ?G3) \<subseteq> {..<length (gt_leases ?G3)}"
      unfolding leases rel using sub by auto
    show "gt_running ?G3 k = length (out_leases (of_pool k) ?G3)" for k
      unfolding grow run by (simp add: slots_okD(3) [OF ok])
    show "gt_held ?G3 j = (if out_leases (of_job j) ?G3 = [] then None else Some (length (out_leases (of_job j) ?G3)))" for j
      unfolding grow mintLease_held assms(5) by (simp add: slots_okD(4) [OF ok] or_else_def)
  qed
qed

text \<open>A release takes one away.\<close>

lemma out_leases_shrink:
  assumes keys: "map pl_key (gt_leases G) = [0..<length (gt_leases G)]" and l: "l \<in> set (gt_leases G)"
    and new: "pl_key l \<notin> set (gt_released G)"
  shows "out_leases p (give_back l G) = remove1 l (out_leases p G)"
proof -
  have dk: "distinct (map pl_key (gt_leases G))" using keys by simp
  then have inj: "pl_key x = pl_key l \<longleftrightarrow> x = l" if "x \<in> set (gt_leases G)" for x
    using that l by (auto simp: distinct_map dest: inj_onD)
  have "distinct (out_leases p G)" using dk by (simp add: out_leases_def distinct_map)
  then have "remove1 l (out_leases p G) = filter (\<lambda>x. l \<noteq> x) (out_leases p G)"
    by (simp only: distinct_remove1_removeAll removeAll_filter_not_eq)
  also have "\<dots> = out_leases p (give_back l G)"
    unfolding out_leases_def filter_filter by (rule filter_cong) (use inj in \<open>auto simp: give_back_def\<close>)
  finally show ?thesis by simp
qed

lemma slots_give_back:
  assumes ok: "slots_ok G" and l: "l \<in> set (gt_leases G)" and new: "pl_key l \<notin> set (gt_released G)"
  shows "slots_ok (give_back l G)" and "0 < gt_running G (pl_kind l)"
proof -
  have keys: "map pl_key (gt_leases G) = [0..<length (gt_leases G)]" using ok by (simp add: slots_ok_def)
  note shrink = out_leases_shrink [OF keys l new]
  have mem: "l \<in> set (out_leases p G)" if "p l" for p using that l new by (simp add: out_leases_def)
  have other: "remove1 l (out_leases p G) = out_leases p G" if "\<not> p l" for p
    using that by (simp add: out_leases_def remove1_idem)
  show "0 < gt_running G (pl_kind l)"
    using ok mem [of "of_pool (pl_kind l)"] by (auto simp: slots_ok_def)
  have "pl_key l \<in> set (map pl_key (gt_leases G))" using l by simp
  then have range: "pl_key l < length (gt_leases G)" unfolding keys by simp
  show "slots_ok (give_back l G)"
  proof (rule slots_okI)
    show "map pl_key (gt_leases (give_back l G)) = [0..<length (gt_leases (give_back l G))]" using keys by simp
    show "set (gt_released (give_back l G)) \<subseteq> {..<length (gt_leases (give_back l G))}"
      using range slots_okD(2) [OF ok] by simp
    show "gt_running (give_back l G) k = length (out_leases (of_pool k) (give_back l G))" for k
      using mem [of "of_pool k"] other [of "of_pool k"]
      by (cases "pl_kind l = k") (simp_all add: shrink length_remove1 slots_okD(3) [OF ok])
    show "gt_held (give_back l G) j = (if out_leases (of_job j) (give_back l G) = [] then None
      else Some (length (out_leases (of_job j) (give_back l G))))" for j
    proof (cases "of_job j l")
      case True
      let ?n = "length (out_leases (of_job j) G)"
      have "out_leases (of_job j) G \<noteq> []" using mem [of "of_job j", OF True] by auto
      then have before: "gt_held G j = Some ?n" by (simp add: slots_okD(4) [OF ok])
      have len: "length (out_leases (of_job j) (give_back l G)) = ?n - 1"
        using mem [of "of_job j", OF True] by (simp add: shrink length_remove1)
      have "out_leases (of_job j) (give_back l G) = [] \<longleftrightarrow> ?n - 1 = 0"
        unfolding length_0_conv [symmetric] len by (rule refl)
      then show ?thesis unfolding give_back_held using True before len by (simp add: or_else_def)
    next
      case False
      then show ?thesis
        unfolding give_back_held if_not_P [OF False] shrink other [of "of_job j", OF False] by (intro slots_okD(4) [OF ok])
    qed
  qed
qed


subsection \<open>Every operation keeps it and moves the queues in order\<close>

lemma gate_ok_new: "gate_ok C new_gate"
  by (simp add: gate_ok_def pool_ok_def slots_ok_def new_gate_def out_leases_def)

lemma gate_ok_recorded: "gate_ok C (fst (recordEvent C kind turn payload G)) = gate_ok C G"
  by (simp add: gate_ok_def pool_ok_def slots_ok_cong [of "fst (recordEvent C kind turn payload G)" G])

definition tickets :: "pacing_pool \<Rightarrow> gate_state \<Rightarrow> nat list" where
  "tickets k G = map pw_ticket (gt_queues G k)"

text \<open>The immediate admission of the next ticket.\<close>

definition outcome_events :: "nat \<Rightarrow> acquire_outcome \<Rightarrow> nat admission list" where
  "outcome_events ticket r = (case r of
     Leased l \<Rightarrow> [Joined ticket, Admitted ticket] | Waiting t \<Rightarrow> [Joined ticket] | Refused e \<Rightarrow> [])"

lemma admit_now_cases:
  obtains (refused) G2 where "admit_now C kind input G = (G2, Refused Record_failed)"
      "gt_running G2 = gt_running G" "gt_queues G2 = gt_queues G" "gt_tickets G2 = gt_tickets G"
      "gt_leases G2 = gt_leases G" "gt_released G2 = gt_released G" "gt_held G2 = gt_held G"
  | (leased) G2 l where "admit_now C kind input G = (fst (mintLease kind 0 (pt_jobId input) G2), Leased l)"
      "gt_running G2 = (gt_running G)(kind := Suc (gt_running G kind))" "gt_queues G2 = gt_queues G"
      "gt_tickets G2 = gt_tickets G" "gt_leases G2 = gt_leases G" "gt_released G2 = gt_released G"
      "gt_held G2 = gt_held G" "l = snd (mintLease kind 0 (pt_jobId input) G2)"
proof -
  let ?G1 = "G\<lparr>gt_running := (gt_running G)(kind := Suc (gt_running G kind))\<rparr>"
  obtain G2 recorded where run: "(if 0 < limitFor C kind then recordEvent C ''pacing.admitted'' input (waited_fields kind 0) ?G1
      else (?G1, True)) = (G2, recorded)" by (cases "(if 0 < limitFor C kind
      then recordEvent C ''pacing.admitted'' input (waited_fields kind 0) ?G1 else (?G1, True))") auto
  then have "G2 = ?G1 \<or> G2 = fst (recordEvent C ''pacing.admitted'' input (waited_fields kind 0) ?G1)"
    by (auto split: if_splits)
  then have keeps: "gt_running G2 = (gt_running G)(kind := Suc (gt_running G kind))" "gt_queues G2 = gt_queues G"
      "gt_tickets G2 = gt_tickets G" "gt_leases G2 = gt_leases G" "gt_released G2 = gt_released G" "gt_held G2 = gt_held G"
    by auto
  show thesis
  proof (cases recorded)
    case True
    then have "admit_now C kind input G = (fst (mintLease kind 0 (pt_jobId input) G2), Leased (snd (mintLease kind 0 (pt_jobId input) G2)))"
      unfolding admit_now_def Let_def run by (simp add: case_prod_beta)
    then show thesis using leased keeps by blast
  next
    case False
    then have "admit_now C kind input G
        = (G2\<lparr>gt_running := (gt_running G2)(kind := gt_running G2 kind - 1)\<rparr>, Refused Record_failed)"
      unfolding admit_now_def Let_def run by simp
    then show thesis by (rule refused) (simp_all add: keeps)
  qed
qed

lemma map_remove1_key:
  assumes "distinct (map f xs)" and "x \<in> set xs" and "f x = k"
  shows "map f (remove1 x xs) = remove1 k (map f xs)"
  using assms(1,2)
proof (induction xs)
  case (Cons a xs)
  show ?case
  proof (cases "a = x")
    case True
    then show ?thesis using assms(3) by simp
  next
    case False
    then have x: "x \<in> set xs" using Cons.prems(2) by simp
    then have "f x \<in> f ` set xs" by (rule imageI)
    then have "f a \<noteq> k" using Cons.prems(1) assms(3) by auto
    then show ?thesis using Cons.IH Cons.prems(1) x False by simp
  qed
qed simp

lemma find_last: "\<forall>x\<in>set xs. \<not> p x \<Longrightarrow> p y \<Longrightarrow> find p (xs @ [y]) = Some y"
  by (induction xs) auto

lemma find_leaves:
  assumes "find (\<lambda>w. pw_ticket w = ticket \<and> pw_signal w) ws = Some w" and "distinct (map pw_ticket ws)"
  shows "w \<in> set ws" and "pw_ticket w = ticket" and "map pw_ticket (remove1 w ws) = remove1 ticket (map pw_ticket ws)"
proof -
  show w: "w \<in> set ws" and t: "pw_ticket w = ticket" using assms(1) by (auto simp: find_Some_iff)
  show "map pw_ticket (remove1 w ws) = remove1 ticket (map pw_ticket ws)"
    by (rule map_remove1_key [OF assms(2) w t])
qed

lemma distinct_map_remove1: "distinct (map f xs) \<Longrightarrow> distinct (map f (remove1 x xs))"
  by (induction xs) (auto dest!: set_remove1_subset [THEN subsetD])

lemma pool_ok_leave:
  assumes "\<forall>k. pool_ok C G k" and "gt_queues G kind \<noteq> []"
  shows "\<forall>k. pool_ok C (leave_queue kind w G) k"
proof
  fix k
  have ok: "pool_ok C G k" using assms(1) by blast
  have sub: "set (remove1 w (gt_queues G k)) \<subseteq> set (gt_queues G k)" by (rule set_remove1_subset)
  show "pool_ok C (leave_queue kind w G) k"
    using ok assms(2) sub unfolding pool_ok_def leave_queue_def
    by (auto intro: distinct_map_remove1)
qed

lemma abort_wait_cases:
  obtains (kept) "abort_wait C kind ticket G = (G, None)"
      "find (\<lambda>w. pw_ticket w = ticket \<and> pw_signal w) (gt_queues G kind) = None"
  | (left) w G2 e where "abort_wait C kind ticket G = (fst (recordEvent C ''pacing.wait-cancelled'' w [pool_field kind] (leave_queue kind w G)), Some e)"
      "find (\<lambda>w. pw_ticket w = ticket \<and> pw_signal w) (gt_queues G kind) = Some w"
proof (cases "find (\<lambda>w. pw_ticket w = ticket \<and> pw_signal w) (gt_queues G kind)")
  case None
  then show thesis by (intro kept) (simp_all add: abort_wait_def)
next
  case (Some w)
  then show thesis by (intro left [of w]) (simp_all add: abort_wait_def Let_def case_prod_beta)
qed


lemma gate_ok_cong:
  assumes "gate_ok C G" and "gt_running G' = gt_running G" and "gt_queues G' = gt_queues G"
    and "gt_leases G' = gt_leases G" and "gt_released G' = gt_released G" and "gt_held G' = gt_held G"
    and "gt_tickets G \<le> gt_tickets G'"
  shows "gate_ok C G'"
  using assms pool_ok_cong [of G' _ G C] slots_ok_cong [of G' G] by (simp add: gate_ok_def)

lemma gate_ok_leave:
  assumes "gate_ok C G" and "gt_queues G kind \<noteq> []"
  shows "gate_ok C (leave_queue kind w G)"
  using assms pool_ok_leave [of C G kind w] slots_ok_cong [of "leave_queue kind w G" G]
  by (simp add: gate_ok_def leave_queue_def)

lemma fresh_ticket: "pool_ok C G k \<Longrightarrow> pw_ticket w = gt_tickets G \<Longrightarrow> w \<notin> set (gt_queues G k)"
  by (auto simp: pool_ok_def)

lemma admit_now_facts:
  assumes ok: "gate_ok C G" and room: "limitFor C kind = 0 \<or> gt_running G kind < limitFor C kind"
    and run: "admit_now C kind input G = (G', r)"
  shows "gate_ok C G' \<and> gt_queues G' = gt_queues G \<and> gt_queues G kind = [] \<and> (\<forall>t. r \<noteq> Waiting t)
     \<and> (\<forall>l. r = Leased l \<longrightarrow> l \<in> set (gt_leases G') \<and> pl_kind l = kind)"
proof -
  have empty: "gt_queues G kind = []" using ok room by (auto simp: gate_ok_def pool_ok_def)
  show ?thesis
  proof (rule admit_now_cases [of C kind input G])
    fix G2 assume "admit_now C kind input G = (G2, Refused Record_failed)"
      and same: "gt_running G2 = gt_running G" "gt_queues G2 = gt_queues G" "gt_tickets G2 = gt_tickets G"
      "gt_leases G2 = gt_leases G" "gt_released G2 = gt_released G" "gt_held G2 = gt_held G"
    then have "G' = G2" and "r = Refused Record_failed" using run by simp_all
    then show ?thesis using gate_ok_cong [OF ok, of G2] same empty by simp
  next
    fix G2 l assume "admit_now C kind input G = (fst (mintLease kind 0 (pt_jobId input) G2), Leased l)"
      and same: "gt_running G2 = (gt_running G)(kind := Suc (gt_running G kind))" "gt_queues G2 = gt_queues G"
      "gt_tickets G2 = gt_tickets G" "gt_leases G2 = gt_leases G" "gt_released G2 = gt_released G"
      "gt_held G2 = gt_held G" and l: "l = snd (mintLease kind 0 (pt_jobId input) G2)"
    then have G': "G' = fst (mintLease kind 0 (pt_jobId input) G2)" and r: "r = Leased l" using run by simp_all
    have "slots_ok G'"
      unfolding G' using ok by (intro slots_grant [OF _ same(1,4,5,6)]) (simp add: gate_ok_def)
    moreover have "pool_ok C G' k" for k
      using ok room empty same unfolding G' by (cases "k = kind") (auto simp: gate_ok_def pool_ok_def)
    moreover have "l \<in> set (gt_leases G')" and "pl_kind l = kind"
      unfolding G' l by (simp_all add: mintLease_def Let_def)
    ultimately show ?thesis using G' r same empty by (simp add: gate_ok_def)
  qed
qed

lemma enqueue_turn_facts:
  assumes ok: "gate_ok C G" and full: "0 < limitFor C kind" "limitFor C kind \<le> gt_running G kind"
    and ticket: "gt_tickets G = Suc ticket" and fresh: "\<forall>k. \<forall>w\<in>set (gt_queues G k). pw_ticket w < ticket"
    and run: "enqueue_turn C now kind input ticket G = (G', r)"
  shows "gate_ok C G' \<and> (\<forall>l. r \<noteq> Leased l) \<and> (\<forall>k. k \<noteq> kind \<longrightarrow> gt_queues G' k = gt_queues G k)
     \<and> tickets kind G' = tickets kind G @ (case r of Waiting t \<Rightarrow> [ticket] | _ \<Rightarrow> [])"
proof -
  let ?w = "new_waiter C now input ticket"
  let ?G1 = "G\<lparr>gt_queues := (gt_queues G)(kind := gt_queues G kind @ [?w])\<rparr>"
  obtain G2 recorded where rec: "recordEvent C ''pacing.queued'' ?w
            [pool_field kind, (''position'', JNum (of_nat (length (gt_queues ?G1 kind)))),
             (''limit'', JNum (of_nat (limitFor C kind)))] ?G1 = (G2, recorded)" by fastforce
  have G2: "G2 = fst (recordEvent C ''pacing.queued'' ?w
            [pool_field kind, (''position'', JNum (of_nat (length (gt_queues ?G1 kind)))),
             (''limit'', JNum (of_nat (limitFor C kind)))] ?G1)" using rec by simp
  have w: "pw_ticket ?w = ticket" by (simp add: new_waiter_def)
  have new: "?w \<notin> set (gt_queues G kind)" and newt: "ticket \<notin> pw_ticket ` set (gt_queues G kind)"
    using bspec [OF spec [OF fresh, of kind]] w by (metis less_irrefl, auto)
  have "gt_running G kind \<le> limitFor C kind" using ok full by (auto simp: gate_ok_def pool_ok_def)
  then have full': "gt_running G kind = limitFor C kind" using full by simp
  have "pool_ok C ?G1 k" for k
    using ok full' full(1) ticket w newt fresh by (auto simp: gate_ok_def pool_ok_def less_Suc_eq)
  then have ok1: "gate_ok C ?G1" using ok slots_ok_cong [of ?G1 G] by (simp add: gate_ok_def)
  then have ok2: "gate_ok C G2" unfolding G2 gate_ok_recorded .
  have q2: "gt_queues G2 = (gt_queues G)(kind := gt_queues G kind @ [?w])" unfolding G2 by simp
  then have gone: "gt_queues (leave_queue kind ?w G2) = gt_queues G"
    using new by (simp add: leave_queue_def remove1_append)
  have ok3: "gate_ok C (leave_queue kind ?w G2)" by (rule gate_ok_leave [OF ok2]) (simp add: q2)
  consider "\<not> recorded" | "recorded" "\<not> pi_queuedReturns input" | "recorded" "pi_queuedReturns input" "pi_signal input \<and> pi_abortedQueued input"
    | "recorded" "pi_queuedReturns input" "\<not> (pi_signal input \<and> pi_abortedQueued input)" by blast
  then show ?thesis
  proof cases
    case 1
    then have "G' = leave_queue kind ?w G2" and "r = Refused Record_failed"
      using run unfolding enqueue_turn_def Let_def rec by simp_all
    then show ?thesis using ok3 gone by (simp add: tickets_def)
  next
    case 2
    then have "G' = fst (recordEvent C ''pacing.queued-rollback'' ?w [pool_field kind] (leave_queue kind ?w G2))"
      and "r = Refused Callback_failed"
      using run unfolding enqueue_turn_def Let_def rec by simp_all
    then show ?thesis using ok3 gone by (simp add: tickets_def gate_ok_recorded)
  next
    case 3
    have "find (\<lambda>v. pw_ticket v = ticket \<and> pw_signal v) (gt_queues G2 kind) = Some ?w"
      using newt w 3 by (simp add: q2) (rule find_last, auto simp: new_waiter_def)
    then obtain e where "abort_wait C kind ticket G2
        = (fst (recordEvent C ''pacing.wait-cancelled'' ?w [pool_field kind] (leave_queue kind ?w G2)), Some e)"
      by (auto simp: abort_wait_def Let_def case_prod_beta)
    then have "G' = fst (recordEvent C ''pacing.wait-cancelled'' ?w [pool_field kind] (leave_queue kind ?w G2))"
      and "r = Refused e"
      using run 3 unfolding enqueue_turn_def Let_def rec by simp_all
    then show ?thesis using ok3 gone by (simp add: tickets_def gate_ok_recorded)
  next
    case 4
    then have "G' = G2" and "r = Waiting ticket"
      using run unfolding enqueue_turn_def Let_def rec by (auto split: if_splits)
    then show ?thesis using ok2 q2 w by (simp add: tickets_def)
  qed
qed

lemma acquire_facts:
  assumes ok: "gate_ok C G" and run: "gate_acquire C now kind input G = (G', r)"
  shows "gate_ok C G' \<and> replay (outcome_events (gt_tickets G) r) (tickets kind G) = Some (tickets kind G')
     \<and> (\<forall>k. k \<noteq> kind \<longrightarrow> tickets k G' = tickets k G)"
proof -
  let ?G0 = "G\<lparr>gt_tickets := Suc (gt_tickets G)\<rparr>"
  have ok0: "gate_ok C ?G0" by (rule gate_ok_cong [OF ok]) simp_all
  consider "pi_signal input \<and> pi_aborted input" | "\<not> (pi_signal input \<and> pi_aborted input)"
      "limitFor C kind = 0 \<or> gt_running ?G0 kind < limitFor C kind"
    | "\<not> (pi_signal input \<and> pi_aborted input)" "\<not> (limitFor C kind = 0 \<or> gt_running ?G0 kind < limitFor C kind)" by blast
  then show ?thesis
  proof cases
    case 1
    then have "G' = ?G0" and "r = Refused Wait_aborted" using run by (simp_all add: gate_acquire_def Let_def)
    then show ?thesis using ok0 by (simp add: tickets_def outcome_events_def)
  next
    case 2
    then have "admit_now C kind input ?G0 = (G', r)" using run by (auto simp: gate_acquire_def Let_def split: if_splits)
    from admit_now_facts [OF ok0 2(2) this] show ?thesis
      by (cases r) (auto simp: tickets_def outcome_events_def)
  next
    case 3
    then have enq: "enqueue_turn C now kind input (gt_tickets G) ?G0 = (G', r)" using run by (auto simp: gate_acquire_def Let_def split: if_splits)
    have "\<forall>k. \<forall>w\<in>set (gt_queues ?G0 k). pw_ticket w < gt_tickets G" using ok by (simp add: gate_ok_def pool_ok_def)
    from enqueue_turn_facts [OF ok0 _ _ _ this enq] 3 show ?thesis
      by (cases r) (auto simp: tickets_def outcome_events_def)
  qed
qed


lemma abort_facts:
  assumes ok: "gate_ok C G" and run: "abort_wait C kind ticket G = (G', r)"
  shows "gate_ok C G' \<and> replay (case r of None \<Rightarrow> [] | Some e \<Rightarrow> [Left ticket]) (tickets kind G) = Some (tickets kind G')
     \<and> (\<forall>k. k \<noteq> kind \<longrightarrow> tickets k G' = tickets k G)"
proof (rule abort_wait_cases [of C kind ticket G])
  assume "abort_wait C kind ticket G = (G, None)"
  then show ?thesis using run ok by simp
next
  fix w e assume res: "abort_wait C kind ticket G
      = (fst (recordEvent C ''pacing.wait-cancelled'' w [pool_field kind] (leave_queue kind w G)), Some e)"
    and found: "find (\<lambda>w. pw_ticket w = ticket \<and> pw_signal w) (gt_queues G kind) = Some w"
  then have G': "G' = fst (recordEvent C ''pacing.wait-cancelled'' w [pool_field kind] (leave_queue kind w G))"
    and r: "r = Some e" using run by simp_all
  have "distinct (map pw_ticket (gt_queues G kind))" using ok by (simp add: gate_ok_def pool_ok_def)
  note w = find_leaves [OF found this]
  have "gate_ok C (leave_queue kind w G)" by (rule gate_ok_leave [OF ok]) (use w(1) in auto)
  then show ?thesis
    unfolding G' r gate_ok_recorded using w(3) by (simp add: tickets_def leave_queue_def)
qed

fun handover_event :: "handover \<Rightarrow> nat admission" where
  "handover_event (Turn_admitted t l) = Admitted t"
| "handover_event (Turn_rejected t e) = Left t"

text \<open>The slot just freed is taken by exactly one turn, or the queue runs empty.\<close>

lemma hand_over_facts:
  assumes "hand_over C now kind ws G = (G', hs)" and "slots_ok G"
  shows "slots_ok G' \<and> (\<forall>k. k \<noteq> kind \<longrightarrow> gt_queues G' k = gt_queues G k \<and> gt_running G' k = gt_running G k)
     \<and> gt_tickets G' = gt_tickets G \<and> replay (map handover_event hs) (map pw_ticket ws) = Some (tickets kind G')
     \<and> (\<exists>us. ws = us @ gt_queues G' kind)
     \<and> (if gt_queues G' kind = [] \<and> gt_running G' kind = gt_running G kind then True
        else gt_running G' kind = Suc (gt_running G kind))"
  using assms
proof (induction ws arbitrary: G hs)
  case Nil
  then show ?case by (auto simp: tickets_def slots_ok_cong [of "G\<lparr>gt_queues := (gt_queues G)(kind := [])\<rparr>" G])
next
  case (Cons w ws)
  let ?Gq = "G\<lparr>gt_queues := (gt_queues G)(kind := ws)\<rparr>"
  define waited where "waited = max 0 (now - pw_enqueueMs w)"
  obtain G1 recorded where rec: "recordEvent C ''pacing.admitted'' w (waited_fields kind waited) ?Gq = (G1, recorded)"
    by fastforce
  then have G1: "G1 = fst (recordEvent C ''pacing.admitted'' w (waited_fields kind waited) ?Gq)" by simp
  have ok1: "slots_ok G1" using Cons.prems(2) slots_ok_cong [of G1 G] by (simp add: G1)
  note step = Cons.prems(1) [unfolded hand_over.simps Let_def waited_def [symmetric] rec prod.case]
  show ?case
  proof (cases recorded)
    case True
    let ?G2 = "G1\<lparr>gt_running := (gt_running G1)(kind := Suc (gt_running G1 kind))\<rparr>"
    from step True have G': "G' = fst (mintLease kind waited (pt_jobId w) ?G2)"
      and hs: "\<exists>l. hs = [Turn_admitted (pw_ticket w) l]"
      by (auto simp: grant_turn_def case_prod_beta)
    have "slots_ok G'" unfolding G' by (rule slots_grant [OF ok1]) simp_all
    then show ?thesis using hs by (auto simp: G' G1 tickets_def)
  next
    case False
    then obtain rest where rest: "hand_over C now kind ws G1 = (G', rest)"
      and hs: "hs = Turn_rejected (pw_ticket w) Record_failed # rest"
      using step by (cases "hand_over C now kind ws G1") auto
    from Cons.IH [OF rest ok1] show ?thesis using hs by (auto simp: G1)
  qed
qed

lemma release_facts:
  assumes ok: "gate_ok C G" and l: "l \<in> set (gt_leases G)" and run: "gate_release C now l G = Inr (G', hs)"
  shows "gate_ok C G' \<and> replay (map handover_event hs) (tickets (pl_kind l) G) = Some (tickets (pl_kind l) G')
     \<and> (\<forall>k. k \<noteq> pl_kind l \<longrightarrow> tickets k G' = tickets k G)"
proof -
  let ?k = "pl_kind l" and ?G1 = "give_back l G"
  have new: "pl_key l \<notin> set (gt_released G)" and go: "hand_over C now ?k (gt_queues G ?k) ?G1 = (G', hs)"
    using run by (auto simp: gate_release_def Let_def split: if_splits)
  have s: "slots_ok G" using ok by (simp add: gate_ok_def)
  note F = hand_over_facts [OF go slots_give_back(1) [OF s l new]]
  have pos: "0 < gt_running G ?k" by (rule slots_give_back(2) [OF s l new])
  have okk: "pool_ok C G ?k" using ok by (simp add: gate_ok_def)
  obtain us where us: "gt_queues G ?k = us @ gt_queues G' ?k" using F by blast
  have "pool_ok C G' ?k"
    using okk F pos us unfolding pool_ok_def by (auto split: if_splits)
  moreover have "pool_ok C G' k" if "k \<noteq> ?k" for k
    by (rule pool_ok_cong [of G' k G]) (use ok F that in \<open>auto simp: gate_ok_def\<close>)
  ultimately have "gate_ok C G'" using F by (metis gate_ok_def)
  then show ?thesis using F by (simp add: tickets_def)
qed

subsection \<open>The gate as an admission queue\<close>

text \<open>One operation on the gate and what it does to the queue of one pool.\<close>

inductive gate_step :: "gate_config \<Rightarrow> pacing_pool \<Rightarrow> gate_state \<Rightarrow> nat admission list \<Rightarrow> gate_state \<Rightarrow> bool"
  for C pool where
  gs_acquire: "gate_acquire C now kind input G = (G', r) \<Longrightarrow>
     gate_step C pool G (if kind = pool then outcome_events (gt_tickets G) r else []) G'"
| gs_abort: "abort_wait C kind ticket G = (G', r) \<Longrightarrow>
     gate_step C pool G (if kind = pool \<and> r \<noteq> None then [Left ticket] else []) G'"
| gs_release: "l \<in> set (gt_leases G) \<Longrightarrow> gate_release C now l G = Inr (G', hs) \<Longrightarrow>
     gate_step C pool G (if pl_kind l = pool then map handover_event hs else []) G'"
| gs_prepare: "gate_step C pool G [] (prepare_failed C kind (turn :: pacing_turn) error G)"

lemma gate_step_facts:
  assumes "gate_step C pool G es G'" and "gate_ok C G"
  shows "gate_ok C G' \<and> replay es (tickets pool G) = Some (tickets pool G')"
  using assms
proof cases
  case (gs_acquire now kind input r)
  then show ?thesis using acquire_facts [OF assms(2) gs_acquire(2)] by auto
next
  case (gs_abort kind ticket r)
  then show ?thesis using abort_facts [OF assms(2) gs_abort(2)] by (auto split: option.splits)
next
  case (gs_release l now hs)
  then show ?thesis using release_facts [OF assms(2) gs_release(2,3)] by auto
next
  case (gs_prepare kind turn error)
  have "gate_ok C G'" using assms(2) unfolding gs_prepare(2) prepare_failed_def by (simp add: gate_ok_recorded)
  then show ?thesis using gs_prepare by (auto simp: prepare_failed_def tickets_def)
qed

interpretation pacing: bounded_admission "gate_ok C" "tickets pool" "gate_step C pool" "\<lambda>G. gt_running G pool"
  "\<lambda>G. if limitFor C pool = 0 then None else Some (limitFor C pool)" for C pool
  by unfold_locales (auto simp: gate_step_facts gate_ok_def pool_ok_def dest: gate_step_facts split: if_splits)


subsection \<open>Properties\<close>

definition sample_gate :: gate_config where
  "sample_gate = \<lparr>gc_enabled = True, gc_limits = (\<lambda>_. 1), gc_record = Some (\<lambda>_ _. True), gc_prepare = False,
     gc_iso = (\<lambda>_. ''2026-01-01T00:00:00.000Z'')\<rparr>"

definition sample_turn :: "string \<Rightarrow> pacing_input" where
  "sample_turn i = \<lparr>pt_id = i, pt_label = i, pt_jobId = Some ''j-1'', pt_agentId = None, pi_signal = True,
     pi_aborted = False, pi_abortedQueued = False, pi_queuedReturns = True\<rparr>"

definition gate_one :: gate_state where "gate_one = fst (gate_acquire sample_gate 0 Worker_pool (sample_turn ''a'') new_gate)"
definition gate_two :: gate_state where "gate_two = fst (gate_acquire sample_gate 5 Worker_pool (sample_turn ''b'') gate_one)"

lemma acquire_step:
  "gate_step C kind G (outcome_events (gt_tickets G) (snd (gate_acquire C now kind input G))) (fst (gate_acquire C now kind input G))"
  using gs_acquire [of C now kind input G "fst (gate_acquire C now kind input G)" "snd (gate_acquire C now kind input G)" kind]
  by simp

lemma sample_gate_run: "labelled_run (gate_step sample_gate Worker_pool) new_gate ([] @ ([Joined 0, Admitted 0] @ [Joined 1])) gate_two"
proof -
  have "outcome_events (gt_tickets new_gate) (snd (gate_acquire sample_gate 0 Worker_pool (sample_turn ''a'') new_gate))
      = [Joined 0, Admitted 0]" by code_simp
  then have one: "gate_step sample_gate Worker_pool new_gate [Joined 0, Admitted 0] gate_one"
    unfolding gate_one_def by (metis acquire_step)
  have "outcome_events (gt_tickets gate_one) (snd (gate_acquire sample_gate 5 Worker_pool (sample_turn ''b'') gate_one))
      = [Joined 1]" by code_simp
  then have two: "gate_step sample_gate Worker_pool gate_one [Joined 1] gate_two"
    unfolding gate_two_def by (metis acquire_step)
  show ?thesis using run_step [OF labelled_run_single [where step = "gate_step sample_gate Worker_pool", OF one] two] by simp
qed

text \<open>C22. A capped pool never runs more turns than its cap, its running count is exactly the leases not given
  back, turns wait only while the pool is full, and a job's held count is exactly its worker leases out.\<close>

theorem pacing_bounds:
  assumes "labelled_run (gate_step C pool) new_gate es G"
  shows "gt_running G k = length (out_leases (of_pool k) G)
     \<and> (limitFor C k = 0 \<or> gt_running G k \<le> limitFor C k)
     \<and> (gt_queues G k = [] \<or> gt_running G k = limitFor C k)
     \<and> fst (workerTurnsFor G j) = length (out_leases (of_job j) G)"
proof -
  have "gate_ok C G" using pacing.run_facts [OF assms gate_ok_new] by blast
  then have s: "slots_ok G" and p: "pool_ok C G k" by (simp_all add: gate_ok_def)
  show ?thesis
    using slots_okD(3) [OF s, of k] slots_okD(4) [OF s, of j] p
    by (simp add: pool_ok_def workerTurnsFor_def or_else_def) blast
qed

theorem pacing_bounds_witness: "gt_running gate_two Worker_pool \<le> 1 \<and> gt_queues gate_two Worker_pool \<noteq> []"
proof -
  have "limitFor sample_gate Worker_pool = 1" by (simp add: limitFor_def sample_gate_def)
  moreover have "gt_queues gate_two Worker_pool \<noteq> []" by code_simp
  ultimately show ?thesis using pacing_bounds [OF sample_gate_run, of Worker_pool "''j-1''"] by presburger
qed

text \<open>C21. Each pool refines a FIFO queue: what its turns see is a replay of an abstract queue, so a waiting
  turn is never overtaken by one that was not ahead of it, arrivals included.\<close>

theorem pacing_fifo:
  assumes "labelled_run (gate_step C pool) new_gate es G" and "tickets pool G = a @ t # b"
    and "labelled_run (gate_step C pool) G (fs @ Admitted u # gs) G'" and "u \<noteq> t" and "u \<notin> set a"
  shows "replay es [] = Some (tickets pool G) \<and> (Admitted t \<in> set fs \<or> Left t \<in> set fs)"
proof -
  note F = pacing.run_facts [OF assms(1) gate_ok_new]
  have "tickets pool new_gate = []" by (simp add: tickets_def new_gate_def)
  then show ?thesis
    using F pacing.no_overtaking [OF assms(3) _ assms(2,4,5)] by simp
qed

theorem pacing_fifo_witness:
  "replay [Joined 0, Admitted 0, Joined 1] [] = Some (tickets Worker_pool gate_two)
   \<and> (\<nexists>G' gs. labelled_run (gate_step sample_gate Worker_pool) gate_two ([] @ Admitted 2 # gs) G')"
proof -
  have one: "tickets Worker_pool gate_two = [] @ 1 # []" by code_simp
  have no: "\<nexists>G' gs. labelled_run (gate_step sample_gate Worker_pool) gate_two ([] @ Admitted 2 # gs) G'"
    using pacing_fifo [OF sample_gate_run one, of "[]" 2] by auto
  have "replay [Joined 0, Admitted 0, Joined 1] [] = Some (tickets Worker_pool gate_two)" by code_simp
  with no show ?thesis by blast
qed

text \<open>The event that records an admission out of the queue, and whether the recorder takes its \<open>n\<close>-th call.\<close>

definition admitted_event :: "pacing_pool \<Rightarrow> int \<Rightarrow> pacing_waiter \<Rightarrow> pacing_event" where
  "admitted_event kind now w = \<lparr>pv_kind = ''pacing.admitted'', pv_jobId = pt_jobId w, pv_agentId = pt_agentId w,
     pv_payload = JObj ([(''id'', JStr (pt_id w)), (''label'', JStr (pt_label w))]
       @ waited_fields kind (max 0 (now - pw_enqueueMs w)))\<rparr>"

definition recorder_takes :: "gate_config \<Rightarrow> nat \<Rightarrow> pacing_event \<Rightarrow> bool" where
  "recorder_takes C n e \<longleftrightarrow> (case gc_record C of None \<Rightarrow> True | Some f \<Rightarrow> f n e)"

lemma record_admitted:
  "snd (recordEvent C ''pacing.admitted'' w (waited_fields kind (max 0 (now - pw_enqueueMs w))) G)
     = recorder_takes C (gt_calls G) (admitted_event kind now w)"
  "\<not> recorder_takes C (gt_calls G) (admitted_event kind now w) \<Longrightarrow>
     gt_calls (fst (recordEvent C ''pacing.admitted'' w (waited_fields kind (max 0 (now - pw_enqueueMs w))) G)) = Suc (gt_calls G)"
  by (auto simp: recordEvent_def recorder_takes_def admitted_event_def Let_def split: option.splits)

text \<open>The outcome of one handover: turns at the front whose record threw are rejected, the next one is admitted.\<close>

definition handed_over ::
  "gate_config \<Rightarrow> int \<Rightarrow> pacing_pool \<Rightarrow> nat \<Rightarrow> pacing_waiter list \<Rightarrow> pacing_waiter list \<Rightarrow> handover list \<Rightarrow> bool" where
  "handed_over C now kind n pre rest hs \<longleftrightarrow>
     (\<forall>i<length pre. \<not> recorder_takes C (n + i) (admitted_event kind now (pre ! i)))
     \<and> (rest \<noteq> [] \<longrightarrow> recorder_takes C (n + length pre) (admitted_event kind now (hd rest)))
     \<and> (\<exists>ls. hs = map (\<lambda>w. Turn_rejected (pw_ticket w) Record_failed) pre @ ls
          \<and> (if rest = [] then ls = [] else \<exists>l. ls = [Turn_admitted (pw_ticket (hd rest)) l] \<and> pl_kind l = kind
               \<and> pl_jobId l = pt_jobId (hd rest) \<and> pl_waitedMs l = max 0 (now - pw_enqueueMs (hd rest))))"

lemma handed_over_skip:
  assumes "handed_over C now kind (Suc n) pre rest hs" and "\<not> recorder_takes C n (admitted_event kind now w)"
  shows "handed_over C now kind n (w # pre) rest (Turn_rejected (pw_ticket w) Record_failed # hs)"
proof -
  have "\<not> recorder_takes C (n + i) (admitted_event kind now ((w # pre) ! i))" if "i < length (w # pre)" for i
    using assms that by (cases i) (auto simp: handed_over_def)
  then show ?thesis using assms(1) by (auto simp: handed_over_def)
qed

lemma hand_over_split:
  assumes "hand_over C now kind ws G = (G', hs)"
  shows "\<exists>pre rest. ws = pre @ rest \<and> handed_over C now kind (gt_calls G) pre rest hs \<and> gt_queues G' kind = tl rest
     \<and> gt_running G' kind = (if rest = [] then gt_running G kind else Suc (gt_running G kind))
     \<and> gt_released G' = gt_released G"
  using assms
proof (induction ws arbitrary: G hs)
  case Nil
  then show ?case by (auto simp: handed_over_def)
next
  case (Cons w ws)
  let ?Gq = "G\<lparr>gt_queues := (gt_queues G)(kind := ws)\<rparr>"
  let ?t = "max 0 (now - pw_enqueueMs w)"
  define G1 where "G1 = fst (recordEvent C ''pacing.admitted'' w (waited_fields kind ?t) ?Gq)"
  have rec: "recordEvent C ''pacing.admitted'' w (waited_fields kind ?t) ?Gq
      = (G1, recorder_takes C (gt_calls G) (admitted_event kind now w))"
    using record_admitted(1) [of C w kind now ?Gq] unfolding G1_def by (simp add: prod_eq_iff)
  note step = Cons.prems [unfolded hand_over.simps Let_def rec prod.case]
  show ?case
  proof (cases "recorder_takes C (gt_calls G) (admitted_event kind now w)")
    case True
    then have "G' = fst (grant_turn kind ?t w G1)" "hs = [Turn_admitted (pw_ticket w) (snd (grant_turn kind ?t w G1))]"
      using step by (simp_all add: case_prod_beta)
    then show ?thesis using True
      by (intro exI [of _ "[]"] exI [of _ "w # ws"])
        (auto simp: handed_over_def grant_turn_def mintLease_def Let_def G1_def)
  next
    case False
    then obtain hs' where rest: "hand_over C now kind ws G1 = (G', hs')" "hs = Turn_rejected (pw_ticket w) Record_failed # hs'"
      using step by (cases "hand_over C now kind ws G1") auto
    have calls: "gt_calls G1 = Suc (gt_calls G)" using record_admitted(2) [of C ?Gq kind now w] False by (simp add: G1_def)
    have same: "gt_running G1 = gt_running G" "gt_released G1 = gt_released G"
      by (simp_all add: G1_def)
    from Cons.IH [OF rest(1)] obtain pre later where
      "ws = pre @ later" "handed_over C now kind (Suc (gt_calls G)) pre later hs'" "gt_queues G' kind = tl later"
      "gt_running G' kind = (if later = [] then gt_running G kind else Suc (gt_running G kind))"
      "gt_released G' = gt_released G"
      unfolding same calls by blast
    then show ?thesis using handed_over_skip [OF _ False] rest(2)
      by (intro exI [of _ "w # pre"] exI [of _ later]) auto
  qed
qed

text \<open>C23. No slot is lost at a handover, whatever the recorder does: giving a lease back passes the slot to the
  first waiting turn whose admission can be recorded, at once and with its waiting time, and the pool stays full;
  the turns before it, whose record threw, are rejected and have left the queue. Only when no turn waits, or
  every record threw, is the slot free afterwards. The lease is spent, and giving it back again is refused.\<close>

theorem pacing_handover:
  assumes "labelled_run (gate_step C pool) new_gate es G" and "lease \<in> set (out_leases (of_pool k) G)"
  shows "\<exists>G' hs pre rest. gate_release C now lease G = Inr (G', hs) \<and> gt_queues G k = pre @ rest
     \<and> handed_over C now k (gt_calls G) pre rest hs \<and> gt_queues G' k = tl rest
     \<and> (if rest = [] then Suc (gt_running G' k) = gt_running G k
        else gt_running G' k = gt_running G k \<and> gt_running G' k = limitFor C k)
     \<and> lease \<notin> set (out_leases (of_pool k) G') \<and> gate_release C now' lease G' = Inl (Released_twice k)"
proof -
  have ok: "gate_ok C G" using pacing.run_facts [OF assms(1) gate_ok_new] by blast
  have l: "lease \<in> set (gt_leases G)" "pl_key lease \<notin> set (gt_released G)" "pl_kind lease = k"
    using assms(2) by (auto simp: out_leases_def)
  have s: "slots_ok G" and p: "pool_ok C G k" using ok by (simp_all add: gate_ok_def)
  have pos: "0 < gt_running G k" using slots_give_back(2) [OF s l(1,2)] l(3) by simp
  obtain G' hs where go: "hand_over C now k (gt_queues G k) (give_back lease G) = (G', hs)" by fastforce
  have run: "gate_release C now lease G = Inr (G', hs)"
    using l(2,3) go by (simp add: gate_release_def Let_def)
  have calls: "gt_calls (give_back lease G) = gt_calls G" by (simp add: give_back_def)
  from hand_over_split [OF go] obtain pre rest where split: "gt_queues G k = pre @ rest"
    "handed_over C now k (gt_calls G) pre rest hs" "gt_queues G' k = tl rest"
    "gt_running G' k = (if rest = [] then gt_running G k - 1 else Suc (gt_running G k - 1))"
    "gt_released G' = pl_key lease # gt_released G"
    unfolding calls by (auto simp: l(3) give_back_def)
  have "rest \<noteq> [] \<Longrightarrow> gt_running G k = limitFor C k" using p split(1) by (simp add: pool_ok_def)
  then show ?thesis using run split pos l(3)
    by (intro exI [of _ G'] exI [of _ hs] exI [of _ pre] exI [of _ rest]) (auto simp: out_leases_def gate_release_def)
qed

text \<open>The recorder of \<open>sample_gate\<close> never throws, so its only waiter is admitted; one that throws from its third
  call on has the waiter rejected and the slot free.\<close>

lemma handed_over_one:
  assumes "handed_over C now k n pre rest hs" and "pre @ rest = [w]" and "recorder_takes C n (admitted_event k now w)"
  shows "\<exists>l. hs = [Turn_admitted (pw_ticket w) l] \<and> pl_waitedMs l = max 0 (now - pw_enqueueMs w) \<and> rest = [w]"
  using assms by (cases pre) (auto simp: handed_over_def)

theorem pacing_handover_witness:
  "\<exists>G' l. gate_release sample_gate 9 (hd (gt_leases gate_two)) gate_two = Inr (G', [Turn_admitted 1 l]) \<and> pl_waitedMs l = 4"
proof -
  have "map pw_ticket (gt_queues gate_two Worker_pool) = [1] \<and> map pw_enqueueMs (gt_queues gate_two Worker_pool) = [5]"
    by code_simp
  then obtain w where w: "gt_queues gate_two Worker_pool = [w]" "pw_ticket w = 1" "pw_enqueueMs w = 5" by auto
  have "out_leases (of_pool Worker_pool) gate_two = [hd (gt_leases gate_two)]" by code_simp
  then have out: "hd (gt_leases gate_two) \<in> set (out_leases (of_pool Worker_pool) gate_two)" by simp
  have takes: "recorder_takes sample_gate n e" for n e by (simp add: recorder_takes_def sample_gate_def)
  from pacing_handover [OF sample_gate_run out, of 9 9] w(1) obtain G' hs pre rest where
    run: "gate_release sample_gate 9 (hd (gt_leases gate_two)) gate_two = Inr (G', hs)" "pre @ rest = [w]"
    "handed_over sample_gate 9 Worker_pool (gt_calls gate_two) pre rest hs" by auto
  from handed_over_one [OF run(3,2) takes] w(2,3) run(1) show ?thesis by auto
qed

definition throwing_gate :: gate_config where
  "throwing_gate = sample_gate\<lparr>gc_record := Some (\<lambda>n _. n < 2)\<rparr>"

lemma throwing_record_frees:
  "(let G\<^sub>1 = fst (gate_acquire throwing_gate 0 Worker_pool (sample_turn ''a'') new_gate);
        G\<^sub>2 = fst (gate_acquire throwing_gate 5 Worker_pool (sample_turn ''b'') G\<^sub>1)
    in map_sum id (\<lambda>(G, hs). (hs, gt_running G Worker_pool, gt_queues G Worker_pool))
         (gate_release throwing_gate 9 (hd (gt_leases G\<^sub>2)) G\<^sub>2))
   = Inr ([Turn_rejected 1 Record_failed], 0, [])"
  by code_simp

end
