(* ===== verification/Retry.thy ===== *)
theory Retry
  imports Pacing_Gate
begin

text \<open>
  Bounded retries: the rate-limit signatures and the backoff ladder of \<^verbatim>\<open>src/src/runtime/pacing.ts\<close>, the
  retry loop of \<^verbatim>\<open>src/src/runtime/rate-limit-retry.ts\<close> and the spawn gate of
  \<^verbatim>\<open>src/src/chat/spawn-backoff.ts\<close>. Milliseconds are rationals.
\<close>

subsection \<open>Regular expressions\<close>

text \<open>The constructs the signature uses. A position is the text before it, reversed, and the text after it;
  \<open>re_ends\<close> lists where a match from a position may end. Text is Latin-1, so the flags \<open>iu\<close> fold ASCII
  letters only.\<close>

datatype re =
    Eps | Chr "char \<Rightarrow> bool" | Seq re re | Alt re re | Star re | UpTo nat re | Word_bound | Begin_text

type_synonym re_pos = "string \<times> string"

fun iterate_ends :: "(re_pos \<Rightarrow> re_pos list) \<Rightarrow> nat \<Rightarrow> re_pos \<Rightarrow> re_pos list" where
  "iterate_ends f 0 p = [p]"
| "iterate_ends f (Suc n) p = p # concat (map (iterate_ends f n) (f p))"

definition word_char :: "char \<Rightarrow> bool" where
  "word_char c \<longleftrightarrow> c = CHR ''_'' \<or> (CHR ''0'' \<le> c \<and> c \<le> CHR ''9'') \<or> (CHR ''A'' \<le> c \<and> c \<le> CHR ''Z'')
     \<or> (CHR ''a'' \<le> c \<and> c \<le> CHR ''z'')"

definition at_word :: "string \<Rightarrow> bool" where
  "at_word s = (case s of [] \<Rightarrow> False | c # _ \<Rightarrow> word_char c)"

primrec re_ends :: "re \<Rightarrow> re_pos \<Rightarrow> re_pos list" where
  "re_ends Eps = (\<lambda>p. [p])"
| "re_ends (Chr ok) = (\<lambda>(b, a). case a of [] \<Rightarrow> [] | c # cs \<Rightarrow> if ok c then [(c # b, cs)] else [])"
| "re_ends (Seq r s) = (\<lambda>p. concat (map (re_ends s) (re_ends r p)))"
| "re_ends (Alt r s) = (\<lambda>p. re_ends r p @ re_ends s p)"
| "re_ends (Star r) = (\<lambda>p. iterate_ends (re_ends r) (length (snd p)) p)"
| "re_ends (UpTo n r) = iterate_ends (re_ends r) n"
| "re_ends Word_bound = (\<lambda>(b, a). if at_word b \<noteq> at_word a then [(b, a)] else [])"
| "re_ends Begin_text = (\<lambda>(b, a). if b = [] then [(b, a)] else [])"

definition re_test :: "re \<Rightarrow> string \<Rightarrow> bool" where
  "re_test r s = list_ex (\<lambda>i. re_ends r (rev (take i s), drop i s) \<noteq> []) [0..<Suc (length s)]"

text \<open>Literals, case folded.\<close>

definition fold_case :: "char \<Rightarrow> char" where
  "fold_case c = (if CHR ''A'' \<le> c \<and> c \<le> CHR ''Z'' then char_of (of_char c + (32 :: nat)) else c)"

fun lit :: "string \<Rightarrow> re" where
  "lit [] = Eps"
| "lit (c # cs) = Seq (Chr (\<lambda>x. fold_case x = c)) (lit cs)"

fun alts :: "re list \<Rightarrow> re" where
  "alts [] = Chr (\<lambda>_. False)"
| "alts [r] = r"
| "alts (r # rs) = Alt r (alts rs)"

fun seqs :: "re list \<Rightarrow> re" where
  "seqs [] = Eps"
| "seqs (r # rs) = Seq r (seqs rs)"

definition optional :: "re \<Rightarrow> re" where "optional r = Alt Eps r"
definition any_of :: "string \<Rightarrow> re" where "any_of cs = Chr (\<lambda>c. c \<in> set cs)"
definition re_digit :: re where "re_digit = Chr (\<lambda>c. CHR ''0'' \<le> c \<and> c \<le> CHR ''9'')"
definition re_space :: re where "re_space = Chr js_space"

text \<open>\<open>\p{L}\<close> and \<open>\p{N}\<close> on Latin-1.\<close>

definition letter_or_number :: "char \<Rightarrow> bool" where
  "letter_or_number c \<longleftrightarrow> (let n = (of_char c :: nat) in
     (48 \<le> n \<and> n \<le> 57) \<or> (65 \<le> n \<and> n \<le> 90) \<or> (97 \<le> n \<and> n \<le> 122)
     \<or> n \<in> {170, 178, 179, 181, 185, 186, 188, 189, 190}
     \<or> (192 \<le> n \<and> n \<le> 214) \<or> (216 \<le> n \<and> n \<le> 246) \<or> (248 \<le> n \<and> n \<le> 255))"

subsection \<open>Rate-limit texts\<close>

definition status_context :: re where
  "status_context = alts
     [Seq (lit ''http'') (optional (seqs [lit ''/'', optional (lit '' ''), re_digit, Star re_digit,
        Star (seqs [lit ''.'', re_digit, Star re_digit])])),
      Seq (lit ''status'') (optional (Seq (optional (Alt (lit ''_'') re_space)) (lit ''code''))),
      Seq (lit ''error'') (optional (Seq (optional (Alt (lit ''_'') re_space)) (lit ''code''))),
      lit ''code'']"

definition GENERIC_RATE_LIMIT_PATTERN :: re where
  "GENERIC_RATE_LIMIT_PATTERN = alts
     [seqs [Begin_text, lit ''429'', Word_bound],
      seqs [Word_bound, status_context, Word_bound, Star re_space, optional (any_of '':=,_-''), Star re_space,
            lit ''429'', Word_bound],
      seqs [Word_bound, lit ''429'', Word_bound, UpTo 8 (Chr (\<lambda>c. \<not> letter_or_number c)),
            Alt (lit ''too many requests'') (seqs [lit ''rate'', optional (any_of ''- ''), lit ''limit''])],
      seqs [Word_bound, lit ''too many requests'', Word_bound],
      seqs [Word_bound, lit ''throttl'', alts [lit ''e'', lit ''ed'', lit ''ing''], Word_bound],
      seqs [Word_bound, lit ''rate'', optional (any_of ''-_ ''), lit ''limit'', optional (Alt (lit ''ed'') (lit ''ing'')),
            Word_bound]]"

text \<open>A configured signature is a compiled regular expression: its test is a parameter.\<close>

definition isRateLimitErrorText :: "string \<Rightarrow> (string \<Rightarrow> bool) list \<Rightarrow> bool" where
  "isRateLimitErrorText errorText extraPatterns \<longleftrightarrow>
     re_test GENERIC_RATE_LIMIT_PATTERN errorText \<or> list_ex (\<lambda>p. p errorText) extraPatterns"

text \<open>\<open>new RegExp(pattern, 'i')\<close> is a parameter, \<open>None\<close> where it throws.\<close>

record pacing_config =
  pc_enabled :: bool
  pc_maxAutoRetries :: nat
  pc_backoffBaseMs :: rat
  pc_backoffMaxMs :: rat
  pc_providers :: "(string \<times> string list) list"

datatype config_error = Invalid_regex string

fun compile_patterns ::
  "(string \<Rightarrow> (string \<Rightarrow> bool) option) \<Rightarrow> string \<Rightarrow> string list \<Rightarrow> config_error + (string \<Rightarrow> bool) list" where
  "compile_patterns regexp providerId [] = Inr []"
| "compile_patterns regexp providerId (p # ps) = (case regexp p of
     None \<Rightarrow> Inl (Invalid_regex providerId)
   | Some t \<Rightarrow> attempt (compile_patterns regexp providerId ps) (\<lambda>ts. Inr (t # ts)))"

fun compileRateLimitPatterns ::
  "(string \<Rightarrow> (string \<Rightarrow> bool) option) \<Rightarrow> (string \<times> string list) list \<Rightarrow> config_error + (string \<Rightarrow> bool) list" where
  "compileRateLimitPatterns regexp [] = Inr []"
| "compileRateLimitPatterns regexp ((providerId, ps) # rest) =
     attempt (compile_patterns regexp providerId ps) (\<lambda>ts.
     attempt (compileRateLimitPatterns regexp rest) (\<lambda>us. Inr (ts @ us)))"

record backoff_policy =
  bp_baseMs :: rat
  bp_maxMs :: rat
  bp_maxRetries :: nat
  bp_patterns :: "(string \<Rightarrow> bool) list"

definition resolveRateLimitBackoff ::
  "(string \<Rightarrow> (string \<Rightarrow> bool) option) \<Rightarrow> pacing_config \<Rightarrow> config_error + backoff_policy option" where
  "resolveRateLimitBackoff regexp config =
     (if \<not> pc_enabled config \<or> pc_maxAutoRetries config = 0 then Inr None
      else attempt (compileRateLimitPatterns regexp (pc_providers config)) (\<lambda>patterns.
        Inr (Some \<lparr>bp_baseMs = pc_backoffBaseMs config, bp_maxMs = pc_backoffMaxMs config,
                   bp_maxRetries = pc_maxAutoRetries config, bp_patterns = patterns\<rparr>)))"

subsection \<open>The ladder\<close>

definition backoffDelayMs :: "nat \<Rightarrow> rat \<Rightarrow> rat \<Rightarrow> (rat \<Rightarrow> rat) \<Rightarrow> rat" where
  "backoffDelayMs retry baseMs maxMs jitter =
     (let exponential = min (baseMs * 2 ^ (retry - 1)) maxMs in
      if maxMs \<le> exponential then maxMs - jitter (maxMs / 2)
      else min (exponential + jitter (exponential / 2)) maxMs)"

subsection \<open>The retry loop\<close>











subsection \<open>The spawn gate\<close>

record spawn_gate =
  sg_baseMs :: rat
  sg_capMs :: rat
  sg_failures :: nat
  sg_blockedUntil :: rat

definition new_spawn_gate :: "rat \<Rightarrow> rat \<Rightarrow> spawn_gate" where
  "new_spawn_gate baseMs capMs = \<lparr>sg_baseMs = baseMs, sg_capMs = capMs, sg_failures = 0, sg_blockedUntil = 0\<rparr>"

definition delayFor :: "spawn_gate \<Rightarrow> nat \<Rightarrow> rat" where
  "delayFor g count' = (if sg_baseMs g \<le> 0 \<or> sg_capMs g \<le> 0 then 0
     else min (sg_baseMs g * 2 ^ min (count' - 1) 26) (sg_capMs g))"

definition recordFailure :: "rat \<Rightarrow> spawn_gate \<Rightarrow> spawn_gate \<times> rat" where
  "recordFailure now g =
     (let g1 = g\<lparr>sg_failures := Suc (sg_failures g)\<rparr>; delay = delayFor g1 (sg_failures g1) in
      (g1\<lparr>sg_blockedUntil := now + delay\<rparr>, delay))"

definition isBlocked :: "rat \<Rightarrow> spawn_gate \<Rightarrow> bool" where
  "isBlocked now g \<longleftrightarrow> now < sg_blockedUntil g"

definition blockedFor :: "rat \<Rightarrow> spawn_gate \<Rightarrow> rat" where
  "blockedFor now g = max 0 (sg_blockedUntil g - now)"

definition reset_gate :: "spawn_gate \<Rightarrow> spawn_gate" where
  "reset_gate g = g\<lparr>sg_failures := 0, sg_blockedUntil := 0\<rparr>"

lemma rate_limit_texts:
  "isRateLimitErrorText ''HTTP/1.1 429'' []" "isRateLimitErrorText ''Error: Rate-Limited by host'' []"
  "\<not> isRateLimitErrorText ''TypeError at line 429'' []" "\<not> isRateLimitErrorText ''quota exceeded'' []"
  by code_simp+


subsection \<open>Properties\<close>

text \<open>The ladder is bounded: whatever jitter is drawn, the delay of a retry lies between half the capped
  exponential and the bound, at most half above the exponential, and without jitter it is the capped
  exponential itself.\<close>

theorem backoff_bounds:
  assumes "0 \<le> baseMs" and "0 \<le> maxMs" and "\<And>c. 0 \<le> c \<Longrightarrow> 0 \<le> jitter c \<and> jitter c \<le> c"
  shows "min (baseMs * 2 ^ (retry - 1)) maxMs / 2 \<le> backoffDelayMs retry baseMs maxMs jitter
     \<and> backoffDelayMs retry baseMs maxMs jitter \<le> maxMs
     \<and> backoffDelayMs retry baseMs maxMs jitter \<le> 3 / 2 * min (baseMs * 2 ^ (retry - 1)) maxMs
     \<and> backoffDelayMs retry baseMs maxMs (\<lambda>_. 0) = min (baseMs * 2 ^ (retry - 1)) maxMs"
proof -
  define e where "e = min (baseMs * 2 ^ (retry - 1)) maxMs"
  have form: "backoffDelayMs retry baseMs maxMs j = (if maxMs \<le> e then maxMs - j (maxMs / 2) else min (e + j (e / 2)) maxMs)" for j
    unfolding backoffDelayMs_def Let_def e_def by (rule refl)
  have "0 \<le> e" using assms(1,2) by (simp add: e_def)
  moreover have "e \<le> maxMs" by (simp add: e_def)
  ultimately have "e / 2 \<le> backoffDelayMs retry baseMs maxMs jitter \<and> backoffDelayMs retry baseMs maxMs jitter \<le> maxMs
      \<and> backoffDelayMs retry baseMs maxMs jitter \<le> 3 / 2 * e \<and> backoffDelayMs retry baseMs maxMs (\<lambda>_. 0) = e"
    using assms(3) [of "e / 2"] assms(3) [of "maxMs / 2"] assms(2) unfolding form by (auto simp: min_def)
  then show ?thesis by (simp only: e_def)
qed

theorem backoff_bounds_witness:
  "backoffDelayMs 3 1000 60000 (\<lambda>c. c / 2) \<le> 60000 \<and> 2000 \<le> backoffDelayMs 3 1000 60000 (\<lambda>c. c / 2)"
  using backoff_bounds [of 1000 60000 "\<lambda>c. c / 2" 3] by simp

text \<open>The spawn gate is bounded and opens by itself: a failure blocks for a delay within the cap that is
  never shorter than the one before, the remaining wait is exact at every later time, no attempt is
  blocked once it has passed, and a success unblocks at once.\<close>

theorem spawn_gate_bounds:
  assumes "recordFailure now g = (g', delay)" and "recordFailure later g' = (g'', delay')"
  shows "0 \<le> delay \<and> (sg_capMs g \<le> 0 \<or> delay \<le> sg_capMs g) \<and> delay \<le> delay'
     \<and> sg_failures g' = Suc (sg_failures g)
     \<and> (\<forall>t. blockedFor t g' = max 0 (now + delay - t) \<and> isBlocked t g' = (t < now + delay))
     \<and> blockedFor t0 (reset_gate g') = max 0 (- t0) \<and> sg_failures (reset_gate g') = 0"
proof -
  let ?b = "sg_baseMs g" and ?n = "sg_failures g"
  have d: "delay = delayFor g (Suc ?n)" and d': "delay' = delayFor g (Suc (Suc ?n))"
    and g': "g' = g\<lparr>sg_failures := Suc ?n, sg_blockedUntil := now + delay\<rparr>"
    using assms by (auto simp: recordFailure_def Let_def delayFor_def)
  have "(2::rat) ^ min ?n 26 \<le> 2 ^ min (Suc ?n) 26" by (rule power_increasing) auto
  then have "min (?b * 2 ^ min ?n 26) (sg_capMs g) \<le> min (?b * 2 ^ min (Suc ?n) 26) (sg_capMs g)" if "0 < ?b"
    using that by (intro min.mono mult_left_mono) auto
  then have "delay \<le> delay'" unfolding d d' delayFor_def by (simp add: not_le split: if_splits)
  moreover have "0 \<le> delay" and "sg_capMs g \<le> 0 \<or> delay \<le> sg_capMs g" by (auto simp: d delayFor_def)
  ultimately show ?thesis by (simp add: g' blockedFor_def isBlocked_def reset_gate_def)
qed

theorem spawn_gate_bounds_witness:
  "snd (recordFailure 10 (new_spawn_gate 5 60)) \<le> 60
   \<and> blockedFor 12 (fst (recordFailure 10 (new_spawn_gate 5 60))) = 3"
proof -
  have run: "recordFailure 10 (new_spawn_gate 5 60) = (fst (recordFailure 10 (new_spawn_gate 5 60)), 5)" by code_simp
  obtain g'' d' where run': "recordFailure 10 (fst (recordFailure 10 (new_spawn_gate 5 60))) = (g'', d')"
    by fastforce
  from spawn_gate_bounds [OF run run']
  have "blockedFor 12 (fst (recordFailure 10 (new_spawn_gate 5 60))) = max 0 (10 + 5 - 12)"
    and "sg_capMs (new_spawn_gate 5 60) \<le> 0 \<or> 5 \<le> sg_capMs (new_spawn_gate 5 60)" by blast+
  moreover have "snd (recordFailure 10 (new_spawn_gate 5 60)) = 5" by code_simp
  ultimately show ?thesis by simp
qed











end
