(* ===== verification/Provider_Classify.thy ===== *)
theory Provider_Classify
  imports Prelude
begin

text \<open>
  Which provider rejections may become an automatic wait: \<^verbatim>\<open>src/src/provider-recovery/classify.ts\<close>.
  \<open>JSON.parse\<close> is a parameter: the tree of a text, or \<open>None\<close> where it throws.
\<close>

record provider_evidence =
  pe_provider :: string
  pe_model :: string
  pe_status :: "nat option"
  pe_bodyCode :: "string option"
  pe_retryAfterMs :: "rat option"
  pe_errorMessage :: string

definition GLM_TEMPORARY_QUOTA_CODES :: "string list" where
  "GLM_TEMPORARY_QUOTA_CODES = [''1302'', ''1308'']"

definition GLM_BILLING_CODES :: "string list" where
  "GLM_BILLING_CODES = [''1113'']"

datatype owner_reason = Authentication | Permission | Billing | Unsupported_provider | Ambiguous

datatype limit_class = Temporary_recoverable "rat option" | Owner_controlled owner_reason

definition classify_body :: "provider_evidence \<Rightarrow> limit_class" where
  "classify_body ev =
     (if (\<exists>c\<in>set GLM_BILLING_CODES. pe_bodyCode ev = Some c) then Owner_controlled Billing
      else if (\<exists>c\<in>set GLM_TEMPORARY_QUOTA_CODES. pe_bodyCode ev = Some c) then Temporary_recoverable (pe_retryAfterMs ev)
      else if pe_status ev = Some 429 then Temporary_recoverable (pe_retryAfterMs ev)
      else Owner_controlled Ambiguous)"

definition classifyProviderRejection :: "provider_evidence \<Rightarrow> limit_class" where
  "classifyProviderRejection ev =
     (if pe_provider ev = [] \<or> pe_model ev = [] then Owner_controlled Ambiguous
      else if pe_status ev = Some 401 then Owner_controlled Authentication
      else if pe_status ev = Some 403 then Owner_controlled Permission
      else if pe_status ev = Some 402 then Owner_controlled Billing
      else classify_body ev)"

definition CLAUDE_NATIVE_PROVIDER :: string where "CLAUDE_NATIVE_PROVIDER = ''anthropic-claude-native''"

definition SENSOR_SUPPORTED_PROVIDERS :: "string list" where
  "SENSOR_SUPPORTED_PROVIDERS = [''zai-coding-cn'', ''openai-codex'', CLAUDE_NATIVE_PROVIDER]"

definition providerSupportsSensor :: "string \<Rightarrow> bool" where
  "providerSupportsSensor provider \<longleftrightarrow> provider \<in> set SENSOR_SUPPORTED_PROVIDERS"

subsection \<open>Evidence from an error line\<close>

definition int_str :: "int \<Rightarrow> string" where
  "int_str i = (if i < 0 then CHR ''-'' # nat_str (nat (- i)) else nat_str (nat i))"

text \<open>\<open>String(code)\<close> of an integer; JavaScript switches to exponents from \<open>10^21\<close> on, where \<open>number_str\<close> is a
  parameter.\<close>

definition code_of :: "(rat \<Rightarrow> string) \<Rightarrow> json \<Rightarrow> string option" where
  "code_of number_str code = (case code of
     JStr s \<Rightarrow> if s \<noteq> [] then Some s else None
   | JNum n \<Rightarrow> if n = of_int \<lfloor>n\<rfloor> then (if \<bar>n\<bar> < 10 ^ 21 then Some (int_str \<lfloor>n\<rfloor>) else Some (number_str n)) else None
   | _ \<Rightarrow> None)"

text \<open>A repeated key reads as its last value; the parser's tree has keys once.\<close>

definition parseBodyErrorCode :: "(string \<Rightarrow> json option) \<Rightarrow> (rat \<Rightarrow> string) \<Rightarrow> string \<Rightarrow> string option" where
  "parseBodyErrorCode parse number_str bodyText =
     (if bodyText = [] \<or> \<not> starts_with ''{'' bodyText then None
      else case parse bodyText of
        None \<Rightarrow> None
      | Some parsed \<Rightarrow> (case payload_get parsed ''error'' of
          None \<Rightarrow> None
        | Some err \<Rightarrow> (case payload_get err ''code'' of None \<Rightarrow> None | Some code \<Rightarrow> code_of number_str code)))"

definition three_digits :: "string \<Rightarrow> bool" where
  "three_digits s \<longleftrightarrow> length s = 3 \<and> list_all (\<lambda>c. CHR ''0'' \<le> c \<and> c \<le> CHR ''9'') s"

text \<open>The text before and after the first colon; no split at a colon in front.\<close>

definition split_line :: "string \<Rightarrow> string \<times> string" where
  "split_line message = (let before = takeWhile (\<lambda>c. c \<noteq> CHR '':'') message in
     if before \<noteq> [] \<and> before \<noteq> message then (js_trim before, js_trim (drop (Suc (length before)) message))
     else (js_trim message, []))"

definition extractProviderRejectionEvidence ::
  "(string \<Rightarrow> json option) \<Rightarrow> (rat \<Rightarrow> string) \<Rightarrow> string \<Rightarrow> string \<Rightarrow> string \<Rightarrow> rat option \<Rightarrow> provider_evidence" where
  "extractProviderRejectionEvidence parse number_str provider model errorMessage retryAfterMs =
     \<lparr>pe_provider = provider, pe_model = model,
      pe_status = (if three_digits (fst (split_line errorMessage)) then Some (str_nat (fst (split_line errorMessage))) else None),
      pe_bodyCode = parseBodyErrorCode parse number_str (snd (split_line errorMessage)),
      pe_retryAfterMs = retryAfterMs, pe_errorMessage = errorMessage\<rparr>"

subsection \<open>Properties\<close>

lemma classify_recoverable:
  "classifyProviderRejection ev = Temporary_recoverable ms \<longleftrightarrow>
     pe_provider ev \<noteq> [] \<and> pe_model ev \<noteq> [] \<and> pe_status ev \<notin> {Some 401, Some 402, Some 403}
     \<and> pe_bodyCode ev \<noteq> Some ''1113''
     \<and> (pe_bodyCode ev \<in> {Some ''1302'', Some ''1308''} \<or> pe_status ev = Some 429) \<and> ms = pe_retryAfterMs ev"
  by (auto simp: classifyProviderRejection_def classify_body_def GLM_BILLING_CODES_def GLM_TEMPORARY_QUOTA_CODES_def
      split: if_splits)

text \<open>What an error line says: an HTTP status in front of its first colon, and behind it a JSON object with an
  error code.\<close>

definition says_status :: "string \<Rightarrow> nat \<Rightarrow> bool" where
  "says_status message n \<longleftrightarrow> three_digits (fst (split_line message)) \<and> str_nat (fst (split_line message)) = n"

definition says_code :: "(string \<Rightarrow> json option) \<Rightarrow> (rat \<Rightarrow> string) \<Rightarrow> string \<Rightarrow> string \<Rightarrow> bool" where
  "says_code parse number_str message s \<longleftrightarrow> (\<exists>tree err code. starts_with ''{'' (snd (split_line message))
     \<and> parse (snd (split_line message)) = Some tree \<and> payload_get tree ''error'' = Some err
     \<and> payload_get err ''code'' = Some code \<and> code_of number_str code = Some s)"

lemma starts_with_nonempty: "starts_with ''{'' b \<Longrightarrow> b \<noteq> []"
  by (auto simp: starts_with_def)

lemma body_code_says:
  "parseBodyErrorCode parse number_str (snd (split_line message)) = Some s \<longleftrightarrow> says_code parse number_str message s"
  by (auto simp: parseBodyErrorCode_def says_code_def dest: starts_with_nonempty split: option.split)

lemma evidence_says:
  "pe_status (extractProviderRejectionEvidence parse number_str provider model message hint) = Some n \<longleftrightarrow> says_status message n"
  "pe_bodyCode (extractProviderRejectionEvidence parse number_str provider model message hint) = Some s
     \<longleftrightarrow> says_code parse number_str message s"
  "pe_provider (extractProviderRejectionEvidence parse number_str provider model message hint) = provider"
  "pe_model (extractProviderRejectionEvidence parse number_str provider model message hint) = model"
  "pe_retryAfterMs (extractProviderRejectionEvidence parse number_str provider model message hint) = hint"
  by (simp_all add: extractProviderRejectionEvidence_def says_status_def body_code_says)

lemma classify_owner:
  "classifyProviderRejection ev = Owner_controlled Authentication \<longleftrightarrow> pe_provider ev \<noteq> [] \<and> pe_model ev \<noteq> [] \<and> pe_status ev = Some 401"
  "classifyProviderRejection ev = Owner_controlled Permission \<longleftrightarrow> pe_provider ev \<noteq> [] \<and> pe_model ev \<noteq> [] \<and> pe_status ev = Some 403"
  "classifyProviderRejection ev = Owner_controlled Billing \<longleftrightarrow> pe_provider ev \<noteq> [] \<and> pe_model ev \<noteq> []
     \<and> (pe_status ev = Some 402 \<or> pe_status ev \<noteq> Some 401 \<and> pe_status ev \<noteq> Some 403 \<and> pe_bodyCode ev = Some ''1113'')"
  by (auto simp: classifyProviderRejection_def classify_body_def GLM_BILLING_CODES_def)

text \<open>C36. The sensor fails toward the owner, exactly: an error line becomes a temporary wait, with the caller's
  retry hint, if and only if provider and model are named, the line does not say 401, 402 or 403 in front of its
  first colon, the JSON object behind it does not carry the billing code 1113, and the line says 429 or the object
  carries one of the usage-window codes 1302 and 1308. A refused authentication or permission and a bill are told
  apart by the status, or by the billing code whatever other status stands with it; all else is ambiguous. No prose
  decides anything.\<close>

theorem rejection_fails_to_owner:
  "let class = classifyProviderRejection (extractProviderRejectionEvidence parse number_str provider model message hint);
       status = says_status message; code = says_code parse number_str message
   in (class = Temporary_recoverable ms \<longleftrightarrow> provider \<noteq> [] \<and> model \<noteq> [] \<and> \<not> status 401 \<and> \<not> status 402 \<and> \<not> status 403
         \<and> \<not> code ''1113'' \<and> (status 429 \<or> code ''1302'' \<or> code ''1308'') \<and> ms = hint)
    \<and> (class = Owner_controlled Authentication \<longleftrightarrow> provider \<noteq> [] \<and> model \<noteq> [] \<and> status 401)
    \<and> (class = Owner_controlled Permission \<longleftrightarrow> provider \<noteq> [] \<and> model \<noteq> [] \<and> status 403)
    \<and> (class = Owner_controlled Billing \<longleftrightarrow> provider \<noteq> [] \<and> model \<noteq> []
         \<and> (status 402 \<or> code ''1113'' \<and> \<not> status 401 \<and> \<not> status 403))"
  unfolding Let_def classify_recoverable classify_owner
  by (simp add: evidence_says) blast

text \<open>A 429 whose body carries the billing code is the owner's; a bare 429 waits.\<close>

definition quoted :: "string \<Rightarrow> string" where
  "quoted s = CHR 0x22 # s @ [CHR 0x22]"

definition billing_body :: string where
  "billing_body = ''{'' @ quoted ''error'' @ '':{'' @ quoted ''code'' @ '':'' @ quoted ''1113'' @ ''}}''"

definition billing_line :: string where
  "billing_line = ''429: '' @ billing_body"

definition billing_parse :: "string \<Rightarrow> json option" where
  "billing_parse s = (if s = billing_body then Some (JObj [(''error'', JObj [(''code'', JStr ''1113'')])]) else None)"

theorem rejection_fails_to_owner_witness:
  "classifyProviderRejection (extractProviderRejectionEvidence billing_parse (\<lambda>_. []) ''zai-coding-cn'' ''glm'' billing_line None)
     = Owner_controlled Billing
   \<and> classifyProviderRejection (extractProviderRejectionEvidence (\<lambda>_. None) (\<lambda>_. []) ''zai-coding-cn'' ''glm''
      ''429: usage limit'' (Some 1000)) = Temporary_recoverable (Some 1000)"
proof -
  have "says_code billing_parse (\<lambda>_. []) billing_line ''1113''"
    unfolding body_code_says [symmetric] by code_simp
  moreover have "\<not> says_status billing_line 401" "\<not> says_status billing_line 403" by code_simp+
  moreover have "\<not> starts_with ''{'' (snd (split_line ''429: usage limit''))" by code_simp
  then have "\<not> says_code (\<lambda>_. None) (\<lambda>_. []) ''429: usage limit'' s" for s by (simp add: says_code_def)
  moreover have "says_status ''429: usage limit'' 429" "\<not> says_status ''429: usage limit'' 401"
    "\<not> says_status ''429: usage limit'' 402" "\<not> says_status ''429: usage limit'' 403" by code_simp+
  ultimately show ?thesis
    using rejection_fails_to_owner [unfolded Let_def, of billing_parse "\<lambda>_. []" "''zai-coding-cn''" "''glm''" billing_line None]
      rejection_fails_to_owner [unfolded Let_def, of "\<lambda>_. None" "\<lambda>_. []" "''zai-coding-cn''" "''glm''" "''429: usage limit''" "Some 1000"]
    by simp
qed

end
