(* ===== verification/Resident_Budget.thy ===== *)
theory Resident_Budget
  imports Admission "HOL-Library.Product_Lexorder"
begin

text \<open>
  The permits of resident workers: \<^verbatim>\<open>src/src/runtime/resident-budget.ts\<close>. A waiting promise is a ticket and
  what it settles with an effect; a release closure is a permit that is gone once used. A worker's
  health, role and eligibility, the caller's abort signals and the clock are what one operation finds
  (\<open>budget_env\<close>). Disposal of a reclaimed worker is asynchronous: its failure and its end are operations
  of their own.
\<close>

record idle_record =
  ir_at :: "int option"
  ir_order :: nat

record budget_request =
  rq_ticket :: nat
  rq_count :: int
  rq_signal :: "nat option"

record resident_budget =
  rb_capacity :: int
  rb_used :: int
  rb_waiting :: "budget_request list"
  rb_idle :: "(nat \<times> idle_record) list"
  rb_nextIdleOrder :: nat
  rb_reclaiming :: bool
  rb_stopped :: bool
  rb_epoch :: nat
  rb_epochHead :: "nat option"
  rb_epochTried :: "nat list"
  rb_reclaimFailures :: nat
  rb_nextTicket :: nat
  rb_permits :: "(nat \<times> int) list"
  rb_nextPermit :: nat

text \<open>\<open>be_idle h\<close>: the worker's health reads idle and its \<open>eligible\<close> holds, neither throwing.\<close>

record budget_env =
  be_now :: int
  be_idle :: "nat \<Rightarrow> bool"
  be_minion :: "nat \<Rightarrow> bool"
  be_agentId :: "nat \<Rightarrow> string"
  be_aborted :: "nat \<Rightarrow> bool"

datatype budget_error = Bad_capacity int | Cannot_fit int int | Admission_cancelled

datatype budget_effect =
    Granted nat nat
  | Cancelled nat
  | Reclaim_exhausted nat nat
  | Dispose nat

record reclaim_failure =
  rf_agentId :: string
  rf_generation :: nat
  rf_attempt :: nat
  rf_error :: string

definition new_budget :: "int \<Rightarrow> budget_error + resident_budget" where
  "new_budget capacity =
     (if capacity < 1 \<or> capacity > 2 ^ 53 - 1 then Inl (Bad_capacity capacity)
      else Inr \<lparr>rb_capacity = capacity, rb_used = 0, rb_waiting = [], rb_idle = [], rb_nextIdleOrder = 0,
        rb_reclaiming = False, rb_stopped = False, rb_epoch = 0, rb_epochHead = None, rb_epochTried = [],
        rb_reclaimFailures = 0, rb_nextTicket = 0, rb_permits = [], rb_nextPermit = 0\<rparr>)"

definition available :: "resident_budget \<Rightarrow> int" where
  "available B = rb_capacity B - rb_used B"

definition eligibleIdleCount :: "budget_env \<Rightarrow> resident_budget \<Rightarrow> nat" where
  "eligibleIdleCount E B = length (filter (\<lambda>(h, r). be_minion E h \<and> be_idle E h) (rb_idle B))"

subsection \<open>Warm workers\<close>

text \<open>\<open>Map.set\<close>: a known key keeps its place, a new one goes last.\<close>

fun map_set :: "nat \<Rightarrow> 'v \<Rightarrow> (nat \<times> 'v) list \<Rightarrow> (nat \<times> 'v) list" where
  "map_set k v [] = [(k, v)]"
| "map_set k v ((j, w) # ps) = (if j = k then (k, v) # ps else (j, w) # map_set k v ps)"

definition map_delete :: "nat \<Rightarrow> (nat \<times> 'v) list \<Rightarrow> (nat \<times> 'v) list" where
  "map_delete k ps = filter (\<lambda>p. fst p \<noteq> k) ps"

definition watch :: "budget_env \<Rightarrow> nat \<Rightarrow> int option \<Rightarrow> resident_budget \<Rightarrow> resident_budget" where
  "watch E h since B = B\<lparr>
     rb_idle := map_set h \<lparr>ir_at = (if be_idle E h then Some (case since of None \<Rightarrow> be_now E | Some t \<Rightarrow> t) else None),
                          ir_order = rb_nextIdleOrder B\<rparr> (rb_idle B),
     rb_nextIdleOrder := Suc (rb_nextIdleOrder B)\<rparr>"

definition unwatch :: "nat \<Rightarrow> resident_budget \<Rightarrow> resident_budget" where
  "unwatch h B = B\<lparr>rb_idle := map_delete h (rb_idle B)\<rparr>"

fun refresh_records :: "budget_env \<Rightarrow> nat \<Rightarrow> (nat \<times> idle_record) list \<Rightarrow> (nat \<times> idle_record) list \<times> nat" where
  "refresh_records E n [] = ([], n)"
| "refresh_records E n ((h, r) # ps) =
     (if \<not> be_idle E h then map_prod (\<lambda>qs. (h, r\<lparr>ir_at := None\<rparr>) # qs) id (refresh_records E n ps)
      else if ir_at r = None
      then map_prod (\<lambda>qs. (h, \<lparr>ir_at = Some (be_now E), ir_order = n\<rparr>) # qs) id (refresh_records E (Suc n) ps)
      else map_prod (\<lambda>qs. (h, r) # qs) id (refresh_records E n ps))"

definition refresh_idle :: "budget_env \<Rightarrow> resident_budget \<Rightarrow> resident_budget" where
  "refresh_idle E B = B\<lparr>rb_idle := fst (refresh_records E (rb_nextIdleOrder B) (rb_idle B)),
                       rb_nextIdleOrder := snd (refresh_records E (rb_nextIdleOrder B) (rb_idle B))\<rparr>"

text \<open>The idle minions not tried in this epoch, the longest idle first.\<close>

definition candidates :: "budget_env \<Rightarrow> resident_budget \<Rightarrow> (nat \<times> idle_record) list" where
  "candidates E B = filter (\<lambda>(h, r). be_minion E h \<and> ir_at r \<noteq> None \<and> h \<notin> set (rb_epochTried B)) (rb_idle B)"

definition idle_key :: "nat \<times> idle_record \<Rightarrow> int \<times> nat" where
  "idle_key p = (case ir_at (snd p) of None \<Rightarrow> 0 | Some t \<Rightarrow> t, ir_order (snd p))"

definition reclaim_candidate :: "budget_env \<Rightarrow> resident_budget \<Rightarrow> nat option" where
  "reclaim_candidate E B = (case sort_key idle_key (candidates E B) of [] \<Rightarrow> None | p # ps \<Rightarrow> Some (fst p))"

subsection \<open>Draining the queue\<close>

definition signal_aborted :: "budget_env \<Rightarrow> nat option \<Rightarrow> bool" where
  "signal_aborted E signal = (case signal of None \<Rightarrow> False | Some s \<Rightarrow> be_aborted E s)"

definition start_epoch :: "nat \<Rightarrow> resident_budget \<Rightarrow> resident_budget" where
  "start_epoch t B =
     (if rb_epochHead B = Some t then B
      else B\<lparr>rb_epochHead := Some t, rb_epoch := Suc (rb_epoch B), rb_epochTried := []\<rparr>)"

definition mint_permit :: "int \<Rightarrow> resident_budget \<Rightarrow> resident_budget" where
  "mint_permit n B = B\<lparr>rb_used := rb_used B + n, rb_permits := rb_permits B @ [(rb_nextPermit B, n)],
                      rb_nextPermit := Suc (rb_nextPermit B)\<rparr>"

text \<open>The end of one drain: the head does not fit and nobody is being reclaimed.\<close>

definition reclaim_or_reject :: "budget_env \<Rightarrow> budget_request \<Rightarrow> resident_budget \<Rightarrow> resident_budget \<times> budget_effect list" where
  "reclaim_or_reject E head B =
     (case reclaim_candidate E B of
        None \<Rightarrow> if rb_epochTried B = [] then (B, [])
                else (B\<lparr>rb_waiting := tl (rb_waiting B)\<rparr>, [Reclaim_exhausted (rq_ticket head) (length (rb_epochTried B))])
      | Some h \<Rightarrow> (B\<lparr>rb_reclaiming := True, rb_idle := map_delete h (rb_idle B)\<rparr>, [Dispose h]))"

lemma refresh_idle_waiting [simp]: "rb_waiting (refresh_idle E B) = rb_waiting B"
  by (simp add: refresh_idle_def)

lemma start_epoch_waiting [simp]: "rb_waiting (start_epoch t B) = rb_waiting B"
  by (simp add: start_epoch_def)

lemma mint_permit_waiting [simp]: "rb_waiting (mint_permit n B) = rb_waiting B"
  by (simp add: mint_permit_def)

function drain :: "budget_env \<Rightarrow> resident_budget \<Rightarrow> resident_budget \<times> budget_effect list" where
  "drain E B =
     (if rb_stopped B then (B, [])
      else case rb_waiting B of
        [] \<Rightarrow> (refresh_idle E B, [])
      | head # rest \<Rightarrow>
          if signal_aborted E (rq_signal head) then
            map_prod id (\<lambda>es. Cancelled (rq_ticket head) # es) (drain E ((refresh_idle E B)\<lparr>rb_waiting := rest\<rparr>))
          else let B' = start_epoch (rq_ticket head) (refresh_idle E B) in
            if rq_count head \<le> available B' then
              map_prod id (\<lambda>es. Granted (rq_ticket head) (rb_nextPermit B') # es)
                (drain E ((mint_permit (rq_count head) B')\<lparr>rb_waiting := rest\<rparr>))
            else if rb_reclaiming B' then (B', [])
            else reclaim_or_reject E head B')"
  by pat_completeness auto
termination by (relation "measure (\<lambda>(E, B). length (rb_waiting B))") auto

declare drain.simps [simp del]

subsection \<open>The operations\<close>

definition changed :: "budget_env \<Rightarrow> resident_budget \<Rightarrow> resident_budget \<times> budget_effect list" where
  "changed E B = drain E B"

definition budget_acquire ::
  "budget_env \<Rightarrow> int \<Rightarrow> nat option \<Rightarrow> resident_budget \<Rightarrow> budget_error + (resident_budget \<times> nat \<times> budget_effect list)" where
  "budget_acquire E n signal B =
     (if n < 1 \<or> n > rb_capacity B then Inl (Cannot_fit n (rb_capacity B))
      else if rb_stopped B \<or> signal_aborted E signal then Inl Admission_cancelled
      else case drain E (B\<lparr>rb_waiting := rb_waiting B @ [\<lparr>rq_ticket = rb_nextTicket B, rq_count = n, rq_signal = signal\<rparr>],
                          rb_nextTicket := Suc (rb_nextTicket B)\<rparr>) of
        (B', es) \<Rightarrow> Inr (B', rb_nextTicket B, es))"

text \<open>The abort listener of one request; a request that has left the queue ignores it.\<close>

definition on_abort :: "budget_env \<Rightarrow> nat \<Rightarrow> resident_budget \<Rightarrow> resident_budget \<times> budget_effect list" where
  "on_abort E t B =
     (if t \<notin> rq_ticket ` set (rb_waiting B) then (B, [])
      else map_prod id (\<lambda>es. Cancelled t # es)
             (drain E (B\<lparr>rb_waiting := filter (\<lambda>r. rq_ticket r \<noteq> t) (rb_waiting B)\<rparr>)))"

definition tryAcquire :: "resident_budget \<Rightarrow> (resident_budget \<times> nat) option" where
  "tryAcquire B =
     (if rb_stopped B \<or> rb_waiting B \<noteq> [] \<or> rb_used B \<ge> rb_capacity B then None
      else Some (mint_permit 1 B, rb_nextPermit B))"

text \<open>\<open>releaseOnce\<close>: the permit's closure; only its first call counts.\<close>

definition release_permit :: "budget_env \<Rightarrow> nat \<Rightarrow> resident_budget \<Rightarrow> resident_budget \<times> budget_effect list" where
  "release_permit E p B = (case map_of (rb_permits B) p of
     None \<Rightarrow> (B, [])
   | Some n \<Rightarrow> drain E (B\<lparr>rb_used := rb_used B - n, rb_permits := map_delete p (rb_permits B)\<rparr>))"

definition reclaim_failed :: "budget_env \<Rightarrow> nat \<Rightarrow> string \<Rightarrow> resident_budget \<Rightarrow> resident_budget \<times> reclaim_failure" where
  "reclaim_failed E h err B =
     (let tried = (if h \<in> set (rb_epochTried B) then rb_epochTried B else rb_epochTried B @ [h]) in
      (B\<lparr>rb_reclaimFailures := Suc (rb_reclaimFailures B), rb_epochTried := tried\<rparr>,
       \<lparr>rf_agentId = be_agentId E h, rf_generation = rb_epoch B, rf_attempt = length tried, rf_error = err\<rparr>))"

definition reclaim_settled :: "budget_env \<Rightarrow> resident_budget \<Rightarrow> resident_budget \<times> budget_effect list" where
  "reclaim_settled E B = drain E (B\<lparr>rb_reclaiming := False\<rparr>)"

definition budget_shutdown :: "resident_budget \<Rightarrow> resident_budget \<times> budget_effect list" where
  "budget_shutdown B = (B\<lparr>rb_stopped := True, rb_waiting := []\<rparr>, map (\<lambda>r. Cancelled (rq_ticket r)) (rb_waiting B))"


subsection \<open>The invariant\<close>

definition permits_ok :: "resident_budget \<Rightarrow> bool" where
  "permits_ok B \<longleftrightarrow> rb_used B = sum_list (map snd (rb_permits B)) \<and> rb_used B \<le> rb_capacity B
     \<and> distinct (map fst (rb_permits B)) \<and> (\<forall>p n. (p, n) \<in> set (rb_permits B) \<longrightarrow> 1 \<le> n \<and> p < rb_nextPermit B)"

definition requests_ok :: "resident_budget \<Rightarrow> bool" where
  "requests_ok B \<longleftrightarrow> distinct (map rq_ticket (rb_waiting B))
     \<and> (\<forall>r\<in>set (rb_waiting B). 1 \<le> rq_count r \<and> rq_count r \<le> rb_capacity B \<and> rq_ticket r < rb_nextTicket B)"

definition idle_ok :: "resident_budget \<Rightarrow> bool" where
  "idle_ok B \<longleftrightarrow> distinct (map fst (rb_idle B)) \<and> (\<forall>h r. (h, r) \<in> set (rb_idle B) \<longrightarrow> ir_order r < rb_nextIdleOrder B)
     \<and> (rb_stopped B \<longrightarrow> rb_waiting B = [])"

definition budget_ok :: "resident_budget \<Rightarrow> bool" where
  "budget_ok B \<longleftrightarrow> permits_ok B \<and> requests_ok B \<and> idle_ok B"

abbreviation queued_tickets :: "resident_budget \<Rightarrow> nat list" where
  "queued_tickets B \<equiv> map rq_ticket (rb_waiting B)"

fun effect_events :: "budget_effect \<Rightarrow> nat admission list" where
  "effect_events (Granted t p) = [Admitted t]"
| "effect_events (Cancelled t) = [Left t]"
| "effect_events (Reclaim_exhausted t n) = [Left t]"
| "effect_events (Dispose h) = []"

subsection \<open>What the parts keep\<close>

lemma keys_map_set [simp]: "set (map fst (map_set k v ps)) = insert k (set (map fst ps))"
  by (induction k v ps rule: map_set.induct) (simp_all add: insert_commute)

lemma distinct_map_set: "distinct (map fst ps) \<Longrightarrow> distinct (map fst (map_set k v ps))"
proof (induction k v ps rule: map_set.induct)
  case (2 k v j w ps)
  have "set (map fst (map_set k v ps)) = insert k (set (map fst ps))" by (rule keys_map_set)
  with 2 show ?case by auto
qed simp

lemma map_set_values: "p \<in> set (map_set k v ps) \<Longrightarrow> p = (k, v) \<or> p \<in> set ps"
  by (induction k v ps rule: map_set.induct) (auto split: if_splits)

lemma distinct_map_delete: "distinct (map fst ps) \<Longrightarrow> distinct (map fst (map_delete k ps))"
  by (simp add: map_delete_def distinct_map_filter)

lemma map_delete_subset: "p \<in> set (map_delete k ps) \<Longrightarrow> p \<in> set ps"
  by (simp add: map_delete_def)

lemma refresh_handles [simp]: "map fst (fst (refresh_records E n ps)) = map fst ps"
  by (induction E n ps rule: refresh_records.induct) auto

lemma refresh_grows: "n \<le> snd (refresh_records E n ps)"
  by (induction E n ps rule: refresh_records.induct) (auto intro: le_trans [OF le_SucI [OF order_refl]])

lemma refresh_orders:
  assumes "\<forall>h r. (h, r) \<in> set ps \<longrightarrow> ir_order r < n"
  shows "\<forall>h r. (h, r) \<in> set (fst (refresh_records E n ps)) \<longrightarrow> ir_order r < snd (refresh_records E n ps)"
  using assms
proof (induction E n ps rule: refresh_records.induct)
  case (2 E n h r ps)
  have all: "\<forall>h r. (h, r) \<in> set ps \<longrightarrow> ir_order r < n" "\<forall>h r. (h, r) \<in> set ps \<longrightarrow> ir_order r < Suc n"
    using "2.prems" by (auto intro: less_SucI)
  have "ir_order r < n" using "2.prems" by simp
  then have "ir_order r < snd (refresh_records E n ps)" "n < snd (refresh_records E (Suc n) ps)"
    using refresh_grows [of n E ps] refresh_grows [of "Suc n" E ps] by simp_all
  then show ?case using "2.IH" all by (auto split: if_splits)
qed simp

lemma refresh_frame [simp]:
  "rb_capacity (refresh_idle E B) = rb_capacity B" "rb_used (refresh_idle E B) = rb_used B"
  "rb_permits (refresh_idle E B) = rb_permits B" "rb_nextPermit (refresh_idle E B) = rb_nextPermit B"
  "rb_nextTicket (refresh_idle E B) = rb_nextTicket B" "rb_stopped (refresh_idle E B) = rb_stopped B"
  "rb_reclaiming (refresh_idle E B) = rb_reclaiming B" "rb_epochTried (refresh_idle E B) = rb_epochTried B"
  by (simp_all add: refresh_idle_def)

lemma epoch_frame [simp]:
  "rb_capacity (start_epoch t B) = rb_capacity B" "rb_used (start_epoch t B) = rb_used B"
  "rb_permits (start_epoch t B) = rb_permits B" "rb_nextPermit (start_epoch t B) = rb_nextPermit B"
  "rb_nextTicket (start_epoch t B) = rb_nextTicket B" "rb_stopped (start_epoch t B) = rb_stopped B"
  "rb_reclaiming (start_epoch t B) = rb_reclaiming B" "rb_idle (start_epoch t B) = rb_idle B"
  "rb_nextIdleOrder (start_epoch t B) = rb_nextIdleOrder B" "available (start_epoch t B) = available B"
  by (simp_all add: start_epoch_def available_def)

lemma mint_frame [simp]:
  "rb_capacity (mint_permit n B) = rb_capacity B" "rb_nextTicket (mint_permit n B) = rb_nextTicket B"
  "rb_stopped (mint_permit n B) = rb_stopped B" "rb_idle (mint_permit n B) = rb_idle B"
  "rb_nextIdleOrder (mint_permit n B) = rb_nextIdleOrder B"
  by (simp_all add: mint_permit_def)

lemma refresh_ok [simp]: "budget_ok B \<Longrightarrow> budget_ok (refresh_idle E B)"
  using refresh_orders [of "rb_idle B" "rb_nextIdleOrder B" E]
  by (auto simp: budget_ok_def permits_ok_def requests_ok_def idle_ok_def refresh_idle_def)

lemma epoch_ok [simp]: "budget_ok (start_epoch t B) = budget_ok B"
  by (simp add: budget_ok_def permits_ok_def requests_ok_def idle_ok_def)

lemma mint_ok: "budget_ok B \<Longrightarrow> 1 \<le> n \<Longrightarrow> n \<le> available B \<Longrightarrow> budget_ok (mint_permit n B)"
  unfolding budget_ok_def
  by (auto simp: permits_ok_def requests_ok_def idle_ok_def mint_permit_def available_def intro: less_SucI)
    (use less_irrefl in blast)+

lemma waiting_ok: "budget_ok B \<Longrightarrow> set rs \<subseteq> set (rb_waiting B) \<Longrightarrow> distinct (map rq_ticket rs)
    \<Longrightarrow> budget_ok (B\<lparr>rb_waiting := rs\<rparr>)"
  by (auto simp: budget_ok_def permits_ok_def requests_ok_def idle_ok_def)

lemma idle_delete_ok: "budget_ok B \<Longrightarrow> budget_ok (B\<lparr>rb_reclaiming := b, rb_idle := map_delete h (rb_idle B)\<rparr>)"
  by (auto simp: budget_ok_def permits_ok_def requests_ok_def idle_ok_def distinct_map_delete dest: map_delete_subset)

lemma drain_stopped [simp]: "rb_stopped B \<Longrightarrow> drain E B = (B, [])"
  by (simp add: drain.simps)


subsection \<open>What a drain does\<close>

text \<open>The queue is settled: stopped, empty, or its head does not fit and nothing more can be reclaimed for it.\<close>

definition queue_settled :: "budget_env \<Rightarrow> resident_budget \<Rightarrow> bool" where
  "queue_settled E B \<longleftrightarrow> rb_stopped B \<or> rb_waiting B = []
     \<or> available B < rq_count (hd (rb_waiting B))
       \<and> (rb_reclaiming B \<or> reclaim_candidate E B = None \<and> rb_epochTried B = [])"

definition ends_exhausted :: "budget_effect list \<Rightarrow> bool" where
  "ends_exhausted es \<longleftrightarrow> (\<exists>t n. es \<noteq> [] \<and> last es = Reclaim_exhausted t n)"

lemma ends_exhausted_Cons: "ends_exhausted es \<Longrightarrow> ends_exhausted (e # es)"
  by (auto simp: ends_exhausted_def)

text \<open>A grant names a request that waited and the permit it got, which holds all it asked for.\<close>

definition grants_whole :: "budget_request list \<Rightarrow> resident_budget \<Rightarrow> budget_effect list \<Rightarrow> bool" where
  "grants_whole rs B es \<longleftrightarrow> (\<forall>t p. Granted t p \<in> set es \<longrightarrow> (\<exists>r\<in>set rs. rq_ticket r = t \<and> (p, rq_count r) \<in> set (rb_permits B)))"

text \<open>Since when a watched worker that is idle now has been idle, by its own record: the recorded time, or now when
  it was last seen busy. The order of the records breaks ties.\<close>

definition idle_from :: "budget_env \<Rightarrow> idle_record \<Rightarrow> int" where
  "idle_from E r = (case ir_at r of None \<Rightarrow> be_now E | Some t \<Rightarrow> t)"

definition idle_longer :: "budget_env \<Rightarrow> idle_record \<Rightarrow> idle_record \<Rightarrow> bool" where
  "idle_longer E r q \<longleftrightarrow> idle_from E r < idle_from E q
     \<or> idle_from E r = idle_from E q \<and> (ir_at q \<noteq> None \<longrightarrow> ir_at r \<noteq> None \<and> ir_order r \<le> ir_order q)"

text \<open>\<open>h\<close> has its record in the table, and no idle minion of the table that was not tried has been idle longer.\<close>

definition oldest_idle :: "budget_env \<Rightarrow> nat list \<Rightarrow> (nat \<times> idle_record) list \<Rightarrow> nat \<Rightarrow> bool" where
  "oldest_idle E tried ps h \<longleftrightarrow> (\<exists>r. (h, r) \<in> set ps
     \<and> (\<forall>k q. (k, q) \<in> set ps \<longrightarrow> be_minion E k \<longrightarrow> be_idle E k \<longrightarrow> k \<notin> set tried \<longrightarrow> idle_longer E r q))"

text \<open>From \<open>B\<close> to \<open>B'\<close> only an idle minion is disposed of, the longest idle of those not tried by the records of
  \<open>B\<close>, and it leaves the table.\<close>

definition disposes_oldest :: "budget_env \<Rightarrow> resident_budget \<Rightarrow> resident_budget \<Rightarrow> budget_effect list \<Rightarrow> bool" where
  "disposes_oldest E B B' es \<longleftrightarrow> (\<forall>h. Dispose h \<in> set es \<longrightarrow>
     be_minion E h \<and> be_idle E h \<and> h \<notin> set (rb_epochTried B') \<and> rb_reclaiming B' \<and> h \<notin> fst ` set (rb_idle B')
     \<and> oldest_idle E (rb_epochTried B') (rb_idle B) h)"

lemma disposes_none [simp]: "disposes_oldest E B B' []"
  by (simp add: disposes_oldest_def)

lemma refreshed_idle: "(h, r) \<in> set (fst (refresh_records E n ps)) \<Longrightarrow> (ir_at r \<noteq> None) = be_idle E h"
  by (induction E n ps rule: refresh_records.induct) (auto split: if_splits)

text \<open>What a refresh makes of the record of an idle worker.\<close>

definition refreshed :: "budget_env \<Rightarrow> nat \<Rightarrow> idle_record \<Rightarrow> idle_record \<Rightarrow> bool" where
  "refreshed E n r r' \<longleftrightarrow> ir_at r' = Some (idle_from E r) \<and> (if ir_at r = None then n \<le> ir_order r' else ir_order r' = ir_order r)"

lemma refreshed_later: "refreshed E (Suc n) r r' \<Longrightarrow> refreshed E n r r'"
  by (auto simp: refreshed_def split: if_splits)

lemma refreshed_one:
  "be_idle E h \<Longrightarrow> ir_at r = None \<Longrightarrow> refreshed E n r \<lparr>ir_at = Some (be_now E), ir_order = n\<rparr>"
  "ir_at r \<noteq> None \<Longrightarrow> refreshed E n r r"
  by (auto simp: refreshed_def idle_from_def)

lemma refreshed_from:
  "(h, r') \<in> set (fst (refresh_records E n ps)) \<Longrightarrow> be_idle E h \<Longrightarrow> \<exists>r. (h, r) \<in> set ps \<and> refreshed E n r r'"
proof (induction E n ps rule: refresh_records.induct)
  case (2 E n k q ps)
  consider "\<not> be_idle E k" | "be_idle E k" "ir_at q = None" | "be_idle E k" "ir_at q \<noteq> None" by blast
  then show ?case
  proof cases
    case 1
    then have "(h, r') \<in> set (fst (refresh_records E n ps))" using "2.prems" by auto
    from "2.IH"(1) [OF 1 this "2.prems"(2)] show ?thesis by auto
  next
    case fresh: 2
    then have "h = k \<and> r' = \<lparr>ir_at = Some (be_now E), ir_order = n\<rparr> \<or> (h, r') \<in> set (fst (refresh_records E (Suc n) ps))"
      using "2.prems" by auto
    then show ?thesis
    proof
      assume "h = k \<and> r' = \<lparr>ir_at = Some (be_now E), ir_order = n\<rparr>"
      then show ?thesis using refreshed_one(1) [of E k q n] fresh by auto
    next
      assume "(h, r') \<in> set (fst (refresh_records E (Suc n) ps))"
      from "2.IH"(2) [OF _ fresh(2) this "2.prems"(2)] fresh(1) show ?thesis by (auto dest: refreshed_later)
    qed
  next
    case known: 3
    then have "h = k \<and> r' = q \<or> (h, r') \<in> set (fst (refresh_records E n ps))" using "2.prems" by auto
    then show ?thesis
    proof
      assume "h = k \<and> r' = q"
      then show ?thesis using refreshed_one(2) [of q E n] known by auto
    next
      assume "(h, r') \<in> set (fst (refresh_records E n ps))"
      from "2.IH"(3) [OF _ known(2) this "2.prems"(2)] known(1) show ?thesis by auto
    qed
  qed
qed simp

lemma refreshed_to:
  assumes "(h, r) \<in> set ps" and "be_idle E h"
  shows "\<exists>r'. (h, r') \<in> set (fst (refresh_records E n ps)) \<and> refreshed E n r r'"
  using assms(1)
proof (induction ps arbitrary: n)
  case (Cons p ps)
  obtain k q where p: "p = (k, q)" by fastforce
  show ?case
  proof (cases "p = (h, r)")
    case True
    show ?thesis
    proof (cases "ir_at r")
      case None
      then show ?thesis using True assms(2) refreshed_one(1) [of E h r n] by auto
    next
      case (Some t)
      then show ?thesis using True assms(2) refreshed_one(2) [of r E n] by auto
    qed
  next
    case False
    then have r: "(h, r) \<in> set ps" using Cons.prems by simp
    show ?thesis using Cons.IH [OF r, of n] Cons.IH [OF r, of "Suc n"] p by (auto dest: refreshed_later)
  qed
qed simp

text \<open>A refresh does not change who has been idle longest.\<close>

lemma refresh_oldest:
  assumes "\<forall>h r. (h, r) \<in> set ps \<longrightarrow> ir_order r < n" and "be_idle E h"
    and "oldest_idle E tried (fst (refresh_records E n ps)) h"
  shows "oldest_idle E tried ps h"
proof -
  from assms(3) obtain r' where r': "(h, r') \<in> set (fst (refresh_records E n ps))"
    and least: "\<And>k q. (k, q) \<in> set (fst (refresh_records E n ps)) \<Longrightarrow> be_minion E k \<Longrightarrow> be_idle E k \<Longrightarrow> k \<notin> set tried
      \<Longrightarrow> idle_longer E r' q" unfolding oldest_idle_def by blast
  from refreshed_from [OF r' assms(2)] obtain r where r: "(h, r) \<in> set ps" "refreshed E n r r'" by blast
  have "idle_longer E r q" if q: "(k, q) \<in> set ps" "be_minion E k" "be_idle E k" "k \<notin> set tried" for k q
  proof -
    from refreshed_to [OF q(1,3)] obtain q' where q': "(k, q') \<in> set (fst (refresh_records E n ps))" "refreshed E n q q'" by blast
    have "idle_longer E r' q'" using least [OF q'(1) q(2-4)] .
    moreover have "ir_order q < n" using assms(1) q(1) by blast
    ultimately show ?thesis using r(2) q'(2) by (auto simp: idle_longer_def refreshed_def idle_from_def split: if_splits)
  qed
  with r(1) show ?thesis unfolding oldest_idle_def by blast
qed

lemma disposes_refreshed:
  assumes "budget_ok B" and "disposes_oldest E B\<^sub>1 B' es" and "rb_idle B\<^sub>1 = rb_idle (refresh_idle E B)"
  shows "disposes_oldest E B B' es"
  using assms refresh_oldest [of "rb_idle B" "rb_nextIdleOrder B" E]
  by (auto simp: disposes_oldest_def refresh_idle_def budget_ok_def idle_ok_def)

lemma reclaim_candidate_facts:
  assumes "reclaim_candidate E B = Some h"
  shows "\<exists>r. (h, r) \<in> set (candidates E B) \<and> (\<forall>q\<in>set (candidates E B). idle_key (h, r) \<le> idle_key q)"
proof -
  from assms obtain r ps where sorted: "sort_key idle_key (candidates E B) = (h, r) # ps"
    by (auto simp: reclaim_candidate_def split: list.splits)
  have "sorted (map idle_key ((h, r) # ps))" using sorted sorted_sort_key [of idle_key "candidates E B"] by simp
  moreover have "set (candidates E B) = set ((h, r) # ps)" using sorted set_sort [of idle_key "candidates E B"] by simp
  ultimately show ?thesis by (intro exI [of _ r]) auto
qed

lemma reclaim_or_reject_facts:
  assumes "budget_ok B" and "rb_waiting B = head # rest" and "\<not> rq_count head \<le> available B" and "\<not> rb_reclaiming B"
    and "reclaim_or_reject E head B = (B', es)"
    and "\<forall>h r. (h, r) \<in> set (rb_idle B) \<longrightarrow> (ir_at r \<noteq> None) = be_idle E h"
  shows "budget_ok B' \<and> replay (concat (map effect_events es)) (queued_tickets B) = Some (queued_tickets B')
     \<and> rb_capacity B' = rb_capacity B \<and> rb_nextTicket B' = rb_nextTicket B \<and> rb_permits B' = rb_permits B
     \<and> (queue_settled E B' \<or> ends_exhausted es) \<and> disposes_oldest E B B' es \<and> (\<forall>t p. Granted t p \<notin> set es)"
proof (cases "reclaim_candidate E B")
  case None
  show ?thesis
  proof (cases "rb_epochTried B = []")
    case True
    then show ?thesis using None assms
      by (auto simp: reclaim_or_reject_def queue_settled_def disposes_oldest_def)
  next
    case False
    have "budget_ok (B\<lparr>rb_waiting := rest\<rparr>)"
      by (rule waiting_ok) (use assms(1,2) in \<open>auto simp: budget_ok_def requests_ok_def\<close>)
    then show ?thesis using None False assms
      by (auto simp: reclaim_or_reject_def ends_exhausted_def disposes_oldest_def)
  qed
next
  case (Some h)
  then have run: "B' = B\<lparr>rb_reclaiming := True, rb_idle := map_delete h (rb_idle B)\<rparr>" "es = [Dispose h]"
    using assms(5) by (auto simp: reclaim_or_reject_def)
  obtain r where r: "(h, r) \<in> set (candidates E B)" "\<forall>q\<in>set (candidates E B). idle_key (h, r) \<le> idle_key q"
    using reclaim_candidate_facts [OF Some] by blast
  have "idle_longer E r q" if q: "(k, q) \<in> set (rb_idle B)" "be_minion E k" "be_idle E k" "k \<notin> set (rb_epochTried B)" for k q
  proof -
    have "(k, q) \<in> set (candidates E B)" using q assms(6) by (auto simp: candidates_def)
    then have "idle_key (h, r) \<le> idle_key (k, q)" using r(2) by blast
    moreover have "ir_at r \<noteq> None" "ir_at q \<noteq> None" using r(1) q assms(6) by (auto simp: candidates_def)
    ultimately show ?thesis by (auto simp: idle_longer_def idle_from_def idle_key_def less_eq_prod_def)
  qed
  then have "oldest_idle E (rb_epochTried B) (rb_idle B) h"
    using r(1) unfolding oldest_idle_def by (auto simp: candidates_def)
  moreover have "be_idle E h" using r(1) assms(6) unfolding candidates_def by fastforce
  ultimately have "disposes_oldest E B B' es"
    using r(1) by (auto simp: disposes_oldest_def run candidates_def map_delete_def)
  moreover have "budget_ok B'" using idle_delete_ok [OF assms(1)] by (simp add: run)
  moreover have "queue_settled E B'" using assms(2,3) by (simp add: run queue_settled_def available_def)
  ultimately show ?thesis by (simp add: run)
qed


definition drain_ok :: "budget_env \<Rightarrow> resident_budget \<Rightarrow> resident_budget \<Rightarrow> budget_effect list \<Rightarrow> bool" where
  "drain_ok E B B' es \<longleftrightarrow> budget_ok B' \<and> replay (concat (map effect_events es)) (queued_tickets B) = Some (queued_tickets B')
     \<and> rb_capacity B' = rb_capacity B \<and> rb_nextTicket B' = rb_nextTicket B \<and> set (rb_permits B) \<subseteq> set (rb_permits B')
     \<and> (queue_settled E B' \<or> ends_exhausted es) \<and> disposes_oldest E B B' es \<and> grants_whole (rb_waiting B) B' es"

lemma disposes_oldest_Cons [simp]: "(\<And>h. e \<noteq> Dispose h) \<Longrightarrow> disposes_oldest E B B' (e # es) = disposes_oldest E B B' es"
  by (auto simp: disposes_oldest_def)

lemma refresh_all_idle: "(h, r) \<in> set (rb_idle (refresh_idle E B)) \<Longrightarrow> (ir_at r \<noteq> None) = be_idle E h"
  by (auto simp: refresh_idle_def dest: refreshed_idle)

lemma drain_facts:
  assumes "budget_ok B" and "drain E B = (B', es)"
  shows "drain_ok E B B' es"
  using assms
proof (induction E B arbitrary: B' es rule: drain.induct)
  case (1 E B)
  note run = "1.prems"(2) [unfolded drain.simps [of E B]]
  have fresh: "budget_ok (refresh_idle E B)" using "1.prems"(1) by simp
  show ?case
  proof (cases "rb_stopped B")
    case True
    then show ?thesis using "1.prems" by (simp add: drain_ok_def queue_settled_def disposes_oldest_def grants_whole_def)
  next
    case go: False
    show ?thesis
    proof (cases "rb_waiting B")
      case Nil
      then show ?thesis using run go fresh
        by (auto simp: drain_ok_def queue_settled_def disposes_oldest_def grants_whole_def)
    next
      case (Cons head rest)
      let ?B = "start_epoch (rq_ticket head) (refresh_idle E B)"
      have rest: "set rest \<subseteq> set (rb_waiting B)" "distinct (map rq_ticket rest)"
        using Cons "1.prems"(1) by (auto simp: budget_ok_def requests_ok_def)
      have count: "1 \<le> rq_count head" using Cons "1.prems"(1) by (auto simp: budget_ok_def requests_ok_def)
      show ?thesis
      proof (cases "signal_aborted E (rq_signal head)")
        case True
        obtain fs where rec: "drain E ((refresh_idle E B)\<lparr>rb_waiting := rest\<rparr>) = (B', fs)" "es = Cancelled (rq_ticket head) # fs"
          using run go Cons True by (auto simp: map_prod_def split: prod.splits)
        have "drain_ok E ((refresh_idle E B)\<lparr>rb_waiting := rest\<rparr>) B' fs"
          by (rule "1.IH"(1) [OF go Cons True _ rec(1)]) (use waiting_ok [OF fresh, of rest] rest in simp)
        moreover from this have "disposes_oldest E B B' fs"
          by (intro disposes_refreshed [OF "1.prems"(1), where B\<^sub>1 = "(refresh_idle E B)\<lparr>rb_waiting := rest\<rparr>"])
            (auto simp: drain_ok_def)
        ultimately show ?thesis using Cons rec(2) by (auto simp: drain_ok_def grants_whole_def ends_exhausted_Cons)
      next
        case live: False
        show ?thesis
        proof (cases "rq_count head \<le> available ?B")
          case True
          let ?G = "(mint_permit (rq_count head) ?B)\<lparr>rb_waiting := rest\<rparr>"
          obtain fs where rec: "drain E ?G = (B', fs)" "es = Granted (rq_ticket head) (rb_nextPermit ?B) # fs"
            using run go Cons live True by (auto simp: map_prod_def Let_def split: prod.splits)
          have "budget_ok (mint_permit (rq_count head) ?B)"
            by (rule mint_ok) (use fresh count True in simp_all)
          then have "budget_ok ?G" using waiting_ok [of "mint_permit (rq_count head) ?B" rest] rest by simp
          then have sub: "drain_ok E ?G B' fs" by (rule "1.IH"(2) [OF go Cons live refl True _ rec(1)])
          then have "disposes_oldest E B B' fs"
            by (intro disposes_refreshed [OF "1.prems"(1), where B\<^sub>1 = ?G]) (auto simp: drain_ok_def)
          note sub this
          moreover have "(rb_nextPermit ?B, rq_count head) \<in> set (rb_permits ?G)" by (simp add: mint_permit_def)
          ultimately show ?thesis
            using Cons rec(2) by (auto simp: drain_ok_def grants_whole_def ends_exhausted_Cons mint_permit_def)
        next
          case full: False
          show ?thesis
          proof (cases "rb_reclaiming B")
            case True
            then have "B' = ?B" "es = []" using run go Cons live full by (auto simp: Let_def)
            then show ?thesis using Cons full True fresh
              by (simp add: drain_ok_def queue_settled_def disposes_oldest_def grants_whole_def)
          next
            case False
            have end': "reclaim_or_reject E head ?B = (B', es)" using run go Cons live full False by (auto simp: Let_def)
            have waiting: "rb_waiting ?B = head # rest" using Cons by simp
            have "\<forall>h r. (h, r) \<in> set (rb_idle ?B) \<longrightarrow> (ir_at r \<noteq> None) = be_idle E h"
              using refresh_all_idle [of _ _ E B] unfolding epoch_frame by blast
            from reclaim_or_reject_facts [OF _ waiting full _ end' this]
            have facts: "drain_ok E ?B B' es" using fresh False by (auto simp: drain_ok_def grants_whole_def)
            then have "disposes_oldest E B B' es"
              by (intro disposes_refreshed [OF "1.prems"(1), where B\<^sub>1 = ?B]) (auto simp: drain_ok_def)
            then show ?thesis using facts by (auto simp: drain_ok_def)
          qed
        qed
      qed
    qed
  qed
qed


subsection \<open>The budget as an admission queue\<close>

text \<open>The operations that end in a drain of the queue.\<close>

inductive drained :: "budget_env \<Rightarrow> resident_budget \<Rightarrow> nat admission list \<Rightarrow> budget_effect list \<Rightarrow> resident_budget \<Rightarrow> bool" where
  dr_acquire: "budget_acquire E n signal B = Inr (B', t, es) \<Longrightarrow> drained E B [Joined t] es B'"
| dr_release: "(p, n) \<in> set (rb_permits B) \<Longrightarrow> release_permit E p B = (B', es) \<Longrightarrow> drained E B [] es B'"
| dr_changed: "changed E B = (B', es) \<Longrightarrow> drained E B [] es B'"
| dr_settled: "reclaim_settled E B = (B', es) \<Longrightarrow> drained E B [] es B'"
| dr_abort: "t \<in> set (queued_tickets B) \<Longrightarrow> on_abort E t B = (B', Cancelled t # es) \<Longrightarrow> drained E B [Left t] es B'"

inductive budget_step :: "resident_budget \<Rightarrow> nat admission list \<Rightarrow> resident_budget \<Rightarrow> bool" where
  bs_drained: "drained E B ls es B' \<Longrightarrow> budget_step B (ls @ concat (map effect_events es)) B'"
| bs_try: "tryAcquire B = Some (B', p) \<Longrightarrow> budget_step B [] B'"
| bs_watch: "budget_step B [] (watch E h since B)"
| bs_unwatch: "budget_step B [] (unwatch h B)"
| bs_failed: "budget_step B [] (fst (reclaim_failed E h err B))"
| bs_shutdown: "budget_shutdown B = (B', es) \<Longrightarrow> budget_step B (concat (map effect_events es)) B'"

lemma map_delete_sum:
  "distinct (map fst ps) \<Longrightarrow> map_of ps p = Some (n :: int)
     \<Longrightarrow> sum_list (map snd (map_delete p ps)) = sum_list (map snd ps) - n"
proof (induction ps)
  case (Cons q ps)
  show ?case
  proof (cases "fst q = p")
    case True
    have "filter (\<lambda>r. fst r \<noteq> p) ps = ps" using Cons.prems True by (auto simp: filter_id_conv intro: rev_image_eqI)
    then show ?thesis using Cons.prems True by (simp add: map_delete_def)
  next
    case False
    then show ?thesis using Cons by (simp add: map_delete_def)
  qed
qed simp

lemma released_ok:
  assumes "budget_ok B" and "map_of (rb_permits B) p = Some n"
  shows "budget_ok (B\<lparr>rb_used := rb_used B - n, rb_permits := map_delete p (rb_permits B)\<rparr>)"
proof -
  have "1 \<le> n" and "rb_used B \<le> rb_capacity B" using assms by (auto simp: budget_ok_def permits_ok_def dest: map_of_SomeD)
  then have "rb_used B - n \<le> rb_capacity B" by simp
  moreover have "rb_used B - n = sum_list (map snd (map_delete p (rb_permits B)))"
    using assms map_delete_sum [of "rb_permits B" p n] by (simp add: budget_ok_def permits_ok_def)
  ultimately show ?thesis
    using assms(1) by (auto simp: budget_ok_def permits_ok_def requests_ok_def idle_ok_def distinct_map_delete dest: map_delete_subset)
qed

lemma watch_ok: "budget_ok B \<Longrightarrow> budget_ok (watch E h since B)"
  by (auto simp: budget_ok_def permits_ok_def requests_ok_def idle_ok_def watch_def distinct_map_set
      intro: less_SucI dest!: map_set_values)

lemma unwatch_ok: "budget_ok B \<Longrightarrow> budget_ok (unwatch h B)"
  by (auto simp: budget_ok_def permits_ok_def requests_ok_def idle_ok_def unwatch_def distinct_map_delete
      dest: map_delete_subset)

lemma queued_ok:
  assumes "budget_ok B" and "1 \<le> n" and "n \<le> rb_capacity B" and "\<not> rb_stopped B"
  shows "budget_ok (B\<lparr>rb_waiting := rb_waiting B @ [\<lparr>rq_ticket = rb_nextTicket B, rq_count = n, rq_signal = signal\<rparr>],
                     rb_nextTicket := Suc (rb_nextTicket B)\<rparr>)"
  using assms by (auto simp: budget_ok_def permits_ok_def requests_ok_def idle_ok_def intro: less_SucI)

lemma tickets_without: "distinct (map rq_ticket rs) \<Longrightarrow>
    map rq_ticket (filter (\<lambda>r. rq_ticket r \<noteq> t) rs) = remove1 t (map rq_ticket rs)"
  by (induction rs) (auto simp: filter_id_conv remove1_idem)

lemma without_ok:
  assumes "budget_ok B"
  shows "budget_ok (B\<lparr>rb_waiting := filter (\<lambda>r. rq_ticket r \<noteq> t) (rb_waiting B)\<rparr>)"
  by (rule waiting_ok [OF assms]) (use assms in \<open>auto simp: budget_ok_def requests_ok_def distinct_map_filter\<close>)

lemma disposes_same: "rb_idle B\<^sub>1 = rb_idle B \<Longrightarrow> disposes_oldest E B\<^sub>1 B' es = disposes_oldest E B B' es"
  by (simp add: disposes_oldest_def)

lemma grants_held: "grants_whole rs B es \<Longrightarrow> \<forall>t p. Granted t p \<in> set es \<longrightarrow> (\<exists>n. (p, n) \<in> set (rb_permits B))"
  by (auto simp: grants_whole_def)

text \<open>Every draining operation is a change of the queue by its own label followed by a drain.\<close>

lemma drained_facts:
  assumes "drained E B ls es B'" and "budget_ok B"
  shows "budget_ok B' \<and> replay (ls @ concat (map effect_events es)) (queued_tickets B) = Some (queued_tickets B')
     \<and> rb_capacity B' = rb_capacity B \<and> (queue_settled E B' \<or> ends_exhausted es) \<and> disposes_oldest E B B' es
     \<and> (\<forall>t p. Granted t p \<in> set es \<longrightarrow> (\<exists>n. (p, n) \<in> set (rb_permits B')))"
  using assms(1)
proof cases
  case (dr_acquire n signal t)
  let ?Q = "B\<lparr>rb_waiting := rb_waiting B @ [\<lparr>rq_ticket = rb_nextTicket B, rq_count = n, rq_signal = signal\<rparr>],
             rb_nextTicket := Suc (rb_nextTicket B)\<rparr>"
  have run: "drain E ?Q = (B', es)" "t = rb_nextTicket B" "1 \<le> n" "n \<le> rb_capacity B" "\<not> rb_stopped B"
    using dr_acquire(2) by (auto simp: budget_acquire_def split: if_splits prod.splits)
  show ?thesis
    using drain_facts [OF queued_ok [OF assms(2) run(3-5)] run(1)] dr_acquire(1) run(2)
    by (auto simp: drain_ok_def disposes_oldest_def dest!: grants_held)
next
  case (dr_release p n)
  then obtain m where m: "map_of (rb_permits B) p = Some m"
    using assms(2) by (auto simp: budget_ok_def permits_ok_def)
  then have run: "drain E (B\<lparr>rb_used := rb_used B - m, rb_permits := map_delete p (rb_permits B)\<rparr>) = (B', es)"
    using dr_release(3) by (simp add: release_permit_def)
  show ?thesis using drain_facts [OF released_ok [OF assms(2) m] run] dr_release(1)
    by (auto simp: drain_ok_def disposes_oldest_def dest!: grants_held)
next
  case dr_changed
  then have "drain E B = (B', es)" by (simp add: changed_def)
  from drain_facts [OF assms(2) this] show ?thesis using dr_changed(1) by (auto simp: drain_ok_def disposes_oldest_def dest!: grants_held)
next
  case dr_settled
  have "budget_ok (B\<lparr>rb_reclaiming := False\<rparr>)"
    using assms(2) by (simp add: budget_ok_def permits_ok_def requests_ok_def idle_ok_def)
  moreover have "drain E (B\<lparr>rb_reclaiming := False\<rparr>) = (B', es)" using dr_settled(2) by (simp add: reclaim_settled_def)
  ultimately have "drain_ok E (B\<lparr>rb_reclaiming := False\<rparr>) B' es" by (rule drain_facts)
  then show ?thesis using dr_settled(1) by (auto simp: drain_ok_def disposes_oldest_def dest!: grants_held)
next
  case (dr_abort t)
  then have run: "drain E (B\<lparr>rb_waiting := filter (\<lambda>r. rq_ticket r \<noteq> t) (rb_waiting B)\<rparr>) = (B', es)"
    by (auto simp: on_abort_def map_prod_def split: prod.splits)
  have tickets: "map rq_ticket (filter (\<lambda>r. rq_ticket r \<noteq> t) (rb_waiting B)) = remove1 t (queued_tickets B)"
    by (rule tickets_without) (use assms(2) in \<open>simp add: budget_ok_def requests_ok_def\<close>)
  show ?thesis
    using drain_facts [OF without_ok [OF assms(2)] run] dr_abort(1)
    by (auto simp: drain_ok_def disposes_oldest_def tickets dest!: grants_held)
qed

lemma replay_all_left: "replay (concat (map (\<lambda>r. effect_events (Cancelled (rq_ticket r))) rs)) (map rq_ticket rs) = Some []"
  by (induction rs) simp_all

lemma budget_step_facts:
  assumes "budget_step B ls B'" and "budget_ok B"
  shows "budget_ok B' \<and> replay ls (queued_tickets B) = Some (queued_tickets B') \<and> rb_capacity B' = rb_capacity B"
  using assms
proof cases
  case (bs_drained E ms es)
  then show ?thesis using drained_facts [OF bs_drained(2) assms(2)] by simp
next
  case (bs_try p)
  have "budget_ok (mint_permit 1 B)"
    by (rule mint_ok [OF assms(2)]) (use bs_try(2) in \<open>auto simp: tryAcquire_def available_def split: if_splits\<close>)
  then show ?thesis using bs_try by (auto simp: tryAcquire_def split: if_splits)
next
  case bs_watch
  then show ?thesis using watch_ok [OF assms(2)] by (simp add: watch_def)
next
  case bs_unwatch
  then show ?thesis using unwatch_ok [OF assms(2)] by (simp add: unwatch_def)
next
  case bs_failed
  then show ?thesis using assms(2)
    by (simp add: reclaim_failed_def Let_def budget_ok_def permits_ok_def requests_ok_def idle_ok_def)
next
  case (bs_shutdown es)
  then have "B' = B\<lparr>rb_stopped := True, rb_waiting := []\<rparr>" "es = map (\<lambda>r. Cancelled (rq_ticket r)) (rb_waiting B)"
    by (simp_all add: budget_shutdown_def)
  then show ?thesis using assms(2) bs_shutdown(1) replay_all_left [of "rb_waiting B"]
    by (simp add: budget_ok_def permits_ok_def requests_ok_def idle_ok_def comp_def)
qed


interpretation residents: bounded_admission budget_ok queued_tickets budget_step "\<lambda>B. nat (rb_used B)"
  "\<lambda>B. Some (nat (rb_capacity B))"
  by unfold_locales (auto simp: budget_step_facts budget_ok_def permits_ok_def dest: budget_step_facts)

lemma new_budget_ok: "new_budget c = Inr B \<Longrightarrow> budget_ok B \<and> rb_capacity B = c \<and> queued_tickets B = []"
  by (auto simp: new_budget_def budget_ok_def permits_ok_def requests_ok_def idle_ok_def split: if_splits)

lemma used_nonneg:
  assumes "budget_ok B"
  shows "0 \<le> rb_used B" and "0 \<le> rb_capacity B"
proof -
  have "0 \<le> n" if "n \<in> set (map snd (rb_permits B))" for n
    using that assms by (force simp: budget_ok_def permits_ok_def)
  then show "0 \<le> rb_used B" using sum_list_nonneg [of "map snd (rb_permits B)"] assms
    by (simp add: budget_ok_def permits_ok_def)
  then show "0 \<le> rb_capacity B" using assms by (simp add: budget_ok_def permits_ok_def)
qed

lemma reached_ok:
  assumes "new_budget c = Inr B\<^sub>0" and "labelled_run budget_step B\<^sub>0 ls B"
  shows "budget_ok B" and "replay ls [] = Some (queued_tickets B)" and "rb_capacity B = c"
proof -
  note start = new_budget_ok [OF assms(1)]
  show "budget_ok B" "replay ls [] = Some (queued_tickets B)"
    using residents.run_facts [OF assms(2)] start by auto
  then have "0 \<le> rb_capacity B" and "0 \<le> rb_capacity B\<^sub>0" using start used_nonneg by blast+
  then show "rb_capacity B = c"
    using residents.run_limit [OF assms(2)] start by (simp add: nat_eq_iff)
qed

subsection \<open>Properties\<close>

text \<open>C7. The budget never over-admits and never lets a request overtake another: in every state the operations
  reach from a new budget, the permits out add up to what is used and to at most the capacity, every
  waiting request could fit, the queue is the one of the abstract FIFO queue for the events so far, and a
  request that waits is served or gone before any later one is admitted.\<close>

theorem budget_admission:
  assumes "new_budget c = Inr B\<^sub>0" and "labelled_run budget_step B\<^sub>0 ls B"
  shows "0 \<le> rb_used B \<and> rb_used B \<le> c \<and> rb_used B = sum_list (map snd (rb_permits B))
     \<and> (\<forall>r\<in>set (rb_waiting B). 1 \<le> rq_count r \<and> rq_count r \<le> c)
     \<and> replay ls [] = Some (queued_tickets B)
     \<and> (\<forall>a t b u fs gs B'. queued_tickets B = a @ t # b \<and> u \<noteq> t \<and> u \<notin> set a
          \<and> labelled_run budget_step B (fs @ Admitted u # gs) B' \<longrightarrow> Admitted t \<in> set fs \<or> Left t \<in> set fs)"
proof -
  note ok = reached_ok [OF assms]
  have fifo: "Admitted t \<in> set fs \<or> Left t \<in> set fs"
    if "queued_tickets B = a @ t # b" "u \<noteq> t" "u \<notin> set a" "labelled_run budget_step B (fs @ Admitted u # gs) B'"
    for a t b u fs gs B'
    by (rule residents.no_overtaking [OF that(4) ok(1) that(1-3)])
  have "rb_used B \<le> c \<and> rb_used B = sum_list (map snd (rb_permits B))
     \<and> (\<forall>r\<in>set (rb_waiting B). 1 \<le> rq_count r \<and> rq_count r \<le> c)"
    using ok(1,3) by (auto simp: budget_ok_def permits_ok_def requests_ok_def)
  then show ?thesis using ok(2) used_nonneg(1) [OF ok(1)] fifo by blast
qed

definition sample_env :: budget_env where
  "sample_env = \<lparr>be_now = 7, be_idle = (\<lambda>h. h = 1), be_minion = (\<lambda>_. True), be_agentId = (\<lambda>_. ''m-1''), be_aborted = (\<lambda>_. False)\<rparr>"

text \<open>Two permits; a worker holds one and is idle, a round wants two, then one worker more is asked for.\<close>

fun acquired :: "budget_error + (resident_budget \<times> nat \<times> budget_effect list) \<Rightarrow> resident_budget" where
  "acquired (Inr (B, t, es)) = B"
| "acquired (Inl e) = undefined"

definition sample_new :: resident_budget where
  "sample_new = (case new_budget 2 of Inr B \<Rightarrow> B)"

definition sample_warm :: resident_budget where
  "sample_warm = watch sample_env 1 None (acquired (budget_acquire sample_env 1 None sample_new))"

definition sample_round :: resident_budget where
  "sample_round = acquired (budget_acquire sample_env 2 None sample_warm)"

definition sample_waiting :: resident_budget where
  "sample_waiting = acquired (budget_acquire sample_env 1 None sample_round)"

definition sample_failed :: resident_budget where
  "sample_failed = fst (reclaim_failed sample_env 1 ''dispose failed'' sample_waiting)"

lemma acquire_run:
  assumes "labelled_run budget_step B\<^sub>0 ls B" and "budget_acquire E n s B \<noteq> Inl (Cannot_fit n (rb_capacity B))"
    and "budget_acquire E n s B \<noteq> Inl Admission_cancelled"
  shows "\<exists>ls. labelled_run budget_step B\<^sub>0 ls (acquired (budget_acquire E n s B))"
proof (cases "budget_acquire E n s B")
  case (Inl e)
  then show ?thesis using assms(2,3) by (auto simp: budget_acquire_def split: if_splits prod.splits)
next
  case (Inr r)
  then obtain B' t es where r: "budget_acquire E n s B = Inr (B', t, es)" by (cases r) auto
  then show ?thesis using run_step [OF assms(1) bs_drained [OF dr_acquire [OF r]]] by auto
qed

lemma sample_failed_reached: "\<exists>ls. labelled_run budget_step sample_new ls sample_failed"
proof -
  have some: "budget_acquire sample_env 1 None sample_new \<noteq> Inl (Cannot_fit 1 (rb_capacity sample_new))"
      "budget_acquire sample_env 1 None sample_new \<noteq> Inl Admission_cancelled"
      "budget_acquire sample_env 2 None sample_warm \<noteq> Inl (Cannot_fit 2 (rb_capacity sample_warm))"
      "budget_acquire sample_env 2 None sample_warm \<noteq> Inl Admission_cancelled"
      "budget_acquire sample_env 1 None sample_round \<noteq> Inl (Cannot_fit 1 (rb_capacity sample_round))"
      "budget_acquire sample_env 1 None sample_round \<noteq> Inl Admission_cancelled"
    by code_simp+
  obtain ls where "labelled_run budget_step sample_new ls (acquired (budget_acquire sample_env 1 None sample_new))"
    using acquire_run [OF run_refl some(1,2)] by blast
  then have "labelled_run budget_step sample_new (ls @ []) sample_warm"
    unfolding sample_warm_def by (rule run_step) (rule bs_watch)
  then obtain ms where "labelled_run budget_step sample_new ms sample_round"
    unfolding sample_round_def using acquire_run [OF _ some(3,4)] by blast
  then obtain ns where "labelled_run budget_step sample_new ns sample_waiting"
    unfolding sample_waiting_def using acquire_run [OF _ some(5,6)] by blast
  then have "labelled_run budget_step sample_new (ns @ []) sample_failed"
    unfolding sample_failed_def by (rule run_step) (rule bs_failed)
  then show ?thesis by blast
qed

lemma sample_new_is: "new_budget 2 = Inr sample_new"
  by (simp add: sample_new_def new_budget_def)

theorem budget_admission_witness:
  "\<exists>ls. labelled_run budget_step sample_new ls sample_failed \<and> rb_used sample_failed = 1
     \<and> replay ls [] = Some [1, 2] \<and> rb_used sample_failed = sum_list (map snd (rb_permits sample_failed))"
proof -
  obtain ls where run: "labelled_run budget_step sample_new ls sample_failed" using sample_failed_reached by blast
  have "rb_used sample_failed = 1" "queued_tickets sample_failed = [1, 2]" by code_simp+
  then show ?thesis using run budget_admission [OF sample_new_is run] by auto
qed




text \<open>A partial reclaim does not save the round it was made for: one of two idle workers is disposed of and gives
  its permit back, the other's disposal fails, and the round that wants both permits is rejected.\<close>

definition both_idle :: budget_env where
  "both_idle = sample_env\<lparr>be_idle := (\<lambda>_. True)\<rparr>"

definition partial_reclaim :: "resident_budget \<times> budget_effect list" where
  "partial_reclaim =
     (let B\<^sub>1 = watch both_idle 1 None (acquired (budget_acquire both_idle 1 None sample_new));
          B\<^sub>2 = watch both_idle 2 None (acquired (budget_acquire both_idle 1 None B\<^sub>1));
          B\<^sub>3 = acquired (budget_acquire both_idle 2 None B\<^sub>2);
          B\<^sub>4 = fst (reclaim_settled both_idle (fst (release_permit both_idle 0 B\<^sub>3)));
          B\<^sub>5 = fst (reclaim_failed both_idle 2 ''dispose failed'' B\<^sub>4)
      in reclaim_settled both_idle B\<^sub>5)"

lemma partial_reclaim_rejected:
  "snd partial_reclaim = [Reclaim_exhausted 2 1]" "available (fst partial_reclaim) = 1"
  by code_simp+


text \<open>Of two idle workers the one idle since 3 is disposed of, not the one idle since 5 that came first.\<close>

lemma oldest_goes_first:
  "(let B\<^sub>1 = watch both_idle 1 (Some 5) (acquired (budget_acquire both_idle 1 None sample_new));
        B\<^sub>2 = watch both_idle 2 (Some 3) (acquired (budget_acquire both_idle 1 None B\<^sub>1))
    in map_sum id (snd \<circ> snd) (budget_acquire both_idle 1 None B\<^sub>2)) = Inr [Dispose 2]"
  by code_simp

end
