(* ===== verification/Pipeline_Store.thy ===== *)
theory Pipeline_Store
  imports Ledger "HOL-Library.Product_Lexorder"
begin

text \<open>
  The durable pipeline queue of \<^verbatim>\<open>src/src/ledger/api.ts\<close> (\<open>enqueuePipelineEntry\<close> to
  \<open>pipelineBoardView\<close>). Every operation either leaves the queue as it is, appends one accepted entry, or
  moves one entry along \<open>entry_step\<close>, the state machine the store promises; the queue invariants
  (distinct ids, requests and sequence numbers, an acyclic prerequisite graph, consistent claims and
  holds) are proved once on that machine and lifted to every reachable ledger.
\<close>

subsection \<open>Acceptance\<close>

record enqueue_input =
  ei_id :: string
  ei_requestId :: "string option"
  ei_repoPath :: string
  ei_title :: string
  ei_briefing :: string
  ei_priority :: "rat option"
  ei_prerequisites :: "pipeline_prerequisite list option"
  ei_exclusiveScopes :: "string list option"
  ei_holdReason :: "string option"
  ei_by :: "string option"

text \<open>\<open>path.split('/').filter(Boolean).pop() ?? path\<close>\<close>

definition path_base :: "string \<Rightarrow> string" where
  "path_base path = (let segment = rev (takeWhile (\<lambda>c. c \<noteq> CHR ''/'') (dropWhile (\<lambda>c. c = CHR ''/'') (rev path)))
     in if segment = [] then path else segment)"

definition utf8_length :: "string \<Rightarrow> nat" where
  "utf8_length s = sum_list (map (\<lambda>c. if c < CHR 0x80 then 1 else 2) s)"

definition normal_hold :: "string option \<Rightarrow> string option" where
  "normal_hold v = (case v of None \<Rightarrow> None | Some s \<Rightarrow> if js_blank s then None else Some (take 500 (js_trim s)))"

definition request_id_of :: "enqueue_input \<Rightarrow> string" where
  "request_id_of input = (case ei_requestId input of
     None \<Rightarrow> ei_id input | Some r \<Rightarrow> if js_blank r then ei_id input else r)"

definition canonical_payload ::
  "enqueue_input \<Rightarrow> int \<Rightarrow> pipeline_prerequisite list \<Rightarrow> string list \<Rightarrow> json" where
  "canonical_payload input priority prerequisites scopes = JObj
     [(''id'', JStr (ei_id input)), (''repo_path'', JStr (ei_repoPath input)),
      (''repo'', JStr (path_base (ei_repoPath input))), (''title'', JStr (ei_title input)),
      (''briefing'', JStr (ei_briefing input)), (''priority'', JNum (of_int priority)),
      (''prerequisites'', encode_prerequisites prerequisites),
      (''exclusive_scopes'', JArr (map JStr scopes)),
      (''hold_reason'', or_null JStr (normal_hold (ei_holdReason input)))]"

record accepted_input =
  ai_priority :: int
  ai_prerequisites :: "pipeline_prerequisite list"
  ai_scopes :: "string list"

definition validate_enqueue :: "enqueue_input \<Rightarrow> ledger_error + accepted_input" where
  "validate_enqueue input =
     (if js_blank (ei_repoPath input) \<or> js_blank (ei_title input) \<or> js_blank (ei_briefing input)
      then Inl (Bad_input ''pipeline enqueue'') else
      attempt (requireSafeRecordId (ei_id input) ''pipeline entry id'' 128) (\<lambda>_.
      attempt (lift_error Pipeline_error (case ei_priority input of
        None \<Rightarrow> Inr \<lfloor>PIPELINE_PRIORITY_DEFAULT\<rfloor> | Some p \<Rightarrow> validatePipelinePriority p)) (\<lambda>priority.
      attempt (lift_error Pipeline_error (case ei_prerequisites input of
        None \<Rightarrow> Inr [] | Some ps \<Rightarrow> validatePipelinePrerequisites ps)) (\<lambda>prerequisites.
      if list_ex (\<lambda>p. pr_id p = ei_id input) prerequisites then Inl (Bad_input ''self dependency'') else
      attempt (lift_error Pipeline_error (case ei_exclusiveScopes input of
        None \<Rightarrow> Inr [] | Some ss \<Rightarrow> validateExclusiveScopes ss)) (\<lambda>scopes.
      Inr \<lparr>ai_priority = priority, ai_prerequisites = prerequisites, ai_scopes = scopes\<rparr>)))))"

definition getPipelineEntryByRequestId :: "ledger \<Rightarrow> string \<Rightarrow> pipeline_entry option" where
  "getPipelineEntryByRequestId L requestId = row_find pe_requestId requestId (lg_pipeline L)"

definition listPipelineEntries :: "ledger \<Rightarrow> pipeline_state list option \<Rightarrow> ledger_error + pipeline_entry list" where
  "listPipelineEntries L states = (case states of
     Some [] \<Rightarrow> Inl (Bad_input ''states'')
   | None \<Rightarrow> Inr (sort_key pe_enqueueSeq (lg_pipeline L))
   | Some ss \<Rightarrow> Inr (sort_key pe_enqueueSeq (filter (\<lambda>e. pe_state e \<in> set ss) (lg_pipeline L))))"

definition next_enqueue_seq :: "ledger \<Rightarrow> nat" where
  "next_enqueue_seq L = (case max_of pe_enqueueSeq (lg_pipeline L) of None \<Rightarrow> 0 | Some m \<Rightarrow> m) + 1"

definition accepted_entry :: "env \<Rightarrow> enqueue_input \<Rightarrow> accepted_input \<Rightarrow> nat \<Rightarrow> pipeline_entry" where
  "accepted_entry E input acc seq =
     \<lparr>pe_id = ei_id input, pe_repoPath = ei_repoPath input, pe_repo = path_base (ei_repoPath input),
      pe_title = ei_title input, pe_briefing = ei_briefing input,
      pe_briefingHash = plat_sha256 (en_plat E) (ei_briefing input), pe_priority = ai_priority acc,
      pe_enqueueSeq = seq, pe_state = P_waiting, pe_holdReason = normal_hold (ei_holdReason input),
      pe_prerequisites = ai_prerequisites acc, pe_exclusiveScopes = ai_scopes acc,
      pe_requestId = request_id_of input,
      pe_payloadHash = plat_digest (en_plat E) (canonical_payload input (ai_priority acc) (ai_prerequisites acc) (ai_scopes acc)),
      pe_jobId = None, pe_claim = None, pe_failureReason = None, pe_failureCount = 0, pe_deferReason = None,
      pe_reconcileNote = None, pe_queuedAt = en_now E, pe_claimedAt = None, pe_admittedAt = None,
      pe_updatedAt = en_now E\<rparr>"

definition enqueuePipelineEntry ::
  "env \<Rightarrow> enqueue_input \<Rightarrow> ledger \<Rightarrow> ledger_error + ledger \<times> pipeline_entry \<times> bool" where
  "enqueuePipelineEntry E input L =
     attempt (validate_enqueue input) (\<lambda>acc.
     let entry = accepted_entry E input acc (next_enqueue_seq L) in
     case getPipelineEntryByRequestId L (request_id_of input) of
       Some existing \<Rightarrow>
         if pe_payloadHash existing \<noteq> pe_payloadHash entry \<or> pe_id existing \<noteq> ei_id input
         then Inl (Pipeline_conflict (request_id_of input))
         else Inr (L, existing, False)
     | None \<Rightarrow>
         if getPipelineEntry L (ei_id input) \<noteq> None then Inl (Pipeline_conflict (ei_id input))
         else if getJob L (ei_id input) \<noteq> None then Inl (Pipeline_conflict (ei_id input))
         else attempt (listPipelineEntries L None) (\<lambda>existing.
           if wouldCreatePipelineCycle (ei_id input) (ai_prerequisites acc) existing
           then Inl (Pipeline_conflict (ei_id input))
           else Inr (appendEvent E ''pipeline.enqueued'' None None
                 (JObj [(''entry_id'', JStr (ei_id input)), (''request_id'', JStr (request_id_of input)),
                    (''priority'', JNum (of_int (ai_priority acc))),
                    (''enqueue_seq'', JNum (of_nat (pe_enqueueSeq entry))),
                    (''hold'', JBool (pe_holdReason entry \<noteq> None)),
                    (''briefing_bytes'', JNum (of_nat (utf8_length (ei_briefing input)))),
                    (''by'', or_null JStr (ei_by input))])
                 (L\<lparr>lg_pipeline := lg_pipeline L @ [entry]\<rparr>), entry, True)))"

subsection \<open>Operations on one entry\<close>

definition with_entry ::
  "ledger \<Rightarrow> string \<Rightarrow> (pipeline_entry \<Rightarrow> ledger_error + 'a) \<Rightarrow> ledger_error + 'a" where
  "with_entry L i k = (case getPipelineEntry L i of None \<Rightarrow> Inl (Record_not_found i) | Some row \<Rightarrow> k row)"

text \<open>The UPDATE of one row, its event, and the row read back.\<close>

definition put_entry ::
  "env \<Rightarrow> string \<Rightarrow> pipeline_entry \<Rightarrow> pipeline_entry \<Rightarrow> (string \<times> json) list \<Rightarrow> ledger
     \<Rightarrow> ledger_error + ledger \<times> pipeline_entry" where
  "put_entry E kind row row' payload L =
     Inr (appendEvent E kind None None (JObj ((''entry_id'', JStr (pe_id row)) # payload))
            (L\<lparr>lg_pipeline := row_update pe_id (pe_id row) (\<lambda>_. row') (lg_pipeline L)\<rparr>), row')"

definition claimPipelineEntry ::
  "env \<Rightarrow> string \<Rightarrow> string \<Rightarrow> ledger \<Rightarrow> ledger_error + ledger \<times> pipeline_entry option" where
  "claimPipelineEntry E i holder L =
     (if js_blank holder then Inl (Bad_input ''pipeline claim'') else
      with_entry L i (\<lambda>row.
        if (pe_state row \<noteq> P_waiting \<and> pe_state row \<noteq> P_ready) \<or> pe_holdReason row \<noteq> None then Inr (L, None)
        else attempt (put_entry E ''pipeline.claimed'' row
               (row\<lparr>pe_state := P_admitting, pe_claim := Some \<lparr>pc_holder = holder, pc_since = en_now E\<rparr>,
                    pe_claimedAt := Some (en_now E), pe_updatedAt := en_now E\<rparr>)
               [(''holder'', JStr holder)] L)
             (\<lambda>(L', row'). Inr (L', Some row'))))"

definition markPipelineAdmitted ::
  "env \<Rightarrow> string \<Rightarrow> string \<Rightarrow> ledger \<Rightarrow> ledger_error + ledger \<times> pipeline_entry" where
  "markPipelineAdmitted E i jobId L =
     with_entry L i (\<lambda>row.
       if pe_state row = P_admitted \<and> pe_jobId row = Some jobId then Inr (L, row)
       else if pe_state row \<noteq> P_admitting then Inl (Bad_input ''no admitting claim'')
       else case getJob L jobId of
         None \<Rightarrow> Inl (Bad_input ''job missing'')
       | Some job \<Rightarrow>
           if jb_briefing job \<noteq> Some (pe_briefing row) \<or> jb_repo job \<noteq> pe_repo row
           then Inl (Bad_input ''refusing adoption'')
           else put_entry E ''pipeline.admitted'' row
                  (row\<lparr>pe_state := P_admitted, pe_jobId := Some jobId, pe_admittedAt := Some (en_now E),
                       pe_deferReason := None, pe_updatedAt := en_now E\<rparr>)
                  [(''job_id'', JStr jobId)] L)"

datatype release_outcome = Requeue | Fail_terminal | Reconciled | Defer

fun released_row ::
  "env \<Rightarrow> release_outcome \<Rightarrow> string \<Rightarrow> string option \<Rightarrow> string option \<Rightarrow> pipeline_entry \<Rightarrow> pipeline_entry" where
  "released_row E Fail_terminal reason note deferReason row =
     row\<lparr>pe_state := P_failed, pe_failureReason := Some reason, pe_failureCount := Suc (pe_failureCount row),
         pe_claim := None, pe_updatedAt := en_now E\<rparr>"
| "released_row E Requeue reason note deferReason row =
     row\<lparr>pe_state := P_waiting, pe_failureReason := Some reason, pe_failureCount := Suc (pe_failureCount row),
         pe_reconcileNote := note, pe_claim := None, pe_updatedAt := en_now E\<rparr>"
| "released_row E Defer reason note deferReason row =
     row\<lparr>pe_state := P_waiting, pe_deferReason := deferReason, pe_claim := None, pe_updatedAt := en_now E\<rparr>"
| "released_row E Reconciled reason note deferReason row =
     row\<lparr>pe_state := P_waiting, pe_reconcileNote := Some (or_else note reason), pe_claim := None,
         pe_updatedAt := en_now E\<rparr>"

fun release_event :: "release_outcome \<Rightarrow> string" where
  "release_event Fail_terminal = ''pipeline.failed''"
| "release_event Requeue = ''pipeline.requeued''"
| "release_event Defer = ''pipeline.deferred''"
| "release_event Reconciled = ''pipeline.reconciled''"

definition check_release :: "string \<Rightarrow> release_outcome \<Rightarrow> string option \<Rightarrow> ledger_error + unit" where
  "check_release reason outcome deferReason =
     (if js_blank reason then Inl (Bad_input ''reason'')
      else if outcome = Defer \<and> (case deferReason of None \<Rightarrow> True | Some d \<Rightarrow> js_blank d) then Inl (Bad_input ''defer reason'')
      else if outcome \<noteq> Defer \<and> deferReason \<noteq> None then Inl (Bad_input ''unexpected defer reason'')
      else Inr ())"

text \<open>Idempotent replay of an already-resolved claim.\<close>

definition already_released :: "release_outcome \<Rightarrow> pipeline_state \<Rightarrow> bool" where
  "already_released outcome state \<longleftrightarrow> (outcome = Fail_terminal \<and> state = P_failed)
     \<or> (outcome \<noteq> Fail_terminal \<and> (state = P_waiting \<or> state = P_ready))"

definition releasePipelineClaim ::
  "env \<Rightarrow> string \<Rightarrow> string \<Rightarrow> release_outcome \<Rightarrow> string option \<Rightarrow> string option \<Rightarrow> ledger
     \<Rightarrow> ledger_error + ledger \<times> pipeline_entry" where
  "releasePipelineClaim E i reason outcome note deferReason L =
     attempt (check_release reason outcome deferReason) (\<lambda>_.
     with_entry L i (\<lambda>row.
       if pe_state row \<noteq> P_admitting then
         (if already_released outcome (pe_state row) then Inr (L, row)
          else Inl (Bad_input ''no admitting claim to release''))
       else put_entry E (release_event outcome) row (released_row E outcome reason note deferReason row)
              ([(''reason'', JStr reason)] @ spread_some ''note'' JStr note
               @ spread_some ''defer_reason'' JStr deferReason) L))"

definition clearPipelineDeferReason :: "env \<Rightarrow> string \<Rightarrow> ledger \<Rightarrow> ledger_error + ledger \<times> pipeline_entry" where
  "clearPipelineDeferReason E i L =
     with_entry L i (\<lambda>row.
       if pe_deferReason row = None then Inr (L, row)
       else if pe_state row \<noteq> P_waiting \<and> pe_state row \<noteq> P_ready then Inl (Bad_input ''deferral not clearable'')
       else put_entry E ''pipeline.deferred-cleared'' row
              (row\<lparr>pe_deferReason := None, pe_updatedAt := en_now E\<rparr>) [] L)"

definition refreshPipelineDeferReason ::
  "env \<Rightarrow> string \<Rightarrow> string \<Rightarrow> ledger \<Rightarrow> ledger_error + ledger \<times> pipeline_entry" where
  "refreshPipelineDeferReason E i reason L =
     (if js_blank reason then Inl (Bad_input ''reason'') else
      with_entry L i (\<lambda>row.
        if pe_deferReason row = None then Inl (Bad_input ''no deferral'')
        else if pe_state row \<noteq> P_waiting \<and> pe_state row \<noteq> P_ready then Inl (Bad_input ''deferral not refreshable'')
        else put_entry E ''pipeline.deferred-refreshed'' row
               (row\<lparr>pe_deferReason := Some reason, pe_updatedAt := en_now E\<rparr>) [(''reason'', JStr reason)] L))"

text \<open>The new state is \<open>waiting\<close> or \<open>ready\<close> by its type; \<open>ready\<close> is the flag.\<close>

definition setPipelineEntryState ::
  "env \<Rightarrow> string \<Rightarrow> bool \<Rightarrow> string option \<Rightarrow> ledger \<Rightarrow> ledger_error + ledger \<times> pipeline_entry" where
  "setPipelineEntryState E i ready reason L =
     (let state = (if ready then P_ready else P_waiting) in
      with_entry L i (\<lambda>row.
        if pe_state row \<noteq> P_waiting \<and> pe_state row \<noteq> P_ready then Inl (Bad_input ''only waiting/ready'')
        else if pe_state row = state then Inr (L, row)
        else put_entry E ''pipeline.state'' row (row\<lparr>pe_state := state, pe_updatedAt := en_now E\<rparr>)
               ([(''from'', JStr (pipeline_state_name (pe_state row))), (''to'', JStr (pipeline_state_name state))]
                @ spread_some ''reason'' JStr reason) L))"

definition holdPipelineEntry ::
  "env \<Rightarrow> string \<Rightarrow> string \<Rightarrow> string option \<Rightarrow> ledger \<Rightarrow> ledger_error + ledger \<times> pipeline_entry" where
  "holdPipelineEntry E i reason by' L =
     (if js_blank reason then Inl (Bad_input ''reason'') else
      with_entry L i (\<lambda>row.
        if pe_state row = P_admitting then Inl (Bad_input ''live admission claim'')
        else if pe_state row \<in> {P_admitted, P_failed, P_cancelled} then Inl (Bad_input ''can no longer be held'')
        else put_entry E ''pipeline.held'' row
               (row\<lparr>pe_holdReason := Some (take 500 (js_trim reason)), pe_state := P_waiting, pe_updatedAt := en_now E\<rparr>)
               [(''reason'', JStr (take 500 (js_trim reason))), (''by'', or_null JStr by')] L))"

definition clearPipelineHold ::
  "env \<Rightarrow> string \<Rightarrow> string option \<Rightarrow> string option \<Rightarrow> ledger \<Rightarrow> ledger_error + ledger \<times> pipeline_entry" where
  "clearPipelineHold E i reason by' L =
     with_entry L i (\<lambda>row.
       if pe_state row \<noteq> P_waiting \<and> pe_state row \<noteq> P_ready then Inl (Bad_input ''hold not clearable'')
       else if pe_holdReason row = None then Inr (L, row)
       else put_entry E ''pipeline.hold-cleared'' row
              (row\<lparr>pe_holdReason := None, pe_updatedAt := en_now E\<rparr>)
              [(''reason'', or_null JStr reason), (''by'', or_null JStr by')] L)"

definition cancelPipelineEntry ::
  "env \<Rightarrow> string \<Rightarrow> string \<Rightarrow> string option \<Rightarrow> ledger \<Rightarrow> ledger_error + ledger \<times> pipeline_entry" where
  "cancelPipelineEntry E i reason by' L =
     (if js_blank reason then Inl (Bad_input ''reason'') else
      with_entry L i (\<lambda>row.
        if pe_state row = P_cancelled then Inr (L, row)
        else if pe_state row = P_admitting then Inl (Bad_input ''live admission claim'')
        else if pe_state row = P_failed then Inl (Bad_input ''already failed terminally'')
        else if pe_state row = P_admitted then Inl (Bad_input ''admitted'')
        else put_entry E ''pipeline.cancelled'' row
               (row\<lparr>pe_state := P_cancelled, pe_holdReason := None,
                    pe_failureReason := Some (take 500 (js_trim reason)), pe_updatedAt := en_now E\<rparr>)
               [(''reason'', JStr reason), (''by'', or_null JStr by')] L))"
subsection \<open>The board projection\<close>

definition jobHasWorkerStart :: "ledger \<Rightarrow> string \<Rightarrow> bool" where
  "jobHasWorkerStart L jobId \<longleftrightarrow>
     list_ex (\<lambda>a. ag_jobId a = Some jobId \<and> ag_role a = ''minion'' \<and> ag_parentage a = Some ''top-level'') (lg_agents L)
     \<or> latestJobEvent L jobId ''job.minion-spawned'' \<noteq> None"

definition pipeline_view :: "env \<Rightarrow> ledger \<Rightarrow> capacity_view \<Rightarrow> pipeline_entry list \<Rightarrow> pipeline_context" where
  "pipeline_view E L capacity entries =
     \<lparr>cx_entries = entries,
      cx_jobStatusOf = (\<lambda>j. map_option jb_status (getJob L j)),
      cx_jobDeliveredOf = (\<lambda>j. en_candidateDelivery E L j \<noteq> None),
      cx_jobStartedOf = jobHasWorkerStart L,
      cx_capacity = capacity\<rparr>"

record board_row =
  br_id :: string
  br_repo :: string
  br_title :: string
  br_priority :: int
  br_enqueueSeq :: nat
  br_state :: pipeline_state
  br_reason :: "wait_reason option"
  br_queuedAt :: string

record board_view =
  bv_entries :: "board_row list"
  bv_pending :: nat

definition board_row_of :: "pipeline_context \<Rightarrow> pipeline_entry \<Rightarrow> ledger_error + board_row" where
  "board_row_of ctx entry =
     attempt (lift_error Pipeline_error (evaluatePipelineEntry entry ctx)) (\<lambda>evaluation.
     Inr \<lparr>br_id = pe_id entry, br_repo = pe_repo entry, br_title = pe_title entry,
          br_priority = pe_priority entry, br_enqueueSeq = pe_enqueueSeq entry,
          br_state = ev_state evaluation, br_reason = ev_reason evaluation, br_queuedAt = pe_queuedAt entry\<rparr>)"

definition board_order :: "platform \<Rightarrow> board_row \<Rightarrow> board_row \<Rightarrow> int" where
  "board_order plat left right = pipelineOrder (plat_compare plat)
     (br_priority left, br_enqueueSeq left, br_id left) (br_priority right, br_enqueueSeq right, br_id right)"

definition pipelineBoardView :: "env \<Rightarrow> capacity_view \<Rightarrow> ledger \<Rightarrow> ledger_error + board_view" where
  "pipelineBoardView E capacity L =
     attempt (listPipelineEntries L None) (\<lambda>entries.
     attempt (map_res (board_row_of (pipeline_view E L capacity entries))
        (filter (\<lambda>e. pe_state e \<noteq> P_admitted \<and> pe_state e \<noteq> P_cancelled) entries)) (\<lambda>rows.
     let sorted = js_sort (board_order (en_plat E)) rows in
     Inr \<lparr>bv_entries = sorted, bv_pending = length (filter (\<lambda>r. br_state r \<noteq> P_failed) sorted)\<rparr>))"

subsection \<open>The entry machine\<close>

text \<open>What the store promises of one accepted entry. The accepted fields never appear on the right.\<close>

inductive entry_step :: "pipeline_entry \<Rightarrow> pipeline_entry \<Rightarrow> bool" where
  normalise: "pe_state e \<in> {P_waiting, P_ready} \<Longrightarrow> s \<in> {P_waiting, P_ready} \<Longrightarrow>
    entry_step e (e\<lparr>pe_state := s, pe_updatedAt := t\<rparr>)"
| hold: "pe_state e \<in> {P_waiting, P_ready} \<Longrightarrow>
    entry_step e (e\<lparr>pe_holdReason := Some r, pe_state := P_waiting, pe_updatedAt := t\<rparr>)"
| unhold: "pe_state e \<in> {P_waiting, P_ready} \<Longrightarrow> entry_step e (e\<lparr>pe_holdReason := None, pe_updatedAt := t\<rparr>)"
| deferral: "pe_state e \<in> {P_waiting, P_ready} \<Longrightarrow> entry_step e (e\<lparr>pe_deferReason := d, pe_updatedAt := t\<rparr>)"
| claim: "pe_state e \<in> {P_waiting, P_ready} \<Longrightarrow> pe_holdReason e = None \<Longrightarrow>
    entry_step e (e\<lparr>pe_state := P_admitting, pe_claim := Some c, pe_claimedAt := Some t, pe_updatedAt := t\<rparr>)"
| admit: "pe_state e = P_admitting \<Longrightarrow>
    entry_step e (e\<lparr>pe_state := P_admitted, pe_jobId := Some j, pe_admittedAt := Some t, pe_deferReason := None,
                    pe_updatedAt := t\<rparr>)"
| release: "pe_state e = P_admitting \<Longrightarrow> entry_step e (released_row E outcome reason note d e)"
| cancel: "pe_state e \<in> {P_waiting, P_ready} \<Longrightarrow>
    entry_step e (e\<lparr>pe_state := P_cancelled, pe_holdReason := None, pe_failureReason := r, pe_updatedAt := t\<rparr>)"

text \<open>The accepted part of an entry: everything the enqueue request fixed.\<close>

definition accepted_part :: "pipeline_entry \<Rightarrow> pipeline_entry" where
  "accepted_part e = e\<lparr>pe_state := P_waiting, pe_holdReason := None, pe_jobId := None, pe_claim := None,
     pe_failureReason := None, pe_failureCount := 0, pe_deferReason := None, pe_reconcileNote := None,
     pe_claimedAt := None, pe_admittedAt := None, pe_updatedAt := []\<rparr>"

definition pipeline_terminal :: "pipeline_entry \<Rightarrow> bool" where
  "pipeline_terminal e \<longleftrightarrow> pe_state e \<in> {P_admitted, P_failed, P_cancelled}"

definition entry_ok :: "pipeline_entry \<Rightarrow> bool" where
  "entry_ok e \<longleftrightarrow>
     (pe_claim e \<noteq> None \<longrightarrow> pe_state e \<in> {P_admitting, P_admitted})
     \<and> (pe_state e = P_admitting \<longrightarrow> pe_claim e \<noteq> None)
     \<and> (pe_jobId e \<noteq> None \<longleftrightarrow> pe_state e = P_admitted)
     \<and> (pe_holdReason e \<noteq> None \<longrightarrow> pe_state e \<in> {P_waiting, P_ready})
     \<and> isSafePipelineRecordId (pe_id e) 128 \<and> 0 \<le> pe_priority e \<and> pe_priority e \<le> 9
     \<and> (\<forall>p\<in>set (pe_prerequisites e). isSafePipelineRecordId (pr_id p) 128 \<and> pr_id p \<noteq> pe_id e)
     \<and> distinct (map pr_id (pe_prerequisites e)) \<and> distinct (pe_exclusiveScopes e)"

lemma accepted_part_fields:
  assumes "accepted_part e = accepted_part e'"
  shows "pe_id e' = pe_id e" "pe_prerequisites e' = pe_prerequisites e" "pe_requestId e' = pe_requestId e"
    "pe_enqueueSeq e' = pe_enqueueSeq e" "pe_priority e' = pe_priority e" "pe_briefing e' = pe_briefing e"
    "pe_payloadHash e' = pe_payloadHash e" "pe_exclusiveScopes e' = pe_exclusiveScopes e" "pe_repo e' = pe_repo e"
  using assms by (cases e; cases e'; simp add: accepted_part_def)+

lemma released_row_fields [simp]:
  "accepted_part (released_row E outcome reason note d e) = accepted_part e"
  "pe_id (released_row E outcome reason note d e) = pe_id e"
  by (cases outcome; simp add: accepted_part_def)+

lemma entry_step_accepted: "entry_step e e' \<Longrightarrow> accepted_part e' = accepted_part e"
  by (induction rule: entry_step.induct) (simp_all, simp_all add: accepted_part_def)

lemma entry_step_not_terminal: "entry_step e e' \<Longrightarrow> \<not> pipeline_terminal e"
  by (induction rule: entry_step.induct) (auto simp: pipeline_terminal_def)

lemma entry_step_ok: "entry_step e e' \<Longrightarrow> entry_ok e \<Longrightarrow> entry_ok e'"
proof (induction rule: entry_step.induct)
  case (release e E outcome reason nt d)
  then show ?case by (cases outcome) (auto simp: entry_ok_def)
qed (auto simp: entry_ok_def)

inductive_cases entry_step_stateE: "entry_step e e'"

subsection \<open>Every operation follows the machine\<close>

lemma with_entry_Inr [res_splits]:
  "with_entry L i k = Inr r \<longleftrightarrow> (\<exists>row. getPipelineEntry L i = Some row \<and> k row = Inr r)"
  by (auto simp: with_entry_def split: option.splits)

lemma put_entry_Inr [res_splits]:
  "put_entry E kind row row' payload L = Inr r \<longleftrightarrow>
     r = (appendEvent E kind None None (JObj ((''entry_id'', JStr (pe_id row)) # payload))
            (L\<lparr>lg_pipeline := row_update pe_id (pe_id row) (\<lambda>_. row') (lg_pipeline L)\<rparr>), row')"
  by (auto simp: put_entry_def)

inductive pipeline_op :: "env \<Rightarrow> ledger \<Rightarrow> ledger \<Rightarrow> bool" for E :: env where
  op_enqueue: "enqueuePipelineEntry E input L = Inr (L', e, created) \<Longrightarrow> pipeline_op E L L'"
| op_claim: "claimPipelineEntry E i holder L = Inr (L', r) \<Longrightarrow> pipeline_op E L L'"
| op_admit: "markPipelineAdmitted E i j L = Inr (L', e) \<Longrightarrow> pipeline_op E L L'"
| op_release: "releasePipelineClaim E i reason outcome nt d L = Inr (L', e) \<Longrightarrow> pipeline_op E L L'"
| op_clear_defer: "clearPipelineDeferReason E i L = Inr (L', e) \<Longrightarrow> pipeline_op E L L'"
| op_refresh_defer: "refreshPipelineDeferReason E i reason L = Inr (L', e) \<Longrightarrow> pipeline_op E L L'"
| op_state: "setPipelineEntryState E i ready r L = Inr (L', e) \<Longrightarrow> pipeline_op E L L'"
| op_hold: "holdPipelineEntry E i reason b L = Inr (L', e) \<Longrightarrow> pipeline_op E L L'"
| op_unhold: "clearPipelineHold E i r b L = Inr (L', e) \<Longrightarrow> pipeline_op E L L'"
| op_cancel: "cancelPipelineEntry E i reason b L = Inr (L', e) \<Longrightarrow> pipeline_op E L L'"
| op_job: "createJob E job_input L = Inr (L', job) \<Longrightarrow> pipeline_op E L L'"
| op_status: "pipeline_op E L (writeJobStatus E i s t x L)"

definition fresh_entry :: "ledger \<Rightarrow> pipeline_entry \<Rightarrow> bool" where
  "fresh_entry L e \<longleftrightarrow> entry_ok e \<and> pe_state e = P_waiting \<and> pe_enqueueSeq e = next_enqueue_seq L
     \<and> (\<forall>x\<in>set (lg_pipeline L). pe_id x \<noteq> pe_id e \<and> pe_requestId x \<noteq> pe_requestId e)
     \<and> \<not> wouldCreatePipelineCycle (pe_id e) (pe_prerequisites e) (sort_key pe_enqueueSeq (lg_pipeline L))"

definition moved :: "ledger \<Rightarrow> ledger \<Rightarrow> pipeline_entry \<Rightarrow> pipeline_entry \<Rightarrow> bool" where
  "moved L L' row row' \<longleftrightarrow> getPipelineEntry L (pe_id row) = Some row \<and> entry_step row row'
     \<and> lg_pipeline L' = row_update pe_id (pe_id row) (\<lambda>_. row') (lg_pipeline L)"

definition pipeline_change :: "ledger \<Rightarrow> ledger \<Rightarrow> bool" where
  "pipeline_change L L' \<longleftrightarrow> lg_pipeline L' = lg_pipeline L
     \<or> (\<exists>row row'. moved L L' row row')
     \<or> (\<exists>e. fresh_entry L e \<and> lg_pipeline L' = lg_pipeline L @ [e])"

lemma pipeline_change_same: "lg_pipeline L' = lg_pipeline L \<Longrightarrow> pipeline_change L L'"
  by (simp add: pipeline_change_def)

lemma pipeline_change_refl [simp]: "pipeline_change L L"
  by (simp add: pipeline_change_def)

lemma pipeline_change_put:
  assumes "getPipelineEntry L i = Some row" and "entry_step row row'"
  shows "pipeline_change L (appendEvent E kind None None payload
     (L\<lparr>lg_pipeline := row_update pe_id (pe_id row) (\<lambda>_. row') (lg_pipeline L)\<rparr>))"
  using assms getPipelineEntry_SomeD [OF assms(1)] by (auto simp: pipeline_change_def moved_def)

lemma validate_enqueue_InrD:
  assumes "validate_enqueue input = Inr acc"
  shows "isSafePipelineRecordId (ei_id input) 128"
    and "0 \<le> ai_priority acc" and "ai_priority acc \<le> 9"
    and "\<forall>p\<in>set (ai_prerequisites acc). isSafePipelineRecordId (pr_id p) 128 \<and> pr_id p \<noteq> ei_id input"
    and "distinct (map pr_id (ai_prerequisites acc))" and "distinct (ai_scopes acc)"
proof -
  from assms obtain priority prerequisites scopes where
    safe: "isSafePipelineRecordId (ei_id input) 128"
    and p: "(case ei_priority input of None \<Rightarrow> Inr \<lfloor>PIPELINE_PRIORITY_DEFAULT\<rfloor> | Some p \<Rightarrow> validatePipelinePriority p) = Inr priority"
    and ps: "(case ei_prerequisites input of None \<Rightarrow> Inr [] | Some ps \<Rightarrow> validatePipelinePrerequisites ps) = Inr prerequisites"
    and self: "\<not> list_ex (\<lambda>p. pr_id p = ei_id input) prerequisites"
    and ss: "(case ei_exclusiveScopes input of None \<Rightarrow> Inr [] | Some ss \<Rightarrow> validateExclusiveScopes ss) = Inr scopes"
    and acc: "acc = \<lparr>ai_priority = priority, ai_prerequisites = prerequisites, ai_scopes = scopes\<rparr>"
    by (auto simp: validate_enqueue_def attempt_Inr_iff requireSafeRecordId_def split: if_splits)
  show "isSafePipelineRecordId (ei_id input) 128" by (rule safe)
  show "0 \<le> ai_priority acc" and "ai_priority acc \<le> 9"
    using p acc by (auto simp: validatePipelinePriority_Inr PIPELINE_PRIORITY_DEFAULT_def split: option.splits)
  show "\<forall>p\<in>set (ai_prerequisites acc). isSafePipelineRecordId (pr_id p) 128 \<and> pr_id p \<noteq> ei_id input"
    and "distinct (map pr_id (ai_prerequisites acc))"
    using ps self acc by (auto simp: validatePipelinePrerequisites_iff list_ex_iff split: option.splits)
  show "distinct (ai_scopes acc)"
    using ss acc by (auto simp: validateExclusiveScopes_def parseExclusiveScopes_iff split: option.splits)
qed

lemma enqueue_InrD:
  assumes "enqueuePipelineEntry E input L = Inr (L', e, created)"
  shows "(\<not> created \<and> L' = L \<and> getPipelineEntryByRequestId L (request_id_of input) = Some e)
     \<or> (created \<and> fresh_entry L e \<and> lg_pipeline L' = lg_pipeline L @ [e] \<and> getJob L (pe_id e) = None
        \<and> pe_requestId e = request_id_of input)"
proof -
  from assms obtain acc where acc: "validate_enqueue input = Inr acc" and rest:
    "(case getPipelineEntryByRequestId L (request_id_of input) of
       Some existing \<Rightarrow>
         if pe_payloadHash existing \<noteq> pe_payloadHash (accepted_entry E input acc (next_enqueue_seq L))
             \<or> pe_id existing \<noteq> ei_id input
         then Inl (Pipeline_conflict (request_id_of input)) else Inr (L, existing, False)
     | None \<Rightarrow>
         if getPipelineEntry L (ei_id input) \<noteq> None then Inl (Pipeline_conflict (ei_id input))
         else if getJob L (ei_id input) \<noteq> None then Inl (Pipeline_conflict (ei_id input))
         else if wouldCreatePipelineCycle (ei_id input) (ai_prerequisites acc) (sort_key pe_enqueueSeq (lg_pipeline L))
         then Inl (Pipeline_conflict (ei_id input))
         else Inr (L', e, created)) = Inr (L', e, created)"
    and new: "getPipelineEntryByRequestId L (request_id_of input) = None \<Longrightarrow>
       created \<and> e = accepted_entry E input acc (next_enqueue_seq L) \<and> lg_pipeline L' = lg_pipeline L @ [e]"
    by (auto simp: enqueuePipelineEntry_def attempt_Inr_iff Let_def listPipelineEntries_def
        split: option.splits if_splits)
  show ?thesis
  proof (cases "getPipelineEntryByRequestId L (request_id_of input)")
    case (Some existing)
    with rest show ?thesis by (auto split: if_splits)
  next
    case None
    note V = validate_enqueue_InrD [OF acc]
    from rest None have guards: "getPipelineEntry L (ei_id input) = None" "getJob L (ei_id input) = None"
      "\<not> wouldCreatePipelineCycle (ei_id input) (ai_prerequisites acc) (sort_key pe_enqueueSeq (lg_pipeline L))"
      by (auto split: if_splits)
    from new [OF None] have e: "pe_id e = ei_id input" "pe_requestId e = request_id_of input"
      "pe_prerequisites e = ai_prerequisites acc" "pe_state e = P_waiting" "pe_enqueueSeq e = next_enqueue_seq L"
      by (auto simp: accepted_entry_def)
    have "entry_ok e"
      using V new [OF None] by (auto simp: entry_ok_def accepted_entry_def)
    moreover have "\<forall>x\<in>set (lg_pipeline L). pe_id x \<noteq> pe_id e \<and> pe_requestId x \<noteq> pe_requestId e"
      using None guards(1)
      by (simp add: e getPipelineEntryByRequestId_def getPipelineEntry_def row_find_None_ball)
    ultimately show ?thesis
      using guards conjunct1 [OF new [OF None]] conjunct2 [OF conjunct2 [OF new [OF None]]]
      by (simp add: fresh_entry_def e)
  qed
qed

lemma claim_InrD:
  assumes "claimPipelineEntry E i holder L = Inr (L', r)"
  shows "(r = None \<and> L' = L) \<or> (\<exists>row row'. moved L L' row row' \<and> r = Some row' \<and> pe_id row = i
     \<and> pe_state row \<in> {P_waiting, P_ready} \<and> pe_holdReason row = None
     \<and> pe_state row' = P_admitting \<and> pe_claim row' = Some \<lparr>pc_holder = holder, pc_since = en_now E\<rparr>)"
proof -
  from assms obtain row where row: "getPipelineEntry L i = Some row" and
    rest: "(if (pe_state row \<noteq> P_waiting \<and> pe_state row \<noteq> P_ready) \<or> pe_holdReason row \<noteq> None then r = None \<and> L' = L
      else L' = appendEvent E ''pipeline.claimed'' None None
             (JObj ((''entry_id'', JStr (pe_id row)) # [(''holder'', JStr holder)]))
             (L\<lparr>lg_pipeline := row_update pe_id (pe_id row) (\<lambda>_. row\<lparr>pe_state := P_admitting,
                pe_claim := Some \<lparr>pc_holder = holder, pc_since = en_now E\<rparr>, pe_claimedAt := Some (en_now E),
                pe_updatedAt := en_now E\<rparr>) (lg_pipeline L)\<rparr>)
        \<and> r = Some (row\<lparr>pe_state := P_admitting, pe_claim := Some \<lparr>pc_holder = holder, pc_since = en_now E\<rparr>,
               pe_claimedAt := Some (en_now E), pe_updatedAt := en_now E\<rparr>))"
    by (auto simp: claimPipelineEntry_def with_entry_Inr put_entry_def split: if_splits)
  show ?thesis
  proof (cases "(pe_state row \<noteq> P_waiting \<and> pe_state row \<noteq> P_ready) \<or> pe_holdReason row \<noteq> None")
    case True
    with rest show ?thesis by simp
  next
    case False
    then have "entry_step row (row\<lparr>pe_state := P_admitting, pe_claim := Some \<lparr>pc_holder = holder, pc_since = en_now E\<rparr>,
        pe_claimedAt := Some (en_now E), pe_updatedAt := en_now E\<rparr>)"
      by (intro entry_step.claim) auto
    with False rest row getPipelineEntry_SomeD [OF row] show ?thesis
      unfolding moved_def by auto
  qed
qed

lemma change_of_put:
  assumes "put_entry E kind row row' payload L = Inr (L', e)" and "getPipelineEntry L i = Some row"
    and "entry_step row row'"
  shows "pipeline_change L L'"
  using assms(1) pipeline_change_put [OF assms(2,3)] unfolding put_entry_Inr by simp

lemma not_terminal_not_admitting:
  "pe_state row \<noteq> P_admitting \<Longrightarrow> pe_state row \<notin> {P_admitted, P_failed, P_cancelled} \<Longrightarrow>
     pe_state row \<in> {P_waiting, P_ready}"
  by (cases "pe_state row") auto

lemma admit_change: "markPipelineAdmitted E i j L = Inr (L', e) \<Longrightarrow> pipeline_change L L'"
  unfolding markPipelineAdmitted_def with_entry_Inr
  by (elim exE conjE)
    (auto split: if_split_asm option.split_asm intro: change_of_put [OF _ _ entry_step.admit])

lemma release_change: "releasePipelineClaim E i reason outcome nt d L = Inr (L', e) \<Longrightarrow> pipeline_change L L'"
  unfolding releasePipelineClaim_def attempt_Inr_iff with_entry_Inr
  by (elim exE conjE)
    (auto split: if_split_asm intro: change_of_put [OF _ _ entry_step.release])

lemma clear_defer_change: "clearPipelineDeferReason E i L = Inr (L', e) \<Longrightarrow> pipeline_change L L'"
  unfolding clearPipelineDeferReason_def with_entry_Inr
  by (elim exE conjE)
    (auto split: if_split_asm intro: change_of_put [OF _ _ entry_step.deferral])

lemma refresh_defer_change: "refreshPipelineDeferReason E i reason L = Inr (L', e) \<Longrightarrow> pipeline_change L L'"
  unfolding refreshPipelineDeferReason_def guard_Inr with_entry_Inr
  by (elim exE conjE)
    (auto split: if_split_asm intro: change_of_put [OF _ _ entry_step.deferral])

lemma state_change: "setPipelineEntryState E i ready r L = Inr (L', e) \<Longrightarrow> pipeline_change L L'"
  unfolding setPipelineEntryState_def Let_def with_entry_Inr
  by (elim exE conjE)
    (auto split: if_split_asm intro: change_of_put [OF _ _ entry_step.normalise])

lemma hold_change: "holdPipelineEntry E i reason b L = Inr (L', e) \<Longrightarrow> pipeline_change L L'"
  unfolding holdPipelineEntry_def guard_Inr with_entry_Inr
  by (elim exE conjE)
    (rule change_of_put [OF _ _ entry_step.hold], assumption+, rule not_terminal_not_admitting, auto)

lemma unhold_change: "clearPipelineHold E i r b L = Inr (L', e) \<Longrightarrow> pipeline_change L L'"
  unfolding clearPipelineHold_def with_entry_Inr
  by (elim exE conjE)
    (auto split: if_split_asm intro: change_of_put [OF _ _ entry_step.unhold])

lemma cancel_change: "cancelPipelineEntry E i reason b L = Inr (L', e) \<Longrightarrow> pipeline_change L L'"
proof -
  assume "cancelPipelineEntry E i reason b L = Inr (L', e)"
  then obtain row where row: "getPipelineEntry L i = Some row" and
    body: "(if pe_state row = P_cancelled then Inr (L, row)
        else if pe_state row = P_admitting then Inl (Bad_input ''live admission claim'')
        else if pe_state row = P_failed then Inl (Bad_input ''already failed terminally'')
        else if pe_state row = P_admitted then Inl (Bad_input ''admitted'')
        else put_entry E ''pipeline.cancelled'' row
               (row\<lparr>pe_state := P_cancelled, pe_holdReason := None,
                    pe_failureReason := Some (take 500 (js_trim reason)), pe_updatedAt := en_now E\<rparr>)
               [(''reason'', JStr reason), (''by'', or_null JStr b)] L) = Inr (L', e)"
    unfolding cancelPipelineEntry_def guard_Inr with_entry_Inr by blast
  show ?thesis
  proof (cases "pe_state row \<in> {P_waiting, P_ready}")
    case True
    with body show ?thesis
      by (auto intro: change_of_put [OF _ row entry_step.cancel])
  next
    case False
    with body show ?thesis by (cases "pe_state row") auto
  qed
qed

lemma pipeline_op_change: "pipeline_op E L L' \<Longrightarrow> pipeline_change L L'"
proof (induction rule: pipeline_op.induct)
  case (op_enqueue input L L' e created)
  from enqueue_InrD [OF op_enqueue] show ?case by (auto simp: pipeline_change_def)
next
  case (op_claim i holder L L' r)
  from claim_InrD [OF op_claim] show ?case by (auto simp: pipeline_change_def)
next
  case (op_job job_input L L' job)
  from createJob_InrD(10) [OF op_job] show ?case by (rule pipeline_change_same)
next
  case (op_status L i s t x)
  show ?case by (rule pipeline_change_same) simp
qed (rule admit_change release_change clear_defer_change refresh_defer_change state_change hold_change
      unhold_change cancel_change, assumption)+

subsection \<open>Queue invariants\<close>

definition pipeline_ok :: "ledger \<Rightarrow> bool" where
  "pipeline_ok L \<longleftrightarrow> distinct (map pe_id (lg_pipeline L)) \<and> distinct (map pe_requestId (lg_pipeline L))
     \<and> sorted_wrt (<) (map pe_enqueueSeq (lg_pipeline L)) \<and> list_all entry_ok (lg_pipeline L)
     \<and> acyclic (prerequisite_graph (lg_pipeline L))"

lemma sort_key_id_if_sorted: "sorted (map f xs) \<Longrightarrow> sort_key f xs = xs"
proof (induction xs)
  case (Cons x xs)
  then show ?case by (cases xs) auto
qed simp

lemma sorted_seq_list: "pipeline_ok L \<Longrightarrow> sort_key pe_enqueueSeq (lg_pipeline L) = lg_pipeline L"
  by (rule sort_key_id_if_sorted) (auto simp: pipeline_ok_def strict_sorted_iff)

lemma next_enqueue_seq_gt: "e \<in> set (lg_pipeline L) \<Longrightarrow> pe_enqueueSeq e < next_enqueue_seq L"
  by (auto simp: next_enqueue_seq_def dest: max_of_ge split: option.splits) 

lemma update_fixed_part:
  assumes "getPipelineEntry L (pe_id row) = Some row" and "accepted_part row' = accepted_part row"
    and "distinct (map pe_id (lg_pipeline L))"
  shows "map accepted_part (row_update pe_id (pe_id row) (\<lambda>_. row') (lg_pipeline L)) = map accepted_part (lg_pipeline L)"
proof -
  have inj: "inj_on pe_id (set (lg_pipeline L))" using assms(3) by (simp add: distinct_map)
  have "e = row" if "e \<in> set (lg_pipeline L)" "pe_id e = pe_id row" for e
    using inj_onD [OF inj that(2) that(1)] getPipelineEntry_SomeD [OF assms(1)] by simp
  then show ?thesis using assms(2) by (auto simp: row_update_def)
qed

lemma map_accepted_fields:
  assumes "map accepted_part xs = map accepted_part ys"
  shows "map pe_id xs = map pe_id ys" "map pe_requestId xs = map pe_requestId ys"
    "map pe_enqueueSeq xs = map pe_enqueueSeq ys"
    "map (\<lambda>e. (pe_id e, pe_prerequisites e)) xs = map (\<lambda>e. (pe_id e, pe_prerequisites e)) ys"
  by (rule map_eq_via [OF assms], metis accepted_part_fields(1-4))+

lemma moved_accepted:
  assumes "pipeline_ok L" and "moved L L' row row'"
  shows "map accepted_part (lg_pipeline L') = map accepted_part (lg_pipeline L)"
  using assms update_fixed_part [of L row row'] entry_step_accepted [of row row']
  by (simp add: moved_def pipeline_ok_def)

lemma moved_ok:
  assumes "pipeline_ok L" and "moved L L' row row'"
  shows "pipeline_ok L'"
proof -
  note same = map_accepted_fields [OF moved_accepted [OF assms]]
  have "entry_ok row" using assms by (auto simp: pipeline_ok_def moved_def list_all_iff dest: getPipelineEntry_SomeD)
  then have "entry_ok row'" using assms(2) by (auto simp: moved_def intro: entry_step_ok)
  then have "list_all entry_ok (lg_pipeline L')"
    using assms by (auto simp: pipeline_ok_def moved_def list_all_iff row_update_def)
  moreover have "prerequisite_graph (lg_pipeline L') = prerequisite_graph (lg_pipeline L)"
    by (rule prerequisite_graph_cong) (rule same(4))
  ultimately show ?thesis using assms(1) same(1-3) by (simp add: pipeline_ok_def)
qed

lemma append_ok:
  assumes "pipeline_ok L" and "fresh_entry L e" and "lg_pipeline L' = lg_pipeline L @ [e]"
  shows "pipeline_ok L'"
proof -
  have fresh: "\<forall>x\<in>set (lg_pipeline L). pe_id x \<noteq> pe_id e \<and> pe_requestId x \<noteq> pe_requestId e"
    using assms(2) by (simp add: fresh_entry_def)
  have ids: "pe_id e \<notin> pe_id ` set (lg_pipeline L)" and requests: "pe_requestId e \<notin> pe_requestId ` set (lg_pipeline L)"
    using fresh by (metis imageE)+
  have "acyclic (prerequisite_graph (lg_pipeline L'))"
    using acyclic_append [OF _ ids] assms by (simp add: pipeline_ok_def fresh_entry_def sorted_seq_list)
  moreover have "sorted_wrt (<) (map pe_enqueueSeq (lg_pipeline L'))"
    using assms next_enqueue_seq_gt by (auto simp: pipeline_ok_def fresh_entry_def sorted_wrt_append)
  ultimately show ?thesis
    using assms ids requests by (simp add: pipeline_ok_def fresh_entry_def)
qed

lemma pipeline_change_ok: "pipeline_change L L' \<Longrightarrow> pipeline_ok L \<Longrightarrow> pipeline_ok L'"
  using moved_ok append_ok unfolding pipeline_change_def by (metis pipeline_ok_def)

definition no_pipeline :: "ledger \<Rightarrow> bool" where
  "no_pipeline L \<longleftrightarrow> lg_pipeline L = []"

definition any_pipeline_op :: "ledger \<Rightarrow> ledger \<Rightarrow> bool" where
  "any_pipeline_op L L' \<longleftrightarrow> (\<exists>E. pipeline_op E L L')"

interpretation queue_inv: invariant_system no_pipeline any_pipeline_op pipeline_ok
proof unfold_locales
  show "pipeline_ok L" if "no_pipeline L" for L
    using that by (simp add: no_pipeline_def pipeline_ok_def prerequisite_graph_def edges_avoiding_def by_id_def
        newest_def acyclic_def)
  show "pipeline_ok L'" if "pipeline_ok L" "any_pipeline_op L L'" for L L'
    using that(2) pipeline_change_ok [OF pipeline_op_change that(1)] by (auto simp: any_pipeline_op_def)
qed

lemma by_id_self:
  assumes "distinct (map pe_id entries)" and "e \<in> set entries"
  shows "by_id entries (pe_id e) = Some e"
proof -
  have "distinct (map pe_id (rev entries))" using assms(1) by (simp add: rev_map [symmetric])
  from row_find_distinct [OF this] assms(2) show ?thesis by (simp add: by_id_def newest_def row_find_def)
qed

lemma pipeline_ok_no_cycle:
  "pipeline_ok L \<Longrightarrow> e \<in> set (lg_pipeline L) \<Longrightarrow> prerequisiteCyclePath e (lg_pipeline L) = None"
  by (rule acyclic_no_cycle_path) (auto simp: pipeline_ok_def intro: by_id_self)

subsection \<open>The projection\<close>

lemma board_row_of_Inr:
  "board_row_of ctx e = Inr r \<Longrightarrow> br_priority r = pe_priority e \<and> br_enqueueSeq r = pe_enqueueSeq e
     \<and> br_id r = pe_id e \<and> br_state r \<noteq> P_admitted \<and> br_state r \<noteq> P_cancelled"
  by (auto simp: board_row_of_def attempt_Inr_iff evaluatePipelineEntry_def split: if_splits option.splits)

lemma board_row_of_total:
  "pe_state e \<noteq> P_admitted \<Longrightarrow> pe_state e \<noteq> P_cancelled \<Longrightarrow> \<exists>r. board_row_of ctx e = Inr r"
  by (cases "pe_state e") (auto simp: board_row_of_def evaluatePipelineEntry_def split: option.splits)

lemma map_res_exists: "(\<And>x. x \<in> set xs \<Longrightarrow> \<exists>y. f x = Inr y) \<Longrightarrow> \<exists>ys. map_res f xs = Inr ys"
proof (induction xs)
  case (Cons x xs)
  then obtain y ys where "f x = Inr y" and "map_res f xs = Inr ys" by (metis list.set_intros)
  then show ?case by simp
qed simp

lemma map_res_map:
  "map_res f xs = Inr ys \<Longrightarrow> (\<And>x y. f x = Inr y \<Longrightarrow> g y = h x) \<Longrightarrow> map g ys = map h xs"
  by (induction xs arbitrary: ys) (auto simp: attempt_Inr_iff)

lemma change_keeps:
  assumes "pipeline_ok L" and "pipeline_change L L'" and "e \<in> set (lg_pipeline L)"
  shows "\<exists>e'\<in>set (lg_pipeline L'). accepted_part e' = accepted_part e \<and> (pipeline_terminal e \<longrightarrow> e' = e)"
  using assms(2) unfolding pipeline_change_def
proof (elim disjE exE conjE)
  fix row row' assume m: "moved L L' row row'"
  show ?thesis
  proof (cases "pe_id e = pe_id row")
    case True
    have "inj_on pe_id (set (lg_pipeline L))" using assms(1) by (simp add: pipeline_ok_def distinct_map)
    then have "e = row"
      using m assms(3) True by (auto simp: moved_def dest!: getPipelineEntry_SomeD dest: inj_onD)
    moreover have "row' \<in> set (lg_pipeline L')"
      using m assms(3) True by (auto simp: moved_def row_update_def)
    moreover have "accepted_part row' = accepted_part row" and "\<not> pipeline_terminal row"
      using m entry_step_accepted entry_step_not_terminal by (auto simp: moved_def)
    ultimately show ?thesis by blast
  next
    case False
    then have "e \<in> set (lg_pipeline L')" using m assms(3) by (auto simp: moved_def row_update_def)
    then show ?thesis by blast
  qed
qed (use assms(3) in auto)

lemma ops_keep:
  assumes "any_pipeline_op\<^sup>*\<^sup>* L L'" and "pipeline_ok L" and "e \<in> set (lg_pipeline L)"
  shows "\<exists>e'\<in>set (lg_pipeline L'). accepted_part e' = accepted_part e"
  using assms
proof (induction rule: rtranclp_induct)
  case base
  then show ?case by blast
next
  case (step M N)
  have "pipeline_ok M" using queue_inv.steps_inv [OF step.hyps(1)] step.prems by blast
  moreover obtain f where "f \<in> set (lg_pipeline M)" "accepted_part f = accepted_part e"
    using step by blast
  moreover have "pipeline_change M N" using step.hyps(2) pipeline_op_change by (auto simp: any_pipeline_op_def)
  ultimately show ?case using change_keeps by metis
qed

lemma request_lookup:
  "pipeline_ok L \<Longrightarrow> e \<in> set (lg_pipeline L) \<Longrightarrow> getPipelineEntryByRequestId L (pe_requestId e) = Some e"
  unfolding getPipelineEntryByRequestId_def by (rule row_find_distinct) (simp_all add: pipeline_ok_def)

subsection \<open>Properties\<close>

text \<open>C1. The queue is always sound: in every ledger reached by pipeline and job operations the entry ids,
  request ids and enqueue sequence numbers are distinct (the sequence strictly increasing), an entry has
  a job exactly when it is admitted, a hold only while it waits, a live claim while it is admitting, and
  the prerequisite graph is acyclic, so the evaluator never reports a dependency cycle.\<close>

theorem queue_reachable:
  assumes "reach no_pipeline any_pipeline_op L"
  shows "distinct (map pe_id (lg_pipeline L)) \<and> distinct (map pe_requestId (lg_pipeline L))
   \<and> sorted_wrt (<) (map pe_enqueueSeq (lg_pipeline L)) \<and> acyclic (prerequisite_graph (lg_pipeline L))
   \<and> (\<forall>e\<in>set (lg_pipeline L). prerequisiteCyclePath e (lg_pipeline L) = None
        \<and> (pe_jobId e \<noteq> None \<longleftrightarrow> pe_state e = P_admitted)
        \<and> (pe_holdReason e \<noteq> None \<longrightarrow> pe_state e \<in> {P_waiting, P_ready})
        \<and> (pe_state e = P_admitting \<longrightarrow> pe_claim e \<noteq> None)
        \<and> 0 \<le> pe_priority e \<and> pe_priority e \<le> 9)"
proof -
  have "pipeline_ok L" by (rule queue_inv.reach_inv [OF assms])
  then show ?thesis
    using pipeline_ok_no_cycle [of L] by (auto simp: pipeline_ok_def list_all_iff entry_ok_def)
qed

definition sample_enqueue :: enqueue_input where
  "sample_enqueue = \<lparr>ei_id = ''j-1'', ei_requestId = None, ei_repoPath = ''/a/r'', ei_title = ''t'',
     ei_briefing = ''b'', ei_priority = Some 3, ei_prerequisites = None, ei_exclusiveScopes = Some [''db''],
     ei_holdReason = None, ei_by = None\<rparr>"

definition sample_accepted :: pipeline_entry where
  "sample_accepted = accepted_entry sample_env sample_enqueue \<lparr>ai_priority = 3, ai_prerequisites = [], ai_scopes = [''db'']\<rparr> 1"

definition sample_queue :: ledger where
  "sample_queue = appendEvent sample_env ''pipeline.enqueued'' None None
     (JObj [(''entry_id'', JStr ''j-1''), (''request_id'', JStr ''j-1''), (''priority'', JNum 3),
        (''enqueue_seq'', JNum 1), (''hold'', JBool False), (''briefing_bytes'', JNum 1), (''by'', JNull)])
     (empty_ledger\<lparr>lg_pipeline := [sample_accepted]\<rparr>)"

lemma sample_validates:
  "validate_enqueue sample_enqueue = Inr \<lparr>ai_priority = 3, ai_prerequisites = [], ai_scopes = [''db'']\<rparr>"
  by (simp add: validate_enqueue_def sample_enqueue_def requireSafeRecordId_def js_space_def validateExclusiveScopes_def
      parseExclusiveScopes_def js_trim_def validatePipelinePriority_def PIPELINE_PRIORITY_MIN_def PIPELINE_PRIORITY_MAX_def)

lemma sample_enqueued:
  "enqueuePipelineEntry sample_env sample_enqueue empty_ledger = Inr (sample_queue, sample_accepted, True)"
  unfolding enqueuePipelineEntry_def sample_validates attempt.simps Let_def
  by (simp add: sample_queue_def empty_ledger_def getPipelineEntryByRequestId_def getPipelineEntry_def getJob_def
      row_find_def listPipelineEntries_def wouldCreatePipelineCycle_def next_enqueue_seq_def max_of_def
      sample_accepted_def accepted_entry_def sample_enqueue_def request_id_of_def normal_hold_def utf8_length_def
      less_char_def)

lemma sample_queue_reached: "reach no_pipeline any_pipeline_op sample_queue"
proof -
  have "reach no_pipeline any_pipeline_op empty_ledger"
    by (rule reach_init) (simp add: no_pipeline_def empty_ledger_def)
  moreover have "any_pipeline_op empty_ledger sample_queue"
    using pipeline_op.op_enqueue [OF sample_enqueued] by (auto simp: any_pipeline_op_def)
  ultimately show ?thesis by (rule reach_step)
qed

theorem queue_reachable_witness: "prerequisiteCyclePath sample_accepted (lg_pipeline sample_queue) = None"
  using queue_reachable [OF sample_queue_reached] by (simp add: sample_queue_def)

text \<open>C14. Nothing accepted is lost or rewritten: whatever operation runs, every entry is still there with
  the briefing, hashes, priority, sequence, prerequisites, scopes and request it was accepted with, and
  an admitted, failed or cancelled entry does not change at all.\<close>

theorem queue_history:
  assumes "pipeline_ok L" and "pipeline_op E L L'" and "e \<in> set (lg_pipeline L)"
  shows "\<exists>e'\<in>set (lg_pipeline L'). accepted_part e' = accepted_part e \<and> (pipeline_terminal e \<longrightarrow> e' = e)"
  using change_keeps [OF assms(1) pipeline_op_change [OF assms(2)] assms(3)] .

lemma sample_queue_ok: "pipeline_ok sample_queue"
  by (rule queue_inv.reach_inv [OF sample_queue_reached])

lemma sample_cancel:
  "\<exists>L' e. cancelPipelineEntry sample_env ''j-1'' ''obsolete'' None sample_queue = Inr (L', e)"
  by (simp add: cancelPipelineEntry_def with_entry_def getPipelineEntry_def row_find_def sample_queue_def
      sample_accepted_def accepted_entry_def sample_enqueue_def put_entry_def js_space_def)

theorem queue_history_witness:
  "\<exists>L'. pipeline_op sample_env sample_queue L'
     \<and> (\<exists>e'\<in>set (lg_pipeline L'). accepted_part e' = accepted_part sample_accepted)"
proof -
  obtain L' e where "cancelPipelineEntry sample_env ''j-1'' ''obsolete'' None sample_queue = Inr (L', e)"
    using sample_cancel by blast
  then have op: "pipeline_op sample_env sample_queue L'" by (rule pipeline_op.op_cancel)
  have "sample_accepted \<in> set (lg_pipeline sample_queue)" by (simp add: sample_queue_def)
  from queue_history [OF sample_queue_ok op this] op show ?thesis by blast
qed

text \<open>C31. Submitting is idempotent: after an accepted request, whatever happened since, the same request is
  answered with the same durable row and changes nothing, while the same request id with content of
  another digest is refused as a conflict.\<close>

theorem enqueue_replay:
  assumes "pipeline_ok L" and "enqueuePipelineEntry E input L = Inr (L', e, True)"
    and "any_pipeline_op\<^sup>*\<^sup>* L' M" and "en_plat E' = en_plat E"
  shows "(\<exists>e'. accepted_part e' = accepted_part e \<and> enqueuePipelineEntry E' input M = Inr (M, e', False))
   \<and> (\<forall>input' acc'. validate_enqueue input' = Inr acc' \<longrightarrow> request_id_of input' = request_id_of input \<longrightarrow>
        pe_payloadHash (accepted_entry E' input' acc' (next_enqueue_seq M)) \<noteq> pe_payloadHash e \<longrightarrow>
        enqueuePipelineEntry E' input' M = Inl (Pipeline_conflict (request_id_of input)))"
proof -
  from enqueue_InrD [OF assms(2)] have e: "fresh_entry L e" "lg_pipeline L' = lg_pipeline L @ [e]"
    "pe_requestId e = request_id_of input" by auto
  from assms(2) obtain acc where acc: "validate_enqueue input = Inr acc"
    and made: "e = accepted_entry E input acc (next_enqueue_seq L)"
    by (auto simp: enqueuePipelineEntry_def attempt_Inr_iff Let_def split: option.splits if_splits)
  have ok': "pipeline_ok L'" using append_ok [OF assms(1) e(1,2)] .
  have "e \<in> set (lg_pipeline L')" by (simp add: e(2))
  from ops_keep [OF assms(3) ok' this] obtain e' where
    e': "e' \<in> set (lg_pipeline M)" "accepted_part e' = accepted_part e" by blast
  have "pipeline_ok M" using queue_inv.steps_inv [OF assms(3) ok'] .
  note fields = accepted_part_fields [OF e'(2) [symmetric]]
  have look: "getPipelineEntryByRequestId M (request_id_of input) = Some e'"
    using request_lookup [OF \<open>pipeline_ok M\<close> e'(1)] fields(3) e(3) by simp
  have hash: "pe_payloadHash (accepted_entry E' input acc (next_enqueue_seq M)) = pe_payloadHash e"
    by (simp add: made accepted_entry_def assms(4))
  have "enqueuePipelineEntry E' input M = Inr (M, e', False)"
    using look hash fields(1,7) by (simp add: enqueuePipelineEntry_def acc Let_def) (simp add: made accepted_entry_def)
  moreover have "enqueuePipelineEntry E' input' M = Inl (Pipeline_conflict (request_id_of input))"
    if "validate_enqueue input' = Inr acc'" "request_id_of input' = request_id_of input"
      "pe_payloadHash (accepted_entry E' input' acc' (next_enqueue_seq M)) \<noteq> pe_payloadHash e" for input' acc'
    using that look fields(7) by (simp add: enqueuePipelineEntry_def Let_def)
  ultimately show ?thesis using e'(2) by blast
qed

lemma empty_pipeline_ok: "pipeline_ok empty_ledger"
  by (rule queue_inv.inv_init) (simp add: no_pipeline_def empty_ledger_def)

theorem enqueue_replay_witness:
  "\<exists>e'. enqueuePipelineEntry sample_env sample_enqueue sample_queue = Inr (sample_queue, e', False)"
  using enqueue_replay [OF empty_pipeline_ok sample_enqueued rtranclp.rtrancl_refl refl] by blast

text \<open>C13. The admission claim is exclusive: it is granted exactly when the entry stands waiting or ready and unheld,
  and a refused claim changes nothing. A granted one is durable in the ledger returned, changes no other entry and
  nothing of what was accepted, and until it is resolved every other claim of the entry is refused.\<close>

theorem claim_exclusive:
  assumes "pipeline_ok L" and "claimPipelineEntry E i holder L = Inr (L', r)"
  shows "\<exists>row. getPipelineEntry L i = Some row
   \<and> (if (pe_state row = P_waiting \<or> pe_state row = P_ready) \<and> pe_holdReason row = None
      then \<exists>e. r = Some e \<and> getPipelineEntry L' i = Some e \<and> accepted_part e = accepted_part row
        \<and> pe_state e = P_admitting \<and> pe_claim e = Some \<lparr>pc_holder = holder, pc_since = en_now E\<rparr> \<and> pe_holdReason e = None
        \<and> (\<forall>j. j \<noteq> i \<longrightarrow> getPipelineEntry L' j = getPipelineEntry L j)
        \<and> (\<forall>E' holder'. \<not> js_blank holder' \<longrightarrow> claimPipelineEntry E' i holder' L' = Inr (L', None))
      else r = None \<and> L' = L)"
proof -
  from assms(2) obtain row where row: "getPipelineEntry L i = Some row"
    by (auto simp: claimPipelineEntry_def with_entry_def split: if_splits option.splits)
  then have id: "pe_id row = i" using getPipelineEntry_SomeD by blast
  show ?thesis
  proof (cases "(pe_state row = P_waiting \<or> pe_state row = P_ready) \<and> pe_holdReason row = None")
    case False
    then have "r = None \<and> L' = L"
      using assms(2) row by (auto simp: claimPipelineEntry_def with_entry_def split: if_split_asm)
    with False row show ?thesis by auto
  next
    case True
    then have "r \<noteq> None"
      using assms(2) row by (auto simp: claimPipelineEntry_def with_entry_def attempt_Inr_iff put_entry_def split: if_split_asm)
    with claim_InrD [OF assms(2)] obtain row' e where m': "moved L L' row' e" "pe_id row' = i" and r: "r = Some e"
      and e: "pe_state e = P_admitting" "pe_claim e = Some \<lparr>pc_holder = holder, pc_since = en_now E\<rparr>"
      by blast
    have "row' = row" using m' row by (simp add: moved_def)
    then have m: "moved L L' row e" using m'(1) by simp
    have part: "accepted_part e = accepted_part row" using m by (simp add: moved_def entry_step_accepted)
    have same: "pe_id e = pe_id row" using accepted_part_fields(1) [OF part] by simp
    have find: "getPipelineEntry L' j = (if j = i then Some e else getPipelineEntry L j)" for j
      using m id same row by (simp add: moved_def getPipelineEntry_def row_put_find)
    have "entry_ok e"
      using moved_ok [OF assms(1) m] find [of i] by (auto simp: pipeline_ok_def list_all_iff dest!: getPipelineEntry_SomeD)
    then have "pe_holdReason e = None" using e by (auto simp: entry_ok_def)
    moreover have "claimPipelineEntry E' i holder' L' = Inr (L', None)" if "\<not> js_blank holder'" for E' holder'
      using find [of i] e that by (simp add: claimPipelineEntry_def with_entry_def)
    ultimately show ?thesis using True row r e part find by auto
  qed
qed

theorem claim_exclusive_witness:
  "\<exists>L' e. claimPipelineEntry sample_env ''j-1'' ''c1'' sample_queue = Inr (L', Some e)
     \<and> claimPipelineEntry sample_env ''j-1'' ''c2'' L' = Inr (L', None)"
proof -
  obtain L' e where run: "claimPipelineEntry sample_env ''j-1'' ''c1'' sample_queue = Inr (L', Some e)"
    by (simp add: claimPipelineEntry_def with_entry_def getPipelineEntry_def row_find_def sample_queue_def
        sample_accepted_def accepted_entry_def sample_enqueue_def normal_hold_def put_entry_def js_space_def)
  have "\<forall>E' h. \<not> js_blank h \<longrightarrow> claimPipelineEntry E' ''j-1'' h L' = Inr (L', None)"
    using claim_exclusive [OF sample_queue_ok run] by (auto split: if_split_asm)
  moreover have "\<not> js_blank ''c2''" by (simp add: js_space_def)
  ultimately show ?thesis using run by blast
qed

lemma admit_InrD:
  assumes "markPipelineAdmitted E i jobId L = Inr (L', e)"
  shows "\<exists>r. getPipelineEntry L i = Some r \<and>
    (L' = L \<and> e = r \<and> pe_state r = P_admitted \<and> pe_jobId r = Some jobId
     \<or> (\<exists>job. pe_state r = P_admitting \<and> getJob L jobId = Some job \<and> jb_briefing job = Some (pe_briefing r)
          \<and> jb_repo job = pe_repo r \<and> put_entry E ''pipeline.admitted'' r
              (r\<lparr>pe_state := P_admitted, pe_jobId := Some jobId, pe_admittedAt := Some (en_now E),
                 pe_deferReason := None, pe_updatedAt := en_now E\<rparr>) [(''job_id'', JStr jobId)] L = Inr (L', e)))"
proof -
  from assms obtain r where r: "getPipelineEntry L i = Some r" and
    run: "(if pe_state r = P_admitted \<and> pe_jobId r = Some jobId then Inr (L, r)
       else if pe_state r \<noteq> P_admitting then Inl (Bad_input ''no admitting claim'')
       else case getJob L jobId of
         None \<Rightarrow> Inl (Bad_input ''job missing'')
       | Some job \<Rightarrow>
           if jb_briefing job \<noteq> Some (pe_briefing r) \<or> jb_repo job \<noteq> pe_repo r
           then Inl (Bad_input ''refusing adoption'')
           else put_entry E ''pipeline.admitted'' r
                  (r\<lparr>pe_state := P_admitted, pe_jobId := Some jobId, pe_admittedAt := Some (en_now E),
                       pe_deferReason := None, pe_updatedAt := en_now E\<rparr>)
                  [(''job_id'', JStr jobId)] L) = Inr (L', e)"
    unfolding markPipelineAdmitted_def with_entry_Inr by blast
  show ?thesis
  proof (cases "pe_state r = P_admitted \<and> pe_jobId r = Some jobId")
    case True
    then show ?thesis using r run by simp
  next
    case other: False
    show ?thesis
    proof (cases "getJob L jobId")
      case None
      then show ?thesis using other run by (simp split: if_split_asm)
    next
      case (Some job)
      show ?thesis
        by (rule exI [of _ r]) (use other Some r run in \<open>simp del: put_entry_Inr split: if_split_asm\<close>)
    qed
  qed
qed

text \<open>C8. An admission binds real work: an admitting entry becomes admitted only for a job that exists in the
  same repository with exactly the accepted briefing, and the entry then names that job for good.\<close>

theorem admission_binding:
  assumes "pipeline_ok L" and "markPipelineAdmitted E i jobId L = Inr (L', e)"
  shows "pe_state e = P_admitted \<and> pe_jobId e = Some jobId
   \<and> (getPipelineEntry L i = Some row \<and> pe_state row = P_admitting \<longrightarrow>
       (\<exists>job. getJob L jobId = Some job \<and> jb_briefing job = Some (pe_briefing e) \<and> jb_repo job = pe_repo e)
       \<and> accepted_part e = accepted_part row)
   \<and> (any_pipeline_op\<^sup>*\<^sup>* L' M \<longrightarrow> e \<in> set (lg_pipeline M))"
proof -
  obtain r where r: "getPipelineEntry L i = Some r" and body:
    "L' = L \<and> e = r \<and> pe_state r = P_admitted \<and> pe_jobId r = Some jobId
     \<or> (\<exists>job. pe_state r = P_admitting \<and> getJob L jobId = Some job \<and> jb_briefing job = Some (pe_briefing r)
          \<and> jb_repo job = pe_repo r \<and> put_entry E ''pipeline.admitted'' r
              (r\<lparr>pe_state := P_admitted, pe_jobId := Some jobId, pe_admittedAt := Some (en_now E),
                 pe_deferReason := None, pe_updatedAt := en_now E\<rparr>) [(''job_id'', JStr jobId)] L = Inr (L', e))"
    using admit_InrD [OF assms(2)] by blast
  have fin: "pe_state e = P_admitted \<and> pe_jobId e = Some jobId"
    using body by (auto simp: put_entry_Inr)
  have bound: "(\<exists>job. getJob L jobId = Some job \<and> jb_briefing job = Some (pe_briefing e) \<and> jb_repo job = pe_repo e)
      \<and> accepted_part e = accepted_part r" if "pe_state r = P_admitting"
    using body that by (auto simp: put_entry_Inr accepted_part_def)
  have ok': "pipeline_ok L'"
    using pipeline_change_ok [OF admit_change [OF assms(2)] assms(1)] .
  have mem: "e \<in> set (lg_pipeline L')"
    using body getPipelineEntry_SomeD [OF r] by (auto simp: put_entry_Inr row_update_set_iff)
  have "e \<in> set (lg_pipeline M)" if "any_pipeline_op\<^sup>*\<^sup>* L' M"
    using that
  proof (induction rule: rtranclp_induct)
    case base
    show ?case by (rule mem)
  next
    case (step M N)
    have "pipeline_ok M" using queue_inv.steps_inv [OF step.hyps(1) ok'] .
    moreover have "pipeline_change M N" using step.hyps(2) pipeline_op_change by (auto simp: any_pipeline_op_def)
    moreover have "pipeline_terminal e" using fin by (simp add: pipeline_terminal_def)
    ultimately show ?case using change_keeps step.IH by blast
  qed
  with fin bound r show ?thesis by auto
qed

definition admitting_ledger :: ledger where
  "admitting_ledger = empty_ledger
     \<lparr>lg_jobs := [\<lparr>jb_id = ''j-1'', jb_repo = ''r'', jb_title = ''t'', jb_displayName = None, jb_deliverable = None,
        jb_commissioner = None, jb_targetRef = None, jb_targetSha = None, jb_parentJobId = None,
        jb_status = Dispatched, jb_baseBranch = None, jb_prUrl = None, jb_note = None, jb_briefing = Some ''b'',
        jb_createdAt = ''t0'', jb_updatedAt = ''t0''\<rparr>],
      lg_pipeline := [sample_accepted\<lparr>pe_state := P_admitting, pe_claim := Some \<lparr>pc_holder = ''c'', pc_since = ''t''\<rparr>\<rparr>]\<rparr>"

lemma prerequisite_graph_empty:
  "(\<And>e. e \<in> set entries \<Longrightarrow> pe_prerequisites e = []) \<Longrightarrow> prerequisite_graph entries = {}"
  by (fastforce simp: prerequisite_graph_def edges_avoiding_def by_id_def prerequisite_ids_def dest: newest_SomeD)

lemma admitting_ledger_ok: "pipeline_ok admitting_ledger"
proof -
  have "prerequisite_graph (lg_pipeline admitting_ledger) = {}"
    by (rule prerequisite_graph_empty) (simp add: admitting_ledger_def sample_accepted_def accepted_entry_def)
  then show ?thesis
    by (simp add: pipeline_ok_def acyclic_def)
      (simp add: admitting_ledger_def entry_ok_def sample_accepted_def accepted_entry_def sample_enqueue_def normal_hold_def)
qed

theorem admission_binding_witness:
  "\<exists>L' e. markPipelineAdmitted sample_env ''j-1'' ''j-1'' admitting_ledger = Inr (L', e) \<and> pe_jobId e = Some ''j-1''
     \<and> e \<in> set (lg_pipeline L')"
proof -
  obtain L' e where run: "markPipelineAdmitted sample_env ''j-1'' ''j-1'' admitting_ledger = Inr (L', e)"
    by (simp add: markPipelineAdmitted_def with_entry_def getPipelineEntry_def row_find_def admitting_ledger_def
        sample_accepted_def accepted_entry_def sample_enqueue_def getJob_def put_entry_def path_base_def Let_def
        empty_ledger_def)
  with admission_binding [OF admitting_ledger_ok run] show ?thesis by blast
qed

lemma shown_states:
  "(s \<noteq> P_failed \<and> s \<noteq> P_admitted \<and> s \<noteq> P_cancelled) = (s \<in> {P_waiting, P_ready, P_admitting})"
  by (cases s) auto

lemma board_order_key:
  assumes "br_enqueueSeq x \<noteq> br_enqueueSeq y"
  shows "board_order plat x y \<le> 0 \<longleftrightarrow> (br_priority x, br_enqueueSeq x) \<le> (br_priority y, br_enqueueSeq y)"
  using assms by (auto simp: board_order_def Let_def)

text \<open>C32. The board projection never fails on a sound queue, shows each entry that is not admitted or
  cancelled exactly once, ordered by priority and then by enqueue sequence (the locale comparison is
  never consulted), and counts as pending everything but the failed entries.\<close>

theorem board_projection:
  assumes "pipeline_ok L"
  shows "\<exists>v. pipelineBoardView E capacity L = Inr v
     \<and> sorted (map (\<lambda>r. (br_priority r, br_enqueueSeq r)) (bv_entries v))
     \<and> distinct (map br_id (bv_entries v))
     \<and> set (map br_id (bv_entries v)) = pe_id ` {e \<in> set (lg_pipeline L). pe_state e \<notin> {P_admitted, P_cancelled}}
     \<and> bv_pending v = length (filter (\<lambda>e. pe_state e \<in> {P_waiting, P_ready, P_admitting}) (lg_pipeline L))"
proof -
  let ?active = "filter (\<lambda>e. pe_state e \<noteq> P_admitted \<and> pe_state e \<noteq> P_cancelled) (lg_pipeline L)"
  let ?ctx = "pipeline_view E L capacity (lg_pipeline L)"
  obtain rows where rows: "map_res (board_row_of ?ctx) ?active = Inr rows"
    using map_res_exists [of ?active "board_row_of ?ctx"] by (auto intro: board_row_of_total)
  let ?sorted = "js_sort (board_order (en_plat E)) rows"
  have ids: "map br_id rows = map pe_id ?active" and seqs: "map br_enqueueSeq rows = map pe_enqueueSeq ?active"
    by (rule map_res_map [OF rows], simp add: board_row_of_Inr)+
  have failed: "map (\<lambda>r. br_state r \<noteq> P_failed) rows = map (\<lambda>e. pe_state e \<noteq> P_failed) ?active"
    by (rule map_res_map [OF rows])
      (auto simp: board_row_of_def attempt_Inr_iff evaluatePipelineEntry_def split: if_splits option.splits)
  have "distinct (map pe_enqueueSeq (lg_pipeline L))" using assms by (auto simp: pipeline_ok_def strict_sorted_iff)
  then have dseq: "distinct (map br_enqueueSeq rows)" by (simp add: seqs distinct_map_filter)
  have sort: "?sorted = sort_key (\<lambda>r. (br_priority r, br_enqueueSeq r)) rows"
  proof (rule js_sort_key)
    show "distinct rows" using dseq by (simp add: distinct_map)
    fix x y assume "x \<in> set rows" "y \<in> set rows" "x \<noteq> y"
    then have "br_enqueueSeq x \<noteq> br_enqueueSeq y" using dseq by (auto simp: distinct_map dest: inj_onD)
    then show "board_order (en_plat E) x y \<le> 0 \<longleftrightarrow> (br_priority x, br_enqueueSeq x) \<le> (br_priority y, br_enqueueSeq y)"
      by (rule board_order_key)
  qed
  have "distinct (map pe_id ?active)" using assms by (simp add: pipeline_ok_def distinct_map_filter)
  then have "distinct (map br_id rows)" by (simp only: ids)
  then have dids: "distinct (map br_id ?sorted)" by (simp add: sort distinct_map)
  have count: "length (filter (\<lambda>r. br_state r \<noteq> P_failed) ?sorted) = length (filter (\<lambda>e. pe_state e \<noteq> P_failed) ?active)"
    using arg_cong [OF failed, of "\<lambda>bs. length (filter id bs)"]
    by (simp add: sort filter_sort filter_map comp_def)
  have active: "filter (\<lambda>e. pe_state e \<noteq> P_failed) ?active
      = filter (\<lambda>e. pe_state e \<in> {P_waiting, P_ready, P_admitting}) (lg_pipeline L)"
    unfolding filter_filter shown_states [symmetric] by (rule filter_cong) auto
  have view: "pipelineBoardView E capacity L = Inr \<lparr>bv_entries = ?sorted,
      bv_pending = length (filter (\<lambda>r. br_state r \<noteq> P_failed) ?sorted)\<rparr>"
    by (simp add: pipelineBoardView_def listPipelineEntries_def sorted_seq_list [OF assms] rows Let_def)
  have "set (map br_id ?sorted) = set (map pe_id ?active)" by (simp add: ids [symmetric])
  then show ?thesis
    unfolding view using dids count active by (auto simp: sort)
qed

theorem board_projection_witness:
  "\<exists>v. pipelineBoardView sample_env \<lparr>cv_capacity = 2, cv_occupied = 0, cv_queued = 0, cv_available = 2\<rparr> sample_queue = Inr v
     \<and> set (map br_id (bv_entries v)) = {''j-1''} \<and> bv_pending v = 1"
proof -
  have "lg_pipeline sample_queue = [sample_accepted]" "pe_state sample_accepted = P_waiting" "pe_id sample_accepted = ''j-1''"
    by (simp_all add: sample_queue_def sample_accepted_def accepted_entry_def sample_enqueue_def)
  then show ?thesis
    using board_projection [OF sample_queue_ok, of sample_env "\<lparr>cv_capacity = 2, cv_occupied = 0, cv_queued = 0, cv_available = 2\<rparr>"]
    by (auto simp: Collect_conv_if)
qed

end
