(* ===== verification/Pipeline_Consumer.thy ===== *)
theory Pipeline_Consumer
  imports Pipeline_Store Obligation_Lifecycle
begin

text \<open>
  The queue's consumer: \<^verbatim>\<open>src/src/dispatch/pipeline.ts\<close>, over the ledger of \<open>Pipeline_Store\<close> and the job status
  boundary of \<open>Obligation_Lifecycle\<close>. A pass runs synchronously but for the awaited dispatch, so the world it
  finds (\<open>consumer_world\<close>) is a function of the number of dispatches awaited so far: the clock, the
  shared budget's view, which writes the store takes, the gate's decisions, and what the ledger is when a
  dispatch settles, with the triggers that arrived meanwhile. An exception keeps the state it was thrown in.
  The em dash of two notes is written \<^verbatim>\<open>-\<close>.
\<close>

datatype store_op = Set_state | Claim_entry | Release_claim | Mark_admitted | Clear_defer | Refresh_defer
  | Block_job | Note_job | Enqueue_entry | Hold_entry | Clear_hold | Cancel_entry

datatype gate_result = Gate_admitted "json option" | Gate_refused string string

datatype consumer_error =
    Ledger_failed ledger_error
  | Storage_failed
  | Gate_failed string
  | Gate_not_wired string

record dispatch_result =
  dr_ledger :: ledger
  dr_error :: "string option"
  dr_triggered :: bool
  dr_disposed :: bool

record consumer_world =
  cw_env :: env
  cw_now :: "nat \<Rightarrow> int"
  cw_capacity :: "nat \<Rightarrow> capacity_view"
  cw_stores :: "nat \<Rightarrow> store_op \<Rightarrow> string \<Rightarrow> bool"
  cw_gate :: "(nat \<Rightarrow> ledger \<Rightarrow> pipeline_entry \<Rightarrow> string + gate_result option) option"
  cw_dispatch :: "nat \<Rightarrow> pipeline_entry \<Rightarrow> json option \<Rightarrow> ledger \<Rightarrow> dispatch_result"
  cw_reasonText :: "wait_reason \<Rightarrow> string"
  cw_errorText :: "consumer_error \<Rightarrow> string"
  cw_bus :: bool
  cw_budget :: bool
  cw_cards :: "nat \<Rightarrow> bool"
  cw_maxAdmissionFailures :: nat

text \<open>What the consumer asks of the rest: dispatches, each with the ledger it was called in, machine cards, and
  wakes of the shared budget.\<close>

datatype consumer_output =
    Dispatched pipeline_entry "json option" ledger
  | Card string string
  | Wake_requested nat string
  | Wake_aborted nat

record consumer =
  cn_ledger :: ledger
  cn_running :: bool
  cn_pending :: bool
  cn_disposed :: bool
  cn_retryArmed :: bool
  cn_passFailures :: nat
  cn_wake :: "nat option"
  cn_nextWake :: nat
  cn_wakeRefusedUntil :: int
  cn_inFlight :: "string list"
  cn_finalizeFailures :: nat
  cn_dispatches :: nat
  cn_log :: "consumer_output list"

definition ADMISSION_HOLDER :: string where "ADMISSION_HOLDER = ''silas-pipeline''"
definition DEFAULT_MAX_ADMISSION_FAILURES :: nat where "DEFAULT_MAX_ADMISSION_FAILURES = 3"
definition MAX_CONSECUTIVE_PASS_FAILURES :: nat where "MAX_CONSECUTIVE_PASS_FAILURES = 3"
definition WAKE_REFUSAL_WINDOW_MS :: int where "WAKE_REFUSAL_WINDOW_MS = 60000"
definition MAX_CONSECUTIVE_FINALIZE_FAILURES :: nat where "MAX_CONSECUTIVE_FINALIZE_FAILURES = 3"

definition isExternalTrigger :: "string \<Rightarrow> bool" where
  "isExternalTrigger kind \<longleftrightarrow> starts_with ''job.'' kind \<or> kind = ''pipeline.enqueued''
     \<or> kind = ''pipeline.hold-cleared'' \<or> kind = ''briefing.review-verdict'' \<or> kind = ''briefing.review-pushback''"

definition deferralReason :: "string \<Rightarrow> string \<Rightarrow> string" where
  "deferralReason code message = take 1000 (code @ '': '' @ message)"

definition deferralCode :: "string \<Rightarrow> string" where
  "deferralCode deferReason = takeWhile (\<lambda>c. c \<noteq> CHR '':'') deferReason"

definition new_consumer :: "ledger \<Rightarrow> consumer" where
  "new_consumer L = \<lparr>cn_ledger = L, cn_running = False, cn_pending = False, cn_disposed = False, cn_retryArmed = False,
     cn_passFailures = 0, cn_wake = None, cn_nextWake = 0, cn_wakeRefusedUntil = 0, cn_inFlight = [],
     cn_finalizeFailures = 0, cn_dispatches = 0, cn_log = []\<rparr>"

subsection \<open>Arming\<close>

definition emit :: "consumer_output \<Rightarrow> consumer \<Rightarrow> consumer" where
  "emit x c = c\<lparr>cn_log := cn_log c @ [x]\<rparr>"

definition disarmRetry :: "consumer \<Rightarrow> consumer" where
  "disarmRetry c = c\<lparr>cn_retryArmed := False\<rparr>"

definition schedule :: "consumer \<Rightarrow> consumer" where
  "schedule c = (if cn_disposed c then c else (disarmRetry c)\<lparr>cn_pending := True\<rparr>)"

definition armRetry :: "consumer \<Rightarrow> consumer" where
  "armRetry c =
     (if cn_disposed c \<or> cn_retryArmed c then c
      else if cn_finalizeFailures c > MAX_CONSECUTIVE_FINALIZE_FAILURES then c
      else c\<lparr>cn_retryArmed := True\<rparr>)"

definition retry_fires :: "consumer \<Rightarrow> consumer" where
  "retry_fires c = schedule (c\<lparr>cn_retryArmed := False\<rparr>)"

definition disarmWake :: "consumer \<Rightarrow> consumer" where
  "disarmWake c = (case cn_wake c of None \<Rightarrow> c | Some k \<Rightarrow> emit (Wake_aborted k) (c\<lparr>cn_wake := None\<rparr>))"

definition armWake :: "consumer_world \<Rightarrow> string \<Rightarrow> consumer \<Rightarrow> consumer" where
  "armWake W entryId c =
     (if cn_disposed c \<or> \<not> cw_budget W then c
      else if cn_wake c \<noteq> None then c
      else if cw_now W (cn_dispatches c) < cn_wakeRefusedUntil c then c
      else emit (Wake_requested (cn_nextWake c) entryId)
             (c\<lparr>cn_wake := Some (cn_nextWake c), cn_nextWake := Suc (cn_nextWake c)\<rparr>))"

text \<open>The budget settles a wake: a grant is given back at once and triggers a pass; a refusal opens the window
  unless the wake was disarmed before.\<close>

definition wake_granted :: "nat \<Rightarrow> consumer \<Rightarrow> consumer" where
  "wake_granted k c = schedule (if cn_wake c = Some k then c\<lparr>cn_wake := None\<rparr> else c)"

definition wake_refused :: "consumer_world \<Rightarrow> nat \<Rightarrow> consumer \<Rightarrow> consumer" where
  "wake_refused W k c =
     (if cn_wake c \<noteq> Some k then c
      else c\<lparr>cn_wake := None, cn_wakeRefusedUntil := cw_now W (cn_dispatches c) + WAKE_REFUSAL_WINDOW_MS\<rparr>)"

definition dispose_consumer :: "consumer \<Rightarrow> consumer" where
  "dispose_consumer c = disarmWake (disarmRetry (c\<lparr>cn_disposed := True\<rparr>))"

subsection \<open>Steps that may throw\<close>

type_synonym 'a act = "consumer \<Rightarrow> consumer \<times> (consumer_error + 'a)"

definition act_return :: "'a \<Rightarrow> 'a act" where
  "act_return x c = (c, Inr x)"

definition act_then :: "'a act \<Rightarrow> ('a \<Rightarrow> 'b act) \<Rightarrow> 'b act" where
  "act_then m f c = (case m c of (c', Inl e) \<Rightarrow> (c', Inl e) | (c', Inr x) \<Rightarrow> f x c')"

definition act_catch :: "'a act \<Rightarrow> (consumer_error \<Rightarrow> 'a act) \<Rightarrow> 'a act" where
  "act_catch m h c = (case m c of (c', Inl e) \<Rightarrow> h e c' | (c', Inr x) \<Rightarrow> (c', Inr x))"

definition act_do :: "(consumer \<Rightarrow> consumer) \<Rightarrow> unit act" where
  "act_do f c = (f c, Inr ())"

fun act_each :: "('a \<Rightarrow> unit act) \<Rightarrow> 'a list \<Rightarrow> unit act" where
  "act_each f [] = act_return ()"
| "act_each f (x # xs) = act_then (f x) (\<lambda>_. act_each f xs)"

text \<open>The bus delivers the events of a committed write before the write returns.\<close>

definition publish :: "consumer_world \<Rightarrow> event list \<Rightarrow> consumer \<Rightarrow> consumer" where
  "publish W evs c = (if cw_bus W \<and> list_ex (\<lambda>e. isExternalTrigger (er_kind e)) evs then schedule c else c)"

definition store :: "consumer_world \<Rightarrow> store_op \<Rightarrow> string \<Rightarrow> (ledger \<Rightarrow> ledger_error + ledger \<times> 'a) \<Rightarrow> 'a act" where
  "store W operation i write c =
     (if \<not> cw_stores W (cn_dispatches c) operation i then (c, Inl Storage_failed)
      else case transaction write (cn_ledger c) of
        (L', evs, Inl e) \<Rightarrow> (c, Inl (Ledger_failed e))
      | (L', evs, Inr x) \<Rightarrow> (publish W evs (c\<lparr>cn_ledger := L'\<rparr>), Inr x))"

subsection \<open>Recovery of a claim\<close>

definition noteJob :: "env \<Rightarrow> string \<Rightarrow> string \<Rightarrow> ledger \<Rightarrow> ledger_error + ledger \<times> job_record" where
  "noteJob E i body L =
     attempt (the_job L i) (\<lambda>_.
     let L' = appendEvent E ''job.note'' None (Some i) (JObj [(''note'', JStr body)])
          (L\<lparr>lg_jobs := row_update jb_id i (\<lambda>j. j\<lparr>jb_note := Some body, jb_updatedAt := en_now E\<rparr>) (lg_jobs L)\<rparr>)
     in attempt (the_job L' i) (\<lambda>job. Inr (L', job)))"

definition adoptionMatches :: "pipeline_entry \<Rightarrow> job_record \<Rightarrow> bool" where
  "adoptionMatches entry job \<longleftrightarrow> jb_briefing job = Some (pe_briefing entry) \<and> jb_repo job = pe_repo entry"

definition post_card :: "consumer_world \<Rightarrow> string \<Rightarrow> string \<Rightarrow> unit act" where
  "post_card W kind i c = (if cw_cards W (cn_dispatches c) then emit (Card kind i) c else c, Inr ())"

definition INTERRUPTED_NOTE :: string where
  "INTERRUPTED_NOTE = ''pipeline recovery: the job was committed but no worker ever started - resolve the interrupted startup and re-arm''"

definition FINALIZE_REASON :: string where "FINALIZE_REASON = ''admission bookkeeping failed: ''"

definition FINALIZE_NOTE :: string where
  "FINALIZE_NOTE = ''reconciled by the live pass; a retry adopts the existing job rather than duplicating it''"

definition RECONCILE_REASON :: string where
  "RECONCILE_REASON = ''admission recovery: no committed job for the claim''"

definition RECONCILE_NOTE :: string where
  "RECONCILE_NOTE = ''reconciled before any admission evidence existed - the accepted brief is intact and will be reconsidered''"

definition surfaceInterruptedStartup :: "consumer_world \<Rightarrow> pipeline_entry \<Rightarrow> job_record \<Rightarrow> bool act" where
  "surfaceInterruptedStartup W entry job c =
     (if jobHasWorkerStart (cn_ledger c) (pe_id entry) then (c, Inr True)
      else if isJobTerminal (jb_status job) \<or> jb_status job = Blocked then (c, Inr True)
      else act_catch
        (act_then (store W Block_job (pe_id entry) (setJobStatus (cw_env W) (pe_id entry) ''blocked'' None)) (\<lambda>_.
         act_then (store W Note_job (pe_id entry) (noteJob (cw_env W) (pe_id entry) INTERRUPTED_NOTE)) (\<lambda>_.
         act_then (post_card W ''pipeline.adopted-without-worker'' (pe_id entry)) (\<lambda>_. act_return True))))
        (\<lambda>_. act_return False) c)"

definition finalize_failed :: "consumer \<Rightarrow> consumer" where
  "finalize_failed c = c\<lparr>cn_finalizeFailures := Suc (cn_finalizeFailures c)\<rparr>"

text \<open>A binding that failed keeps the claim when a job exists, else gives it back if the store takes that.\<close>

definition finalize_rescue :: "consumer_world \<Rightarrow> pipeline_entry \<Rightarrow> consumer_error \<Rightarrow> bool act" where
  "finalize_rescue W entry err c =
     (if getJob (cn_ledger c) (pe_id entry) \<noteq> None then (finalize_failed c, Inr False)
      else act_catch
        (act_then (store W Release_claim (pe_id entry)
           (releasePipelineClaim (cw_env W) (pe_id entry)
             (FINALIZE_REASON @ take 300 (cw_errorText W err)) Reconciled
             (Some FINALIZE_NOTE) None))
           (\<lambda>_. act_return False))
        (\<lambda>_. act_return False) (finalize_failed c))"

definition finalizeAdmission :: "consumer_world \<Rightarrow> pipeline_entry \<Rightarrow> bool act" where
  "finalizeAdmission W entry = act_catch
     (act_then (store W Mark_admitted (pe_id entry) (markPipelineAdmitted (cw_env W) (pe_id entry) (pe_id entry))) (\<lambda>_.
      act_then (act_do (\<lambda>c. c\<lparr>cn_finalizeFailures := 0\<rparr>)) (\<lambda>_. act_return True)))
     (finalize_rescue W entry)"

datatype claim_outcome = Claim_adopted | Claim_requeued | Claim_failed

definition release_stale :: "consumer_world \<Rightarrow> pipeline_entry \<Rightarrow> claim_outcome act" where
  "release_stale W entry = act_catch
     (act_then (store W Release_claim (pe_id entry)
        (releasePipelineClaim (cw_env W) (pe_id entry) RECONCILE_REASON Reconciled
          (Some RECONCILE_NOTE)
          None))
        (\<lambda>_. act_return Claim_requeued))
     (\<lambda>_. act_then (act_do finalize_failed) (\<lambda>_. act_return Claim_failed))"

definition reconcileClaim :: "consumer_world \<Rightarrow> pipeline_entry \<Rightarrow> claim_outcome act" where
  "reconcileClaim W entry c =
     (case getJob (cn_ledger c) (pe_id entry) of
        Some job \<Rightarrow>
          if adoptionMatches entry job then
            act_then (surfaceInterruptedStartup W entry job) (\<lambda>surfaced.
              if \<not> surfaced then act_return Claim_failed
              else act_then (finalizeAdmission W entry) (\<lambda>bound. act_return (if bound then Claim_adopted else Claim_failed))) c
          else release_stale W entry c
      | None \<Rightarrow> release_stale W entry c)"

subsection \<open>Admission of one claimed entry\<close>

definition evaluateGate :: "consumer_world \<Rightarrow> pipeline_entry \<Rightarrow> gate_result option act" where
  "evaluateGate W entry c = (case cw_gate W of
     None \<Rightarrow> (c, Inr None)
   | Some gate \<Rightarrow> (case gate (cn_dispatches c) (cn_ledger c) entry of
       Inl err \<Rightarrow> (c, Inl (Gate_failed err)) | Inr g \<Rightarrow> (c, Inr g)))"

datatype admit_outcome = Admitted_now | Adopted | Requeued | Failed_now | Deferred_now

text \<open>The awaited dispatch: what the ledger is when it settles, and the triggers that came meanwhile.\<close>

definition await_dispatch :: "consumer_world \<Rightarrow> pipeline_entry \<Rightarrow> json option \<Rightarrow> string option act" where
  "await_dispatch W entry provenance c =
     (let r = cw_dispatch W (cn_dispatches c) entry provenance (cn_ledger c);
          c = (emit (Dispatched entry provenance (cn_ledger c)) c)\<lparr>cn_ledger := dr_ledger r, cn_dispatches := Suc (cn_dispatches c)\<rparr>;
          c = (if dr_triggered r then schedule c else c)
      in (if dr_disposed r then dispose_consumer c else c, Inr (dr_error r)))"

text \<open>A failed dispatch with no job of the entry: another attempt, or a terminal failure with a card.\<close>

definition give_up_or_requeue :: "consumer_world \<Rightarrow> pipeline_entry \<Rightarrow> string \<Rightarrow> admit_outcome act" where
  "give_up_or_requeue W entry detail =
     (let failures = Suc (pe_failureCount entry) in
      if cw_maxAdmissionFailures W \<le> failures then
        act_then (store W Release_claim (pe_id entry)
          (releasePipelineClaim (cw_env W) (pe_id entry) detail Fail_terminal None None)) (\<lambda>_.
        act_then (post_card W ''pipeline.admission-failed'' (pe_id entry)) (\<lambda>_. act_return Failed_now))
      else
        act_then (store W Release_claim (pe_id entry)
          (releasePipelineClaim (cw_env W) (pe_id entry) detail Requeue
            (Some (''attempt '' @ nat_str failures @ ''/'' @ nat_str (cw_maxAdmissionFailures W)
                   @ '' failed before any job existed'')) None)) (\<lambda>_.
        act_return Requeued))"

definition dispatch_failed :: "consumer_world \<Rightarrow> pipeline_entry \<Rightarrow> string \<Rightarrow> admit_outcome act" where
  "dispatch_failed W entry err c =
     (let detail = ''admission failed: '' @ take 300 err in
      case getJob (cn_ledger c) (pe_id entry) of
        Some job \<Rightarrow>
          if adoptionMatches entry job then
            act_then (surfaceInterruptedStartup W entry job) (\<lambda>surfaced.
              if \<not> surfaced then act_return Requeued
              else act_then (finalizeAdmission W entry) (\<lambda>bound. act_return (if bound then Adopted else Requeued))) c
          else give_up_or_requeue W entry detail c
      | None \<Rightarrow> give_up_or_requeue W entry detail c)"

definition dispatch_entry :: "consumer_world \<Rightarrow> pipeline_entry \<Rightarrow> json option \<Rightarrow> admit_outcome act" where
  "dispatch_entry W entry provenance =
     act_then (await_dispatch W entry provenance) (\<lambda>err. case err of
       Some e \<Rightarrow> dispatch_failed W entry e
     | None \<Rightarrow> act_then (finalizeAdmission W entry) (\<lambda>bound. act_return (if bound then Admitted_now else Requeued)))"

definition enter_flight :: "string \<Rightarrow> consumer \<Rightarrow> consumer" where
  "enter_flight i c = c\<lparr>cn_inFlight := (if i \<in> set (cn_inFlight c) then cn_inFlight c else cn_inFlight c @ [i])\<rparr>"

definition leave_flight :: "string \<Rightarrow> consumer \<Rightarrow> consumer" where
  "leave_flight i c = c\<lparr>cn_inFlight := removeAll i (cn_inFlight c)\<rparr>"

definition admit_body :: "consumer_world \<Rightarrow> pipeline_entry \<Rightarrow> admit_outcome act" where
  "admit_body W entry =
     act_then (evaluateGate W entry) (\<lambda>gate. case gate of
       Some (Gate_refused code message) \<Rightarrow>
         act_then (store W Release_claim (pe_id entry)
           (releasePipelineClaim (cw_env W) (pe_id entry) message Defer None (Some (deferralReason code message)))) (\<lambda>_.
         act_return Deferred_now)
     | Some (Gate_admitted provenance) \<Rightarrow> dispatch_entry W entry provenance
     | None \<Rightarrow> dispatch_entry W entry None)"

definition admit_claimed :: "consumer_world \<Rightarrow> pipeline_entry \<Rightarrow> admit_outcome act" where
  "admit_claimed W entry c = map_prod (leave_flight (pe_id entry)) id (admit_body W entry (enter_flight (pe_id entry) c))"

subsection \<open>One pass\<close>

definition reevaluate_deferral :: "consumer_world \<Rightarrow> pipeline_entry \<Rightarrow> unit act" where
  "reevaluate_deferral W entry = (case pe_deferReason entry of
     None \<Rightarrow> act_return ()
   | Some stored \<Rightarrow>
       if cw_gate W = None then (\<lambda>c. (c, Inl (Gate_not_wired (pe_id entry))))
       else act_then (evaluateGate W entry) (\<lambda>gate. case gate of
         Some (Gate_refused code message) \<Rightarrow>
           if deferralCode stored \<noteq> code then
             act_then (store W Refresh_defer (pe_id entry)
               (refreshPipelineDeferReason (cw_env W) (pe_id entry) (deferralReason code message))) (\<lambda>_. act_return ())
           else act_return ()
       | _ \<Rightarrow> act_then (store W Clear_defer (pe_id entry) (clearPipelineDeferReason (cw_env W) (pe_id entry)))
              (\<lambda>_. act_return ())))"

definition list_entries :: "pipeline_state list option \<Rightarrow> pipeline_entry list act" where
  "list_entries states c = (case listPipelineEntries (cn_ledger c) states of
     Inl e \<Rightarrow> (c, Inl (Ledger_failed e)) | Inr es \<Rightarrow> (c, Inr es))"

definition reEvaluateDeferrals :: "consumer_world \<Rightarrow> unit act" where
  "reEvaluateDeferrals W = act_then (list_entries (Some [P_waiting, P_ready])) (act_each (reevaluate_deferral W))"

definition eval_context :: "consumer_world \<Rightarrow> consumer \<Rightarrow> pipeline_entry list \<Rightarrow> pipeline_context" where
  "eval_context W c entries = pipeline_view (cw_env W) (cn_ledger c) (cw_capacity W (cn_dispatches c)) entries"

definition normalize_entry :: "consumer_world \<Rightarrow> pipeline_entry list \<Rightarrow> pipeline_entry \<Rightarrow> unit act" where
  "normalize_entry W before entry c =
     (if pe_state entry \<noteq> P_waiting \<and> pe_state entry \<noteq> P_ready then (c, Inr ())
      else case evaluatePipelineEntry entry (eval_context W c before) of
        Inl e \<Rightarrow> (c, Inl (Ledger_failed (Pipeline_error e)))
      | Inr evaluation \<Rightarrow>
          let ready = (ev_state evaluation \<noteq> P_waiting) in
          if pe_state entry = (if ready then P_ready else P_waiting) then (c, Inr ())
          else act_then (store W Set_state (pe_id entry) (setPipelineEntryState (cw_env W) (pe_id entry) ready
                 (map_option (cw_reasonText W) (ev_reason evaluation)))) (\<lambda>_. act_return ()) c)"

text \<open>Claims of the snapshot with no dispatch in flight; did one of them fail?\<close>

fun recover_claims :: "consumer_world \<Rightarrow> pipeline_entry list \<Rightarrow> bool act" where
  "recover_claims W [] c = (c, Inr False)"
| "recover_claims W (entry # entries) c =
     (if pe_state entry \<noteq> P_admitting \<or> pe_id entry \<in> set (cn_inFlight c) then recover_claims W entries c
      else act_then (reconcileClaim W entry) (\<lambda>outcome.
           act_then (recover_claims W entries) (\<lambda>failed. act_return (outcome = Claim_failed \<or> failed))) c)"

definition entry_order :: "consumer_world \<Rightarrow> pipeline_entry \<Rightarrow> pipeline_entry \<Rightarrow> int" where
  "entry_order W a b = pipelineOrder (plat_compare (en_plat (cw_env W)))
     (pe_priority a, pe_enqueueSeq a, pe_id a) (pe_priority b, pe_enqueueSeq b, pe_id b)"

definition next_entry :: "consumer_world \<Rightarrow> consumer \<Rightarrow> pipeline_entry list \<Rightarrow> pipeline_entry option" where
  "next_entry W c entries = find (\<lambda>e. pipelineBlockingReason e (eval_context W c entries) = None)
     (js_sort (entry_order W) (filter (\<lambda>e. pe_state e = P_waiting \<or> pe_state e = P_ready) entries))"

definition budget_busy :: "consumer_world \<Rightarrow> consumer \<Rightarrow> bool" where
  "budget_busy W c \<longleftrightarrow> cv_available (cw_capacity W (cn_dispatches c)) < 1 \<or> 0 < cv_queued (cw_capacity W (cn_dispatches c))"

text \<open>The admission loop; \<open>None\<close> when the fuel is gone.\<close>

fun admission_loop :: "consumer_world \<Rightarrow> nat \<Rightarrow> consumer \<Rightarrow> (consumer \<times> (consumer_error + unit)) option" where
  "admission_loop W 0 c = None"
| "admission_loop W (Suc fuel) c =
     (if cn_disposed c then Some (c, Inr ())
      else case list_entries None c of
        (c, Inl e) \<Rightarrow> Some (c, Inl e)
      | (c, Inr entries) \<Rightarrow> (case next_entry W c entries of
          None \<Rightarrow> Some (disarmWake c, Inr ())
        | Some entry \<Rightarrow>
            if budget_busy W c then Some (armWake W (pe_id entry) c, Inr ())
            else case store W Claim_entry (pe_id entry)
                        (claimPipelineEntry (cw_env W) (pe_id entry) ADMISSION_HOLDER) (disarmWake c) of
              (c, Inl e) \<Rightarrow> Some (c, Inl e)
            | (c, Inr None) \<Rightarrow> admission_loop W fuel c
            | (c, Inr (Some claimed)) \<Rightarrow> (case admit_claimed W claimed c of
                (c, Inl e) \<Rightarrow> Some (c, Inl e)
              | (c, Inr outcome) \<Rightarrow>
                  if outcome = Requeued then Some (armRetry c, Inr ()) else admission_loop W fuel c)))"

definition pass_prelude :: "consumer_world \<Rightarrow> unit act" where
  "pass_prelude W =
     act_then (reEvaluateDeferrals W) (\<lambda>_.
     act_then (list_entries None) (\<lambda>before.
     act_then (act_each (normalize_entry W before) before) (\<lambda>_.
     act_then (recover_claims W before) (\<lambda>failed.
     act_do (if failed then armRetry else id)))))"

definition reconsiderOnce :: "consumer_world \<Rightarrow> nat \<Rightarrow> consumer \<Rightarrow> (consumer \<times> (consumer_error + unit)) option" where
  "reconsiderOnce W fuel c = (case pass_prelude W c of
     (c', Inl e) \<Rightarrow> Some (c', Inl e) | (c', Inr _) \<Rightarrow> admission_loop W fuel c')"

text \<open>The passes of one run, while triggers are pending.\<close>

fun run_passes :: "consumer_world \<Rightarrow> nat \<Rightarrow> nat \<Rightarrow> consumer \<Rightarrow> (consumer \<times> (consumer_error + unit)) option" where
  "run_passes W fuel 0 c = None"
| "run_passes W fuel (Suc n) c =
     (if \<not> cn_pending c \<or> cn_disposed c then Some (c, Inr ())
      else case reconsiderOnce W fuel (c\<lparr>cn_pending := False\<rparr>) of
        None \<Rightarrow> None
      | Some (c', Inl e) \<Rightarrow> Some (c', Inl e)
      | Some (c', Inr _) \<Rightarrow> run_passes W fuel n c')"

definition pass_failed :: "consumer \<Rightarrow> consumer" where
  "pass_failed c = (let c' = c\<lparr>cn_passFailures := Suc (cn_passFailures c)\<rparr> in
     if cn_passFailures c' \<le> MAX_CONSECUTIVE_PASS_FAILURES then armRetry c' else c')"

fun run_consumer :: "consumer_world \<Rightarrow> nat \<Rightarrow> nat \<Rightarrow> nat \<Rightarrow> consumer \<Rightarrow> consumer option" where
  "run_consumer W fuel n 0 c = None"
| "run_consumer W fuel n (Suc m) c = (case run_passes W fuel n (c\<lparr>cn_running := True\<rparr>) of
     None \<Rightarrow> None
   | Some (c', r) \<Rightarrow>
       let c'' = (case r of Inl e \<Rightarrow> pass_failed c' | Inr _ \<Rightarrow> c'\<lparr>cn_passFailures := 0\<rparr>)\<lparr>cn_running := False\<rparr> in
       if cn_pending c'' \<and> \<not> cn_disposed c'' then run_consumer W fuel n m c'' else Some c'')"


subsection \<open>The service's operations\<close>

record enqueue_receipt =
  rc_entryId :: string
  rc_requestId :: string
  rc_state :: string
  rc_priority :: int
  rc_enqueueSeq :: nat
  rc_queuedAt :: string
  rc_held :: bool
  rc_duplicate :: bool

text \<open>With the bus wired the accepted event is the trigger.\<close>

definition consumer_enqueue :: "consumer_world \<Rightarrow> enqueue_input \<Rightarrow> enqueue_receipt act" where
  "consumer_enqueue W input =
     act_then (store W Enqueue_entry (ei_id input) (enqueuePipelineEntry (cw_env W) input)) (\<lambda>(row, created).
     act_then (act_do (if created \<and> \<not> cw_bus W then schedule else id)) (\<lambda>_.
     act_return \<lparr>rc_entryId = pe_id row, rc_requestId = pe_requestId row,
       rc_state = (if created then pipeline_state_name (pe_state row) else ''waiting''),
       rc_priority = pe_priority row, rc_enqueueSeq = pe_enqueueSeq row, rc_queuedAt = pe_queuedAt row,
       rc_held = (if created then pe_holdReason row \<noteq> None else ei_holdReason input \<noteq> None),
       rc_duplicate = (\<not> created)\<rparr>))"

definition consumer_hold :: "consumer_world \<Rightarrow> string \<Rightarrow> string \<Rightarrow> string option \<Rightarrow> pipeline_entry act" where
  "consumer_hold W i reason by' =
     act_then (store W Hold_entry i (holdPipelineEntry (cw_env W) i reason by')) (\<lambda>row.
     act_then (act_do schedule) (\<lambda>_. act_return row))"

definition consumer_clearHold :: "consumer_world \<Rightarrow> string \<Rightarrow> string option \<Rightarrow> string option \<Rightarrow> pipeline_entry act" where
  "consumer_clearHold W i reason by' =
     act_then (store W Clear_hold i (clearPipelineHold (cw_env W) i reason by')) (\<lambda>row.
     act_then (act_do schedule) (\<lambda>_. act_return row))"

definition consumer_cancel :: "consumer_world \<Rightarrow> string \<Rightarrow> string \<Rightarrow> string option \<Rightarrow> pipeline_entry act" where
  "consumer_cancel W i reason by' =
     act_then (store W Cancel_entry i (cancelPipelineEntry (cw_env W) i reason by')) (\<lambda>row.
     act_then (act_do schedule) (\<lambda>_. act_return row))"

definition noteRuntimeEvent :: "string \<Rightarrow> consumer \<Rightarrow> consumer" where
  "noteRuntimeEvent phase c = (if phase = ''disposed'' \<or> phase = ''spawned'' then schedule c else c)"

record reconcile_report =
  rr_examined :: nat
  rr_adopted :: nat
  rr_requeued :: nat

text \<open>The live row of each admitting entry of the snapshot; a recovery that fails counts as requeued.\<close>

fun reconcile_boot :: "consumer_world \<Rightarrow> pipeline_entry list \<Rightarrow> reconcile_report \<Rightarrow> reconcile_report act" where
  "reconcile_boot W [] report = act_return report"
| "reconcile_boot W (entry # entries) report = (\<lambda>c.
     case getPipelineEntry (cn_ledger c) (pe_id entry) of
       None \<Rightarrow> reconcile_boot W entries report c
     | Some current \<Rightarrow>
         if pe_state current \<noteq> P_admitting \<or> pe_id current \<in> set (cn_inFlight c) then reconcile_boot W entries report c
         else act_then (reconcileClaim W current) (\<lambda>outcome. reconcile_boot W entries
                (if outcome = Claim_adopted
                 then report\<lparr>rr_examined := Suc (rr_examined report), rr_adopted := Suc (rr_adopted report)\<rparr>
                 else report\<lparr>rr_examined := Suc (rr_examined report), rr_requeued := Suc (rr_requeued report)\<rparr>)) c)"

definition reconcileAtBoot :: "consumer_world \<Rightarrow> reconcile_report act" where
  "reconcileAtBoot W =
     act_then (list_entries (Some [P_admitting])) (\<lambda>entries.
     act_then (reconcile_boot W entries \<lparr>rr_examined = 0, rr_adopted = 0, rr_requeued = 0\<rparr>) (\<lambda>report.
     act_then (act_do schedule) (\<lambda>_. act_return report)))"

end
