(* ===== verification/Consumer_Pass.thy ===== *)
theory Consumer_Pass
  imports Pipeline_Consumer
begin

text \<open>
  What the queue's consumer of \<open>Pipeline_Consumer\<close> guarantees. The ways its steps are put together keep a
  relation on ledgers (\<open>queue_relation\<close>, \<open>claim_relation\<close>, \<open>prelude_relation\<close>), interpreted on the queue's own
  changes, on \<open>nothing but this entry\<close> and on the holds; on top of it stand the outcome of one attempt, the
  dispatches of one pass, and that a pass ends.
\<close>

subsection \<open>What the consumer's writes keep\<close>

lemma applyBlocked_frame:
  assumes "applyBlockedObservation E jobId blocker L = Inr (L', x)"
  shows "lg_pipeline L' = lg_pipeline L \<and> lg_jobs L' = lg_jobs L"
  using assms
proof (cases rule: apply_cases)
  case (coalesce resolved existing)
  then show ?thesis by (auto simp: coalesceObservation_def put_obligation_Inr split: if_splits)
next
  case (stale resolved m)
  then show ?thesis by simp
next
  case (opens resolved)
  then show ?thesis
    by (auto simp: open_incarnation_def attempt_Inr_iff Let_def insertObligationRow_def insert_row_def)
qed

lemma block_job_frame:
  assumes "setJobStatus E i ''blocked'' None L = Inr (L', job)"
  shows "lg_pipeline L' = lg_pipeline L" and "\<exists>j. getJob L' i = Some j \<and> jb_status j = Blocked"
proof -
  have blocked: "status_of_name job_status_name JOB_STATUSES ''blocked'' = Some Blocked" by code_simp
  from setJobStatus_InrD [OF assms] blocked obtain current where current: "getJob L i = Some current" and
    run: "if jb_status current \<noteq> Blocked then enter_status E current Blocked None L = Inr L'
     else case None of None \<Rightarrow> L' = L | Some blocker \<Rightarrow> reobserve_blocked E current blocker L = Inr L'" by auto
  have id: "jb_id current = i" using getJob_SomeD [OF current] by simp
  have "lg_pipeline L' = lg_pipeline L \<and> (\<exists>j. getJob L' i = Some j \<and> jb_status j = Blocked)"
  proof (cases "jb_status current = Blocked")
    case True
    then show ?thesis using run current by simp
  next
    case False
    then have "lg_pipeline L' = lg_pipeline L \<and> lg_jobs L' = lg_jobs (writeJobStatus E i (jb_status current) Blocked [] L)"
      using run id by (auto simp: follow_status_def attempt_Inr_iff writeJobStatus_def
          dest!: enter_status_InrD applyBlocked_frame)
    moreover have "getJob (writeJobStatus E i (jb_status current) Blocked [] L) i
        = Some (current\<lparr>jb_status := Blocked, jb_updatedAt := en_now E\<rparr>)"
      using current id unfolding getJob_def writeJobStatus_def by (simp add: row_update_find)
    ultimately show ?thesis by (simp add: getJob_def)
  qed
  then show "lg_pipeline L' = lg_pipeline L" and "\<exists>j. getJob L' i = Some j \<and> jb_status j = Blocked" by blast+
qed

lemma noteJob_pipeline: "noteJob E i body L = Inr (L', job) \<Longrightarrow> lg_pipeline L' = lg_pipeline L"
  by (auto simp: noteJob_def attempt_Inr_iff Let_def)

text \<open>The dispatches of a log: the claimed entry, the provenance, and the ledger of the call.\<close>

type_synonym dispatch_call = "pipeline_entry \<times> json option \<times> ledger"

definition calls :: "consumer_output list \<Rightarrow> dispatch_call list" where
  "calls xs = concat (map (\<lambda>x. case x of Dispatched e p L \<Rightarrow> [(e, p, L)] | _ \<Rightarrow> []) xs)"

definition dispatched :: "consumer_output list \<Rightarrow> string list" where
  "dispatched xs = map (\<lambda>(e, p, L). pe_id e) (calls xs)"

lemma calls_simps [simp]:
  "calls [] = []" "calls (Dispatched e p L # xs) = (e, p, L) # calls xs"
  "calls (Card k i # xs) = calls xs" "calls (Wake_requested w i # xs) = calls xs"
  "calls (Wake_aborted w # xs) = calls xs" "calls (xs @ ys) = calls xs @ calls ys"
  by (simp_all add: calls_def)

lemma dispatched_simps [simp]:
  "dispatched [] = []" "dispatched (Dispatched e p L # xs) = pe_id e # dispatched xs"
  "dispatched (Card k i # xs) = dispatched xs" "dispatched (Wake_requested w i # xs) = dispatched xs"
  "dispatched (Wake_aborted w # xs) = dispatched xs" "dispatched (xs @ ys) = dispatched xs @ dispatched ys"
  by (simp_all add: dispatched_def)

lemma dispatched_none [simp]: "dispatched xs = [] \<longleftrightarrow> calls xs = []"
  by (simp add: dispatched_def)

lemma no_calls [simp]: "calls xs = [] \<Longrightarrow> dispatched xs = []"
  by simp

text \<open>Steps that dispatch nothing and move the ledger along \<open>R\<close>.\<close>

definition quiet :: "(ledger \<Rightarrow> ledger \<Rightarrow> bool) \<Rightarrow> consumer \<Rightarrow> consumer \<Rightarrow> bool" where
  "quiet R c c' \<longleftrightarrow> R (cn_ledger c) (cn_ledger c') \<and> cn_dispatches c' = cn_dispatches c
     \<and> (\<exists>new. cn_log c' = cn_log c @ new \<and> dispatched new = [])"

definition quiet_act :: "(ledger \<Rightarrow> ledger \<Rightarrow> bool) \<Rightarrow> 'a act \<Rightarrow> bool" where
  "quiet_act R m \<longleftrightarrow> (\<forall>c. quiet R c (fst (m c)))"

lemma quiet_actD: "quiet_act R m \<Longrightarrow> m c = (c', r) \<Longrightarrow> quiet R c c'"
  by (metis quiet_act_def fst_conv)

lemma publish_frame [simp]:
  "cn_ledger (publish W evs c) = cn_ledger c" "cn_log (publish W evs c) = cn_log c"
  "cn_dispatches (publish W evs c) = cn_dispatches c" "cn_inFlight (publish W evs c) = cn_inFlight c"
  "cn_disposed (publish W evs c) = cn_disposed c" "cn_finalizeFailures (publish W evs c) = cn_finalizeFailures c"
  by (simp_all add: publish_def schedule_def disarmRetry_def)

lemma store_Inr:
  assumes "store W operation i write c = (c', Inr x)"
  shows "\<exists>L'. write (cn_ledger c) = Inr (L', x) \<and> cn_ledger c' = L' \<and> cn_log c' = cn_log c
     \<and> cn_dispatches c' = cn_dispatches c \<and> cn_inFlight c' = cn_inFlight c"
  using assms by (auto simp: store_def transaction_def split: if_splits sum.splits)

lemma store_Inl: "store W operation i write c = (c', Inl e) \<Longrightarrow> c' = c"
  by (auto simp: store_def transaction_def split: if_splits sum.splits)

text \<open>A relation on ledgers that the steps may move along, and its closure under the ways steps are put together.\<close>

locale queue_relation =
  fixes R :: "ledger \<Rightarrow> ledger \<Rightarrow> bool"
  assumes same_queue: "lg_pipeline L' = lg_pipeline L \<Longrightarrow> R L L'"
    and queue_trans: "R L L' \<Longrightarrow> R L' L'' \<Longrightarrow> R L L''"
begin

lemma quietI: "cn_ledger c' = cn_ledger c \<Longrightarrow> cn_dispatches c' = cn_dispatches c \<Longrightarrow> cn_log c' = cn_log c \<Longrightarrow> quiet R c c'"
  by (simp add: quiet_def same_queue)

lemma quiet_refl: "quiet R c c"
  by (simp add: quietI)

lemma quiet_trans: "quiet R c c' \<Longrightarrow> quiet R c' c'' \<Longrightarrow> quiet R c c''"
  unfolding quiet_def by (metis append.assoc append_Nil2 dispatched_simps(6) queue_trans)

lemma quiet_emit: "dispatched [x] = [] \<Longrightarrow> quiet R c (emit x c)"
  by (simp add: quiet_def emit_def same_queue)

lemma quiet_armRetry: "quiet R c (armRetry c)"
  by (simp add: quiet_def armRetry_def same_queue)

lemma quiet_return: "quiet_act R (act_return x)"
  by (simp add: quiet_act_def act_return_def quiet_refl)

lemma quiet_do: "(\<And>c. quiet R c (f c)) \<Longrightarrow> quiet_act R (act_do f)"
  by (simp add: quiet_act_def act_do_def)

lemma quiet_then: "quiet_act R m \<Longrightarrow> (\<And>x. quiet_act R (f x)) \<Longrightarrow> quiet_act R (act_then m f)"
  unfolding quiet_act_def act_then_def
  by (auto split: prod.split sum.split) (metis fst_conv, metis fst_conv quiet_trans)

lemma quiet_catch: "quiet_act R m \<Longrightarrow> (\<And>e. quiet_act R (h e)) \<Longrightarrow> quiet_act R (act_catch m h)"
  unfolding quiet_act_def act_catch_def
  by (auto split: prod.split sum.split) (metis fst_conv quiet_trans, metis fst_conv)

lemma quiet_each: "(\<And>x. quiet_act R (f x)) \<Longrightarrow> quiet_act R (act_each f xs)"
  by (induction xs) (auto intro: quiet_then quiet_return)

lemma quiet_if: "quiet_act R a \<Longrightarrow> quiet_act R b \<Longrightarrow> quiet_act R (if P then a else b)"
  by simp

lemma quiet_store:
  assumes "\<And>L L' x. write L = Inr (L', x) \<Longrightarrow> R L L'"
  shows "quiet_act R (store W operation i write)"
proof -
  have "quiet R c c'" if run: "store W operation i write c = (c', r)" for c c' r
  proof (cases r)
    case (Inl e)
    then show ?thesis using store_Inl [OF run [unfolded Inl]] quiet_refl by simp
  next
    case (Inr x)
    then show ?thesis using store_Inr [OF run [unfolded Inr]] assms by (auto simp: quiet_def)
  qed
  then show ?thesis unfolding quiet_act_def by (metis prod.collapse)
qed

lemma quiet_card: "quiet_act R (post_card W kind i)"
  by (simp add: quiet_act_def post_card_def quiet_emit quiet_refl)

lemma quiet_gate: "quiet_act R (evaluateGate W entry)"
  by (auto simp: quiet_act_def evaluateGate_def quiet_refl split: option.split sum.split)

lemma quiet_list: "quiet_act R (list_entries states)"
  by (auto simp: quiet_act_def list_entries_def quiet_refl split: sum.split)

lemma quiet_surface: "quiet_act R (surfaceInterruptedStartup W entry job)"
proof -
  have "quiet_act R (act_catch
        (act_then (store W Block_job (pe_id entry) (setJobStatus (cw_env W) (pe_id entry) ''blocked'' None)) (\<lambda>_.
         act_then (store W Note_job (pe_id entry) (noteJob (cw_env W) (pe_id entry) INTERRUPTED_NOTE)) (\<lambda>_.
         act_then (post_card W ''pipeline.adopted-without-worker'' (pe_id entry)) (\<lambda>_. act_return True))))
        (\<lambda>_. act_return False))"
    by (intro quiet_catch quiet_then quiet_store quiet_card quiet_return same_queue)
      (auto dest: block_job_frame(1) noteJob_pipeline)
  then show ?thesis by (simp add: quiet_act_def surfaceInterruptedStartup_def quiet_refl)
qed

end

text \<open>A relation the two ways to resolve a claim on entry \<open>i\<close> move along.\<close>

locale claim_relation = queue_relation R for R +
  fixes i :: string
  assumes marks: "markPipelineAdmitted E i j L = Inr (L', x) \<Longrightarrow> R L L'"
    and releases: "releasePipelineClaim E i reason outcome body d L = Inr (L', x) \<Longrightarrow> R L L'"
begin

lemma quiet_finalize:
  assumes "pe_id entry = i"
  shows "quiet_act R (finalizeAdmission W entry)"
proof -
  have release: "quiet_act R (act_catch (act_then (store W Release_claim (pe_id entry)
           (releasePipelineClaim (cw_env W) (pe_id entry) (FINALIZE_REASON @ take 300 (cw_errorText W err)) Reconciled
             (Some FINALIZE_NOTE) None)) (\<lambda>_. act_return False)) (\<lambda>_. act_return False))" for err
    by (intro quiet_catch quiet_then quiet_store quiet_return) (auto simp: assms intro: releases)
  have "quiet R c (finalize_failed c)" for c by (rule quietI) (simp_all add: finalize_failed_def)
  with release have "quiet_act R (finalize_rescue W entry err)" for err
    unfolding quiet_act_def finalize_rescue_def by (auto intro: quiet_trans)
  then show ?thesis
    unfolding finalizeAdmission_def
    by (intro quiet_catch quiet_then quiet_store quiet_return quiet_do) (auto simp: assms intro: marks quietI)
qed

lemma quiet_release_stale:
  assumes "pe_id entry = i"
  shows "quiet_act R (release_stale W entry)"
  unfolding release_stale_def
  by (intro quiet_catch quiet_then quiet_store quiet_return quiet_do)
    (auto simp: assms finalize_failed_def intro: releases quietI)

lemma quiet_reconcile:
  assumes "pe_id entry = i"
  shows "quiet_act R (reconcileClaim W entry)"
proof -
  have "quiet_act R (act_then (surfaceInterruptedStartup W entry job) (\<lambda>surfaced.
              if \<not> surfaced then act_return Claim_failed
              else act_then (finalizeAdmission W entry) (\<lambda>bound. act_return (if bound then Claim_adopted else Claim_failed))))"
    for job by (intro quiet_then quiet_surface quiet_if quiet_return quiet_finalize assms)
  then show ?thesis using quiet_release_stale [OF assms]
    by (auto simp: quiet_act_def reconcileClaim_def split: option.split)
qed

lemma quiet_give_up:
  assumes "pe_id entry = i"
  shows "quiet_act R (give_up_or_requeue W entry detail)"
  unfolding give_up_or_requeue_def Let_def
  by (intro quiet_if quiet_then quiet_store quiet_card quiet_return) (auto simp: assms intro: releases)

lemma quiet_dispatch_failed:
  assumes "pe_id entry = i"
  shows "quiet_act R (dispatch_failed W entry err)"
proof -
  have "quiet_act R (act_then (surfaceInterruptedStartup W entry job) (\<lambda>surfaced.
              if \<not> surfaced then act_return Requeued
              else act_then (finalizeAdmission W entry) (\<lambda>bound. act_return (if bound then Adopted else Requeued))))" for job
    by (intro quiet_then quiet_surface quiet_if quiet_return quiet_finalize assms)
  then show ?thesis using quiet_give_up [OF assms]
    by (auto simp: quiet_act_def dispatch_failed_def Let_def split: option.split)
qed

end

interpretation changing: claim_relation "pipeline_change\<^sup>*\<^sup>*" i for i
  by unfold_locales (auto intro: pipeline_change_same admit_change release_change rtranclp_trans)

text \<open>Only the entry \<open>i\<close> may have changed.\<close>

definition others_kept :: "string \<Rightarrow> ledger \<Rightarrow> ledger \<Rightarrow> bool" where
  "others_kept i L L' \<longleftrightarrow> filter (\<lambda>e. pe_id e \<noteq> i) (lg_pipeline L') = filter (\<lambda>e. pe_id e \<noteq> i) (lg_pipeline L)"

lemma put_others:
  assumes "put_entry E kind row row' payload L = Inr (L', x)" and "pe_id row' = pe_id row"
  shows "others_kept (pe_id row) L L'"
proof -
  have "filter (\<lambda>e. pe_id e \<noteq> pe_id row) (row_update pe_id (pe_id row) (\<lambda>_. row') es) = filter (\<lambda>e. pe_id e \<noteq> pe_id row) es" for es
    using assms(2) by (induction es) (auto simp: row_update_def)
  then show ?thesis using assms(1) by (auto simp: put_entry_def others_kept_def)
qed

lemma mark_others: "markPipelineAdmitted E i j L = Inr (L', x) \<Longrightarrow> others_kept i L L'"
  by (auto simp: others_kept_def simp del: put_entry_Inr dest!: admit_InrD dest: getPipelineEntry_SomeD
      dest: put_others [unfolded others_kept_def])

lemma release_others: "releasePipelineClaim E i reason outcome body d L = Inr (L', x) \<Longrightarrow> others_kept i L L'"
  unfolding releasePipelineClaim_def attempt_Inr_iff with_entry_Inr
  by (elim exE conjE) (auto simp: others_kept_def simp del: put_entry_Inr split: if_split_asm
      dest: getPipelineEntry_SomeD put_others [unfolded others_kept_def])

interpretation own: claim_relation "others_kept i" i for i
  by unfold_locales (auto simp: mark_others release_others, auto simp: others_kept_def)

lemma gate_keeps [simp]: "evaluateGate W entry c = (c', r) \<Longrightarrow> c' = c"
  by (auto simp: evaluateGate_def split: option.splits sum.splits)

text \<open>A relation every step of the pass before the admissions moves along.\<close>

locale prelude_relation = queue_relation R for R +
  assumes resolves: "claim_relation R i"
    and deferrals: "clearPipelineDeferReason E i L = Inr (L', x) \<Longrightarrow> R L L'"
      "refreshPipelineDeferReason E i reason L = Inr (L', x) \<Longrightarrow> R L L'"
    and states: "setPipelineEntryState E i ready reason' L = Inr (L', x) \<Longrightarrow> R L L'"
begin

lemma quiet_deferral: "quiet_act R (reevaluate_deferral W entry)"
proof -
  have "quiet_act R (\<lambda>c. (c, Inl (Gate_not_wired (pe_id entry)) :: consumer_error + unit))"
    by (simp add: quiet_act_def quiet_refl)
  moreover have "quiet_act R (store W Refresh_defer (pe_id entry)
      (refreshPipelineDeferReason (cw_env W) (pe_id entry) reason))" for reason
    by (rule quiet_store) (auto intro: deferrals)
  moreover have "quiet_act R (store W Clear_defer (pe_id entry) (clearPipelineDeferReason (cw_env W) (pe_id entry)))"
    by (rule quiet_store) (auto intro: deferrals)
  ultimately show ?thesis unfolding reevaluate_deferral_def
    by (auto intro!: quiet_then quiet_gate quiet_return split: option.split gate_result.split)
qed

lemma quiet_normalize: "quiet_act R (normalize_entry W before entry)"
proof -
  have "quiet_act R (act_then (store W Set_state (pe_id entry)
      (setPipelineEntryState (cw_env W) (pe_id entry) ready reason)) (\<lambda>_. act_return ()))" for ready reason
    by (intro quiet_then quiet_store quiet_return) (auto intro: states)
  then show ?thesis by (auto simp: quiet_act_def normalize_entry_def Let_def quiet_refl split: sum.split)
qed

lemma quiet_recover: "quiet_act R (recover_claims W es)"
proof (induction es)
  case (Cons e es)
  have "quiet_act R (act_then (reconcileClaim W e) (\<lambda>outcome.
         act_then (recover_claims W es) (\<lambda>failed. act_return (outcome = Claim_failed \<or> failed))))"
    by (intro quiet_then claim_relation.quiet_reconcile [OF resolves refl] Cons.IH quiet_return)
  then show ?case using Cons.IH by (simp add: quiet_act_def)
qed (simp add: quiet_act_def quiet_refl)

lemma quiet_prelude: "quiet_act R (pass_prelude W)"
  unfolding pass_prelude_def reEvaluateDeferrals_def
  by (intro quiet_then quiet_list quiet_each quiet_deferral quiet_normalize quiet_recover quiet_do)
    (auto simp: quiet_armRetry quiet_refl)

end

interpretation before_admission: prelude_relation "pipeline_change\<^sup>*\<^sup>*"
  by unfold_locales (auto intro: clear_defer_change refresh_defer_change state_change admit_change release_change)

text \<open>The entries, their holds and the cancelled ones among them stay as they are.\<close>

definition owner_part :: "pipeline_entry \<Rightarrow> string \<times> string option \<times> bool" where
  "owner_part e = (pe_id e, pe_holdReason e, pe_state e = P_cancelled)"

definition holds_kept :: "ledger \<Rightarrow> ledger \<Rightarrow> bool" where
  "holds_kept L L' \<longleftrightarrow> (pipeline_ok L \<longrightarrow> pipeline_ok L' \<and> map owner_part (lg_pipeline L') = map owner_part (lg_pipeline L))"

lemma holds_same: "lg_pipeline L' = lg_pipeline L \<Longrightarrow> holds_kept L L'"
  by (simp add: holds_kept_def pipeline_ok_def)

lemma holds_refl [simp]: "holds_kept L L"
  by (simp add: holds_same)

lemma holds_trans: "holds_kept L L' \<Longrightarrow> holds_kept L' L'' \<Longrightarrow> holds_kept L L''"
  by (simp add: holds_kept_def)

lemma put_holds:
  assumes "put_entry E kind row row' payload L = Inr (L', x)" and "getPipelineEntry L i = Some row"
    and "owner_part row' = owner_part row" and "pipeline_change L L'"
  shows "holds_kept L L'"
proof -
  have "map owner_part (lg_pipeline L') = map owner_part (lg_pipeline L)" if ok: "pipeline_ok L"
  proof -
    have "inj_on pe_id (set (lg_pipeline L))" using ok by (simp add: pipeline_ok_def distinct_map)
    then have "e = row" if "e \<in> set (lg_pipeline L)" "pe_id e = pe_id row" for e
      using that getPipelineEntry_SomeD [OF assms(2)] by (auto dest: inj_onD)
    then have "owner_part row' = owner_part e" if "e \<in> set (lg_pipeline L)" "pe_id e = pe_id row" for e
      using that assms(3) by metis
    then show ?thesis using assms(1) by (auto simp: put_entry_def row_update_def)
  qed
  then show ?thesis using pipeline_change_ok [OF assms(4)] by (simp add: holds_kept_def)
qed

lemma mark_holds: "markPipelineAdmitted E i j L = Inr (L', x) \<Longrightarrow> holds_kept L L'"
  using admit_change [of E i j L L' x]
  by (auto simp del: put_entry_Inr simp: owner_part_def dest!: admit_InrD intro: put_holds)

lemma release_holds: "releasePipelineClaim E i reason outcome body d L = Inr (L', x) \<Longrightarrow> holds_kept L L'"
  using release_change [of E i reason outcome body d L L' x]
  unfolding releasePipelineClaim_def attempt_Inr_iff with_entry_Inr
  by (elim exE conjE) (cases outcome; auto simp del: put_entry_Inr simp: owner_part_def split: if_split_asm
      intro: put_holds)

lemma deferral_holds:
  "clearPipelineDeferReason E i L = Inr (L', x) \<Longrightarrow> holds_kept L L'"
  "refreshPipelineDeferReason E i reason L = Inr (L', x) \<Longrightarrow> holds_kept L L'"
  using clear_defer_change [of E i L L' x] refresh_defer_change [of E i reason L L' x]
  unfolding clearPipelineDeferReason_def refreshPipelineDeferReason_def with_entry_Inr guard_Inr
  by (auto simp del: put_entry_Inr simp: owner_part_def split: if_split_asm intro: put_holds)

lemma state_holds: "setPipelineEntryState E i ready reason L = Inr (L', x) \<Longrightarrow> holds_kept L L'"
  using state_change [of E i ready reason L L' x]
  unfolding setPipelineEntryState_def Let_def with_entry_Inr
  by (auto simp del: put_entry_Inr simp: owner_part_def split: if_split_asm intro: put_holds)

lemma entry_claim_change: "claimPipelineEntry E i holder L = Inr (L', r) \<Longrightarrow> pipeline_change L L'"
  by (drule claim_InrD) (auto simp: pipeline_change_def)

lemma claim_holds:
  assumes run: "claimPipelineEntry E i holder L = Inr (L', r)"
  shows "holds_kept L L'"
  using run entry_claim_change [OF run]
  by (auto simp del: put_entry_Inr simp: claimPipelineEntry_def with_entry_Inr attempt_Inr_iff owner_part_def
      split: if_split_asm intro: put_holds)

interpretation holds: prelude_relation holds_kept
  by unfold_locales (auto intro: holds_same holds_trans mark_holds release_holds deferral_holds state_holds)

text \<open>What the consumer does to the queue between dispatches: changes of the store that keep every hold and
  cancel nothing.\<close>

definition consumer_moves :: "ledger \<Rightarrow> ledger \<Rightarrow> bool" where
  "consumer_moves L L' \<longleftrightarrow> pipeline_change\<^sup>*\<^sup>* L L' \<and> holds_kept L L'"

lemma consumer_moves_trans: "consumer_moves L L' \<Longrightarrow> consumer_moves L' L'' \<Longrightarrow> consumer_moves L L''"
  unfolding consumer_moves_def by (blast intro: rtranclp_trans holds_trans)

lemma consumer_moves_same: "lg_pipeline L' = lg_pipeline L \<Longrightarrow> consumer_moves L L'"
  by (simp add: consumer_moves_def changing.same_queue holds_same)

lemma consumer_moves_refl [simp]: "consumer_moves L L"
  by (simp add: consumer_moves_same)

interpretation moves: prelude_relation consumer_moves
  by unfold_locales (auto intro: consumer_moves_same consumer_moves_trans,
      auto simp: consumer_moves_def intro: mark_holds release_holds deferral_holds state_holds
        clear_defer_change refresh_defer_change state_change admit_change release_change)

interpretation moves: claim_relation consumer_moves i for i
  by (rule moves.resolves)

lemma quiet_moves: "quiet consumer_moves c c' \<Longrightarrow> quiet pipeline_change\<^sup>*\<^sup>* c c'"
  by (simp add: quiet_def consumer_moves_def)

subsection \<open>One claim, from the gate to its resolution\<close>

lemma changes_ok: "pipeline_change\<^sup>*\<^sup>* L L' \<Longrightarrow> pipeline_ok L \<Longrightarrow> pipeline_ok L'"
  by (induction rule: rtranclp_induct) (auto intro: pipeline_change_ok)

lemma entry_read: "pipeline_ok L \<Longrightarrow> e \<in> set (lg_pipeline L) \<Longrightarrow> getPipelineEntry L (pe_id e) = Some e"
  unfolding getPipelineEntry_def by (rule row_find_distinct) (simp_all add: pipeline_ok_def)

lemma changes_keep:
  assumes "pipeline_change\<^sup>*\<^sup>* L L'" and "pipeline_ok L" and "getPipelineEntry L i = Some e"
  shows "\<exists>e'. getPipelineEntry L' i = Some e' \<and> accepted_part e' = accepted_part e \<and> (pipeline_terminal e \<longrightarrow> e' = e)"
  using assms(1)
proof (induction rule: rtranclp_induct)
  case base
  then show ?case using assms(3) by blast
next
  case (step M N)
  then obtain f where f: "getPipelineEntry M i = Some f" "accepted_part f = accepted_part e" "pipeline_terminal e \<longrightarrow> f = e"
    by blast
  have M: "pipeline_ok M" by (rule changes_ok [OF step.hyps(1) assms(2)])
  have N: "pipeline_ok N" by (rule pipeline_change_ok [OF step.hyps(2) M])
  from change_keeps [OF M step.hyps(2)] getPipelineEntry_SomeD [OF f(1)]
  obtain g where g: "g \<in> set (lg_pipeline N)" "accepted_part g = accepted_part f" "pipeline_terminal f \<longrightarrow> g = f" by blast
  have "pe_id g = i" using accepted_part_fields(1) [OF g(2) [symmetric]] getPipelineEntry_SomeD [OF f(1)] by simp
  then show ?case using entry_read [OF N g(1)] g f by auto
qed

text \<open>The claim a step works on: the row of the ledger, admitting.\<close>

definition claimed_in :: "ledger \<Rightarrow> pipeline_entry \<Rightarrow> bool" where
  "claimed_in L e \<longleftrightarrow> getPipelineEntry L (pe_id e) = Some e \<and> pe_state e = P_admitting"

lemma put_entry_read:
  assumes "put_entry E kind row row' payload L = Inr (L', x)" and "getPipelineEntry L (pe_id row) = Some row"
    and "pe_id row' = pe_id row"
  shows "getPipelineEntry L' (pe_id row) = Some row'"
  using assms by (auto simp: put_entry_def getPipelineEntry_def row_put_find)

text \<open>A job that may leave recovery: a worker started, or the job is over or blocked for someone to see.\<close>

definition startup_surfaced :: "ledger \<Rightarrow> string \<Rightarrow> bool" where
  "startup_surfaced L i \<longleftrightarrow> (\<exists>j. getJob L i = Some j \<and> (jobHasWorkerStart L i \<or> isJobTerminal (jb_status j) \<or> jb_status j = Blocked))"

lemma put_entry_startup:
  "put_entry E kind row row' payload L = Inr (L', x) \<Longrightarrow> startup_surfaced L' i = startup_surfaced L i"
  by (auto simp: put_entry_def startup_surfaced_def jobHasWorkerStart_def latestJobEvent_def newest_def
      appendEvent_events getJob_def)

lemma release_reads:
  assumes "releasePipelineClaim E (pe_id e) reason outcome body d L = Inr (L', x)" and "claimed_in L e"
  shows "getPipelineEntry L' (pe_id e) = Some (released_row E outcome reason body d e)"
    and "check_release reason outcome d = Inr ()" and "startup_surfaced L' i = startup_surfaced L i"
proof -
  from assms have run: "put_entry E (release_event outcome) e (released_row E outcome reason body d e)
      ([(''reason'', JStr reason)] @ spread_some ''note'' JStr body @ spread_some ''defer_reason'' JStr d) L = Inr (L', x)"
    and check: "check_release reason outcome d = Inr ()"
    unfolding releasePipelineClaim_def attempt_Inr_iff with_entry_Inr ex_unit claimed_in_def by auto
  show "check_release reason outcome d = Inr ()" by (rule check)
  show "getPipelineEntry L' (pe_id e) = Some (released_row E outcome reason body d e)"
    by (rule put_entry_read [OF run]) (use assms(2) in \<open>auto simp: claimed_in_def\<close>)
  show "startup_surfaced L' i = startup_surfaced L i" by (rule put_entry_startup [OF run])
qed

lemma admit_reads:
  assumes "markPipelineAdmitted E (pe_id e) j L = Inr (L', x)" and "claimed_in L e"
  shows "\<exists>row'. getPipelineEntry L' (pe_id e) = Some row' \<and> accepted_part row' = accepted_part e
     \<and> pe_state row' = P_admitted \<and> pe_jobId row' = Some j \<and> pe_failureCount row' = pe_failureCount e"
    and "\<exists>job. getJob L j = Some job \<and> adoptionMatches e job"
    and "startup_surfaced L' i = startup_surfaced L i"
proof -
  from admit_InrD [OF assms(1)] assms(2) obtain job where job: "getJob L j = Some job"
      "jb_briefing job = Some (pe_briefing e)" "jb_repo job = pe_repo e"
    and run: "put_entry E ''pipeline.admitted'' e
              (e\<lparr>pe_state := P_admitted, pe_jobId := Some j, pe_admittedAt := Some (en_now E),
                 pe_deferReason := None, pe_updatedAt := en_now E\<rparr>) [(''job_id'', JStr j)] L = Inr (L', x)"
    by (auto simp: claimed_in_def simp del: put_entry_Inr)
  have "getPipelineEntry L' (pe_id e) = Some (e\<lparr>pe_state := P_admitted, pe_jobId := Some j,
      pe_admittedAt := Some (en_now E), pe_deferReason := None, pe_updatedAt := en_now E\<rparr>)"
    by (rule put_entry_read [OF run]) (use assms(2) in \<open>auto simp: claimed_in_def\<close>)
  then show "\<exists>row'. getPipelineEntry L' (pe_id e) = Some row' \<and> accepted_part row' = accepted_part e
     \<and> pe_state row' = P_admitted \<and> pe_jobId row' = Some j \<and> pe_failureCount row' = pe_failureCount e"
    by (auto simp: accepted_part_def)
  show "\<exists>job. getJob L j = Some job \<and> adoptionMatches e job" using job by (auto simp: adoptionMatches_def)
  show "startup_surfaced L' i = startup_surfaced L i" by (rule put_entry_startup [OF run])
qed

lemma act_then_Pair:
  "act_then m f c = (c', r) \<Longrightarrow> (\<exists>e. m c = (c', Inl e) \<and> r = Inl e) \<or> (\<exists>c1 x. m c = (c1, Inr x) \<and> f x c1 = (c', r))"
  by (auto simp: act_then_def split: prod.splits sum.splits)

lemma act_catch_Pair:
  "act_catch m h c = (c', r) \<Longrightarrow> (\<exists>x. m c = (c', Inr x) \<and> r = Inr x) \<or> (\<exists>c1 e. m c = (c1, Inl e) \<and> h e c1 = (c', r))"
  by (auto simp: act_catch_def split: prod.splits sum.splits)

lemma finalize_failed_frame [simp]:
  "cn_ledger (finalize_failed c) = cn_ledger c" "cn_log (finalize_failed c) = cn_log c"
  by (simp_all add: finalize_failed_def)

lemma tried_anyway: "act_catch (act_then m (\<lambda>_. act_return False)) (\<lambda>_. act_return False) c = (fst (m c), Inr False)"
  by (auto simp: act_catch_def act_then_def act_return_def split: prod.split sum.split)

text \<open>Binding: the entry is admitted with its job, or keeps its claim, or went back to waiting with no job.\<close>

definition bound_or_kept :: "ledger \<Rightarrow> pipeline_entry \<Rightarrow> bool \<Rightarrow> pipeline_entry \<Rightarrow> bool" where
  "bound_or_kept L e bound row \<longleftrightarrow> accepted_part row = accepted_part e \<and> pe_failureCount row = pe_failureCount e
     \<and> (if bound then pe_state row = P_admitted \<and> pe_jobId row = Some (pe_id e)
        else row = e \<or> getJob L (pe_id e) = None \<and> pe_state row = P_waiting)"

lemma finalize_facts:
  assumes "finalizeAdmission W e c = (c', r)" and "claimed_in (cn_ledger c) e"
  shows "\<exists>bound row. r = Inr bound \<and> getPipelineEntry (cn_ledger c') (pe_id e) = Some row
     \<and> bound_or_kept (cn_ledger c) e bound row
     \<and> startup_surfaced (cn_ledger c') (pe_id e) = startup_surfaced (cn_ledger c) (pe_id e)"
  using act_catch_Pair [OF assms(1) [unfolded finalizeAdmission_def]]
proof (elim disjE exE conjE)
  fix x assume "act_then (store W Mark_admitted (pe_id e) (markPipelineAdmitted (cw_env W) (pe_id e) (pe_id e)))
      (\<lambda>_. act_then (act_do (\<lambda>c. c\<lparr>cn_finalizeFailures := 0\<rparr>)) (\<lambda>_. act_return True)) c = (c', Inr x)" and r: "r = Inr x"
  then obtain c1 y where "store W Mark_admitted (pe_id e) (markPipelineAdmitted (cw_env W) (pe_id e) (pe_id e)) c = (c1, Inr y)"
    and c': "c' = c1\<lparr>cn_finalizeFailures := 0\<rparr>" "x = True"
    by (auto simp: act_then_def act_do_def act_return_def split: prod.splits sum.splits)
  then obtain L' where "markPipelineAdmitted (cw_env W) (pe_id e) (pe_id e) (cn_ledger c) = Inr (L', y)" "cn_ledger c1 = L'"
    by (auto dest!: store_Inr)
  from admit_reads(1,3) [OF this(1) assms(2)] this(2) show ?thesis using r c' by (auto simp: bound_or_kept_def)
next
  fix c1 err assume failed: "act_then (store W Mark_admitted (pe_id e) (markPipelineAdmitted (cw_env W) (pe_id e) (pe_id e)))
      (\<lambda>_. act_then (act_do (\<lambda>c. c\<lparr>cn_finalizeFailures := 0\<rparr>)) (\<lambda>_. act_return True)) c = (c1, Inl err)"
    and rescue: "finalize_rescue W e err c1 = (c', r)"
  have c1: "c1 = c" using failed store_Inl
    by (auto simp: act_then_def act_do_def act_return_def split: prod.splits sum.splits)
  have kept: "bound_or_kept (cn_ledger c) e False e" by (simp add: bound_or_kept_def)
  show ?thesis
  proof (cases "getJob (cn_ledger c) (pe_id e) = None")
    case False
    then have "c' = finalize_failed c" "r = Inr False" using rescue c1 by (auto simp: finalize_rescue_def)
    then show ?thesis using kept assms(2) by (auto simp: claimed_in_def)
  next
    case True
    define rel where "rel = releasePipelineClaim (cw_env W) (pe_id e)
      (FINALIZE_REASON @ take 300 (cw_errorText W err)) Reconciled
      (Some FINALIZE_NOTE) None"
    have run: "c' = fst (store W Release_claim (pe_id e) rel (finalize_failed c))" "r = Inr False"
      using rescue c1 True unfolding finalize_rescue_def rel_def tried_anyway by simp_all
    show ?thesis
    proof (cases "store W Release_claim (pe_id e) rel (finalize_failed c)")
      case (Pair c2 s)
      show ?thesis
      proof (cases s)
        case (Inl x)
        have "c2 = finalize_failed c" by (rule store_Inl [OF Pair [unfolded Inl]])
        then have "cn_ledger c' = cn_ledger c" using run(1) Pair by simp
        then have "getPipelineEntry (cn_ledger c') (pe_id e) = Some e" using assms(2) by (simp add: claimed_in_def)
        with run(2) kept \<open>cn_ledger c' = cn_ledger c\<close> show ?thesis by auto
      next
        case (Inr x)
        from store_Inr [OF Pair [unfolded Inr]] obtain L' where rel: "rel (cn_ledger c) = Inr (L', x)" "cn_ledger c2 = L'"
          unfolding finalize_failed_frame by blast
        define row where "row = released_row (cw_env W) Reconciled
          (FINALIZE_REASON @ take 300 (cw_errorText W err))
          (Some FINALIZE_NOTE) None e"
        have "getPipelineEntry (cn_ledger c2) (pe_id e) = Some row"
          unfolding rel(2) row_def by (rule release_reads(1) [OF rel(1) [unfolded rel_def] assms(2)])
        moreover have "bound_or_kept (cn_ledger c) e False row"
          using True by (simp add: bound_or_kept_def row_def accepted_part_def)
        moreover have "startup_surfaced (cn_ledger c2) (pe_id e) = startup_surfaced (cn_ledger c) (pe_id e)"
          unfolding rel(2) by (rule release_reads(3) [OF rel(1) [unfolded rel_def] assms(2)])
        moreover have "cn_ledger c' = cn_ledger c2" using run(1) Pair by simp
        ultimately show ?thesis using run(2) by auto
      qed
    qed
  qed
qed


lemma noteJob_status:
  assumes "noteJob E i body L = Inr (L', job)" and "getJob L i = Some j"
  shows "\<exists>j'. getJob L' i = Some j' \<and> jb_status j' = jb_status j"
proof -
  have "getJob L' i = Some (j\<lparr>jb_note := Some body, jb_updatedAt := en_now E\<rparr>)"
    using assms getJob_SomeD [OF assms(2)]
    by (auto simp: noteJob_def attempt_Inr_iff Let_def getJob_def row_update_find)
  then show ?thesis by simp
qed

lemma surface_facts:
  assumes "surfaceInterruptedStartup W e job c = (c', r)" and "getJob (cn_ledger c) (pe_id e) = Some job"
  shows "\<exists>b. r = Inr b \<and> lg_pipeline (cn_ledger c') = lg_pipeline (cn_ledger c)
     \<and> (b \<longrightarrow> startup_surfaced (cn_ledger c') (pe_id e))"
proof (cases "jobHasWorkerStart (cn_ledger c) (pe_id e) \<or> isJobTerminal (jb_status job) \<or> jb_status job = Blocked")
  case True
  then show ?thesis using assms by (auto simp: surfaceInterruptedStartup_def startup_surfaced_def split: if_splits)
next
  case False
  let ?steps = "act_then (store W Block_job (pe_id e) (setJobStatus (cw_env W) (pe_id e) ''blocked'' None)) (\<lambda>_.
         act_then (store W Note_job (pe_id e) (noteJob (cw_env W) (pe_id e) INTERRUPTED_NOTE)) (\<lambda>_.
         act_then (post_card W ''pipeline.adopted-without-worker'' (pe_id e)) (\<lambda>_. act_return True)))"
  have run: "act_catch ?steps (\<lambda>_. act_return False) c = (c', r)"
    using assms(1) False by (auto simp: surfaceInterruptedStartup_def)
  have steps: "lg_pipeline (cn_ledger c1) = lg_pipeline (cn_ledger c)
      \<and> (\<forall>x. s = Inr x \<longrightarrow> x \<and> startup_surfaced (cn_ledger c1) (pe_id e))" if step: "?steps c = (c1, s)" for c1 s
    using act_then_Pair [OF step]
  proof (elim disjE exE conjE)
    fix err assume failed: "store W Block_job (pe_id e) (setJobStatus (cw_env W) (pe_id e) ''blocked'' None) c = (c1, Inl err)"
      and "s = Inl err"
    then show ?thesis using store_Inl [OF failed] by simp
  next
    fix c2 x assume blocked: "store W Block_job (pe_id e) (setJobStatus (cw_env W) (pe_id e) ''blocked'' None) c = (c2, Inr x)"
      and rest: "act_then (store W Note_job (pe_id e) (noteJob (cw_env W) (pe_id e) INTERRUPTED_NOTE)) (\<lambda>_.
         act_then (post_card W ''pipeline.adopted-without-worker'' (pe_id e)) (\<lambda>_. act_return True)) c2 = (c1, s)"
    from store_Inr [OF blocked] obtain L2 where L2: "cn_ledger c2 = L2"
        "setJobStatus (cw_env W) (pe_id e) ''blocked'' None (cn_ledger c) = Inr (L2, x)" by blast
    from block_job_frame [OF L2(2)] obtain j where j: "getJob L2 (pe_id e) = Some j" "jb_status j = Blocked"
      and same: "lg_pipeline L2 = lg_pipeline (cn_ledger c)" by blast
    show ?thesis using act_then_Pair [OF rest]
    proof (elim disjE exE conjE)
      fix err assume failed: "store W Note_job (pe_id e) (noteJob (cw_env W) (pe_id e) INTERRUPTED_NOTE) c2 = (c1, Inl err)"
        and "s = Inl err"
      then show ?thesis using store_Inl [OF failed] L2(1) same by simp
    next
      fix c3 y assume noted: "store W Note_job (pe_id e) (noteJob (cw_env W) (pe_id e) INTERRUPTED_NOTE) c2 = (c3, Inr y)"
        and last: "act_then (post_card W ''pipeline.adopted-without-worker'' (pe_id e)) (\<lambda>_. act_return True) c3 = (c1, s)"
      from store_Inr [OF noted] L2(1) obtain L3 where L3: "cn_ledger c3 = L3"
          "noteJob (cw_env W) (pe_id e) INTERRUPTED_NOTE L2 = Inr (L3, y)" by blast
      have "cn_ledger c1 = L3" "s = Inr True"
        using last L3(1) by (auto simp: act_then_def post_card_def act_return_def emit_def split: if_splits)
      then show ?thesis
        using noteJob_pipeline [OF L3(2)] noteJob_status [OF L3(2) j(1)] j(2) same by (auto simp: startup_surfaced_def)
    qed
  qed
  show ?thesis using act_catch_Pair [OF run]
  proof (elim disjE exE conjE)
    fix x assume "?steps c = (c', Inr x)" "r = Inr x"
    then show ?thesis using steps by blast
  next
    fix c1 err assume "?steps c = (c1, Inl err)" "act_return False c1 = (c', r)"
    then show ?thesis using steps by (auto simp: act_return_def)
  qed
qed


definition has_own_job :: "ledger \<Rightarrow> pipeline_entry \<Rightarrow> bool" where
  "has_own_job L e \<longleftrightarrow> (\<exists>job. getJob L (pe_id e) = Some job \<and> adoptionMatches e job)"

text \<open>What an attempt may leave behind, given the ledger \<open>L\<close> its dispatch ended in: a bound entry, a kept claim,
  an entry back in line, or a terminal failure.\<close>

fun attempt_result :: "consumer_world \<Rightarrow> pipeline_entry \<Rightarrow> ledger \<Rightarrow> admit_outcome \<Rightarrow> ledger \<Rightarrow> pipeline_entry \<Rightarrow> bool" where
  "attempt_result W e L Admitted_now L' row \<longleftrightarrow> pe_state row = P_admitted \<and> pe_jobId row = Some (pe_id e)
     \<and> pe_failureCount row = pe_failureCount e"
| "attempt_result W e L Adopted L' row \<longleftrightarrow> pe_state row = P_admitted \<and> pe_jobId row = Some (pe_id e)
     \<and> pe_failureCount row = pe_failureCount e \<and> has_own_job L e \<and> startup_surfaced L' (pe_id e)"
| "attempt_result W e L Requeued L' row \<longleftrightarrow> row = e
     \<or> pe_state row = P_waiting \<and> pe_failureCount row = pe_failureCount e \<and> getJob L (pe_id e) = None
     \<or> pe_state row = P_waiting \<and> pe_failureCount row = Suc (pe_failureCount e)
       \<and> pe_failureCount row < cw_maxAdmissionFailures W \<and> \<not> has_own_job L e"
| "attempt_result W e L Failed_now L' row \<longleftrightarrow> pe_state row = P_failed \<and> pe_failureCount row = Suc (pe_failureCount e)
     \<and> cw_maxAdmissionFailures W \<le> pe_failureCount row \<and> \<not> has_own_job L e"
| "attempt_result W e L Deferred_now L' row \<longleftrightarrow> pe_state row = P_waiting \<and> present (pe_deferReason row)
     \<and> pe_failureCount row = pe_failureCount e"

lemma release_store:
  assumes "store W Release_claim (pe_id e) (releasePipelineClaim (cw_env W) (pe_id e) reason outcome body d) c = (c', Inr x)"
    and "claimed_in (cn_ledger c) e"
  shows "getPipelineEntry (cn_ledger c') (pe_id e) = Some (released_row (cw_env W) outcome reason body d e)"
    and "check_release reason outcome d = Inr ()"
proof -
  from store_Inr [OF assms(1)] obtain L' where L': "cn_ledger c' = L'"
    "releasePipelineClaim (cw_env W) (pe_id e) reason outcome body d (cn_ledger c) = Inr (L', x)" by blast
  from release_reads [OF L'(2) assms(2)] L'(1)
  show "getPipelineEntry (cn_ledger c') (pe_id e) = Some (released_row (cw_env W) outcome reason body d e)"
    and "check_release reason outcome d = Inr ()" by simp_all
qed

lemma give_up_facts:
  assumes "give_up_or_requeue W e detail c = (c', r)" and "claimed_in (cn_ledger c) e" and "\<not> has_own_job (cn_ledger c) e"
  shows "\<exists>row. getPipelineEntry (cn_ledger c') (pe_id e) = Some row
     \<and> (case r of Inl err \<Rightarrow> row = e | Inr outcome \<Rightarrow> attempt_result W e (cn_ledger c) outcome (cn_ledger c') row)"
proof (cases "cw_maxAdmissionFailures W \<le> Suc (pe_failureCount e)")
  case True
  define release where "release = store W Release_claim (pe_id e)
    (releasePipelineClaim (cw_env W) (pe_id e) detail Fail_terminal None None)"
  have run: "act_then release (\<lambda>_. act_then (post_card W ''pipeline.admission-failed'' (pe_id e)) (\<lambda>_. act_return Failed_now)) c = (c', r)"
    using assms(1) True by (simp add: give_up_or_requeue_def release_def)
  show ?thesis using act_then_Pair [OF run]
  proof (elim disjE exE conjE)
    fix err assume "release c = (c', Inl err)" "r = Inl err"
    then show ?thesis using assms(2) store_Inl unfolding release_def by (fastforce simp: claimed_in_def)
  next
    fix c1 x assume rel: "release c = (c1, Inr x)"
      and "act_then (post_card W ''pipeline.admission-failed'' (pe_id e)) (\<lambda>_. act_return Failed_now) c1 = (c', r)"
    then have "cn_ledger c' = cn_ledger c1" "r = Inr Failed_now"
      by (auto simp: act_then_def post_card_def act_return_def emit_def split: if_splits)
    then show ?thesis using release_store(1) [OF rel [unfolded release_def] assms(2)] True assms(3) by simp
  qed
next
  case False
  define body where "body = ''attempt '' @ nat_str (Suc (pe_failureCount e)) @ ''/'' @ nat_str (cw_maxAdmissionFailures W)
                   @ '' failed before any job existed''"
  define release where "release = store W Release_claim (pe_id e)
    (releasePipelineClaim (cw_env W) (pe_id e) detail Requeue (Some body) None)"
  have run: "act_then release (\<lambda>_. act_return Requeued) c = (c', r)"
    using assms(1) False by (simp add: give_up_or_requeue_def release_def body_def Let_def)
  show ?thesis using act_then_Pair [OF run]
  proof (elim disjE exE conjE)
    fix err assume "release c = (c', Inl err)" "r = Inl err"
    then show ?thesis using assms(2) store_Inl unfolding release_def by (fastforce simp: claimed_in_def)
  next
    fix c1 x assume rel: "release c = (c1, Inr x)" and "act_return Requeued c1 = (c', r)"
    then have "c' = c1" "r = Inr Requeued" by (auto simp: act_return_def)
    then show ?thesis using release_store(1) [OF rel [unfolded release_def] assms(2)] False assms(3) by simp
  qed
qed

lemma claimed_same_queue: "lg_pipeline L' = lg_pipeline L \<Longrightarrow> claimed_in L' e = claimed_in L e"
  by (simp add: claimed_in_def getPipelineEntry_def)

lemma dispatch_failed_facts:
  assumes "dispatch_failed W e err c = (c', r)" and "claimed_in (cn_ledger c) e"
  shows "\<exists>row. getPipelineEntry (cn_ledger c') (pe_id e) = Some row
     \<and> (case r of Inl err \<Rightarrow> row = e | Inr outcome \<Rightarrow> attempt_result W e (cn_ledger c) outcome (cn_ledger c') row)
     \<and> (has_own_job (cn_ledger c) e \<longrightarrow> row = e \<or> pe_state row = P_admitted)"
proof (cases "has_own_job (cn_ledger c) e")
  case False
  then have "give_up_or_requeue W e (''admission failed: '' @ take 300 err) c = (c', r)"
    using assms(1) by (auto simp: dispatch_failed_def has_own_job_def Let_def split: option.splits)
  from give_up_facts [OF this assms(2) False] False show ?thesis by blast
next
  case True
  then obtain job where job: "getJob (cn_ledger c) (pe_id e) = Some job" "adoptionMatches e job"
    by (auto simp: has_own_job_def)
  have run: "act_then (surfaceInterruptedStartup W e job) (\<lambda>surfaced.
              if \<not> surfaced then act_return Requeued
              else act_then (finalizeAdmission W e) (\<lambda>bound. act_return (if bound then Adopted else Requeued))) c = (c', r)"
    using assms(1) job by (simp add: dispatch_failed_def Let_def)
  from act_then_Pair [OF run] surface_facts [OF _ job(1)] obtain c1 surfaced where
    surfaced: "surfaceInterruptedStartup W e job c = (c1, Inr surfaced)" and
    rest: "(if \<not> surfaced then act_return Requeued
      else act_then (finalizeAdmission W e) (\<lambda>bound. act_return (if bound then Adopted else Requeued))) c1 = (c', r)"
    by fastforce
  from surface_facts [OF surfaced job(1)] have same: "lg_pipeline (cn_ledger c1) = lg_pipeline (cn_ledger c)"
    and shown: "surfaced \<longrightarrow> startup_surfaced (cn_ledger c1) (pe_id e)" by auto
  have claimed: "claimed_in (cn_ledger c1) e" using claimed_same_queue [OF same] assms(2) by simp
  show ?thesis
  proof (cases surfaced)
    case False
    then show ?thesis using rest claimed by (auto simp: act_return_def claimed_in_def)
  next
    case surf: True
    then have fin: "act_then (finalizeAdmission W e) (\<lambda>bound. act_return (if bound then Adopted else Requeued)) c1 = (c', r)"
      using rest by simp
    obtain c2 s where f: "finalizeAdmission W e c1 = (c2, s)" by fastforce
    from finalize_facts [OF f claimed] obtain bound row where fin_facts: "s = Inr bound"
        "getPipelineEntry (cn_ledger c2) (pe_id e) = Some row" "bound_or_kept (cn_ledger c1) e bound row"
        "startup_surfaced (cn_ledger c2) (pe_id e)"
      using shown surf by auto
    have "getJob (cn_ledger c1) (pe_id e) \<noteq> None" using shown surf by (auto simp: startup_surfaced_def)
    then show ?thesis
      using fin f fin_facts True by (auto simp: act_then_def act_return_def bound_or_kept_def split: if_splits)
  qed
qed


text \<open>What the consumer relies on while a dispatch is awaited: the queue changes only as its store allows, and
  nobody else resolves the claim.\<close>

definition respectful :: "consumer_world \<Rightarrow> bool" where
  "respectful W \<longleftrightarrow> (\<forall>n e p L. pipeline_ok L \<longrightarrow> claimed_in L e \<longrightarrow>
     pipeline_change\<^sup>*\<^sup>* L (dr_ledger (cw_dispatch W n e p L)) \<and> claimed_in (dr_ledger (cw_dispatch W n e p L)) e)"

definition gate_passes :: "consumer_world \<Rightarrow> nat \<Rightarrow> ledger \<Rightarrow> pipeline_entry \<Rightarrow> json option \<Rightarrow> bool" where
  "gate_passes W n L e p \<longleftrightarrow> (case cw_gate W of
     None \<Rightarrow> p = None
   | Some gate \<Rightarrow> gate n L e = Inr None \<and> p = None \<or> gate n L e = Inr (Some (Gate_admitted p)))"

definition gate_admits :: "consumer_world \<Rightarrow> consumer \<Rightarrow> pipeline_entry \<Rightarrow> json option \<Rightarrow> bool" where
  "gate_admits W c e p \<longleftrightarrow> gate_passes W (cn_dispatches c) (cn_ledger c) e p"

text \<open>The ledger in which the dispatch of \<open>e\<close> settles.\<close>

definition settled_ledger :: "consumer_world \<Rightarrow> consumer \<Rightarrow> pipeline_entry \<Rightarrow> json option \<Rightarrow> ledger" where
  "settled_ledger W c e p = dr_ledger (cw_dispatch W (cn_dispatches c) e p (cn_ledger c))"

lemma disarm_frame [simp]:
  "cn_ledger (disarmWake c) = cn_ledger c" "cn_dispatches (disarmWake c) = cn_dispatches c"
  "cn_inFlight (disarmWake c) = cn_inFlight c" "dispatched (cn_log (disarmWake c)) = dispatched (cn_log c)"
  by (simp_all add: disarmWake_def emit_def split: option.split)

lemma await_facts:
  assumes "await_dispatch W e p c = (c', r)"
  shows "cn_ledger c' = settled_ledger W c e p" and "r = Inr (dr_error (cw_dispatch W (cn_dispatches c) e p (cn_ledger c)))"
    and "\<exists>new. cn_log c' = cn_log c @ new \<and> calls new = [(e, p, cn_ledger c)]"
    and "cn_dispatches c' = Suc (cn_dispatches c)"
  using assms
  by (auto simp: await_dispatch_def settled_ledger_def Let_def schedule_def disarmRetry_def dispose_consumer_def
      disarmWake_def emit_def split: option.splits if_splits)

definition attempt_ok ::
  "consumer_world \<Rightarrow> pipeline_entry \<Rightarrow> ledger \<Rightarrow> (consumer_error + admit_outcome) \<Rightarrow> ledger \<Rightarrow> bool" where
  "attempt_ok W e L r L' \<longleftrightarrow> (\<exists>row. getPipelineEntry L' (pe_id e) = Some row
     \<and> (case r of Inl err \<Rightarrow> row = e | Inr outcome \<Rightarrow> outcome \<noteq> Deferred_now \<and> attempt_result W e L outcome L' row)
     \<and> (has_own_job L e \<longrightarrow> row = e \<or> pe_state row = P_admitted))"

lemma dispatch_failed_not_deferred:
  "dispatch_failed W e err c = (c', Inr outcome) \<Longrightarrow> outcome \<noteq> Deferred_now"
  by (auto simp: dispatch_failed_def give_up_or_requeue_def Let_def act_return_def
      dest!: act_then_Pair split: option.splits if_splits)

lemma dispatch_entry_facts:
  assumes "dispatch_entry W e p c = (c', r)" and "claimed_in (settled_ledger W c e p) e"
  shows "attempt_ok W e (settled_ledger W c e p) r (cn_ledger c')"
    and "consumer_moves (settled_ledger W c e p) (cn_ledger c')"
    and "others_kept (pe_id e) (settled_ledger W c e p) (cn_ledger c')"
    and "\<exists>new. cn_log c' = cn_log c @ new \<and> calls new = [(e, p, cn_ledger c)]"
    and "cn_dispatches c' = Suc (cn_dispatches c)"
proof -
  obtain c1 s where await: "await_dispatch W e p c = (c1, s)" by fastforce
  note a = await_facts [OF await]
  let ?cont = "case dr_error (cw_dispatch W (cn_dispatches c) e p (cn_ledger c)) of
      Some err \<Rightarrow> dispatch_failed W e err
    | None \<Rightarrow> act_then (finalizeAdmission W e) (\<lambda>bound. act_return (if bound then Admitted_now else Requeued))"
  have run: "?cont c1 = (c', r)"
    using assms(1) await a(2) by (auto simp: dispatch_entry_def act_then_def)
  have claimed: "claimed_in (cn_ledger c1) e" using a(1) assms(2) by simp
  have "quiet_act (others_kept (pe_id e)) ?cont"
    by (auto split: option.split
        intro!: own.quiet_dispatch_failed [OF refl] own.quiet_then own.quiet_finalize [OF refl] own.quiet_return)
  then have "quiet (others_kept (pe_id e)) c1 c'" using run by (rule quiet_actD)
  then show "others_kept (pe_id e) (settled_ledger W c e p) (cn_ledger c')" using a(1) by (simp add: quiet_def)
  have "quiet_act consumer_moves ?cont"
    by (auto split: option.split intro!: moves.quiet_dispatch_failed [OF refl] moves.quiet_then
        moves.quiet_finalize [OF refl] moves.quiet_return)
  then have q: "quiet consumer_moves c1 c'" using run by (rule quiet_actD)
  then show "consumer_moves (settled_ledger W c e p) (cn_ledger c')" using a(1) by (simp add: quiet_def)
  show "\<exists>new. cn_log c' = cn_log c @ new \<and> calls new = [(e, p, cn_ledger c)]" using q a(3) by (auto simp: quiet_def)
  show "cn_dispatches c' = Suc (cn_dispatches c)" using q a(4) by (simp add: quiet_def)
  show "attempt_ok W e (settled_ledger W c e p) r (cn_ledger c')"
  proof (cases "dr_error (cw_dispatch W (cn_dispatches c) e p (cn_ledger c))")
    case (Some err)
    then have f: "dispatch_failed W e err c1 = (c', r)" using run by simp
    from dispatch_failed_facts [OF f claimed] dispatch_failed_not_deferred f a(1) show ?thesis
      unfolding attempt_ok_def by (cases r) fastforce+
  next
    case None
    then have f: "act_then (finalizeAdmission W e) (\<lambda>bound. act_return (if bound then Admitted_now else Requeued)) c1 = (c', r)"
      using run by simp
    obtain c2 t where fin: "finalizeAdmission W e c1 = (c2, t)" by fastforce
    from finalize_facts [OF fin claimed] obtain bound row where facts: "t = Inr bound"
        "getPipelineEntry (cn_ledger c2) (pe_id e) = Some row" "bound_or_kept (cn_ledger c1) e bound row" by blast
    have "c' = c2" "r = Inr (if bound then Admitted_now else Requeued)"
      using f fin facts(1) by (auto simp: act_then_def act_return_def)
    then show ?thesis using facts(2,3) a(1)
      by (cases bound) (auto simp: attempt_ok_def bound_or_kept_def has_own_job_def)
  qed
qed

lemma flight_frame [simp]:
  "cn_ledger (enter_flight i c) = cn_ledger c" "cn_ledger (leave_flight i c) = cn_ledger c"
  "cn_log (enter_flight i c) = cn_log c" "cn_log (leave_flight i c) = cn_log c"
  "cn_dispatches (enter_flight i c) = cn_dispatches c" "cn_dispatches (leave_flight i c) = cn_dispatches c"
  by (simp_all add: enter_flight_def leave_flight_def)

lemma settled_flight [simp]: "settled_ledger W (enter_flight i c) e p = settled_ledger W c e p"
  by (simp add: settled_ledger_def)

lemma gate_flight [simp]: "gate_admits W (enter_flight i c) e p = gate_admits W c e p"
  by (simp add: gate_admits_def)

lemma gate_decides:
  assumes "evaluateGate W e c = (c', Inr decision)"
    and "decision = None \<and> p = None \<or> decision = Some (Gate_admitted p)"
  shows "gate_admits W c e p"
proof (cases "cw_gate W")
  case None
  then show ?thesis using assms by (simp add: evaluateGate_def gate_admits_def gate_passes_def)
next
  case (Some gate)
  then have "gate (cn_dispatches c) (cn_ledger c) e = Inr decision"
    using assms(1) by (simp add: evaluateGate_def split: sum.splits)
  then show ?thesis using Some assms(2) by (auto simp: gate_admits_def gate_passes_def)
qed

text \<open>One attempt: deferred or refused before any side effect, or dispatched once with what the gate attached.\<close>

lemma admit_facts:
  assumes "admit_claimed W e c = (c', r)" and "claimed_in (cn_ledger c) e" and "pipeline_ok (cn_ledger c)" and "respectful W"
  shows "(cn_log c' = cn_log c \<and> cn_dispatches c' = cn_dispatches c \<and> consumer_moves (cn_ledger c) (cn_ledger c')
          \<and> others_kept (pe_id e) (cn_ledger c) (cn_ledger c')
          \<and> (\<exists>row. getPipelineEntry (cn_ledger c') (pe_id e) = Some row
             \<and> (case r of Inl err \<Rightarrow> row = e
                | Inr outcome \<Rightarrow> outcome = Deferred_now \<and> attempt_result W e (cn_ledger c) outcome (cn_ledger c') row)))
     \<or> (\<exists>p new. gate_admits W c e p \<and> cn_log c' = cn_log c @ new \<and> calls new = [(e, p, cn_ledger c)]
          \<and> cn_dispatches c' = Suc (cn_dispatches c) \<and> pipeline_change\<^sup>*\<^sup>* (cn_ledger c) (settled_ledger W c e p)
          \<and> consumer_moves (settled_ledger W c e p) (cn_ledger c') \<and> others_kept (pe_id e) (settled_ledger W c e p) (cn_ledger c')
          \<and> attempt_ok W e (settled_ledger W c e p) r (cn_ledger c'))"
proof -
  let ?c = "enter_flight (pe_id e) c"
  obtain c1 where body: "admit_body W e ?c = (c1, r)" and c': "c' = leave_flight (pe_id e) c1"
    using assms(1) by (cases "admit_body W e ?c") (auto simp: admit_claimed_def)
  obtain c0 g where gate: "evaluateGate W e ?c = (c0, g)" by fastforce
  have c0: "c0 = ?c" using gate_keeps [OF gate] .
  have sent: ?thesis if "dispatch_entry W e p ?c = (c1, r)" "gate_admits W c e p" for p
  proof -
    have resp: "pipeline_change\<^sup>*\<^sup>* (cn_ledger c) (settled_ledger W c e p)" "claimed_in (settled_ledger W c e p) e"
      using assms(2-4) by (auto simp: respectful_def settled_ledger_def)
    from dispatch_entry_facts [OF that(1)] resp c' that(2) show ?thesis by auto
  qed
  show ?thesis
  proof (cases g)
    case (Inl err)
    then have "c1 = ?c" "r = Inl err" using body gate c0 by (auto simp: admit_body_def act_then_def)
    then show ?thesis using c' assms(2) by (auto simp: claimed_in_def others_kept_def)
  next
    case (Inr decision)
    have admits: "gate_admits W c e p" if "decision = None \<and> p = None \<or> decision = Some (Gate_admitted p)" for p
      using gate_decides [OF gate [unfolded Inr] that] by simp
    consider "decision = None" | p where "decision = Some (Gate_admitted p)"
      | code message where "decision = Some (Gate_refused code message)"
      by (metis gate_result.exhaust option.exhaust)
    then show ?thesis
    proof cases
      case 1
      then show ?thesis using body gate c0 Inr by (intro sent [of None] admits) (auto simp: admit_body_def act_then_def)
    next
      case (2 p)
      then show ?thesis using body gate c0 Inr by (intro sent [of p] admits) (auto simp: admit_body_def act_then_def)
    next
      case (3 code message)
      define release where "release = store W Release_claim (pe_id e)
        (releasePipelineClaim (cw_env W) (pe_id e) message Defer None (Some (deferralReason code message)))"
      have run: "act_then release (\<lambda>_. act_return Deferred_now) ?c = (c1, r)"
        using body gate c0 Inr 3 by (auto simp: admit_body_def act_then_def release_def)
      have q: "quiet_act consumer_moves release" "quiet_act (others_kept (pe_id e)) release"
        unfolding release_def by (rule moves.quiet_store own.quiet_store; auto intro: moves.releases release_others)+
      show ?thesis using act_then_Pair [OF run]
      proof (elim disjE exE conjE)
        fix err assume "release ?c = (c1, Inl err)" and r: "r = Inl err"
        then have "c1 = ?c" using store_Inl unfolding release_def by fastforce
        then show ?thesis using c' r assms(2) by (auto simp: claimed_in_def others_kept_def)
      next
        fix c2 x assume rel: "release ?c = (c2, Inr x)" and "act_return Deferred_now c2 = (c1, r)"
        then have same: "c1 = c2" "r = Inr Deferred_now" by (auto simp: act_return_def)
        have log: "cn_log c2 = cn_log c" using store_Inr [OF rel [unfolded release_def]] by auto
        have "consumer_moves (cn_ledger c) (cn_ledger c2)" "others_kept (pe_id e) (cn_ledger c) (cn_ledger c2)"
          "cn_dispatches c2 = cn_dispatches c"
          using quiet_actD [OF q(1) rel] quiet_actD [OF q(2) rel] by (simp_all add: quiet_def)
        moreover have "present (Some (deferralReason code message))"
          using release_store(2) [OF rel [unfolded release_def]] assms(2)
          by (auto simp: check_release_def present_def split: if_splits)
        ultimately show ?thesis
          using release_store(1) [OF rel [unfolded release_def]] assms(2) log c' same by auto
      qed
    qed
  qed
qed


subsection \<open>One pass\<close>

lemma find_first_key:
  assumes "find P xs = Some x" and "sorted (map (key :: 'a \<Rightarrow> 'k::linorder) xs)"
  shows "x \<in> set xs \<and> P x \<and> (\<forall>y\<in>set xs. P y \<longrightarrow> key x \<le> key y)"
  using assms by (induction xs) (auto split: if_splits)

text \<open>The entry the consumer may claim in \<open>L\<close> after \<open>n\<close> dispatches: waiting, unblocked, first in priority and
  acceptance order among such, with room in the shared budget and nobody ahead in its queue.\<close>

definition first_in_line :: "consumer_world \<Rightarrow> nat \<Rightarrow> ledger \<Rightarrow> pipeline_entry \<Rightarrow> bool" where
  "first_in_line W n L e \<longleftrightarrow> (let view = pipeline_view (cw_env W) L (cw_capacity W n) (lg_pipeline L) in
     e \<in> set (lg_pipeline L) \<and> pe_state e \<in> {P_waiting, P_ready} \<and> pipelineBlockingReason e view = None
     \<and> 1 \<le> cv_available (cw_capacity W n) \<and> cv_queued (cw_capacity W n) = 0
     \<and> (\<forall>f\<in>set (lg_pipeline L). pe_state f \<in> {P_waiting, P_ready} \<longrightarrow> pipelineBlockingReason f view = None
          \<longrightarrow> (pe_priority e, pe_enqueueSeq e) \<le> (pe_priority f, pe_enqueueSeq f)))"

definition admissible :: "consumer_world \<Rightarrow> consumer \<Rightarrow> pipeline_entry \<Rightarrow> bool" where
  "admissible W c e \<longleftrightarrow> first_in_line W (cn_dispatches c) (cn_ledger c) e"

lemma next_entry_facts:
  assumes "next_entry W c (lg_pipeline (cn_ledger c)) = Some e" and "pipeline_ok (cn_ledger c)"
    and "\<not> budget_busy W c"
  shows "admissible W c e"
proof -
  let ?es = "filter (\<lambda>e. pe_state e = P_waiting \<or> pe_state e = P_ready) (lg_pipeline (cn_ledger c))"
  have seqs: "distinct (map pe_enqueueSeq (lg_pipeline (cn_ledger c)))"
    using assms(2) by (auto simp: pipeline_ok_def strict_sorted_iff)
  have sort: "js_sort (entry_order W) ?es = sort_key (\<lambda>e. (pe_priority e, pe_enqueueSeq e)) ?es"
  proof (rule js_sort_key)
    show "distinct ?es" using seqs by (simp add: distinct_map)
    fix x y assume "x \<in> set ?es" "y \<in> set ?es" "x \<noteq> y"
    then have "pe_enqueueSeq x \<noteq> pe_enqueueSeq y" using seqs by (auto simp: distinct_map dest: inj_onD)
    then show "entry_order W x y \<le> 0 \<longleftrightarrow> (pe_priority x, pe_enqueueSeq x) \<le> (pe_priority y, pe_enqueueSeq y)"
      by (auto simp: entry_order_def Let_def)
  qed
  have "sorted (map (\<lambda>e. (pe_priority e, pe_enqueueSeq e)) (js_sort (entry_order W) ?es))"
    unfolding sort by (rule sorted_sort_key)
  from find_first_key [OF assms(1) [unfolded next_entry_def] this] show ?thesis
    using assms(3) by (auto simp: admissible_def first_in_line_def Let_def eval_context_def budget_busy_def)
qed

lemma blocking_parts:
  "pipelineBlockingReason e ctx = None \<Longrightarrow> \<not> present (pe_deferReason e) \<and> \<not> present (pe_holdReason e)"
  by (auto simp: pipelineBlockingReason_def split: if_splits)

text \<open>The claim of the picked entry is taken in the ledger the pass has just read.\<close>

lemma claim_step:
  assumes "store W Claim_entry (pe_id e) (claimPipelineEntry (cw_env W) (pe_id e) ADMISSION_HOLDER) (disarmWake c) = (c1, Inr r)"
    and "pipeline_ok (cn_ledger c)"
  shows "pipeline_change (cn_ledger c) (cn_ledger c1)" and "\<exists>new. cn_log c1 = cn_log c @ new \<and> dispatched new = []"
    and "\<forall>claimed. r = Some claimed \<longrightarrow> claimed_in (cn_ledger c1) claimed \<and> pe_id claimed = pe_id e
      \<and> (\<exists>since. pe_claim claimed = Some \<lparr>pc_holder = ADMISSION_HOLDER, pc_since = since\<rparr>) \<and> others_kept (pe_id e) (cn_ledger c) (cn_ledger c1)
      \<and> (\<exists>row. getPipelineEntry (cn_ledger c) (pe_id e) = Some row \<and> pe_state row \<in> {P_waiting, P_ready}
           \<and> accepted_part claimed = accepted_part row \<and> pe_holdReason row = None)"
    and "r = None \<Longrightarrow> \<exists>row. getPipelineEntry (cn_ledger c) (pe_id e) = Some row
      \<and> (pe_state row \<notin> {P_waiting, P_ready} \<or> pe_holdReason row \<noteq> None)"
    and "cn_dispatches c1 = cn_dispatches c"
    and "claimPipelineEntry (cw_env W) (pe_id e) ADMISSION_HOLDER (cn_ledger c) = Inr (cn_ledger c1, r)"
    and "consumer_moves (cn_ledger c) (cn_ledger c1)"
proof -
  from store_Inr [OF assms(1)] obtain L1 where L1: "cn_ledger c1 = L1" "cn_log c1 = cn_log (disarmWake c)"
      "cn_dispatches c1 = cn_dispatches c"
      "claimPipelineEntry (cw_env W) (pe_id e) ADMISSION_HOLDER (cn_ledger c) = Inr (L1, r)" by auto
  show "cn_dispatches c1 = cn_dispatches c" by (rule L1(3))
  show run: "claimPipelineEntry (cw_env W) (pe_id e) ADMISSION_HOLDER (cn_ledger c) = Inr (cn_ledger c1, r)"
    using L1(1,4) by simp
  show "consumer_moves (cn_ledger c) (cn_ledger c1)"
    using entry_claim_change [OF run] claim_holds [OF run] by (auto simp: consumer_moves_def)
  show "pipeline_change (cn_ledger c) (cn_ledger c1)"
    using claim_InrD [OF L1(4)] L1(1) by (auto simp: pipeline_change_def)
  show "\<exists>new. cn_log c1 = cn_log c @ new \<and> dispatched new = []"
    using L1(2) by (auto simp: disarmWake_def emit_def split: option.split)
  show "\<forall>claimed. r = Some claimed \<longrightarrow> claimed_in (cn_ledger c1) claimed \<and> pe_id claimed = pe_id e
      \<and> (\<exists>since. pe_claim claimed = Some \<lparr>pc_holder = ADMISSION_HOLDER, pc_since = since\<rparr>) \<and> others_kept (pe_id e) (cn_ledger c) (cn_ledger c1)
      \<and> (\<exists>row. getPipelineEntry (cn_ledger c) (pe_id e) = Some row \<and> pe_state row \<in> {P_waiting, P_ready}
           \<and> accepted_part claimed = accepted_part row \<and> pe_holdReason row = None)"
  proof (intro allI impI)
    fix claimed assume r: "r = Some claimed"
    from claim_InrD [OF L1(4)] r obtain row where row: "moved (cn_ledger c) L1 row claimed" "pe_id row = pe_id e"
      "pe_state row \<in> {P_waiting, P_ready}" "pe_holdReason row = None" "pe_state claimed = P_admitting"
      "pe_claim claimed = Some \<lparr>pc_holder = ADMISSION_HOLDER, pc_since = en_now (cw_env W)\<rparr>" by auto
    have part: "accepted_part claimed = accepted_part row" using row(1) by (simp add: moved_def entry_step_accepted)
    have id: "pe_id claimed = pe_id e" using accepted_part_fields(1) [OF part [symmetric]] row(2) by simp
    have "getPipelineEntry L1 (pe_id e) = Some claimed"
      using row(1,2) id by (auto simp: moved_def getPipelineEntry_def row_put_find)
    moreover have "others_kept (pe_id e) (cn_ledger c) L1"
    proof -
      have "filter (\<lambda>f. pe_id f \<noteq> pe_id e) (row_update pe_id (pe_id row) (\<lambda>_. claimed) es) = filter (\<lambda>f. pe_id f \<noteq> pe_id e) es" for es
        using row(2) id by (induction es) (auto simp: row_update_def)
      then show ?thesis using row(1) by (simp add: others_kept_def moved_def)
    qed
    ultimately show "claimed_in (cn_ledger c1) claimed \<and> pe_id claimed = pe_id e
      \<and> (\<exists>since. pe_claim claimed = Some \<lparr>pc_holder = ADMISSION_HOLDER, pc_since = since\<rparr>) \<and> others_kept (pe_id e) (cn_ledger c) (cn_ledger c1)
      \<and> (\<exists>row. getPipelineEntry (cn_ledger c) (pe_id e) = Some row \<and> pe_state row \<in> {P_waiting, P_ready}
           \<and> accepted_part claimed = accepted_part row \<and> pe_holdReason row = None)"
      using row id part L1(1) by (auto simp: claimed_in_def moved_def)
  qed
  show "\<exists>row. getPipelineEntry (cn_ledger c) (pe_id e) = Some row
      \<and> (pe_state row \<notin> {P_waiting, P_ready} \<or> pe_holdReason row \<noteq> None)" if "r = None"
    using L1(4) that unfolding claimPipelineEntry_def guard_Inr with_entry_Inr
    by (auto split: if_splits simp: attempt_Inr_iff)
qed


text \<open>The dispatches of a pass in their order, each with the ledger of its call. Since the dispatch before it (or
  since the start) the consumer only made moves of its own; then the entry was unheld and first in line and was
  claimed, and the gate let the claimed entry and what is sent with it through in the very ledger of the call.\<close>

definition claim_taken :: "consumer_world \<Rightarrow> ledger \<Rightarrow> pipeline_entry \<Rightarrow> ledger \<Rightarrow> pipeline_entry \<Rightarrow> bool" where
  "claim_taken W L e L' claimed \<longleftrightarrow>
     claimPipelineEntry (cw_env W) (pe_id e) ADMISSION_HOLDER L = Inr (L', Some claimed)
     \<and> claimed_in L' claimed \<and> map_option pc_holder (pe_claim claimed) = Some ADMISSION_HOLDER
     \<and> accepted_part claimed = accepted_part e \<and> others_kept (pe_id e) L L'"

definition called_in_turn :: "consumer_world \<Rightarrow> nat \<Rightarrow> ledger \<Rightarrow> dispatch_call \<Rightarrow> bool" where
  "called_in_turn W n L = (\<lambda>(claimed, p, L'). \<exists>L0 e. consumer_moves L L0 \<and> first_in_line W n L0 e \<and> pe_holdReason e = None
     \<and> claim_taken W L0 e L' claimed \<and> gate_passes W n L' claimed p)"

fun call_chain :: "consumer_world \<Rightarrow> nat \<Rightarrow> ledger \<Rightarrow> dispatch_call list \<Rightarrow> ledger \<Rightarrow> bool" where
  "call_chain W n L [] M \<longleftrightarrow> consumer_moves L M"
| "call_chain W n L (call # cs) M \<longleftrightarrow> called_in_turn W n L call
     \<and> (case call of (claimed, p, L') \<Rightarrow> call_chain W (Suc n) (dr_ledger (cw_dispatch W n claimed p L')) cs M)"

lemma called_after: "consumer_moves L L' \<Longrightarrow> called_in_turn W n L' call \<Longrightarrow> called_in_turn W n L call"
  by (cases call) (auto simp: called_in_turn_def intro: consumer_moves_trans)

lemma chain_after: "consumer_moves L L' \<Longrightarrow> call_chain W n L' cs M \<Longrightarrow> call_chain W n L cs M"
  by (cases cs) (auto intro: consumer_moves_trans called_after)

lemma chain_append:
  "call_chain W n L cs M \<Longrightarrow> call_chain W (n + length cs) M ds N \<Longrightarrow> call_chain W n L (cs @ ds) N"
  by (induction cs arbitrary: n L) (auto intro: chain_after split: prod.splits)

definition pass_calls :: "consumer_world \<Rightarrow> consumer \<Rightarrow> consumer_output list \<Rightarrow> consumer \<Rightarrow> bool" where
  "pass_calls W c new c' \<longleftrightarrow> pipeline_change\<^sup>*\<^sup>* (cn_ledger c) (cn_ledger c')
     \<and> cn_log c' = cn_log c @ new \<and> cn_dispatches c' = cn_dispatches c + length (calls new) \<and> distinct (dispatched new)
     \<and> call_chain W (cn_dispatches c) (cn_ledger c) (calls new) (cn_ledger c')
     \<and> (\<forall>i\<in>set (dispatched new). \<forall>e. getPipelineEntry (cn_ledger c) i = Some e \<longrightarrow> \<not> pipeline_terminal e)"

definition pass_ok :: "consumer_world \<Rightarrow> consumer \<Rightarrow> consumer \<Rightarrow> bool" where
  "pass_ok W c c' \<longleftrightarrow> (\<exists>new. pass_calls W c new c')"

lemma quiet_calls: "quiet consumer_moves c c' \<Longrightarrow> \<exists>new. pass_calls W c new c' \<and> dispatched new = []"
  by (auto simp: pass_calls_def quiet_def consumer_moves_def)

lemma pass_ok_quiet: "quiet consumer_moves c c' \<Longrightarrow> pass_ok W c c'"
  by (auto simp: pass_ok_def dest: quiet_calls)

lemma pass_ok_refl: "pass_ok W c c"
  by (rule pass_ok_quiet) (rule moves.quiet_refl)

text \<open>A first part, none of whose dispatches may come again, before the rest of the pass.\<close>

lemma pass_ok_then:
  assumes "pipeline_ok (cn_ledger c)" and "pass_calls W c new c1" and "pass_ok W c1 c'"
    and "\<And>i. i \<in> set (dispatched new) \<Longrightarrow> \<exists>e. getPipelineEntry (cn_ledger c1) i = Some e \<and> pipeline_terminal e"
  shows "pass_ok W c c'"
proof -
  from assms(3) obtain later where later: "pass_calls W c1 later c'" unfolding pass_ok_def by blast
  note first = assms(2) [unfolded pass_calls_def] and rest = later [unfolded pass_calls_def]
  have "set (dispatched new) \<inter> set (dispatched later) = {}" using rest assms(4) by fastforce
  then have "distinct (dispatched (new @ later))" using first rest by simp
  moreover have "\<not> pipeline_terminal e" if "i \<in> set (dispatched (new @ later))" "getPipelineEntry (cn_ledger c) i = Some e" for i e
  proof (cases "i \<in> set (dispatched new)")
    case True
    then show ?thesis using first that(2) by blast
  next
    case False
    then have "i \<in> set (dispatched later)" using that(1) by simp
    moreover have "pipeline_change\<^sup>*\<^sup>* (cn_ledger c) (cn_ledger c1)" using first by blast
    ultimately show ?thesis using changes_keep [OF _ assms(1) that(2)] rest by fastforce
  qed
  moreover have "pipeline_change\<^sup>*\<^sup>* (cn_ledger c) (cn_ledger c')" using first rest by (auto intro: rtranclp_trans)
  moreover have "call_chain W (cn_dispatches c) (cn_ledger c) (calls (new @ later)) (cn_ledger c')"
    using first rest by (auto intro: chain_append)
  ultimately have "pass_calls W c (new @ later) c'" using first rest unfolding pass_calls_def by simp
  then show ?thesis unfolding pass_ok_def by blast
qed

lemma list_entries_all: "pipeline_ok (cn_ledger c) \<Longrightarrow> list_entries None c = (c, Inr (lg_pipeline (cn_ledger c)))"
  by (simp add: list_entries_def listPipelineEntries_def sorted_seq_list)

lemma disarmWake_quiet: "quiet consumer_moves c (disarmWake c)"
  by (auto simp: quiet_def disarmWake_def emit_def consumer_moves_same split: option.split)

lemma armWake_quiet: "quiet consumer_moves c (armWake W i c)"
  by (auto simp: quiet_def armWake_def emit_def consumer_moves_same)

text \<open>Where one turn of the loop ends, and what the next one starts from.\<close>

lemma turn_facts:
  assumes "admissible W c e" and "pipeline_ok (cn_ledger c)" and "respectful W"
    and "store W Claim_entry (pe_id e) (claimPipelineEntry (cw_env W) (pe_id e) ADMISSION_HOLDER) (disarmWake c) = (c1, Inr (Some claimed))"
    and "admit_claimed W claimed c1 = (c2, r)"
  shows "\<exists>new. pass_calls W c new c2 \<and> set (dispatched new) \<subseteq> {pe_id e} \<and> (cn_log c2 = cn_log c1 \<longrightarrow> dispatched new = [])"
    and "\<And>outcome. r = Inr outcome \<Longrightarrow> outcome \<noteq> Requeued \<Longrightarrow> \<exists>row. getPipelineEntry (cn_ledger c2) (pe_id e) = Some row
       \<and> (pipeline_terminal row \<or> pe_state row = P_waiting \<and> present (pe_deferReason row) \<and> cn_log c2 = cn_log c1)"
proof -
  note step = claim_step [OF assms(4) assms(2)]
  from step(3) obtain row since where claimed: "claimed_in (cn_ledger c1) claimed" "pe_id claimed = pe_id e"
    "pe_claim claimed = Some \<lparr>pc_holder = ADMISSION_HOLDER, pc_since = since\<rparr>"
    "getPipelineEntry (cn_ledger c) (pe_id e) = Some row" "accepted_part claimed = accepted_part row"
    "pe_holdReason row = None" "others_kept (pe_id e) (cn_ledger c) (cn_ledger c1)" by blast
  have "row = e" using claimed(4) entry_read [OF assms(2), of e] assms(1) by (simp add: admissible_def first_in_line_def Let_def)
  then have part: "accepted_part claimed = accepted_part e" "pe_holdReason e = None" using claimed(5,6) by simp_all
  have live: "\<not> pipeline_terminal f" if "getPipelineEntry (cn_ledger c) (pe_id e) = Some f" for f
    using entry_read [OF assms(2), of e] that assms(1)
    by (auto simp: admissible_def first_in_line_def Let_def pipeline_terminal_def)
  obtain quiet_part where log1: "cn_log c1 = cn_log c @ quiet_part" "calls quiet_part = []" using step(2) by auto
  have ok1: "pipeline_ok (cn_ledger c1)" by (rule pipeline_change_ok [OF step(1) assms(2)])
  have first: "pipeline_change\<^sup>*\<^sup>* (cn_ledger c) (cn_ledger c1)" using step(1) by blast
  have turn: "called_in_turn W (cn_dispatches c) (cn_ledger c) (claimed, p, cn_ledger c1)" if "gate_admits W c1 claimed p" for p
    using assms(1) claimed(1,3,7) part that step(5,6)
    by (auto simp: called_in_turn_def claim_taken_def admissible_def gate_admits_def intro!: exI [of _ "cn_ledger c"] exI [of _ e])
  note cases' = admit_facts [OF assms(5) claimed(1) ok1 assms(3)]
  show "\<exists>new. pass_calls W c new c2 \<and> set (dispatched new) \<subseteq> {pe_id e} \<and> (cn_log c2 = cn_log c1 \<longrightarrow> dispatched new = [])"
    using cases'
  proof (elim disjE exE conjE)
    assume "cn_log c2 = cn_log c1" "cn_dispatches c2 = cn_dispatches c1" "consumer_moves (cn_ledger c1) (cn_ledger c2)"
    then have "quiet consumer_moves c c2"
      using log1 step(5,7) by (auto simp: quiet_def intro: consumer_moves_trans)
    then show ?thesis using quiet_calls by force
  next
    fix p new assume sent: "gate_admits W c1 claimed p" "cn_log c2 = cn_log c1 @ new" "calls new = [(claimed, p, cn_ledger c1)]"
      "cn_dispatches c2 = Suc (cn_dispatches c1)" "pipeline_change\<^sup>*\<^sup>* (cn_ledger c1) (settled_ledger W c1 claimed p)"
      "consumer_moves (settled_ledger W c1 claimed p) (cn_ledger c2)"
    have "pipeline_change\<^sup>*\<^sup>* (cn_ledger c) (cn_ledger c2)"
      using first sent(5,6) by (auto simp: consumer_moves_def)
    moreover have "call_chain W (cn_dispatches c) (cn_ledger c) (calls (quiet_part @ new)) (cn_ledger c2)"
      using turn [OF sent(1)] sent(3,6) log1(2) step(5) by (simp add: settled_ledger_def)
    ultimately have "pass_calls W c (quiet_part @ new) c2"
      using log1 sent step(5) live claimed(2) by (auto simp: pass_calls_def dispatched_def)
    then show ?thesis using log1 sent claimed(2)
      by (intro exI [of _ "quiet_part @ new"]) (auto simp: dispatched_def)
  qed
  fix outcome assume r: "r = Inr outcome" "outcome \<noteq> Requeued"
  show "\<exists>row. getPipelineEntry (cn_ledger c2) (pe_id e) = Some row
       \<and> (pipeline_terminal row \<or> pe_state row = P_waiting \<and> present (pe_deferReason row) \<and> cn_log c2 = cn_log c1)"
    using cases' r claimed(2) by (cases outcome) (auto simp: attempt_ok_def pipeline_terminal_def)
qed

lemma loop_facts:
  assumes "admission_loop W fuel c = Some (c', r)" and "pipeline_ok (cn_ledger c)" and "respectful W"
  shows "pass_ok W c c'"
  using assms(1,2)
proof (induction fuel arbitrary: c)
  case (Suc fuel)
  note run = Suc.prems(1) [unfolded admission_loop.simps list_entries_all [OF Suc.prems(2)] prod.case sum.case]
  show ?case
  proof (cases "cn_disposed c")
    case True
    then show ?thesis using run pass_ok_refl by simp
  next
    case live: False
    show ?thesis
    proof (cases "next_entry W c (lg_pipeline (cn_ledger c))")
      case None
      then have "c' = disarmWake c" using run live by simp
      then show ?thesis using pass_ok_quiet disarmWake_quiet by simp
    next
      case (Some e)
      show ?thesis
      proof (cases "budget_busy W c")
        case True
        then have "c' = armWake W (pe_id e) c" using run live Some by simp
        then show ?thesis using pass_ok_quiet armWake_quiet by simp
      next
        case False
        have adm: "admissible W c e" by (rule next_entry_facts [OF Some Suc.prems(2) False])
        obtain c1 s where claim: "store W Claim_entry (pe_id e)
            (claimPipelineEntry (cw_env W) (pe_id e) ADMISSION_HOLDER) (disarmWake c) = (c1, s)" by fastforce
        show ?thesis
        proof (cases s)
          case (Inl err)
          then have "c' = c1" using run live Some False claim by simp
          moreover have "c1 = disarmWake c" by (rule store_Inl [OF claim [unfolded Inl]])
          ultimately show ?thesis using pass_ok_quiet disarmWake_quiet by simp
        next
          case (Inr got)
          note step = claim_step [OF claim [unfolded Inr] Suc.prems(2)]
          have ok1: "pipeline_ok (cn_ledger c1)" by (rule pipeline_change_ok [OF step(1) Suc.prems(2)])
          show ?thesis
          proof (cases got)
            case None
            then have "admission_loop W fuel c1 = Some (c', r)" using run live Some False claim Inr by simp
            then have "pass_ok W c1 c'" by (rule Suc.IH [OF _ ok1])
            moreover obtain new where "pass_calls W c new c1" "dispatched new = []"
              using quiet_calls [of c c1 W] step(2,5,7) by (auto simp: quiet_def)
            ultimately show ?thesis by (intro pass_ok_then [OF Suc.prems(2)]) auto
          next
            case claimed: (Some claimed)
            obtain c2 t where admit: "admit_claimed W claimed c1 = (c2, t)" by fastforce
            note turn = turn_facts [OF adm Suc.prems(2) assms(3) claim [unfolded Inr claimed] admit]
            from turn(1) obtain new where new: "pass_calls W c new c2" "set (dispatched new) \<subseteq> {pe_id e}"
              "cn_log c2 = cn_log c1 \<longrightarrow> dispatched new = []" by blast
            show ?thesis
            proof (cases "t = Inr Requeued \<or> (\<exists>err. t = Inl err)")
              case True
              then have "c' = armRetry c2 \<or> c' = c2" using run live Some False claim Inr claimed admit by auto
              then show ?thesis using new(1) by (auto simp: pass_ok_def pass_calls_def armRetry_def)
            next
              case goes: False
              then obtain outcome where outcome: "t = Inr outcome" "outcome \<noteq> Requeued" by (cases t) auto
              then have rest: "admission_loop W fuel c2 = Some (c', r)" using run live Some False claim Inr claimed admit by simp
              have "pipeline_ok (cn_ledger c2)" using new(1) changes_ok [OF _ Suc.prems(2)] by (auto simp: pass_calls_def)
              then have "pass_ok W c2 c'" by (rule Suc.IH [OF rest])
              moreover obtain row where "getPipelineEntry (cn_ledger c2) (pe_id e) = Some row"
                "pipeline_terminal row \<or> cn_log c2 = cn_log c1" using turn(2) [OF outcome] by blast
              ultimately show ?thesis using new by (intro pass_ok_then [OF Suc.prems(2) new(1)]) auto
            qed
          qed
        qed
      qed
    qed
  qed
qed simp


subsection \<open>A pass ends\<close>

text \<open>The entries a pass may still claim; none holds the empty reason, which a claim would refuse forever.\<close>

definition candidates_of :: "ledger \<Rightarrow> pipeline_entry set" where
  "candidates_of L = {e \<in> set (lg_pipeline L). pe_state e \<in> {P_waiting, P_ready} \<and> \<not> present (pe_deferReason e)}"

definition claimable :: "ledger \<Rightarrow> bool" where
  "claimable L \<longleftrightarrow> (\<forall>e\<in>candidates_of L. pe_holdReason e \<noteq> Some [])"

text \<open>A dispatch that leaves the queue to the consumer.\<close>

definition undisturbed_queue :: "consumer_world \<Rightarrow> bool" where
  "undisturbed_queue W \<longleftrightarrow> (\<forall>n e p L. lg_pipeline (dr_ledger (cw_dispatch W n e p L)) = lg_pipeline L)"

lemma undisturbed_respectful: "undisturbed_queue W \<Longrightarrow> respectful W"
  unfolding undisturbed_queue_def respectful_def
  by (blast intro: r_into_rtranclp pipeline_change_same claimed_same_queue [THEN iffD2])

lemma candidates_shrink:
  assumes "others_kept i L L'" and "getPipelineEntry L' i = Some row" and "row \<notin> candidates_of L'"
    and "pipeline_ok L'"
  shows "candidates_of L' \<subseteq> candidates_of L - {e. pe_id e = i}"
proof
  fix e assume e: "e \<in> candidates_of L'"
  have "pe_id e \<noteq> i"
  proof
    assume "pe_id e = i"
    then have "e = row" using entry_read [OF assms(4), of e] e assms(2) by (simp add: candidates_of_def)
    then show False using e assms(3) by simp
  qed
  moreover have "e \<in> set (filter (\<lambda>e. pe_id e \<noteq> i) (lg_pipeline L'))" using e calculation by (simp add: candidates_of_def)
  then have "e \<in> set (filter (\<lambda>e. pe_id e \<noteq> i) (lg_pipeline L))" using assms(1) by (simp only: others_kept_def)
  ultimately show "e \<in> candidates_of L - {e. pe_id e = i}" using e by (simp add: candidates_of_def)
qed

lemma turn_shrinks:
  assumes "admissible W c e" and "pipeline_ok (cn_ledger c)" and "undisturbed_queue W"
    and "store W Claim_entry (pe_id e) (claimPipelineEntry (cw_env W) (pe_id e) ADMISSION_HOLDER) (disarmWake c) = (c1, Inr (Some claimed))"
    and "admit_claimed W claimed c1 = (c2, Inr outcome)" and "outcome \<noteq> Requeued"
  shows "candidates_of (cn_ledger c2) \<subset> candidates_of (cn_ledger c)"
proof -
  note resp = undisturbed_respectful [OF assms(3)]
  note step = claim_step [OF assms(4) assms(2)]
  note turn = turn_facts [OF assms(1,2) resp assms(4,5)]
  from step(3) have claimed: "claimed_in (cn_ledger c1) claimed" "pe_id claimed = pe_id e"
    and first: "others_kept (pe_id e) (cn_ledger c) (cn_ledger c1)" by auto
  have ok1: "pipeline_ok (cn_ledger c1)" by (rule pipeline_change_ok [OF step(1) assms(2)])
  have "others_kept (pe_id e) (cn_ledger c1) (cn_ledger c2)"
    using admit_facts [OF assms(5) claimed(1) ok1 resp] claimed(2) assms(3)
    by (auto simp: others_kept_def settled_ledger_def undisturbed_queue_def)
  then have others: "others_kept (pe_id e) (cn_ledger c) (cn_ledger c2)" using first by (simp add: others_kept_def)
  from turn(2) [OF refl assms(6)] obtain row where row: "getPipelineEntry (cn_ledger c2) (pe_id e) = Some row"
    "row \<notin> candidates_of (cn_ledger c2)" by (auto simp: candidates_of_def pipeline_terminal_def)
  have "candidates_of (cn_ledger c2) \<subseteq> candidates_of (cn_ledger c) - {f. pe_id f = pe_id e}"
    by (rule candidates_shrink [OF others row changes_ok [OF _ assms(2)]])
      (use turn(1) in \<open>auto simp: pass_calls_def\<close>)
  moreover have "e \<in> candidates_of (cn_ledger c)"
    using assms(1) by (auto simp: admissible_def first_in_line_def Let_def candidates_of_def dest: blocking_parts)
  ultimately show ?thesis by blast
qed

lemma loop_ends:
  assumes "pipeline_ok (cn_ledger c)" and "undisturbed_queue W" and "claimable (cn_ledger c)"
    and "card (candidates_of (cn_ledger c)) < fuel"
  shows "\<exists>r. admission_loop W fuel c = Some r"
  using assms(1,3,4)
proof (induction fuel arbitrary: c)
  case (Suc fuel)
  have finite: "finite (candidates_of (cn_ledger c))" by (simp add: candidates_of_def)
  show ?case
  proof (cases "cn_disposed c \<or> next_entry W c (lg_pipeline (cn_ledger c)) = None \<or> budget_busy W c")
    case True
    then show ?thesis by (auto simp: list_entries_all [OF Suc.prems(1)] split: option.split)
  next
    case False
    then obtain e where e: "next_entry W c (lg_pipeline (cn_ledger c)) = Some e" "\<not> cn_disposed c" "\<not> budget_busy W c" by auto
    have adm: "admissible W c e" by (rule next_entry_facts [OF e(1) Suc.prems(1) e(3)])
    obtain c1 s where claim: "store W Claim_entry (pe_id e)
        (claimPipelineEntry (cw_env W) (pe_id e) ADMISSION_HOLDER) (disarmWake c) = (c1, s)" by fastforce
    note run = admission_loop.simps(2) [of W fuel c, unfolded list_entries_all [OF Suc.prems(1)] prod.case sum.case]
    show ?thesis
    proof (cases s)
      case (Inl err)
      then show ?thesis using run e claim by simp
    next
      case (Inr got)
      note step = claim_step [OF claim [unfolded Inr] Suc.prems(1)]
      show ?thesis
      proof (cases got)
        case None
        from step(4) [OF None] entry_read [OF Suc.prems(1), of e] adm have "pe_holdReason e \<noteq> None"
          by (auto simp: admissible_def first_in_line_def Let_def)
        moreover have "\<not> present (pe_holdReason e)" "e \<in> candidates_of (cn_ledger c)"
          using adm by (auto simp: admissible_def first_in_line_def Let_def candidates_of_def dest: blocking_parts)
        ultimately have False using Suc.prems(2) by (auto simp: claimable_def present_def)
        then show ?thesis ..
      next
        case claimed: (Some claimed)
        obtain c2 t where admit: "admit_claimed W claimed c1 = (c2, t)" by fastforce
        show ?thesis
        proof (cases "t = Inr Requeued \<or> (\<exists>err. t = Inl err)")
          case True
          then show ?thesis using run e claim Inr claimed admit by auto
        next
          case goes: False
          then obtain outcome where outcome: "t = Inr outcome" "outcome \<noteq> Requeued" by (cases t) auto
          have less: "candidates_of (cn_ledger c2) \<subset> candidates_of (cn_ledger c)"
            by (rule turn_shrinks [OF adm Suc.prems(1) assms(2) claim [unfolded Inr claimed] admit [unfolded outcome(1)] outcome(2)])
          have "pipeline_ok (cn_ledger c2)"
            using turn_facts(1) [OF adm Suc.prems(1) undisturbed_respectful [OF assms(2)] claim [unfolded Inr claimed] admit]
            by (auto simp: pass_calls_def intro: changes_ok [OF _ Suc.prems(1)])
          moreover have "claimable (cn_ledger c2)" using Suc.prems(2) less by (auto simp: claimable_def)
          moreover have "card (candidates_of (cn_ledger c2)) < fuel"
            using psubset_card_mono [OF finite less] Suc.prems(3) by simp
          ultimately have "\<exists>r. admission_loop W fuel c2 = Some r" by (rule Suc.IH)
          then show ?thesis using run e claim Inr claimed admit outcome by simp
        qed
      qed
    qed
  qed
qed simp

lemma prelude_facts:
  assumes "pass_prelude W c = (c', r)" and "pipeline_ok (cn_ledger c)"
  shows "pass_ok W c c'" and "pipeline_ok (cn_ledger c')"
    and "length (lg_pipeline (cn_ledger c')) = length (lg_pipeline (cn_ledger c))"
    and "(\<forall>e\<in>set (lg_pipeline (cn_ledger c)). pe_holdReason e \<noteq> Some []) \<Longrightarrow> claimable (cn_ledger c')"
proof -
  show "pass_ok W c c'" by (rule pass_ok_quiet [OF quiet_actD [OF moves.quiet_prelude assms(1)]])
  have "holds_kept (cn_ledger c) (cn_ledger c')"
    using quiet_actD [OF holds.quiet_prelude assms(1)] by (simp add: quiet_def)
  then have same: "map owner_part (lg_pipeline (cn_ledger c')) = map owner_part (lg_pipeline (cn_ledger c))" and "pipeline_ok (cn_ledger c')"
    using assms(2) by (auto simp: holds_kept_def)
  then show "pipeline_ok (cn_ledger c')" by simp
  show "length (lg_pipeline (cn_ledger c')) = length (lg_pipeline (cn_ledger c))"
    using arg_cong [OF same, of length] by simp
  assume "\<forall>e\<in>set (lg_pipeline (cn_ledger c)). pe_holdReason e \<noteq> Some []"
  moreover have "pe_holdReason ` set (lg_pipeline (cn_ledger c')) = pe_holdReason ` set (lg_pipeline (cn_ledger c))"
    using arg_cong [OF same, of "\<lambda>ps. (fst \<circ> snd) ` set ps"] by (simp add: image_image owner_part_def)
  ultimately show "claimable (cn_ledger c')" by (force simp: claimable_def candidates_of_def)
qed


lemma reconsider_pass_ok:
  assumes "reconsiderOnce W fuel c = Some (c', r)" and "pipeline_ok (cn_ledger c)" and "respectful W"
  shows "pass_ok W c c'"
proof -
  obtain c1 s where prelude: "pass_prelude W c = (c1, s)" by fastforce
  note p = prelude_facts [OF prelude assms(2)]
  show ?thesis
  proof (cases s)
    case (Inl err)
    then show ?thesis using assms(1) prelude p(1) by (simp add: reconsiderOnce_def)
  next
    case (Inr u)
    then have "admission_loop W fuel c1 = Some (c', r)" using assms(1) prelude by (simp add: reconsiderOnce_def)
    then have rest: "pass_ok W c1 c'" by (rule loop_facts [OF _ p(2) assms(3)])
    obtain new where "pass_calls W c new c1" "dispatched new = []"
      using quiet_calls [OF quiet_actD [OF moves.quiet_prelude prelude]] by blast
    then show ?thesis by (intro pass_ok_then [OF assms(2) _ rest]) auto
  qed
qed

lemma boot_dispatches_nothing: "quiet_act pipeline_change\<^sup>*\<^sup>* (reconcileAtBoot W)"
proof -
  have boot: "quiet_act pipeline_change\<^sup>*\<^sup>* (reconcile_boot W es report)" for es report
  proof (induction es arbitrary: report)
    case (Cons e es)
    have rest: "quiet_act pipeline_change\<^sup>*\<^sup>* (act_then (reconcileClaim W current) (\<lambda>outcome. reconcile_boot W es (f outcome)))"
      for current f by (intro changing.quiet_then changing.quiet_reconcile [OF refl] Cons.IH)
    show ?case
      unfolding quiet_act_def
    proof
      fix c
      show "quiet pipeline_change\<^sup>*\<^sup>* c (fst (reconcile_boot W (e # es) report c))"
      proof (cases "getPipelineEntry (cn_ledger c) (pe_id e)")
        case None
        then show ?thesis using Cons.IH [of report] by (simp add: quiet_act_def)
      next
        case (Some current)
        then show ?thesis
          using Cons.IH [of report] rest unfolding quiet_act_def by simp
      qed
    qed
  qed (simp add: changing.quiet_return)
  then show ?thesis unfolding reconcileAtBoot_def
    by (intro boot changing.quiet_then changing.quiet_list changing.quiet_do changing.quiet_return)
      (simp add: changing.quietI schedule_def disarmRetry_def)
qed


subsection \<open>Properties\<close>

text \<open>C3. A pass never dispatches twice and never out of turn: whatever storage, gate and dispatch do, the queue
  moves only along the changes its store allows and stays sound; no entry is dispatched twice in a pass or after
  it was admitted, failed or cancelled; and the dispatches, taken in order with the ledger each was called in,
  form a chain: from where the previous dispatch settled (the start, for the first) the consumer itself lifts
  no hold and cancels nothing, the ledger it then read had the entry waiting, unheld, unblocked and first in
  line with room in the shared budget and no older request, its claim of exactly that entry gave the ledger of
  the call, in which the gate let the claimed briefing through with what was sent.\<close>

theorem pass_dispatches:
  assumes "reconsiderOnce W fuel c = Some (c', r)" and "pipeline_ok (cn_ledger c)" and "respectful W"
  shows "pipeline_ok (cn_ledger c') \<and> pipeline_change\<^sup>*\<^sup>* (cn_ledger c) (cn_ledger c')
     \<and> (\<exists>new. cn_log c' = cn_log c @ new \<and> distinct (dispatched new)
        \<and> (\<forall>i\<in>set (dispatched new). \<forall>e. getPipelineEntry (cn_ledger c) i = Some e \<longrightarrow> \<not> pipeline_terminal e)
        \<and> call_chain W (cn_dispatches c) (cn_ledger c) (calls new) (cn_ledger c'))"
  using reconsider_pass_ok [OF assms] changes_ok [OF _ assms(2)] unfolding pass_ok_def pass_calls_def by blast


text \<open>C12. A pass ends: when dispatching leaves the queue rows to the consumer and no hold is the empty string, a
  pass over a sound queue finishes within one turn more than the queue has entries.\<close>

theorem pass_ends:
  assumes "pipeline_ok (cn_ledger c)" and "undisturbed_queue W"
    and "\<forall>e\<in>set (lg_pipeline (cn_ledger c)). pe_holdReason e \<noteq> Some []"
    and "length (lg_pipeline (cn_ledger c)) < fuel"
  shows "\<exists>c' r. reconsiderOnce W fuel c = Some (c', r)"
proof -
  obtain c1 s where prelude: "pass_prelude W c = (c1, s)" by fastforce
  note p = prelude_facts [OF prelude assms(1)]
  have "card (candidates_of (cn_ledger c1)) \<le> length (lg_pipeline (cn_ledger c1))"
    by (rule order_trans [OF card_mono card_length]) (auto simp: candidates_of_def)
  then have "card (candidates_of (cn_ledger c1)) < fuel" using p(3) assms(4) by simp
  from loop_ends [OF p(2) assms(2) p(4) [OF assms(3)] this] obtain c' r where "admission_loop W fuel c1 = Some (c', r)"
    by force
  then show ?thesis using prelude by (cases s) (simp_all add: reconsiderOnce_def)
qed


subsection \<open>A concrete pass\<close>

text \<open>One entry, room for it, and a dispatch that commits its job.\<close>

definition sample_job :: job_record where
  "sample_job = \<lparr>jb_id = ''j-1'', jb_repo = ''r'', jb_title = ''t'', jb_displayName = None, jb_deliverable = None,
     jb_commissioner = None, jb_targetRef = None, jb_targetSha = None, jb_parentJobId = None, jb_status = Working,
     jb_baseBranch = None, jb_prUrl = None, jb_note = None, jb_briefing = Some ''b'', jb_createdAt = [], jb_updatedAt = []\<rparr>"

definition sample_consumer_world :: consumer_world where
  "sample_consumer_world = \<lparr>cw_env = sample_env, cw_now = (\<lambda>_. 0),
     cw_capacity = (\<lambda>_. \<lparr>cv_capacity = 2, cv_occupied = 0, cv_queued = 0, cv_available = 2\<rparr>),
     cw_stores = (\<lambda>_ _ _. True), cw_gate = None,
     cw_dispatch = (\<lambda>_ _ _ L. \<lparr>dr_ledger = L\<lparr>lg_jobs := lg_jobs L @ [sample_job]\<rparr>, dr_error = None,
        dr_triggered = True, dr_disposed = False\<rparr>),
     cw_reasonText = (\<lambda>_. []), cw_errorText = (\<lambda>_. []), cw_bus = True, cw_budget = True, cw_cards = (\<lambda>_. True),
     cw_maxAdmissionFailures = DEFAULT_MAX_ADMISSION_FAILURES\<rparr>"

lemma sample_undisturbed: "undisturbed_queue sample_consumer_world"
  by (simp add: undisturbed_queue_def sample_consumer_world_def)

lemma sample_queue_rows: "lg_pipeline sample_queue = [sample_accepted]" "pe_holdReason sample_accepted = None"
  by (simp_all add: sample_queue_def sample_accepted_def accepted_entry_def sample_enqueue_def normal_hold_def)

theorem pass_ends_witness:
  "\<exists>c' r. reconsiderOnce sample_consumer_world 2 (new_consumer sample_queue) = Some (c', r)"
  using pass_ends [of "new_consumer sample_queue" sample_consumer_world 2] sample_queue_ok sample_undisturbed
  by (simp add: new_consumer_def sample_queue_rows)

lemma sample_pass:
  "map_option (\<lambda>(c, r). (length (cn_log c), dispatched (cn_log c), map pe_state (lg_pipeline (cn_ledger c)), r))
     (reconsiderOnce sample_consumer_world 2 (new_consumer sample_queue))
   = Some (1, [''j-1''], [P_admitted], Inr ())"
  by code_simp


theorem pass_dispatches_witness:
  "\<exists>c' r claimed p L. reconsiderOnce sample_consumer_world 2 (new_consumer sample_queue) = Some (c', r)
     \<and> pipeline_ok (cn_ledger c') \<and> cn_log c' = [Dispatched claimed p L] \<and> pe_id claimed = ''j-1''
     \<and> called_in_turn sample_consumer_world 0 sample_queue (claimed, p, L)"
proof -
  obtain c' r where run: "reconsiderOnce sample_consumer_world 2 (new_consumer sample_queue) = Some (c', r)"
    using sample_pass by (cases "reconsiderOnce sample_consumer_world 2 (new_consumer sample_queue)") auto
  then have log: "length (cn_log c') = 1" "dispatched (cn_log c') = [''j-1'']" using sample_pass by auto
  then obtain x where "cn_log c' = [x]" by (auto simp: length_Suc_conv)
  with log(2) obtain claimed p L where sent: "cn_log c' = [Dispatched claimed p L]" "pe_id claimed = ''j-1''"
    by (cases x) auto
  have "pipeline_ok (cn_ledger (new_consumer sample_queue))" using sample_queue_ok by (simp add: new_consumer_def)
  from pass_dispatches [OF run this undisturbed_respectful [OF sample_undisturbed]] sent run
  show ?thesis by (auto simp: new_consumer_def)
qed






text \<open>The ladders arm a retry after the third consecutive failure too; only the fourth stands down.\<close>

lemma third_failure_still_arms:
  assumes "\<not> cn_disposed c" and "\<not> cn_retryArmed c" and "cn_finalizeFailures c = 0"
  shows "cn_passFailures c = 2 \<Longrightarrow> cn_retryArmed (pass_failed c)"
    and "cn_passFailures c = 3 \<Longrightarrow> \<not> cn_retryArmed (pass_failed c)"
  using assms by (simp_all add: pass_failed_def armRetry_def Let_def MAX_CONSECUTIVE_PASS_FAILURES_def
      MAX_CONSECUTIVE_FINALIZE_FAILURES_def)

end
