(* ===== verification/Briefing_Types.thy ===== *)
theory Briefing_Types
  imports Prelude "HOL-Library.Sublist"
begin

text \<open>
  The vocabulary of the pre-dispatch briefing review, \<^verbatim>\<open>src/src/briefing-review/types.ts\<close>: tiers and
  their lenses, stages and what each enforces, deterministic identities, the markers that carry a
  reviewed briefing on a job row, the strict request parsers and the evidence rule of a finding.

  \<open>reviewed_between\<close> shows that the markers return exactly the briefing they were put around, whatever the
  briefing holds; \<open>request_types\<close> that the parser of a lens result accepts exactly the bounded
  shape; \<open>evidence_iff\<close> what an accepted result says of its findings. The text of a refusal is a
  constructor with the values the message interpolates.
\<close>

subsection \<open>Tiers, lenses, verdicts, stages\<close>

datatype review_tier = Tier_low | Tier_medium | Tier_high

datatype review_lens = Lens_stranger | Lens_acceptance | Lens_verification | Lens_repo | Lens_scope

datatype review_verdict = Ready | Changes_needed

datatype provenance_verdict = Claimed review_verdict | Pushed_back

datatype review_stage = Stage_auto | Stage_1 | Stage_2 | Stage_3

datatype finding_severity = Sev_blocking | Sev_advisory

fun tier_name :: "review_tier \<Rightarrow> string" where
  "tier_name Tier_low = ''low''"
| "tier_name Tier_medium = ''medium''"
| "tier_name Tier_high = ''high''"

fun lens_name :: "review_lens \<Rightarrow> string" where
  "lens_name Lens_stranger = ''stranger''"
| "lens_name Lens_acceptance = ''acceptance''"
| "lens_name Lens_verification = ''verification''"
| "lens_name Lens_repo = ''repo''"
| "lens_name Lens_scope = ''scope''"

fun verdict_name :: "review_verdict \<Rightarrow> string" where
  "verdict_name Ready = ''READY''"
| "verdict_name Changes_needed = ''CHANGES-NEEDED''"

fun severity_name :: "finding_severity \<Rightarrow> string" where
  "severity_name Sev_blocking = ''blocking''"
| "severity_name Sev_advisory = ''advisory''"

definition BRIEFING_REVIEW_TIERS :: "review_tier list" where
  "BRIEFING_REVIEW_TIERS = [Tier_low, Tier_medium, Tier_high]"

definition BRIEFING_REVIEW_LENSES :: "review_lens list" where
  "BRIEFING_REVIEW_LENSES = [Lens_stranger, Lens_acceptance, Lens_verification, Lens_repo, Lens_scope]"

definition BRIEFING_REVIEW_VERDICTS :: "review_verdict list" where
  "BRIEFING_REVIEW_VERDICTS = [Ready, Changes_needed]"

fun TIER_LENSES :: "review_tier \<Rightarrow> review_lens list" where
  "TIER_LENSES Tier_low = [Lens_stranger]"
| "TIER_LENSES Tier_medium = [Lens_stranger, Lens_acceptance, Lens_verification]"
| "TIER_LENSES Tier_high = BRIEFING_REVIEW_LENSES"

definition tierRank :: "review_tier \<Rightarrow> nat" where
  "tierRank tier = length (takeWhile (\<lambda>t. t \<noteq> tier) BRIEFING_REVIEW_TIERS)"

definition tierEnforcedAt :: "review_tier \<Rightarrow> review_stage \<Rightarrow> bool" where
  "tierEnforcedAt tier stage = (case stage of
     Stage_1 \<Rightarrow> False
   | Stage_2 \<Rightarrow> tier = Tier_high
   | Stage_3 \<Rightarrow> tier = Tier_high \<or> tier = Tier_medium
   | Stage_auto \<Rightarrow> tier \<noteq> Tier_low)"

text \<open>\<open>isBriefingReviewTier\<close> and its siblings narrow an unknown value; here they return what it narrows to.\<close>

definition named :: "('a \<Rightarrow> string) \<Rightarrow> 'a list \<Rightarrow> json option \<Rightarrow> 'a option" where
  "named name values v = (case v of Some (JStr s) \<Rightarrow> find (\<lambda>x. name x = s) values | _ \<Rightarrow> None)"

definition isBriefingReviewTier :: "json option \<Rightarrow> review_tier option" where
  "isBriefingReviewTier = named tier_name BRIEFING_REVIEW_TIERS"

definition isBriefingReviewLens :: "json option \<Rightarrow> review_lens option" where
  "isBriefingReviewLens = named lens_name BRIEFING_REVIEW_LENSES"

definition isBriefingReviewVerdict :: "json option \<Rightarrow> review_verdict option" where
  "isBriefingReviewVerdict = named verdict_name BRIEFING_REVIEW_VERDICTS"

definition unionLenses :: "review_lens list \<Rightarrow> review_lens list \<Rightarrow> review_lens list" where
  "unionLenses left right = filter (\<lambda>lens. lens \<in> set (left @ right)) BRIEFING_REVIEW_LENSES"

subsection \<open>Findings and requests\<close>

record review_finding =
  fi_code :: string
  fi_severity :: finding_severity
  fi_evidence :: string
  fi_whyItBlocks :: string

record commission_request =
  cq_repoPath :: string
  cq_title :: string
  cq_briefing :: string
  cq_tier :: review_tier
  cq_justification :: string

record result_request =
  rq_repoPath :: string
  rq_briefingSha256 :: string
  rq_jobId :: string
  rq_lens :: review_lens
  rq_verdict :: review_verdict
  rq_findings :: "review_finding list"

record pushback_request =
  pq_repoPath :: string
  pq_briefingSha256 :: string
  pq_reason :: string
  pq_by :: string

definition BRIEFING_REVIEW_MAX_BRIEFING_BYTES :: nat where "BRIEFING_REVIEW_MAX_BRIEFING_BYTES = 128 * 1024"
definition BRIEFING_REVIEW_TITLE_MAX :: nat where "BRIEFING_REVIEW_TITLE_MAX = 200"
definition BRIEFING_REVIEW_REPO_PATH_MAX :: nat where "BRIEFING_REVIEW_REPO_PATH_MAX = 4096"
definition BRIEFING_REVIEW_JUSTIFICATION_MAX :: nat where "BRIEFING_REVIEW_JUSTIFICATION_MAX = 500"
definition BRIEFING_REVIEW_PUSHBACK_REASON_MAX :: nat where "BRIEFING_REVIEW_PUSHBACK_REASON_MAX = 2000"
definition BRIEFING_REVIEW_FINDINGS_MAX :: nat where "BRIEFING_REVIEW_FINDINGS_MAX = 50"
definition BRIEFING_REVIEW_CODE_MAX :: nat where "BRIEFING_REVIEW_CODE_MAX = 80"
definition BRIEFING_REVIEW_EVIDENCE_MIN :: nat where "BRIEFING_REVIEW_EVIDENCE_MIN = 8"
definition BRIEFING_REVIEW_EVIDENCE_MAX :: nat where "BRIEFING_REVIEW_EVIDENCE_MAX = 2000"
definition BRIEFING_REVIEW_WHY_MAX :: nat where "BRIEFING_REVIEW_WHY_MAX = 1000"
definition BRIEFING_REVIEW_ROUND_CAP :: nat where "BRIEFING_REVIEW_ROUND_CAP = 3"

subsection \<open>Refusals\<close>

datatype review_code =
    Review_disabled | Review_workflow_unavailable | Review_invalid_request | Review_not_commissioned
  | Review_not_dispatched | Review_job_mismatch | Review_lens_unknown | Review_result_conflict
  | Review_decided | Review_round_cap | Review_already_ready | Review_pushback_conflict
  | Review_mismatch | Review_unknown | Review_pending | Review_not_ready | Review_required

text \<open>
  The last group belongs to the gate; a cap routing is the tail of the chain it names
  (\<open>Some\<close>: the chain is at the round cap).
\<close>

datatype review_detail =
    Not_an_object string
  | Unknown_field string string
  | Not_a_string string
  | Too_short string nat
  | Too_long string nat
  | Wrong_value string
  | Finding_field nat string
  | Evidence_length nat
  | Evidence_foreign nat
  | Ready_blocked
  | Changes_unblocked
  | Names string "string list"
  | Mismatch string string string
  | Capped review_detail "(nat \<times> string \<times> string) option"
  | Holds string "review_verdict option" review_stage review_tier
  | Unreviewed review_stage string nat

datatype review_error = Review_error review_code review_detail nat

definition invalidRequest :: "review_detail \<Rightarrow> review_error" where
  "invalidRequest detail = Review_error Review_invalid_request detail 400"

subsection \<open>Identity\<close>

record review_identity =
  id_reviewId :: string
  id_commissionKey :: string
  id_briefingSha256 :: string
  id_chainKey :: string

definition nul :: string where "nul = [CHR 0x00]"

text \<open>\<open>sha\<close> is the SHA-256 hex digest of \<^verbatim>\<open>node:crypto\<close>.\<close>

definition briefingSha256Of :: "(string \<Rightarrow> string) \<Rightarrow> string \<Rightarrow> string" where
  "briefingSha256Of sha briefing = sha briefing"

definition briefingReviewIdentity ::
  "(string \<Rightarrow> string) \<Rightarrow> string \<Rightarrow> string \<Rightarrow> string \<Rightarrow> review_tier \<Rightarrow> review_identity" where
  "briefingReviewIdentity sha briefing repoPath title tier =
     \<lparr>id_reviewId = sha (briefing @ nul @ repoPath),
      id_commissionKey = sha (briefing @ nul @ repoPath @ nul @ tier_name tier),
      id_briefingSha256 = sha briefing,
      id_chainKey = sha (repoPath @ nul @ title)\<rparr>"

definition BRIEFING_REVIEW_JOB_PREFIX :: string where "BRIEFING_REVIEW_JOB_PREFIX = ''briefing-review-''"

definition lensJobId :: "string \<Rightarrow> review_lens \<Rightarrow> string" where
  "lensJobId reviewId lens = BRIEFING_REVIEW_JOB_PREFIX @ take 32 reviewId @ ''-'' @ lens_name lens"

subsection \<open>Markers\<close>

text \<open>\<open>indexOf\<close> and \<open>lastIndexOf\<close>; \<open>None\<close> is \<open>-1\<close>.\<close>

definition js_indexOf :: "string \<Rightarrow> string \<Rightarrow> nat option" where
  "js_indexOf s needle = find (\<lambda>i. starts_with needle (drop i s)) [0..<Suc (length s)]"

definition js_lastIndexOf :: "string \<Rightarrow> string \<Rightarrow> nat option" where
  "js_lastIndexOf s needle = find (\<lambda>i. starts_with needle (drop i s)) (rev [0..<Suc (length s)])"

definition open_marker :: "string \<Rightarrow> string" where
  "open_marker reviewId = ''<<<NEFARIO-BRIEFING '' @ reviewId @ ''>>>''"

definition close_marker :: "string \<Rightarrow> string" where
  "close_marker reviewId = ''<<<END NEFARIO-BRIEFING '' @ reviewId @ ''>>>>''"

definition newline :: char where "newline = CHR 0x0A"

definition markedBriefing :: "string \<Rightarrow> string \<Rightarrow> string" where
  "markedBriefing briefing reviewId =
     open_marker reviewId @ [newline] @ briefing @ [newline] @ close_marker reviewId"

definition strip_first_newline :: "string \<Rightarrow> string" where
  "strip_first_newline s = (case s of [] \<Rightarrow> [] | c # cs \<Rightarrow> if c = newline then cs else s)"

definition strip_last_newline :: "string \<Rightarrow> string" where
  "strip_last_newline s = (if s \<noteq> [] \<and> last s = newline then butlast s else s)"

definition reviewedBriefing :: "string option \<Rightarrow> string \<Rightarrow> string option" where
  "reviewedBriefing jobBriefing reviewId = (case jobBriefing of
     None \<Rightarrow> None
   | Some s \<Rightarrow>
       (case (js_indexOf s (open_marker reviewId), js_lastIndexOf s (close_marker reviewId)) of
          (Some start, Some end') \<Rightarrow>
            if end' \<le> start then None
            else Some (strip_last_newline (strip_first_newline
                   (drop (start + length (open_marker reviewId)) (take end' s))))
        | _ \<Rightarrow> None))"

subsection \<open>Strict request shapes\<close>

definition record_of :: "json \<Rightarrow> string \<Rightarrow> review_error + (string \<times> json) list" where
  "record_of value what = (case value of JObj fs \<Rightarrow> Inr fs | _ \<Rightarrow> Inl (invalidRequest (Not_an_object what)))"

definition exactFields :: "(string \<times> json) list \<Rightarrow> string list \<Rightarrow> string \<Rightarrow> review_error + unit" where
  "exactFields raw allowed what = (case find (\<lambda>k. k \<notin> set allowed) (map fst raw) of
     None \<Rightarrow> Inr ()
   | Some k \<Rightarrow> Inl (invalidRequest (Unknown_field what k)))"

definition bounded_field :: "(string \<times> json) list \<Rightarrow> string \<Rightarrow> nat \<Rightarrow> nat \<Rightarrow> review_error + string" where
  "bounded_field raw field lo hi = (case map_of raw field of
     Some (JStr value) \<Rightarrow>
       if length (js_trim value) < lo then Inl (invalidRequest (Too_short field lo))
       else if hi < length value then Inl (invalidRequest (Too_long field hi))
       else Inr value
   | _ \<Rightarrow> Inl (invalidRequest (Not_a_string field)))"

text \<open>The UTF-8 length of a string of code units below 256.\<close>

definition byteLength :: "string \<Rightarrow> nat" where
  "byteLength s = sum_list (map (\<lambda>c. if c < CHR 0x80 then 1 else 2) s)"

definition finding_code_text :: "string \<Rightarrow> bool" where
  "finding_code_text s = (case s of
     [] \<Rightarrow> False
   | c # cs \<Rightarrow> (CHR ''A'' \<le> c \<and> c \<le> CHR ''Z'' \<or> CHR ''a'' \<le> c \<and> c \<le> CHR ''z'')
       \<and> list_all (\<lambda>d. CHR ''A'' \<le> d \<and> d \<le> CHR ''Z'' \<or> CHR ''a'' \<le> d \<and> d \<le> CHR ''z''
            \<or> CHR ''0'' \<le> d \<and> d \<le> CHR ''9'' \<or> d \<in> set ''_.:-'') cs)"

definition sha256_hex :: "string \<Rightarrow> bool" where
  "sha256_hex s \<longleftrightarrow> length s = 64
     \<and> list_all (\<lambda>d. CHR ''0'' \<le> d \<and> d \<le> CHR ''9'' \<or> CHR ''a'' \<le> d \<and> d \<le> CHR ''f'') s"

definition digest_field :: "(string \<times> json) list \<Rightarrow> review_error + string" where
  "digest_field raw = (case map_of raw ''briefingSha256'' of
     Some (JStr sha) \<Rightarrow> if sha256_hex sha then Inr sha else Inl (invalidRequest (Wrong_value ''briefingSha256''))
   | _ \<Rightarrow> Inl (invalidRequest (Wrong_value ''briefingSha256'')))"

definition parseCommissionRequest :: "json \<Rightarrow> review_error + commission_request" where
  "parseCommissionRequest value =
     attempt (record_of value ''the commission request'') (\<lambda>raw.
     attempt (exactFields raw [''repoPath'', ''title'', ''briefing'', ''tier'', ''justification''] ''the commission request'') (\<lambda>_.
     attempt (bounded_field raw ''repoPath'' 1 BRIEFING_REVIEW_REPO_PATH_MAX) (\<lambda>repoPath.
     attempt (bounded_field raw ''title'' 1 BRIEFING_REVIEW_TITLE_MAX) (\<lambda>title.
     attempt (bounded_field raw ''justification'' 1 BRIEFING_REVIEW_JUSTIFICATION_MAX) (\<lambda>justification.
     case map_of raw ''briefing'' of
       Some (JStr briefing) \<Rightarrow>
         if js_blank briefing then Inl (invalidRequest (Wrong_value ''briefing''))
         else if BRIEFING_REVIEW_MAX_BRIEFING_BYTES < byteLength briefing
         then Inl (invalidRequest (Too_long ''briefing'' BRIEFING_REVIEW_MAX_BRIEFING_BYTES))
         else (case isBriefingReviewTier (map_of raw ''tier'') of
             None \<Rightarrow> Inl (invalidRequest (Wrong_value ''tier''))
           | Some tier \<Rightarrow> Inr \<lparr>cq_repoPath = repoPath, cq_title = title, cq_briefing = briefing,
               cq_tier = tier, cq_justification = justification\<rparr>)
     | _ \<Rightarrow> Inl (invalidRequest (Wrong_value ''briefing'')))))))"

definition parseFinding :: "json \<Rightarrow> nat \<Rightarrow> review_error + review_finding" where
  "parseFinding value index =
     attempt (record_of value (''findings'' @ nat_str index)) (\<lambda>raw.
     attempt (exactFields raw [''code'', ''severity'', ''evidence'', ''why_it_blocks''] (''findings'' @ nat_str index)) (\<lambda>_.
     case map_of raw ''code'' of
       Some (JStr code) \<Rightarrow>
         if length code < 1 \<or> BRIEFING_REVIEW_CODE_MAX < length code \<or> \<not> finding_code_text code
         then Inl (invalidRequest (Finding_field index ''code''))
         else (case named severity_name [Sev_blocking, Sev_advisory] (map_of raw ''severity'') of
           None \<Rightarrow> Inl (invalidRequest (Finding_field index ''severity''))
         | Some severity \<Rightarrow> (case map_of raw ''evidence'' of
             Some (JStr evidence) \<Rightarrow> (case map_of raw ''why_it_blocks'' of
                 Some (JStr why) \<Rightarrow>
                   if js_blank why \<or> BRIEFING_REVIEW_WHY_MAX < length why
                   then Inl (invalidRequest (Finding_field index ''why_it_blocks''))
                   else Inr \<lparr>fi_code = code, fi_severity = severity, fi_evidence = evidence, fi_whyItBlocks = why\<rparr>
               | _ \<Rightarrow> Inl (invalidRequest (Finding_field index ''why_it_blocks'')))
           | _ \<Rightarrow> Inl (invalidRequest (Finding_field index ''evidence''))))
     | _ \<Rightarrow> Inl (invalidRequest (Finding_field index ''code''))))"

fun parse_findings :: "nat \<Rightarrow> json list \<Rightarrow> review_error + review_finding list" where
  "parse_findings index [] = Inr []"
| "parse_findings index (v # vs) =
     attempt (parseFinding v index) (\<lambda>f. attempt (parse_findings (Suc index) vs) (\<lambda>fs. Inr (f # fs)))"

definition parseResultRequest :: "json \<Rightarrow> review_error + result_request" where
  "parseResultRequest value =
     attempt (record_of value ''the result request'') (\<lambda>raw.
     attempt (exactFields raw [''repoPath'', ''briefingSha256'', ''jobId'', ''lens'', ''verdict'', ''findings''] ''the result request'') (\<lambda>_.
     attempt (bounded_field raw ''repoPath'' 1 BRIEFING_REVIEW_REPO_PATH_MAX) (\<lambda>repoPath.
     attempt (digest_field raw) (\<lambda>sha.
     attempt (bounded_field raw ''jobId'' 1 128) (\<lambda>jobId.
     case isBriefingReviewLens (map_of raw ''lens'') of
       None \<Rightarrow> Inl (invalidRequest (Wrong_value ''lens''))
     | Some lens \<Rightarrow> (case isBriefingReviewVerdict (map_of raw ''verdict'') of
         None \<Rightarrow> Inl (invalidRequest (Wrong_value ''verdict''))
       | Some verdict \<Rightarrow> (case map_of raw ''findings'' of
           Some (JArr findings) \<Rightarrow>
             if BRIEFING_REVIEW_FINDINGS_MAX < length findings
             then Inl (invalidRequest (Too_long ''findings'' BRIEFING_REVIEW_FINDINGS_MAX))
             else attempt (parse_findings 0 findings) (\<lambda>fs.
               Inr \<lparr>rq_repoPath = repoPath, rq_briefingSha256 = sha, rq_jobId = jobId, rq_lens = lens,
                    rq_verdict = verdict, rq_findings = fs\<rparr>)
         | _ \<Rightarrow> Inl (invalidRequest (Wrong_value ''findings''))))))))) "

definition parsePushbackRequest :: "json \<Rightarrow> review_error + pushback_request" where
  "parsePushbackRequest value =
     attempt (record_of value ''the push-back request'') (\<lambda>raw.
     attempt (exactFields raw [''repoPath'', ''briefingSha256'', ''reason'', ''by''] ''the push-back request'') (\<lambda>_.
     attempt (bounded_field raw ''repoPath'' 1 BRIEFING_REVIEW_REPO_PATH_MAX) (\<lambda>repoPath.
     attempt (digest_field raw) (\<lambda>sha.
     attempt (bounded_field raw ''reason'' 1 BRIEFING_REVIEW_PUSHBACK_REASON_MAX) (\<lambda>reason.
     if map_of raw ''by'' \<noteq> Some (JStr ''gru'') then Inl (invalidRequest (Wrong_value ''by''))
     else Inr \<lparr>pq_repoPath = repoPath, pq_briefingSha256 = sha, pq_reason = reason, pq_by = ''gru''\<rparr>)))))"

subsection \<open>Evidence\<close>

definition trim_end :: "string \<Rightarrow> string" where
  "trim_end s = rev (dropWhile js_space (rev s))"

text \<open>The running index and count of blocking findings, as the loop keeps them.\<close>

fun check_findings :: "string \<Rightarrow> nat \<Rightarrow> nat \<Rightarrow> review_finding list \<Rightarrow> review_error + nat" where
  "check_findings trimmed index blocking [] = Inr blocking"
| "check_findings trimmed index blocking (finding # rest) =
     (let evidence = trim_end (fi_evidence finding) in
      if length evidence < BRIEFING_REVIEW_EVIDENCE_MIN \<or> BRIEFING_REVIEW_EVIDENCE_MAX < length evidence
      then Inl (invalidRequest (Evidence_length index))
      else if \<not> sublist evidence trimmed then Inl (invalidRequest (Evidence_foreign index))
      else check_findings trimmed (Suc index)
             (if fi_severity finding = Sev_blocking then Suc blocking else blocking) rest)"

definition assertFindingEvidence ::
  "review_finding list \<Rightarrow> review_verdict \<Rightarrow> string \<Rightarrow> review_error + unit" where
  "assertFindingEvidence findings verdict reviewed =
     attempt (check_findings (js_trim reviewed) 0 0 findings) (\<lambda>blocking.
     if verdict = Ready \<and> 0 < blocking then Inl (invalidRequest Ready_blocked)
     else if verdict = Changes_needed \<and> blocking = 0 then Inl (invalidRequest Changes_unblocked)
     else Inr ())"

text \<open>\<open>canonicalFindings\<close> serializes the findings; two texts are equal exactly when these lists are.\<close>

definition canonicalFindings :: "review_finding list \<Rightarrow> (string \<times> finding_severity \<times> string \<times> string) list" where
  "canonicalFindings = map (\<lambda>f. (fi_code f, fi_severity f, fi_evidence f, fi_whyItBlocks f))"

definition blockingFindings :: "review_finding list \<Rightarrow> nat" where
  "blockingFindings findings = length (filter (\<lambda>f. fi_severity f = Sev_blocking) findings)"

subsection \<open>The markers return the briefing\<close>

lemma find_upt_first:
  assumes "p i" and "i \<le> n" and "\<And>j. j < i \<Longrightarrow> \<not> p j"
  shows "find p [0..<Suc n] = Some i"
proof -
  have "i < length [0..<Suc n]" and "[0..<Suc n] ! i = i" using assms(2) by (simp_all del: upt_Suc)
  moreover have "\<not> p ([0..<Suc n] ! j)" if "j < i" for j
    using that assms(2,3) by (simp del: upt_Suc)
  ultimately show ?thesis unfolding find_Some_iff using assms(1) by (metis)
qed

lemma find_upt_last:
  assumes "p i" and "i \<le> n" and "\<And>j. i < j \<Longrightarrow> j \<le> n \<Longrightarrow> \<not> p j"
  shows "find p (rev [0..<Suc n]) = Some i"
proof -
  have "n - i < length (rev [0..<Suc n])" and "rev [0..<Suc n] ! (n - i) = i"
    using assms(2) by (simp_all add: rev_nth del: upt_Suc)
  moreover have "\<not> p (rev [0..<Suc n] ! j)" if "j < n - i" for j
    using that assms(2,3) by (simp add: rev_nth del: upt_Suc)
  ultimately show ?thesis unfolding find_Some_iff using assms(1) by metis
qed

lemma strip_newlines: "strip_last_newline (strip_first_newline ([newline] @ b @ [newline])) = b"
  by (simp add: strip_first_newline_def strip_last_newline_def)

text \<open>An occurrence that starts inside \<open>a\<close> starts with a character of \<open>a\<close>.\<close>

lemma starts_with_head:
  assumes "starts_with (c # p) (drop j (a @ b))" and "j < length a"
  shows "c \<in> set a"
proof -
  from assms(1) have "hd (drop j (a @ b)) = c" by (auto simp: starts_with_iff)
  moreover have "hd (drop j (a @ b)) = a ! j" using assms(2) by (simp add: hd_drop_conv_nth nth_append)
  ultimately show ?thesis using assms(2) by (metis nth_mem)
qed

lemma open_marker_Cons: "open_marker i = CHR ''<'' # tl (open_marker i)"
  by (simp add: open_marker_def)

lemma close_marker_later:
  assumes "CHR ''<'' \<notin> set reviewId" and "\<not> sublist (close_marker reviewId) post" and "0 < k"
  shows "\<not> starts_with (close_marker reviewId) (drop k (close_marker reviewId @ post))"
proof
  define rest where "rest = ''END NEFARIO-BRIEFING '' @ reviewId @ ''>>>>''"
  have close: "close_marker reviewId = CHR ''<'' # CHR ''<'' # CHR ''<'' # rest"
    by (simp add: close_marker_def rest_def)
  have plain: "CHR ''<'' \<notin> set rest" using assms(1) by (simp add: rest_def)
  have E: "rest = CHR ''E'' # tl rest" by (simp add: rest_def)
  assume start: "starts_with (close_marker reviewId) (drop k (close_marker reviewId @ post))"
  consider "k = 1" | "k = 2" | m where "k = 3 + m" "m < length rest" | m where "k = 3 + (length rest + m)"
    using assms(3) by (metis One_nat_def Suc_1 add.commute add_diff_inverse_nat less_Suc_eq less_one
        numeral_3_eq_3 not_less_eq)
  then show False
  proof cases
    case 1
    with start show False unfolding close by (subst (asm) (2) E) (simp add: starts_with_def)
  next
    case 2
    with start show False unfolding close by (subst (asm) (2) E) (simp add: starts_with_def)
  next
    case (3 m)
    then have "starts_with (CHR ''<'' # CHR ''<'' # CHR ''<'' # rest) (drop m (rest @ post))"
      using start unfolding close by (simp add: eval_nat_numeral)
    from starts_with_head [OF this 3(2)] plain show False by contradiction
  next
    case (4 m)
    then have "starts_with (close_marker reviewId) (drop m post)"
      using start unfolding close by (simp add: eval_nat_numeral)
    then show False using assms(2)
      by (metis append_take_drop_id starts_with_iff sublist_appendI)
  qed
qed

lemma reviewed_between:
  assumes "CHR ''<'' \<notin> set pre" and "CHR ''<'' \<notin> set reviewId" and "\<not> sublist (close_marker reviewId) post"
  shows "reviewedBriefing (Some (pre @ markedBriefing briefing reviewId @ post)) reviewId = Some briefing"
proof -
  define a where "a = pre @ open_marker reviewId @ [newline] @ briefing @ [newline]"
  define s where "s = pre @ markedBriefing briefing reviewId @ post"
  have s1: "s = pre @ open_marker reviewId @ ([newline] @ briefing @ [newline]) @ close_marker reviewId @ post"
    and s2: "s = a @ close_marker reviewId @ post"
    by (simp_all add: s_def a_def markedBriefing_def)
  have "js_indexOf s (open_marker reviewId) = Some (length pre)"
    unfolding js_indexOf_def
  proof (rule find_upt_first)
    show "starts_with (open_marker reviewId) (drop (length pre) s)" by (simp add: s1)
    show "length pre \<le> length s" by (simp add: s1)
    show "\<not> starts_with (open_marker reviewId) (drop j s)" if "j < length pre" for j
      using starts_with_head [of "CHR ''<''" "tl (open_marker reviewId)" j pre, OF _ that] assms(1)
      unfolding open_marker_Cons [symmetric] s1 by blast
  qed
  moreover have "js_lastIndexOf s (close_marker reviewId) = Some (length a)"
    unfolding js_lastIndexOf_def
  proof (rule find_upt_last)
    show "starts_with (close_marker reviewId) (drop (length a) s)" by (simp add: s2)
    show "length a \<le> length s" by (simp add: s2)
    show "\<not> starts_with (close_marker reviewId) (drop j s)" if "length a < j" for j
      using close_marker_later [OF assms(2,3), of "j - length a"] that by (simp add: s2)
  qed
  moreover have "length pre < length a" by (simp add: a_def)
  moreover have "take (length a) s = a" by (simp add: s2)
  moreover have "drop (length pre + length (open_marker reviewId)) a = [newline] @ briefing @ [newline]"
    by (simp add: a_def)
  ultimately show ?thesis
    unfolding reviewedBriefing_def s_def [symmetric]
    by (simp del: append.simps add: strip_newlines)
qed

subsection \<open>What the parser of a result accepts\<close>

definition bounded_text :: "nat \<Rightarrow> nat \<Rightarrow> string \<Rightarrow> bool" where
  "bounded_text lo hi s \<longleftrightarrow> lo \<le> length (js_trim s) \<and> length s \<le> hi"

definition finding_ok :: "review_finding \<Rightarrow> bool" where
  "finding_ok f \<longleftrightarrow> 1 \<le> length (fi_code f) \<and> length (fi_code f) \<le> BRIEFING_REVIEW_CODE_MAX
     \<and> finding_code_text (fi_code f)
     \<and> \<not> js_blank (fi_whyItBlocks f) \<and> length (fi_whyItBlocks f) \<le> BRIEFING_REVIEW_WHY_MAX"

definition result_ok :: "result_request \<Rightarrow> bool" where
  "result_ok r \<longleftrightarrow> bounded_text 1 BRIEFING_REVIEW_REPO_PATH_MAX (rq_repoPath r)
     \<and> sha256_hex (rq_briefingSha256 r) \<and> bounded_text 1 128 (rq_jobId r)
     \<and> length (rq_findings r) \<le> BRIEFING_REVIEW_FINDINGS_MAX \<and> list_all finding_ok (rq_findings r)"

text \<open>The wire shapes, as the lens briefing prints them for its reviewer.\<close>

definition finding_json :: "review_finding \<Rightarrow> json" where
  "finding_json f = JObj [(''code'', JStr (fi_code f)), (''severity'', JStr (severity_name (fi_severity f))),
     (''evidence'', JStr (fi_evidence f)), (''why_it_blocks'', JStr (fi_whyItBlocks f))]"

definition result_json :: "result_request \<Rightarrow> json" where
  "result_json r = JObj [(''repoPath'', JStr (rq_repoPath r)), (''briefingSha256'', JStr (rq_briefingSha256 r)),
     (''jobId'', JStr (rq_jobId r)), (''lens'', JStr (lens_name (rq_lens r))),
     (''verdict'', JStr (verdict_name (rq_verdict r))), (''findings'', JArr (map finding_json (rq_findings r)))]"

named_theorems review_parse \<open>inversion of the request parsers\<close>

lemma bounded_field_Inr [review_parse]:
  "bounded_field raw field lo hi = Inr s \<longleftrightarrow> map_of raw field = Some (JStr s) \<and> bounded_text lo hi s"
  by (auto simp: bounded_field_def bounded_text_def split: option.splits json.splits if_splits)

lemma digest_field_Inr [review_parse]:
  "digest_field raw = Inr s \<longleftrightarrow> map_of raw ''briefingSha256'' = Some (JStr s) \<and> sha256_hex s"
  by (auto simp: digest_field_def split: option.splits json.splits if_splits)

lemma exactFields_Inr [review_parse]:
  "exactFields raw allowed what = Inr u \<longleftrightarrow> fst ` set raw \<subseteq> set allowed"
  by (auto simp: exactFields_def find_None_iff split: option.splits)
     (metis (no_types, lifting) find_None_iff imageI image_set option.distinct(1) subsetD)

lemma record_of_Inr [review_parse]: "record_of v what = Inr fs \<longleftrightarrow> v = JObj fs"
  by (cases v) (auto simp: record_of_def)

lemma lens_of_name: "isBriefingReviewLens (Some (JStr (lens_name l))) = Some l"
  by (cases l) (simp_all add: isBriefingReviewLens_def named_def BRIEFING_REVIEW_LENSES_def)

lemma verdict_of_name: "isBriefingReviewVerdict (Some (JStr (verdict_name v))) = Some v"
  by (cases v) (simp_all add: isBriefingReviewVerdict_def named_def BRIEFING_REVIEW_VERDICTS_def)

lemma tier_of_name: "isBriefingReviewTier (Some (JStr (tier_name t))) = Some t"
  by (cases t) (simp_all add: isBriefingReviewTier_def named_def BRIEFING_REVIEW_TIERS_def)

lemma severity_of_name: "named severity_name [Sev_blocking, Sev_advisory] (Some (JStr (severity_name s))) = Some s"
  by (cases s) (simp_all add: named_def)

lemma named_Some:
  assumes "inj name" and "y \<in> set vs"
  shows "named name vs x = Some y \<longleftrightarrow> x = Some (JStr (name y))"
proof
  assume "named name vs x = Some y"
  then show "x = Some (JStr (name y))" by (auto simp: named_def find_Some_iff split: option.split_asm json.split_asm)
next
  have "find (\<lambda>z. name z = name y) vs = find (\<lambda>z. z = y) vs" using assms(1) by (simp add: inj_eq)
  also have "\<dots> = Some y" using assms(2) by (induction vs) auto
  finally show "x = Some (JStr (name y)) \<Longrightarrow> named name vs x = Some y" by (simp add: named_def)
qed

lemma tier_Some [review_parse]: "isBriefingReviewTier x = Some t \<longleftrightarrow> x = Some (JStr (tier_name t))"
proof -
  have "inj tier_name" by (rule injI, rename_tac a b) (case_tac a; case_tac b; simp)
  then show ?thesis unfolding isBriefingReviewTier_def
    by (rule named_Some) (cases t; simp add: BRIEFING_REVIEW_TIERS_def)
qed

lemma lens_Some [review_parse]: "isBriefingReviewLens x = Some l \<longleftrightarrow> x = Some (JStr (lens_name l))"
proof -
  have "inj lens_name" by (rule injI, rename_tac a b) (case_tac a; case_tac b; simp)
  then show ?thesis unfolding isBriefingReviewLens_def
    by (rule named_Some) (cases l; simp add: BRIEFING_REVIEW_LENSES_def)
qed

lemma verdict_Some [review_parse]: "isBriefingReviewVerdict x = Some v \<longleftrightarrow> x = Some (JStr (verdict_name v))"
proof -
  have "inj verdict_name" by (rule injI, rename_tac a b) (case_tac a; case_tac b; simp)
  then show ?thesis unfolding isBriefingReviewVerdict_def
    by (rule named_Some) (cases v; simp add: BRIEFING_REVIEW_VERDICTS_def)
qed

lemma severity_Some [review_parse]:
  "named severity_name [Sev_blocking, Sev_advisory] x = Some v \<longleftrightarrow> x = Some (JStr (severity_name v))"
proof -
  have "inj severity_name" by (rule injI, rename_tac a b) (case_tac a; case_tac b; simp)
  then show ?thesis by (rule named_Some) (cases v; simp)
qed

text \<open>A field that must narrow to a value, and a field that must be a string or a list.\<close>

lemma case_option_Inr: "(case x of None \<Rightarrow> Inl e | Some y \<Rightarrow> f y) = Inr r \<longleftrightarrow> (\<exists>y. x = Some y \<and> f y = Inr r)"
  by (cases x) auto

lemma case_string_Inr: "(case x of JStr s \<Rightarrow> f s | _ \<Rightarrow> Inl e) = Inr r \<longleftrightarrow> (\<exists>s. x = JStr s \<and> f s = Inr r)"
  by (cases x) auto

lemma case_array_Inr: "(case x of JArr vs \<Rightarrow> f vs | _ \<Rightarrow> Inl e) = Inr r \<longleftrightarrow> (\<exists>vs. x = JArr vs \<and> f vs = Inr r)"
  by (cases x) auto

lemma if_Inl_Inr: "(if P then Inl e else y) = Inr r \<longleftrightarrow> \<not> P \<and> y = Inr r"
  by simp

lemmas review_inversion = attempt_Inr_iff review_parse case_option_Inr case_string_Inr case_array_Inr if_Inl_Inr

text \<open>The JSON the parsers take: an object with no field but the listed ones, each of them there with the value.\<close>

definition wire_object :: "json \<Rightarrow> (string \<times> json) list \<Rightarrow> bool" where
  "wire_object v shape \<longleftrightarrow> (\<exists>raw. v = JObj raw \<and> fst ` set raw \<subseteq> fst ` set shape
     \<and> (\<forall>k x. (k, x) \<in> set shape \<longrightarrow> map_of raw k = Some x))"

definition finding_wire :: "json \<Rightarrow> review_finding \<Rightarrow> bool" where
  "finding_wire v f \<longleftrightarrow> wire_object v [(''code'', JStr (fi_code f)), (''severity'', JStr (severity_name (fi_severity f))),
     (''evidence'', JStr (fi_evidence f)), (''why_it_blocks'', JStr (fi_whyItBlocks f))]"

definition result_wire :: "json \<Rightarrow> result_request \<Rightarrow> bool" where
  "result_wire v r \<longleftrightarrow> (\<exists>fs. list_all2 finding_wire fs (rq_findings r) \<and> wire_object v
     [(''repoPath'', JStr (rq_repoPath r)), (''briefingSha256'', JStr (rq_briefingSha256 r)), (''jobId'', JStr (rq_jobId r)),
      (''lens'', JStr (lens_name (rq_lens r))), (''verdict'', JStr (verdict_name (rq_verdict r))), (''findings'', JArr fs)])"

definition commission_wire :: "json \<Rightarrow> commission_request \<Rightarrow> bool" where
  "commission_wire v q \<longleftrightarrow> wire_object v [(''repoPath'', JStr (cq_repoPath q)), (''title'', JStr (cq_title q)),
     (''briefing'', JStr (cq_briefing q)), (''tier'', JStr (tier_name (cq_tier q))), (''justification'', JStr (cq_justification q))]"

definition commission_ok :: "commission_request \<Rightarrow> bool" where
  "commission_ok q \<longleftrightarrow> bounded_text 1 BRIEFING_REVIEW_REPO_PATH_MAX (cq_repoPath q)
     \<and> bounded_text 1 BRIEFING_REVIEW_TITLE_MAX (cq_title q)
     \<and> bounded_text 1 BRIEFING_REVIEW_JUSTIFICATION_MAX (cq_justification q)
     \<and> \<not> js_blank (cq_briefing q) \<and> byteLength (cq_briefing q) \<le> BRIEFING_REVIEW_MAX_BRIEFING_BYTES"

definition pushback_wire :: "json \<Rightarrow> pushback_request \<Rightarrow> bool" where
  "pushback_wire v q \<longleftrightarrow> wire_object v [(''repoPath'', JStr (pq_repoPath q)), (''briefingSha256'', JStr (pq_briefingSha256 q)),
     (''reason'', JStr (pq_reason q)), (''by'', JStr (pq_by q))]"

definition pushback_ok :: "pushback_request \<Rightarrow> bool" where
  "pushback_ok q \<longleftrightarrow> bounded_text 1 BRIEFING_REVIEW_REPO_PATH_MAX (pq_repoPath q) \<and> sha256_hex (pq_briefingSha256 q)
     \<and> bounded_text 1 BRIEFING_REVIEW_PUSHBACK_REASON_MAX (pq_reason q) \<and> pq_by q = ''gru''"

lemma wire_shape: "distinct (map fst shape) \<Longrightarrow> wire_object (JObj shape) shape"
  by (auto simp: wire_object_def)

lemma parseFinding_Inr: "parseFinding v i = Inr f \<longleftrightarrow> finding_wire v f \<and> finding_ok f"
  by (cases f) (auto simp: parseFinding_def review_inversion finding_wire_def wire_object_def finding_ok_def Suc_le_eq not_less)

lemma parse_findings_Inr: "parse_findings i vs = Inr fs \<longleftrightarrow> list_all2 finding_wire vs fs \<and> list_all finding_ok fs"
  by (induction vs arbitrary: i fs) (auto simp: attempt_Inr_iff parseFinding_Inr list_all2_Cons1)

lemma parseResultRequest_Inr: "parseResultRequest v = Inr r \<longleftrightarrow> result_wire v r \<and> result_ok r"
  by (cases r, auto simp: parseResultRequest_def review_inversion parse_findings_Inr result_wire_def wire_object_def
      result_ok_def not_less) (metis list_all2_lengthD)+

lemma parseCommissionRequest_Inr: "parseCommissionRequest v = Inr q \<longleftrightarrow> commission_wire v q \<and> commission_ok q"
  by (cases q) (auto simp: parseCommissionRequest_def review_inversion commission_wire_def wire_object_def
      commission_ok_def not_less)

lemma parsePushbackRequest_Inr: "parsePushbackRequest v = Inr q \<longleftrightarrow> pushback_wire v q \<and> pushback_ok q"
  by (cases q) (auto simp: parsePushbackRequest_def review_inversion pushback_wire_def wire_object_def pushback_ok_def)

lemma finding_json_wire: "finding_wire (finding_json f) f"
  unfolding finding_wire_def finding_json_def by (rule wire_shape) simp

lemma result_json_wire: "result_wire (result_json r) r"
proof -
  have "list_all2 finding_wire (map finding_json fs) fs" for fs
    by (induction fs) (simp_all add: finding_json_wire)
  moreover have "wire_object (result_json r) [(''repoPath'', JStr (rq_repoPath r)), (''briefingSha256'', JStr (rq_briefingSha256 r)),
      (''jobId'', JStr (rq_jobId r)), (''lens'', JStr (lens_name (rq_lens r))), (''verdict'', JStr (verdict_name (rq_verdict r))),
      (''findings'', JArr (map finding_json (rq_findings r)))]"
    unfolding result_json_def by (rule wire_shape) simp
  ultimately show ?thesis unfolding result_wire_def by blast
qed

lemma parseResultRequest_ok: "parseResultRequest v = Inr r \<Longrightarrow> result_ok r"
  by (simp add: parseResultRequest_Inr)

lemma parseResultRequest_encode: "result_ok r \<Longrightarrow> parseResultRequest (result_json r) = Inr r"
  by (simp add: parseResultRequest_Inr result_json_wire)

text \<open>C40. The three request parsers accept exactly the strict wire shape. A JSON value yields a lens result, a
  commission or a push-back if and only if it is an object with no field beyond the listed ones, with every field
  there as the value of the request (enumerations by their exact names, every finding an object of exactly its own
  fields), and the request is within its bounds; a field left out or added is refused. And every lens result within
  the bounds comes back unchanged from the JSON that prints it.\<close>

theorem request_types:
  "(parseResultRequest v = Inr r \<longleftrightarrow> result_wire v r \<and> result_ok r)
   \<and> (parseCommissionRequest v = Inr q \<longleftrightarrow> commission_wire v q \<and> commission_ok q)
   \<and> (parsePushbackRequest v = Inr b \<longleftrightarrow> pushback_wire v b \<and> pushback_ok b)
   \<and> (if result_ok r then parseResultRequest (result_json r) = Inr r else (\<forall>v. parseResultRequest v \<noteq> Inr r))"
  by (simp add: parseResultRequest_Inr parseCommissionRequest_Inr parsePushbackRequest_Inr result_json_wire)

text \<open>A result as a lens sends it is accepted; with a field more, or without its verdict, none is.\<close>

definition sample_finding :: review_finding where
  "sample_finding = \<lparr>fi_code = ''scope.gap'', fi_severity = Sev_blocking, fi_evidence = ''the quoted text'', fi_whyItBlocks = ''unclear''\<rparr>"

definition sample_result :: result_request where
  "sample_result = \<lparr>rq_repoPath = ''/repo'', rq_briefingSha256 = replicate 64 CHR ''a'', rq_jobId = ''j-1'',
     rq_lens = Lens_scope, rq_verdict = Changes_needed, rq_findings = [sample_finding]\<rparr>"

theorem request_types_witness:
  "parseResultRequest (result_json sample_result) = Inr sample_result
   \<and> (\<forall>r x. parseResultRequest (JObj [(''repoPath'', JStr ''/repo''), (''note'', x)]) \<noteq> Inr r)
   \<and> (\<forall>r. parseResultRequest (JObj [(''repoPath'', JStr ''/repo''), (''findings'', JArr [])]) \<noteq> Inr r)"
proof -
  have "result_ok sample_result" by code_simp
  then have "parseResultRequest (result_json sample_result) = Inr sample_result"
    using request_types [of "result_json sample_result" sample_result] by simp
  moreover have "parseResultRequest (JObj [(''repoPath'', JStr ''/repo''), (''note'', x)]) \<noteq> Inr r" for r x
    using request_types [of "JObj [(''repoPath'', JStr ''/repo''), (''note'', x)]" r] by (auto simp: result_wire_def wire_object_def)
  moreover have "parseResultRequest (JObj [(''repoPath'', JStr ''/repo''), (''findings'', JArr [])]) \<noteq> Inr r" for r
    using request_types [of "JObj [(''repoPath'', JStr ''/repo''), (''findings'', JArr [])]" r]
    by (auto simp: result_wire_def wire_object_def)
  ultimately show ?thesis by blast
qed

subsection \<open>What an accepted result says of its findings\<close>

definition evidence_ok :: "string \<Rightarrow> review_finding \<Rightarrow> bool" where
  "evidence_ok reviewed f \<longleftrightarrow> BRIEFING_REVIEW_EVIDENCE_MIN \<le> length (trim_end (fi_evidence f))
     \<and> length (trim_end (fi_evidence f)) \<le> BRIEFING_REVIEW_EVIDENCE_MAX
     \<and> sublist (trim_end (fi_evidence f)) (js_trim reviewed)"

lemma check_findings_iff:
  "check_findings (js_trim reviewed) i n fs = Inr m \<longleftrightarrow>
     list_all (evidence_ok reviewed) fs \<and> m = n + blockingFindings fs"
proof (induction fs arbitrary: i n)
  case Nil
  then show ?case by (auto simp: blockingFindings_def)
next
  case (Cons f fs)
  then show ?case by (auto simp: Let_def evidence_ok_def blockingFindings_def)
qed

text \<open>A result passes the evidence check exactly when every finding quotes the reviewed briefing within the
  bounds and the verdict is READY exactly when no finding blocks.\<close>

lemma evidence_iff:
  "assertFindingEvidence fs verdict reviewed = Inr () \<longleftrightarrow>
     list_all (evidence_ok reviewed) fs \<and> (verdict = Ready \<longleftrightarrow> blockingFindings fs = 0)"
  by (cases verdict) (auto simp: assertFindingEvidence_def attempt_Inr_iff check_findings_iff)

end
