(* ===== verification/Briefing_Events.thy ===== *)
theory Briefing_Events
  imports Ledger Briefing_Types
begin

text \<open>
  The durable facts of the briefing review, \<^verbatim>\<open>src/src/briefing-review/events.ts\<close>: the event kinds, the readers of
  their payloads, and what is derived from them (the armed generations of a review, the chain of a heist, lens
  verdicts, the decisive verdict, the blocking findings a revision caught, the trailing rounds that asked for
  changes), over the bounded event query \<open>listEventsAfter\<close> of \<^verbatim>\<open>src/src/ledger/api.ts\<close>.

  The round trips \<open>readArmed_written\<close>, \<open>readVerdict_written\<close> and \<open>readPushback_written\<close> show that a fact the service
  writes is read back unchanged.
\<close>

subsection \<open>The bounded event query\<close>

text \<open>\<open>(key, equals, notEquals)\<close>; a payload field is compared as the text SQLite extracts from a string.\<close>

type_synonym payload_filter = "string \<times> string option \<times> string option"

record event_query =
  ev_limit :: "nat option"
  ev_desc :: bool
  ev_kinds :: "string list"
  ev_payload :: "payload_filter option"

definition plain_field :: "string \<Rightarrow> bool" where
  "plain_field s = (case s of
     [] \<Rightarrow> False
   | c # cs \<Rightarrow> (CHR ''A'' \<le> c \<and> c \<le> CHR ''Z'' \<or> CHR ''a'' \<le> c \<and> c \<le> CHR ''z'' \<or> c = CHR ''_'')
       \<and> list_all (\<lambda>d. CHR ''A'' \<le> d \<and> d \<le> CHR ''Z'' \<or> CHR ''a'' \<le> d \<and> d \<le> CHR ''z'' \<or> d = CHR ''_''
            \<or> CHR ''0'' \<le> d \<and> d \<le> CHR ''9'') cs)"

fun filter_ok :: "payload_filter \<Rightarrow> bool" where
  "filter_ok (key, equals, notEquals) \<longleftrightarrow> plain_field key \<and> (equals = None) \<noteq> (notEquals = None)"

fun payload_matches :: "payload_filter \<Rightarrow> json \<Rightarrow> bool" where
  "payload_matches (key, Some v, _) p \<longleftrightarrow> payload_get p key = Some (JStr v)"
| "payload_matches (key, None, Some v) p \<longleftrightarrow> payload_get p key \<noteq> Some (JStr v)"
| "payload_matches (key, None, None) p \<longleftrightarrow> True"

definition event_selected :: "nat \<Rightarrow> event_query \<Rightarrow> event \<Rightarrow> bool" where
  "event_selected seq q e \<longleftrightarrow> seq < er_seq e \<and> (ev_kinds q = [] \<or> er_kind e \<in> set (ev_kinds q))
     \<and> (case ev_payload q of None \<Rightarrow> True | Some f \<Rightarrow> payload_matches f (er_payload e))"

definition listEventsAfter :: "ledger \<Rightarrow> nat \<Rightarrow> event_query \<Rightarrow> ledger_error + event list" where
  "listEventsAfter L seq q =
     (if (case ev_payload q of None \<Rightarrow> False | Some f \<Rightarrow> \<not> filter_ok f) then Inl (Bad_input ''payload filter'')
      else Inr (take (or_else (ev_limit q) 100)
        (filter (event_selected seq q) (if ev_desc q then rev (lg_events L) else lg_events L))))"

text \<open>The call every reader makes: one kind, one payload field equal to a value, from the start of the log.\<close>

definition kind_events :: "ledger \<Rightarrow> string \<Rightarrow> bool \<Rightarrow> nat \<Rightarrow> string \<Rightarrow> string \<Rightarrow> event list" where
  "kind_events L kind desc limit key v =
     (case listEventsAfter L 0 \<lparr>ev_limit = Some limit, ev_desc = desc, ev_kinds = [kind],
        ev_payload = Some (key, Some v, None)\<rparr> of
        Inl _ \<Rightarrow> [] | Inr es \<Rightarrow> es)"

subsection \<open>Records\<close>

text \<open>A fact as it is written, and as it is read: extended by the sequence number and time the ledger stamped on it.\<close>

definition BRIEFING_REVIEW_ARMED :: string where "BRIEFING_REVIEW_ARMED = ''briefing.review-armed''"
definition BRIEFING_REVIEW_VERDICT :: string where "BRIEFING_REVIEW_VERDICT = ''briefing.review-verdict''"
definition BRIEFING_REVIEW_REFUSED :: string where "BRIEFING_REVIEW_REFUSED = ''briefing.review-refused''"
definition BRIEFING_REVIEW_PUSHBACK :: string where "BRIEFING_REVIEW_PUSHBACK = ''briefing.review-pushback''"
definition BRIEFING_REVIEW_OBLIGATION_ACTION :: string where
  "BRIEFING_REVIEW_OBLIGATION_ACTION = ''Nefario lens result accepted''"
definition BRIEFING_REVIEW_READ_LIMIT :: nat where "BRIEFING_REVIEW_READ_LIMIT = 5001"

datatype refusal_reason = Missing_review | Pending_review | Changes_review

fun refusal_reason_name :: "refusal_reason \<Rightarrow> string" where
  "refusal_reason_name Missing_review = ''missing''"
| "refusal_reason_name Pending_review = ''pending''"
| "refusal_reason_name Changes_review = ''changes-needed''"

record armed_input =
  ar_reviewId :: string
  ar_commissionKey :: string
  ar_chainKey :: string
  ar_briefingSha256 :: string
  ar_repoPath :: string
  ar_title :: string
  ar_tier :: review_tier
  ar_justification :: string
  ar_round :: nat
  ar_generation :: nat
  ar_lenses :: "review_lens list"
  ar_headSha :: "string option"
  ar_upgradedFrom :: "nat option"

record armed_review = armed_input +
  ar_seq :: nat
  ar_ts :: string

record verdict_input =
  lv_reviewId :: string
  lv_chainKey :: string
  lv_briefingSha256 :: string
  lv_lens :: review_lens
  lv_verdict :: review_verdict
  lv_findings :: "review_finding list"
  lv_round :: nat
  lv_generation :: nat
  lv_decisive :: bool
  lv_aggregate :: "review_verdict option"
  lv_caught :: nat

record lens_verdict = verdict_input +
  lv_seq :: nat
  lv_ts :: string

record refusal_event =
  rf_repoPath :: string
  rf_title :: string
  rf_briefingSha256 :: string
  rf_jobId :: string
  rf_tier :: review_tier
  rf_reason :: refusal_reason
  rf_seq :: nat
  rf_ts :: string

record pushback_input =
  pb_reviewId :: string
  pb_briefingSha256 :: string
  pb_generation :: nat
  pb_reason :: string
  pb_by :: string

record pushback_event = pushback_input +
  pb_seq :: nat
  pb_ts :: string

subsection \<open>Readers\<close>

text \<open>\<open>text\<close> is \<^const>\<open>payload_str\<close>; \<open>count\<close> reads a safe non-negative integer.\<close>

definition count_of :: "json option \<Rightarrow> nat option" where
  "count_of v = (case v of Some (JNum r) \<Rightarrow> if js_safe_int r \<and> 0 \<le> r then Some (nat \<lfloor>r\<rfloor>) else None | _ \<Rightarrow> None)"

definition any_str :: "json option \<Rightarrow> string option" where
  "any_str v = (case v of Some (JStr s) \<Rightarrow> Some s | _ \<Rightarrow> None)"

definition findingOf :: "json \<Rightarrow> review_finding option" where
  "findingOf value = (case value of
     JObj raw \<Rightarrow>
       (case (payload_str value ''code'', any_str (map_of raw ''evidence''), any_str (map_of raw ''why_it_blocks''),
              named severity_name [Sev_blocking, Sev_advisory] (map_of raw ''severity'')) of
          (Some code, Some evidence, Some why, Some severity) \<Rightarrow>
            Some \<lparr>fi_code = code, fi_severity = severity, fi_evidence = evidence, fi_whyItBlocks = why\<rparr>
        | _ \<Rightarrow> None)
   | _ \<Rightarrow> None)"

text \<open>\<open>xs.map(f)\<close>, then null as soon as one is null.\<close>

fun all_some :: "'a option list \<Rightarrow> 'a list option" where
  "all_some [] = Some []"
| "all_some (None # xs) = None"
| "all_some (Some x # xs) = map_option ((#) x) (all_some xs)"

definition absent_or_null :: "json option \<Rightarrow> bool" where
  "absent_or_null v \<longleftrightarrow> v = None \<or> v = Some JNull"

definition readArmed :: "event \<Rightarrow> armed_review option" where
  "readArmed e = (let p = er_payload e in
     case (payload_str p ''review_id'', payload_str p ''commission_key'', payload_str p ''chain_key'',
           payload_str p ''briefing_sha_256'', payload_str p ''repo_path'', payload_str p ''title'',
           any_str (payload_get p ''justification''), isBriefingReviewTier (payload_get p ''tier''),
           count_of (payload_get p ''round''), count_of (payload_get p ''generation''), payload_get p ''lenses'') of
       (Some reviewId, Some commissionKey, Some chainKey, Some sha, Some repoPath, Some title, Some justification,
        Some tier, Some round_no, Some generation, Some (JArr lenses)) \<Rightarrow>
         (case all_some (map (\<lambda>l. isBriefingReviewLens (Some l)) lenses) of
            None \<Rightarrow> None
          | Some armed \<Rightarrow>
              if armed = [] then None
              else if \<not> absent_or_null (payload_get p ''head_sha'') \<and> any_str (payload_get p ''head_sha'') = None then None
              else if \<not> absent_or_null (payload_get p ''upgraded_from'') \<and> count_of (payload_get p ''upgraded_from'') = None then None
              else Some \<lparr>ar_reviewId = reviewId, ar_commissionKey = commissionKey, ar_chainKey = chainKey,
                ar_briefingSha256 = sha, ar_repoPath = repoPath, ar_title = title, ar_tier = tier,
                ar_justification = justification, ar_round = round_no, ar_generation = generation,
                ar_lenses = filter (\<lambda>l. l \<in> set armed) BRIEFING_REVIEW_LENSES,
                ar_headSha = any_str (payload_get p ''head_sha''), ar_upgradedFrom = count_of (payload_get p ''upgraded_from''),
                ar_seq = er_seq e, ar_ts = er_ts e\<rparr>)
     | _ \<Rightarrow> None)"

definition readVerdict :: "event \<Rightarrow> lens_verdict option" where
  "readVerdict e = (let p = er_payload e; aggregate = payload_get p ''aggregate'' in
     case (payload_str p ''review_id'', payload_str p ''chain_key'', payload_str p ''briefing_sha_256'',
           isBriefingReviewLens (payload_get p ''lens''), isBriefingReviewVerdict (payload_get p ''lens_verdict''),
           count_of (payload_get p ''round''), count_of (payload_get p ''generation''),
           payload_get p ''findings'', payload_get p ''decisive'') of
       (Some reviewId, Some chainKey, Some sha, Some lens, Some verdict, Some round_no, Some generation,
        Some (JArr findings), Some (JBool decisive)) \<Rightarrow>
         (case all_some (map findingOf findings) of
            None \<Rightarrow> None
          | Some parsed \<Rightarrow>
              if \<not> absent_or_null aggregate \<and> isBriefingReviewVerdict aggregate = None then None
              else if decisive \<and> aggregate = None then None
              else Some \<lparr>lv_reviewId = reviewId, lv_chainKey = chainKey, lv_briefingSha256 = sha, lv_lens = lens,
                lv_verdict = verdict, lv_findings = parsed, lv_round = round_no, lv_generation = generation,
                lv_decisive = decisive, lv_aggregate = isBriefingReviewVerdict aggregate,
                lv_caught = or_else (count_of (payload_get p ''caught'')) 0, lv_seq = er_seq e, lv_ts = er_ts e\<rparr>)
     | _ \<Rightarrow> None)"

definition readRefusal :: "event \<Rightarrow> refusal_event option" where
  "readRefusal e = (let p = er_payload e in
     case (payload_str p ''repo_path'', payload_str p ''title'', payload_str p ''briefing_sha_256'',
           payload_str p ''job_id'', isBriefingReviewTier (payload_get p ''tier''),
           named refusal_reason_name [Missing_review, Pending_review, Changes_review] (payload_get p ''reason'')) of
       (Some repoPath, Some title, Some sha, Some jobId, Some tier, Some reason) \<Rightarrow>
         Some \<lparr>rf_repoPath = repoPath, rf_title = title, rf_briefingSha256 = sha, rf_jobId = jobId, rf_tier = tier,
               rf_reason = reason, rf_seq = er_seq e, rf_ts = er_ts e\<rparr>
     | _ \<Rightarrow> None)"

definition readPushback :: "event \<Rightarrow> pushback_event option" where
  "readPushback e = (let p = er_payload e in
     case (payload_str p ''review_id'', payload_str p ''briefing_sha_256'', count_of (payload_get p ''generation''),
           payload_str p ''reason'', payload_str p ''by'') of
       (Some reviewId, Some sha, Some generation, Some reason, Some by') \<Rightarrow>
         Some \<lparr>pb_reviewId = reviewId, pb_briefingSha256 = sha, pb_generation = generation, pb_reason = reason,
               pb_by = by', pb_seq = er_seq e, pb_ts = er_ts e\<rparr>
     | _ \<Rightarrow> None)"

subsection \<open>Derived reads\<close>

definition at_last :: "'a list \<Rightarrow> 'a option" where
  "at_last xs = (if xs = [] then None else Some (last xs))"

text \<open>\<open>[...new Set(xs)]\<close>: the first occurrence of each.\<close>

fun first_seen :: "'a list \<Rightarrow> 'a list" where
  "first_seen [] = []"
| "first_seen (x # xs) = x # filter (\<lambda>y. y \<noteq> x) (first_seen xs)"

definition armedGenerations :: "ledger \<Rightarrow> string \<Rightarrow> armed_review list" where
  "armedGenerations L reviewId =
     List.map_filter readArmed (kind_events L BRIEFING_REVIEW_ARMED False 200 ''review_id'' reviewId)"

definition latestArmed :: "ledger \<Rightarrow> string \<Rightarrow> armed_review option" where
  "latestArmed L reviewId = at_last (armedGenerations L reviewId)"

definition armedChain :: "ledger \<Rightarrow> string \<Rightarrow> armed_review list" where
  "armedChain L chainKey =
     List.map_filter readArmed (kind_events L BRIEFING_REVIEW_ARMED False 500 ''chain_key'' chainKey)"

definition armedByBriefingSha :: "ledger \<Rightarrow> string \<Rightarrow> string \<Rightarrow> armed_review option" where
  "armedByBriefingSha L sha repoPath =
     (case filter (\<lambda>r. ar_repoPath r = repoPath)
        (List.map_filter readArmed (kind_events L BRIEFING_REVIEW_ARMED True 200 ''briefing_sha_256'' sha)) of
        [] \<Rightarrow> None | r # _ \<Rightarrow> Some r)"

definition reviewVerdicts :: "ledger \<Rightarrow> string \<Rightarrow> lens_verdict list" where
  "reviewVerdicts L reviewId =
     List.map_filter readVerdict (kind_events L BRIEFING_REVIEW_VERDICT False 5000 ''review_id'' reviewId)"

definition reviewPushbacks :: "ledger \<Rightarrow> string \<Rightarrow> pushback_event list" where
  "reviewPushbacks L reviewId =
     List.map_filter readPushback (kind_events L BRIEFING_REVIEW_PUSHBACK False 200 ''review_id'' reviewId)"

definition latestLensVerdict :: "lens_verdict list \<Rightarrow> review_lens \<Rightarrow> lens_verdict option" where
  "latestLensVerdict verdicts lens = at_last (filter (\<lambda>v. lv_lens v = lens) verdicts)"

definition decisiveVerdict :: "lens_verdict list \<Rightarrow> nat \<Rightarrow> lens_verdict option" where
  "decisiveVerdict verdicts generation =
     at_last (filter (\<lambda>v. lv_decisive v \<and> lv_generation v = generation) verdicts)"

definition everyLensReady :: "lens_verdict list \<Rightarrow> review_lens list \<Rightarrow> bool" where
  "everyLensReady verdicts lenses \<longleftrightarrow>
     list_all (\<lambda>lens. map_option lv_verdict (latestLensVerdict verdicts lens) = Some Ready) lenses"

definition asked_changes :: "ledger \<Rightarrow> string \<Rightarrow> bool" where
  "asked_changes L reviewId \<longleftrightarrow>
     (case at_last (filter lv_decisive (reviewVerdicts L reviewId)) of
        None \<Rightarrow> False | Some v \<Rightarrow> lv_aggregate v = Some Changes_needed)"

text \<open>The review ids of a chain in the order they were first armed.\<close>

definition chain_order :: "ledger \<Rightarrow> string \<Rightarrow> string list" where
  "chain_order L chainKey = first_seen (map ar_reviewId (armedChain L chainKey))"

definition caught_in :: "lens_verdict list \<Rightarrow> nat" where
  "caught_in verdicts = sum_list (map (\<lambda>lens. case latestLensVerdict verdicts lens of
     None \<Rightarrow> 0 | Some v \<Rightarrow> blockingFindings (lv_findings v)) BRIEFING_REVIEW_LENSES)"

definition caughtByRevision :: "ledger \<Rightarrow> string \<Rightarrow> string \<Rightarrow> nat" where
  "caughtByRevision L chainKey reviewId =
     (let order = chain_order L chainKey; index = length (takeWhile (\<lambda>i. i \<noteq> reviewId) order) in
      if index = 0 \<or> index = length order then 0
      else (let previous = order ! (index - 1) in
        if \<not> asked_changes L previous then 0 else caught_in (reviewVerdicts L previous)))"

definition trailingChangesNeeded :: "ledger \<Rightarrow> string \<Rightarrow> nat" where
  "trailingChangesNeeded L chainKey = length (takeWhile (asked_changes L) (rev (chain_order L chainKey)))"


subsection \<open>Written facts\<close>

definition armed_payload :: "('a armed_input_scheme) \<Rightarrow> json" where
  "armed_payload i = JObj ([(''review_id'', JStr (ar_reviewId i)), (''commission_key'', JStr (ar_commissionKey i)),
     (''chain_key'', JStr (ar_chainKey i)), (''briefing_sha_256'', JStr (ar_briefingSha256 i)),
     (''repo_path'', JStr (ar_repoPath i)), (''title'', JStr (ar_title i)), (''tier'', JStr (tier_name (ar_tier i))),
     (''justification'', JStr (ar_justification i)), (''round'', JNum (of_nat (ar_round i))),
     (''generation'', JNum (of_nat (ar_generation i))),
     (''lenses'', JArr (map (\<lambda>l. JStr (lens_name l)) (ar_lenses i))), (''head_sha'', or_null JStr (ar_headSha i))]
     @ spread_some ''upgraded_from'' (\<lambda>n. JNum (of_nat n)) (ar_upgradedFrom i))"

definition verdict_payload :: "('a verdict_input_scheme) \<Rightarrow> json" where
  "verdict_payload v = JObj [(''review_id'', JStr (lv_reviewId v)), (''chain_key'', JStr (lv_chainKey v)),
     (''briefing_sha_256'', JStr (lv_briefingSha256 v)), (''lens'', JStr (lens_name (lv_lens v))),
     (''lens_verdict'', JStr (verdict_name (lv_verdict v))), (''findings'', JArr (map finding_json (lv_findings v))),
     (''round'', JNum (of_nat (lv_round v))), (''generation'', JNum (of_nat (lv_generation v))),
     (''decisive'', JBool (lv_decisive v)), (''aggregate'', or_null (\<lambda>a. JStr (verdict_name a)) (lv_aggregate v)),
     (''caught'', JNum (of_nat (lv_caught v)))]"

definition pushback_payload :: "('a pushback_input_scheme) \<Rightarrow> json" where
  "pushback_payload b = JObj [(''review_id'', JStr (pb_reviewId b)), (''briefing_sha_256'', JStr (pb_briefingSha256 b)),
     (''generation'', JNum (of_nat (pb_generation b))), (''reason'', JStr (pb_reason b)), (''by'', JStr (pb_by b))]"

definition safe_count :: "nat \<Rightarrow> bool" where "safe_count n \<longleftrightarrow> n \<le> 9007199254740991"

lemma count_of_nat: "safe_count n \<Longrightarrow> count_of (Some (JNum (of_nat n))) = Some n"
proof -
  assume "safe_count n"
  then have "js_safe_int (of_nat n)"
    using js_safe_int_of_int [of "int n"] by (simp add: safe_count_def)
  then show ?thesis by (simp add: count_of_def)
qed

lemma all_some_map: "(\<And>x. x \<in> set xs \<Longrightarrow> f (g x) = Some x) \<Longrightarrow> all_some (map f (map g xs)) = Some xs"
  by (induction xs) auto

definition canonical_lenses :: "review_lens list \<Rightarrow> bool" where
  "canonical_lenses ls \<longleftrightarrow> filter (\<lambda>l. l \<in> set ls) BRIEFING_REVIEW_LENSES = ls"

definition readable_arm :: "('a armed_input_scheme) \<Rightarrow> bool" where
  "readable_arm i \<longleftrightarrow> ar_reviewId i \<noteq> [] \<and> ar_commissionKey i \<noteq> [] \<and> ar_chainKey i \<noteq> [] \<and> ar_briefingSha256 i \<noteq> []
     \<and> ar_repoPath i \<noteq> [] \<and> ar_title i \<noteq> [] \<and> safe_count (ar_round i) \<and> safe_count (ar_generation i)
     \<and> ar_lenses i \<noteq> [] \<and> canonical_lenses (ar_lenses i)
     \<and> (case ar_upgradedFrom i of None \<Rightarrow> True | Some n \<Rightarrow> safe_count n)"

lemma readArmed_written:
  assumes "readable_arm i" and "er_payload e = armed_payload i"
  shows "readArmed e = Some (armed_input.extend (armed_input.truncate i) (armed_review.fields (er_seq e) (er_ts e)))"
proof -
  have lenses: "all_some (map (\<lambda>l. isBriefingReviewLens (Some l)) (map (\<lambda>l. JStr (lens_name l)) (ar_lenses i)))
      = Some (ar_lenses i)"
    by (rule all_some_map) (rule lens_of_name)
  have [simp]: "map_of (spread_some ''upgraded_from'' (\<lambda>n. JNum (of_nat n)) v) ''head_sha'' = None" for v :: "nat option"
    by (cases v) simp_all
  show ?thesis
    using assms lenses
    by (cases "ar_headSha i"; cases "ar_upgradedFrom i")
       (simp_all add: readArmed_def Let_def armed_payload_def payload_str_def payload_get_def any_str_def tier_of_name
          count_of_nat absent_or_null_def readable_arm_def canonical_lenses_def armed_input.defs armed_review.defs
          count_of_def [of None])
qed

definition readable_verdict :: "('a verdict_input_scheme) \<Rightarrow> bool" where
  "readable_verdict v \<longleftrightarrow> lv_reviewId v \<noteq> [] \<and> lv_chainKey v \<noteq> [] \<and> lv_briefingSha256 v \<noteq> []
     \<and> safe_count (lv_round v) \<and> safe_count (lv_generation v) \<and> safe_count (lv_caught v)
     \<and> list_all (\<lambda>f. fi_code f \<noteq> []) (lv_findings v) \<and> (lv_decisive v = (lv_aggregate v \<noteq> None))"

lemma findingOf_written: "fi_code f \<noteq> [] \<Longrightarrow> findingOf (finding_json f) = Some f"
  by (simp add: findingOf_def finding_json_def payload_str_def payload_get_def any_str_def severity_of_name)

lemma null_verdict: "isBriefingReviewVerdict (Some JNull) = None"
  by (simp add: isBriefingReviewVerdict_def named_def)

lemma readVerdict_written:
  assumes "readable_verdict v" and "er_payload e = verdict_payload v"
  shows "readVerdict e = Some (verdict_input.extend (verdict_input.truncate v) (lens_verdict.fields (er_seq e) (er_ts e)))"
proof -
  have findings: "all_some (map findingOf (map finding_json (lv_findings v))) = Some (lv_findings v)"
    by (rule all_some_map) (use assms(1) in \<open>auto simp: readable_verdict_def list_all_iff findingOf_written\<close>)
  show ?thesis
    using assms findings
    by (cases "lv_aggregate v")
       (simp_all add: readVerdict_def Let_def verdict_payload_def payload_str_def payload_get_def lens_of_name
          verdict_of_name count_of_nat absent_or_null_def readable_verdict_def verdict_input.defs lens_verdict.defs
          or_else_def null_verdict)
qed

lemma readPushback_written:
  assumes "pb_reviewId b \<noteq> []" and "pb_briefingSha256 b \<noteq> []" and "safe_count (pb_generation b)"
    and "pb_reason b \<noteq> []" and "pb_by b \<noteq> []" and "er_payload e = pushback_payload b"
  shows "readPushback e = Some (pushback_input.extend (pushback_input.truncate b) (pushback_event.fields (er_seq e) (er_ts e)))"
  using assms
  by (simp add: readPushback_def Let_def pushback_payload_def payload_str_def payload_get_def count_of_nat
      pushback_input.defs pushback_event.defs)

end
