(* ===== verification/Briefing_Review.thy ===== *)
theory Briefing_Review
  imports Briefing_Events Obligation_Lifecycle
begin

text \<open>
  The briefing review service: the dispatch gate of \<^verbatim>\<open>src/src/briefing-review/gate.ts\<close>, a pure decision over
  records already read, and \<^verbatim>\<open>src/src/briefing-review/service.ts\<close>, which commissions a review, dispatches its
  lens jobs, accepts lens results and push-backs and asks the gate.

  An operation runs on the ledger and returns the ledger it leaves together with its outcome or failure: what it
  wrote before it threw stays written, as in the code. The normal dispatch path, the notification center, the
  verified lens helper and \<^verbatim>\<open>JSON.stringify\<close> are functions of \<open>review_world\<close>; the ledger a dispatch
  returns is the one its wait ends in.
\<close>

subsection \<open>The gate\<close>

record requested_provenance =
  rp_rounds :: nat
  rp_verdict :: review_verdict
  rp_briefingSha256 :: string

record review_provenance =
  pv_reviewId :: string
  pv_briefingSha256 :: string
  pv_round :: nat
  pv_generation :: nat
  pv_verdict :: provenance_verdict
  pv_tier :: review_tier
  pv_pushbackReason :: "string option"

record chain_review =
  ch_reviewId :: string
  ch_tier :: review_tier
  ch_round :: nat
  ch_verdict :: "review_verdict option"
  ch_briefingSha256 :: string

record gate_refusal =
  gr_repoPath :: string
  gr_title :: string
  gr_briefingSha256 :: string
  gr_jobId :: string
  gr_tier :: review_tier
  gr_reason :: refusal_reason

record gate_input =
  gi_stage :: review_stage
  gi_briefing :: string
  gi_repoPath :: string
  gi_title :: string
  gi_jobId :: string
  gi_requested :: "requested_provenance option"
  gi_exact :: "armed_review option"
  gi_exactVerdict :: "review_verdict option"
  gi_exactPushback :: "pushback_event option"
  gi_chain :: "chain_review list"

datatype review_gate_result =
    Gate_admits "review_provenance option"
  | Gate_refuses review_error "gate_refusal option"

definition provenance_of :: "armed_review \<Rightarrow> provenance_verdict \<Rightarrow> string option \<Rightarrow> review_provenance" where
  "provenance_of exact verdict pushbackReason =
     \<lparr>pv_reviewId = ar_reviewId exact, pv_briefingSha256 = ar_briefingSha256 exact, pv_round = ar_round exact,
      pv_generation = ar_generation exact, pv_verdict = verdict, pv_tier = ar_tier exact,
      pv_pushbackReason = pushbackReason\<rparr>"

definition chainAtCap :: "chain_review list \<Rightarrow> bool" where
  "chainAtCap chain \<longleftrightarrow>
     BRIEFING_REVIEW_ROUND_CAP \<le> length (takeWhile (\<lambda>r. ch_verdict r = Some Changes_needed) (rev chain))"

definition chain_tail_of :: "chain_review list \<Rightarrow> chain_review option" where
  "chain_tail_of chain = at_last chain"

definition cap_label :: "chain_review list \<Rightarrow> (nat \<times> string \<times> string) option" where
  "cap_label chain = map_option (\<lambda>r. (ch_round r, ch_reviewId r, ch_briefingSha256 r)) (chain_tail_of chain)"

text \<open>At the cap the text routes to push-back and amendment instead of a re-commission.\<close>

definition capRouting :: "chain_review list \<Rightarrow> review_detail \<Rightarrow> review_detail" where
  "capRouting chain detail = (if chainAtCap chain then Capped detail (cap_label chain) else detail)"

definition refused ::
  "(string \<Rightarrow> string) \<Rightarrow> gate_input \<Rightarrow> review_code \<Rightarrow> nat \<Rightarrow> review_detail \<Rightarrow> refusal_reason option
     \<Rightarrow> review_tier \<Rightarrow> review_gate_result" where
  "refused sha input code status detail reason tier =
     Gate_refuses (Review_error code detail status)
       (map_option (\<lambda>why. \<lparr>gr_repoPath = gi_repoPath input, gr_title = gi_title input,
          gr_briefingSha256 = briefingSha256Of sha (gi_briefing input), gr_jobId = gi_jobId input,
          gr_tier = tier, gr_reason = why\<rparr>) reason)"

definition default_tier :: "gate_input \<Rightarrow> review_tier" where
  "default_tier input = (case gi_exact input of None \<Rightarrow> Tier_high | Some e \<Rightarrow> ar_tier e)"

definition gate_requested ::
  "(string \<Rightarrow> string) \<Rightarrow> gate_input \<Rightarrow> requested_provenance \<Rightarrow> review_gate_result" where
  "gate_requested sha input requested =
     (let dispatchedSha = briefingSha256Of sha (gi_briefing input); tier = default_tier input in
      if gi_exactPushback input \<noteq> None
      then refused sha input Review_invalid_request 400
             (Names ''pushed back'' [case gi_exact input of None \<Rightarrow> [] | Some e \<Rightarrow> ar_reviewId e]) None tier
      else if rp_briefingSha256 requested \<noteq> dispatchedSha
      then refused sha input Review_mismatch 409
             (Mismatch ''briefing_sha256'' (rp_briefingSha256 requested) dispatchedSha) None tier
      else (case gi_exact input of
        None \<Rightarrow> refused sha input Review_unknown 409
            (capRouting (gi_chain input) (Names ''unarmed'' [dispatchedSha, gi_repoPath input])) None tier
      | Some exact \<Rightarrow>
          if rp_rounds requested \<noteq> ar_round exact
          then refused sha input Review_mismatch 409
                 (Mismatch ''rounds'' (nat_str (rp_rounds requested)) (nat_str (ar_round exact))) None tier
          else if gi_exactVerdict input \<noteq> Some (rp_verdict requested)
          then refused sha input Review_pending 409
                 (Mismatch (ar_reviewId exact) (verdict_name (rp_verdict requested))
                    (case gi_exactVerdict input of None \<Rightarrow> ''no verdict yet'' | Some v \<Rightarrow> verdict_name v)) None tier
          else if rp_verdict requested = Changes_needed \<and> tierEnforcedAt (ar_tier exact) (gi_stage input)
          then refused sha input Review_not_ready 409
                 (capRouting (gi_chain input)
                    (Holds (ar_reviewId exact) (Some Changes_needed) (gi_stage input) (ar_tier exact)))
                 (Some Changes_review) tier
          else Gate_admits (Some (provenance_of exact (Claimed (rp_verdict requested)) None))))"

definition gate_unrequested :: "(string \<Rightarrow> string) \<Rightarrow> gate_input \<Rightarrow> review_gate_result" where
  "gate_unrequested sha input =
     (let stage = gi_stage input; tier = default_tier input in
      case gi_exact input of
        Some exact \<Rightarrow>
          if gi_exactVerdict input = Some Ready then Gate_admits (Some (provenance_of exact (Claimed Ready) None))
          else (case gi_exactPushback input of
            Some pushback \<Rightarrow> Gate_admits (Some (provenance_of exact Pushed_back (Some (pb_reason pushback))))
          | None \<Rightarrow>
              if stage = Stage_1 \<or> \<not> tierEnforcedAt (ar_tier exact) stage then Gate_admits None
              else if gi_exactVerdict input = Some Changes_needed
              then refused sha input Review_not_ready 409
                     (capRouting (gi_chain input) (Holds (ar_reviewId exact) (Some Changes_needed) stage tier))
                     (Some Changes_review) tier
              else refused sha input Review_pending 409 (Holds (ar_reviewId exact) None stage tier)
                     (Some Pending_review) tier)
      | None \<Rightarrow>
          if stage = Stage_1 then Gate_admits None
          else (let older = filter (\<lambda>r. tierEnforcedAt (ch_tier r) stage) (gi_chain input) in
            if older \<noteq> []
            then refused sha input Review_required 409
                   (capRouting (gi_chain input) (Unreviewed stage (ch_reviewId (last older)) (ch_round (last older))))
                   (Some Missing_review) (ch_tier (last older))
            else Gate_admits None))"

definition briefingReviewGate :: "(string \<Rightarrow> string) \<Rightarrow> gate_input \<Rightarrow> review_gate_result" where
  "briefingReviewGate sha input = (case gi_requested input of
     Some requested \<Rightarrow> gate_requested sha input requested
   | None \<Rightarrow> gate_unrequested sha input)"

definition parseBriefingReviewBlock :: "json option \<Rightarrow> review_error + requested_provenance option" where
  "parseBriefingReviewBlock value = (case value of
     None \<Rightarrow> Inr None
   | Some (JObj raw) \<Rightarrow>
       attempt (exactFields raw [''rounds'', ''verdict'', ''briefing_sha256''] ''briefing_review'') (\<lambda>_.
       case count_of (map_of raw ''rounds'') of
         None \<Rightarrow> Inl (invalidRequest (Wrong_value ''rounds''))
       | Some rounds \<Rightarrow>
           if rounds < 1 then Inl (invalidRequest (Wrong_value ''rounds''))
           else (case isBriefingReviewVerdict (map_of raw ''verdict'') of
             None \<Rightarrow> Inl (invalidRequest (Wrong_value ''verdict''))
           | Some verdict \<Rightarrow> (case map_of raw ''briefing_sha256'' of
               Some (JStr sha) \<Rightarrow>
                 if sha256_hex sha
                 then Inr (Some \<lparr>rp_rounds = rounds, rp_verdict = verdict, rp_briefingSha256 = sha\<rparr>)
                 else Inl (invalidRequest (Wrong_value ''briefing_sha256''))
             | _ \<Rightarrow> Inl (invalidRequest (Wrong_value ''briefing_sha256'')))))
   | Some _ \<Rightarrow> Inl (invalidRequest (Not_an_object ''briefing_review'')))"

subsection \<open>The service and its world\<close>

record review_helper =
  hp_packageId :: string
  hp_sha256 :: string
  hp_preamble :: string
  hp_lensSection :: "review_lens \<Rightarrow> string"

record dispatch_order =
  do_jobId :: string
  do_repoPath :: string
  do_title :: string
  do_briefing :: string
  do_deliverable :: string
  do_readOnly :: bool

datatype card_guidance =
    Dispatch_reviewed nat                              \<comment> \<open>the blocking findings the revision caught\<close>
  | Newest_ready "nat \<times> string \<times> string"
  | At_round_cap "(nat \<times> string \<times> string) option"
  | Fix_briefing

record review_card =
  rc_id :: string
  rc_kind :: string
  rc_routing :: string
  rc_severity :: string
  rc_armed :: armed_review
  rc_verdict :: review_verdict
  rc_guidance :: card_guidance

datatype review_failure = Refused_review review_error | Threw_error string

record review_world =
  rw_enabled :: bool
  rw_stage :: review_stage
  rw_sha :: "string \<Rightarrow> string"
  rw_stringify :: "json \<Rightarrow> string"
  rw_env :: env
  rw_helper :: "review_error + review_helper"
  rw_apiBase :: "string option"
  rw_headSha :: "string \<Rightarrow> string option"
  rw_dispatch :: "dispatch_order \<Rightarrow> ledger \<Rightarrow> ledger \<times> (string + unit)"
  rw_post :: "review_card \<Rightarrow> ledger \<Rightarrow> ledger \<times> (string + unit)"

type_synonym 'a review_run = "ledger \<times> (review_failure + 'a)"

definition run_then :: "'a review_run \<Rightarrow> ('a \<Rightarrow> ledger \<Rightarrow> 'b review_run) \<Rightarrow> 'b review_run" where
  "run_then r k = (case r of (L, Inl e) \<Rightarrow> (L, Inl e) | (L, Inr x) \<Rightarrow> k x L)"

definition refuse :: "review_code \<Rightarrow> review_detail \<Rightarrow> nat \<Rightarrow> review_failure" where
  "refuse code detail status = Refused_review (Review_error code detail status)"

text \<open>A parse, before anything is read or written.\<close>

definition parsed :: "review_error + 'a \<Rightarrow> ledger \<Rightarrow> 'a review_run" where
  "parsed r L = (L, case r of Inl e \<Rightarrow> Inl (Refused_review e) | Inr x \<Rightarrow> Inr x)"

text \<open>\<open>appendCustomEvent\<close> for a kind that has no typed method of its own.\<close>

definition appendCustomEvent ::
  "env \<Rightarrow> string \<Rightarrow> string option \<Rightarrow> string option \<Rightarrow> json \<Rightarrow> ledger \<Rightarrow> ledger" where
  "appendCustomEvent E kind jobId lens payload L = L
     \<lparr>lg_seq := Suc (lg_seq L),
      lg_events := lg_events L @ [\<lparr>er_seq = Suc (lg_seq L), er_ts = en_now E, er_kind = kind,
        er_agentId = None, er_jobId = jobId, er_roundId = None, er_lens = lens, er_payload = payload\<rparr>]\<rparr>"

record lens_job_view =
  lj_lens :: review_lens
  lj_jobId :: string
  lj_status :: "job_status option"                     \<comment> \<open>\<open>None\<close>: missing\<close>

definition review_jobs :: "ledger \<Rightarrow> armed_review \<Rightarrow> lens_job_view list" where
  "review_jobs L armed = map (\<lambda>lens. \<lparr>lj_lens = lens, lj_jobId = lensJobId (ar_reviewId armed) lens,
     lj_status = map_option jb_status (getJob L (lensJobId (ar_reviewId armed) lens))\<rparr>) (ar_lenses armed)"

record commission_result =
  cm_reviewId :: string
  cm_commissionKey :: string
  cm_briefingSha256 :: string
  cm_round :: nat
  cm_generation :: nat
  cm_tier :: review_tier
  cm_lenses :: "review_lens list"
  cm_headSha :: "string option"
  cm_jobs :: "lens_job_view list"
  cm_dispatched :: bool
  cm_upgraded :: bool

definition commission_view :: "ledger \<Rightarrow> armed_review \<Rightarrow> bool \<Rightarrow> bool \<Rightarrow> commission_result" where
  "commission_view L armed dispatched upgraded =
     \<lparr>cm_reviewId = ar_reviewId armed, cm_commissionKey = ar_commissionKey armed,
      cm_briefingSha256 = ar_briefingSha256 armed, cm_round = ar_round armed, cm_generation = ar_generation armed,
      cm_tier = ar_tier armed, cm_lenses = ar_lenses armed, cm_headSha = ar_headSha armed,
      cm_jobs = review_jobs L armed, cm_dispatched = dispatched, cm_upgraded = upgraded\<rparr>"

definition arm :: "review_world \<Rightarrow> armed_input \<Rightarrow> ledger \<Rightarrow> armed_review review_run" where
  "arm W i L =
     (let L' = appendCustomEvent (rw_env W) BRIEFING_REVIEW_ARMED None None (armed_payload i) L in
      case latestArmed L' (ar_reviewId i) of
        None \<Rightarrow> (L', Inl (refuse Review_not_commissioned (Names ''armed record unreadable'' [ar_reviewId i]) 409))
      | Some armed \<Rightarrow> (L', Inr armed))"

subsection \<open>The briefing of a lens\<close>

fun join_lines :: "string list \<Rightarrow> string" where
  "join_lines [] = []"
| "join_lines [l] = l"
| "join_lines (l # ls) = l @ [newline] @ join_lines ls"

definition result_body :: "armed_review \<Rightarrow> review_lens \<Rightarrow> json" where
  "result_body armed lens = JObj [(''repoPath'', JStr (ar_repoPath armed)),
     (''briefingSha256'', JStr (ar_briefingSha256 armed)), (''jobId'', JStr (lensJobId (ar_reviewId armed) lens)),
     (''lens'', JStr (lens_name lens)), (''verdict'', JStr ''READY or CHANGES-NEEDED''),
     (''findings'', JArr [JObj [(''code'', JStr ''stable-code''), (''severity'', JStr ''blocking or advisory''),
        (''evidence'', JStr ''an exact span copied from the briefing between the markers''),
        (''why_it_blocks'', JStr ''what a lane starting from this briefing would get wrong'')]])]"

definition lens_head :: "armed_review \<Rightarrow> review_lens \<Rightarrow> string list" where
  "lens_head armed lens =
    [''Nefario briefing review - you are the '' @ lens_name lens @ '' lens.'',
     ''You stress-test one draft heist briefing before any minion builds against it. You are a'',
     ''zero-context reviewer: you receive this briefing, this worktree and this lens helper, and'',
     ''nothing else. You never change the briefing, the repository or the scope.'',
     [],
     ''Binding (exact; never change it):'',
     ''- repoPath: '' @ ar_repoPath armed,
     ''- reviewId: '' @ ar_reviewId armed,
     ''- commissionKey: '' @ ar_commissionKey armed,
     ''- round: '' @ nat_str (ar_round armed) @ '' (generation '' @ nat_str (ar_generation armed) @ '')'',
     ''- lens: '' @ lens_name lens,
     ''- lens job id: '' @ lensJobId (ar_reviewId armed) lens,
     ''- briefingSha256: '' @ ar_briefingSha256 armed,
     [],
     ''The heist briefing under review, verbatim, between the review markers:'',
     []]"

definition lens_tail :: "review_world \<Rightarrow> armed_review \<Rightarrow> review_lens \<Rightarrow> review_helper \<Rightarrow> string list" where
  "lens_tail W armed lens helper =
    [[],
     ''GC briefing-review helper ('' @ hp_packageId helper @ '' skills/briefing-review/lenses.md, sha256 '' @ hp_sha256 helper @ ''):'',
     [],
     hp_preamble helper,
     [],
     hp_lensSection helper lens,
     [],
     ''Submit your result:'',
     ''- POST '' @ or_else (rw_apiBase W) ''<the service API>'' @ ''/api/briefing-review/result'',
     ''- Authenticate with the instance [auth] token as `Authorization: Bearer <token>` (read it from'',
     ''  the service instance config; never print it).'',
     ''- Body (exact shape; every field of every finding, nothing else):'',
     ''  '' @ rw_stringify W (result_body armed lens),
     ''- A 400 names the finding to fix: fix it and submit the corrected result again. An identical'',
     ''  retry is safe and returns the same answer with no second record.'',
     [],
     ''Standing orders (this brief is READ-ONLY): work only inside this tree; change nothing,'',
     ''commit nothing, push nothing, open no pull request, and implement nothing - an unmodified'',
     ''tree is the expected result. Your deliverable is the submitted result and a completion report'',
     ''naming review '' @ ar_reviewId armed @ '', your lens and your verdict.'']"

definition lensBriefing ::
  "review_world \<Rightarrow> armed_review \<Rightarrow> review_lens \<Rightarrow> string \<Rightarrow> review_helper \<Rightarrow> string" where
  "lensBriefing W armed lens briefing helper =
     join_lines (lens_head armed lens @ markedBriefing briefing (ar_reviewId armed) # lens_tail W armed lens helper)"

subsection \<open>Commission\<close>

definition lens_order ::
  "review_world \<Rightarrow> armed_review \<Rightarrow> string \<Rightarrow> review_helper \<Rightarrow> review_lens \<Rightarrow> dispatch_order" where
  "lens_order W armed briefing helper lens =
     \<lparr>do_jobId = lensJobId (ar_reviewId armed) lens, do_repoPath = ar_repoPath armed,
      do_title = take 200 (''Nefario '' @ lens_name lens @ '' review: '' @ ar_title armed),
      do_briefing = lensBriefing W armed lens briefing helper, do_deliverable = ''investigation'', do_readOnly = True\<rparr>"

fun dispatch_each ::
  "review_world \<Rightarrow> armed_review \<Rightarrow> string \<Rightarrow> review_helper \<Rightarrow> review_lens list \<Rightarrow> bool \<Rightarrow> ledger \<Rightarrow> bool review_run" where
  "dispatch_each W armed briefing helper [] dispatched L = (L, Inr dispatched)"
| "dispatch_each W armed briefing helper (lens # lenses) dispatched L =
     (if getJob L (lensJobId (ar_reviewId armed) lens) \<noteq> None
      then dispatch_each W armed briefing helper lenses dispatched L
      else (case rw_dispatch W (lens_order W armed briefing helper lens) L of
          (L', Inl e) \<Rightarrow> (L', Inl (Threw_error e))
        | (L', Inr _) \<Rightarrow> dispatch_each W armed briefing helper lenses True L'))"

definition dispatchLenses ::
  "review_world \<Rightarrow> armed_review \<Rightarrow> string \<Rightarrow> review_helper \<Rightarrow> ledger \<Rightarrow> bool review_run" where
  "dispatchLenses W armed briefing helper L = dispatch_each W armed briefing helper (ar_lenses armed) False L"

text \<open>The chain's newest review: the last record of the last review id of the chain.\<close>

definition chainTail :: "ledger \<Rightarrow> string \<Rightarrow> armed_review option" where
  "chainTail L chainKey = (case at_last (chain_order L chainKey) of
     None \<Rightarrow> None
   | Some i \<Rightarrow> at_last (filter (\<lambda>r. ar_reviewId r = i) (armedChain L chainKey)))"

definition tail_label :: "armed_review option \<Rightarrow> (nat \<times> string \<times> string) option" where
  "tail_label tail = map_option (\<lambda>r. (ar_round r, ar_reviewId r, ar_briefingSha256 r)) tail"

definition first_arm ::
  "review_world \<Rightarrow> review_identity \<Rightarrow> commission_request \<Rightarrow> ledger \<Rightarrow> armed_input" where
  "first_arm W ident request L =
     \<lparr>ar_reviewId = id_reviewId ident, ar_commissionKey = id_commissionKey ident, ar_chainKey = id_chainKey ident,
      ar_briefingSha256 = id_briefingSha256 ident, ar_repoPath = cq_repoPath request, ar_title = cq_title request,
      ar_tier = cq_tier request, ar_justification = cq_justification request,
      ar_round = Suc (length (chain_order L (id_chainKey ident))), ar_generation = 1,
      ar_lenses = TIER_LENSES (cq_tier request), ar_headSha = rw_headSha W (cq_repoPath request), ar_upgradedFrom = None\<rparr>"

definition raised_arm :: "review_identity \<Rightarrow> commission_request \<Rightarrow> armed_review \<Rightarrow> armed_input" where
  "raised_arm ident request existing =
     \<lparr>ar_reviewId = ar_reviewId existing, ar_commissionKey = id_commissionKey ident, ar_chainKey = ar_chainKey existing,
      ar_briefingSha256 = ar_briefingSha256 existing, ar_repoPath = ar_repoPath existing, ar_title = ar_title existing,
      ar_tier = cq_tier request, ar_justification = cq_justification request, ar_round = ar_round existing,
      ar_generation = Suc (ar_generation existing),
      ar_lenses = unionLenses (ar_lenses existing) (TIER_LENSES (cq_tier request)),
      ar_headSha = ar_headSha existing, ar_upgradedFrom = Some (ar_generation existing)\<rparr>"

record commission_plan =
  cp_armed :: armed_review
  cp_briefing :: string
  cp_helper :: review_helper
  cp_upgraded :: bool

text \<open>Everything a commission does before its first await.\<close>

definition commission_identity :: "review_world \<Rightarrow> commission_request \<Rightarrow> review_identity" where
  "commission_identity W request =
     briefingReviewIdentity (rw_sha W) (cq_briefing request) (cq_repoPath request) (cq_title request) (cq_tier request)"

definition commission_existing ::
  "review_world \<Rightarrow> commission_request \<Rightarrow> armed_review \<Rightarrow> ledger \<Rightarrow> (armed_review \<times> bool) review_run" where
  "commission_existing W request existing L =
     (let decided = decisiveVerdict (reviewVerdicts L (ar_reviewId existing)) (ar_generation existing) \<noteq> None;
          raising = tierRank (ar_tier existing) < tierRank (cq_tier request) in
      if raising \<and> decided then (L, Inl (refuse Review_decided (Names ''decided'' [ar_reviewId existing]) 409))
      else if \<not> raising then (L, Inr (existing, False))
      else run_then (arm W (raised_arm (commission_identity W request) request existing) L) (\<lambda>raised L. (L, Inr (raised, True))))"

definition commission_new ::
  "review_world \<Rightarrow> commission_request \<Rightarrow> ledger \<Rightarrow> (armed_review \<times> bool) review_run" where
  "commission_new W request L =
     (let ident = commission_identity W request in
      if BRIEFING_REVIEW_ROUND_CAP \<le> trailingChangesNeeded L (id_chainKey ident)
      then (L, Inl (refuse Review_round_cap
             (Capped (Names ''round cap'' [nat_str (trailingChangesNeeded L (id_chainKey ident))])
                (tail_label (chainTail L (id_chainKey ident)))) 409))
      else run_then (arm W (first_arm W ident request L) L) (\<lambda>armed L. (L, Inr (armed, False))))"

definition begin_commission :: "review_world \<Rightarrow> json \<Rightarrow> ledger \<Rightarrow> commission_plan review_run" where
  "begin_commission W value L =
     (if \<not> rw_enabled W then (L, Inl (refuse Review_disabled (Names ''disabled'' []) 503)) else
      run_then (parsed (parseCommissionRequest value) L) (\<lambda>request L.
      run_then (parsed (rw_helper W) L) (\<lambda>helper L.
      run_then (case latestArmed L (id_reviewId (commission_identity W request)) of
          Some existing \<Rightarrow> commission_existing W request existing L
        | None \<Rightarrow> commission_new W request L) (\<lambda>(armed, upgraded) L.
        (L, Inr \<lparr>cp_armed = armed, cp_briefing = cq_briefing request, cp_helper = helper, cp_upgraded = upgraded\<rparr>)))))"

text \<open>The status is 202 when a lens was dispatched, else 200.\<close>

definition commission_review :: "review_world \<Rightarrow> json \<Rightarrow> ledger \<Rightarrow> (nat \<times> commission_result) review_run" where
  "commission_review W value L =
     run_then (begin_commission W value L) (\<lambda>plan L.
     run_then (dispatchLenses W (cp_armed plan) (cp_briefing plan) (cp_helper plan) L) (\<lambda>dispatched L.
       (L, Inr (if dispatched then 202 else 200, commission_view L (cp_armed plan) dispatched (cp_upgraded plan)))))"

subsection \<open>Results\<close>

record result_outcome =
  ro_reviewId :: string
  ro_lens :: review_lens
  ro_verdict :: review_verdict
  ro_aggregate :: "review_verdict option"
  ro_decisive :: bool
  ro_caught :: nat
  ro_jobs :: "lens_job_view list"

definition resultView ::
  "ledger \<Rightarrow> armed_review \<Rightarrow> review_lens \<Rightarrow> review_verdict \<Rightarrow> review_verdict option \<Rightarrow> bool \<Rightarrow> nat \<Rightarrow> result_outcome" where
  "resultView L armed lens verdict aggregate decisive caught =
     \<lparr>ro_reviewId = ar_reviewId armed, ro_lens = lens, ro_verdict = verdict, ro_aggregate = aggregate,
      ro_decisive = decisive, ro_caught = caught, ro_jobs = review_jobs L armed\<rparr>"

definition changesNeededGuidance :: "ledger \<Rightarrow> armed_review \<Rightarrow> card_guidance" where
  "changesNeededGuidance L armed =
     (let newest = chainTail L (ar_chainKey armed) in
      case newest of
        Some n \<Rightarrow>
          if map_option lv_aggregate (decisiveVerdict (reviewVerdicts L (ar_reviewId n)) (ar_generation n)) = Some (Some Ready)
          then Newest_ready (ar_round n, ar_reviewId n, ar_briefingSha256 n)
          else if BRIEFING_REVIEW_ROUND_CAP \<le> trailingChangesNeeded L (ar_chainKey armed)
          then At_round_cap (tail_label newest) else Fix_briefing
      | None \<Rightarrow>
          if BRIEFING_REVIEW_ROUND_CAP \<le> trailingChangesNeeded L (ar_chainKey armed)
          then At_round_cap None else Fix_briefing)"

definition BRIEFING_REVIEW_NOTIFICATION_KIND :: string where
  "BRIEFING_REVIEW_NOTIFICATION_KIND = ''briefing-review-verdict''"

definition announce_card :: "ledger \<Rightarrow> armed_review \<Rightarrow> review_verdict \<Rightarrow> nat \<Rightarrow> review_card" where
  "announce_card L armed verdict caught =
     \<lparr>rc_id = ''briefing-review:'' @ ar_reviewId armed @ '':'' @ nat_str (ar_generation armed),
      rc_kind = BRIEFING_REVIEW_NOTIFICATION_KIND, rc_routing = ''action-required'',
      rc_severity = (if verdict = Ready then ''info'' else ''error''), rc_armed = armed, rc_verdict = verdict,
      rc_guidance = (if verdict = Ready then Dispatch_reviewed caught else changesNeededGuidance L armed)\<rparr>"

definition announce :: "review_world \<Rightarrow> armed_review \<Rightarrow> review_verdict \<Rightarrow> nat \<Rightarrow> ledger \<Rightarrow> unit review_run" where
  "announce W armed verdict caught L = (case rw_post W (announce_card L armed verdict caught) L of
     (L', Inl e) \<Rightarrow> (L', Inl (Threw_error e))
   | (L', Inr u) \<Rightarrow> (L', Inr ()))"

text \<open>A settle that fails is logged and leaves the ledger as it was.\<close>

definition settleLensReport :: "review_world \<Rightarrow> string \<Rightarrow> nat \<Rightarrow> ledger \<Rightarrow> ledger" where
  "settleLensReport W jobId evidenceEventSeq L = (case findReportObligation (rw_env W) L jobId of
     Inr (Some debt) \<Rightarrow>
       if ob_state debt \<noteq> O_open \<and> ob_state debt \<noteq> O_waiting \<and> ob_state debt \<noteq> O_suspended then L
       else (case settleObligation (rw_env W) (ob_id debt)
           (Executed_action BRIEFING_REVIEW_OBLIGATION_ACTION evidenceEventSeq BRIEFING_REVIEW_VERDICT) None L of
           Inr (L', _) \<Rightarrow> L' | Inl _ \<Rightarrow> L)
   | _ \<Rightarrow> L)"

text \<open>The armed review, lens job and briefing a result is checked against.\<close>

definition result_target :: "result_request \<Rightarrow> ledger \<Rightarrow> (armed_review \<times> string) review_run" where
  "result_target request L = (L,
     (case armedByBriefingSha L (rq_briefingSha256 request) (rq_repoPath request) of
        None \<Rightarrow> Inl (refuse Review_not_commissioned (Names ''unarmed'' [rq_briefingSha256 request, rq_repoPath request]) 409)
      | Some armed \<Rightarrow>
          if rq_lens request \<notin> set (ar_lenses armed)
          then Inl (refuse Review_lens_unknown (Names (lens_name (rq_lens request)) (map lens_name (ar_lenses armed))) 400)
          else (let expectedJobId = lensJobId (ar_reviewId armed) (rq_lens request) in
            if rq_jobId request \<noteq> expectedJobId
            then Inl (refuse Review_job_mismatch (Mismatch ''job'' expectedJobId (rq_jobId request)) 409)
            else (case getJob L expectedJobId of
                None \<Rightarrow> Inl (refuse Review_not_dispatched (Names ''no job row'' [expectedJobId]) 409)
              | Some job \<Rightarrow> (case reviewedBriefing (jb_briefing job) (ar_reviewId armed) of
                    None \<Rightarrow> Inl (refuse Review_not_dispatched (Names ''no marked briefing'' [expectedJobId]) 409)
                  | Some reviewed \<Rightarrow> Inr (armed, reviewed))))))"

definition result_aggregate :: "armed_review \<Rightarrow> lens_verdict list \<Rightarrow> result_request \<Rightarrow> review_verdict option" where
  "result_aggregate armed verdicts request =
     (if decisiveVerdict verdicts (ar_generation armed) \<noteq> None then None
      else if rq_verdict request = Changes_needed then Some Changes_needed
      else if everyLensReady verdicts (filter (\<lambda>l. l \<noteq> rq_lens request) (ar_lenses armed)) then Some Ready
      else None)"

definition new_verdict :: "ledger \<Rightarrow> armed_review \<Rightarrow> result_request \<Rightarrow> verdict_input" where
  "new_verdict L armed request =
     (let aggregate = result_aggregate armed (reviewVerdicts L (ar_reviewId armed)) request in
      \<lparr>lv_reviewId = ar_reviewId armed, lv_chainKey = ar_chainKey armed, lv_briefingSha256 = ar_briefingSha256 armed,
       lv_lens = rq_lens request, lv_verdict = rq_verdict request, lv_findings = rq_findings request,
       lv_round = ar_round armed, lv_generation = ar_generation armed, lv_decisive = (aggregate \<noteq> None),
       lv_aggregate = aggregate,
       lv_caught = (if aggregate = Some Ready then caughtByRevision L (ar_chainKey armed) (ar_reviewId armed) else 0)\<rparr>)"

definition write_verdict :: "review_world \<Rightarrow> armed_review \<Rightarrow> result_request \<Rightarrow> ledger \<Rightarrow> ledger" where
  "write_verdict W armed request L =
     appendCustomEvent (rw_env W) BRIEFING_REVIEW_VERDICT (Some (lensJobId (ar_reviewId armed) (rq_lens request)))
       (Some (lens_name (rq_lens request))) (verdict_payload (new_verdict L armed request)) L"

definition accept_result :: "review_world \<Rightarrow> armed_review \<Rightarrow> result_request \<Rightarrow> ledger \<Rightarrow> result_outcome review_run" where
  "accept_result W armed request L =
     (let v = new_verdict L armed request; L1 = write_verdict W armed request L in
      run_then (case lv_aggregate v of None \<Rightarrow> (L1, Inr ()) | Some a \<Rightarrow> announce W armed a (lv_caught v) L1) (\<lambda>_ L2.
      let L3 = settleLensReport W (lensJobId (ar_reviewId armed) (rq_lens request)) (lg_seq L1) L2 in
      (L3, Inr (resultView L3 armed (rq_lens request) (rq_verdict request) (lv_aggregate v) (lv_decisive v) (lv_caught v)))))"

definition submit_request :: "review_world \<Rightarrow> result_request \<Rightarrow> ledger \<Rightarrow> result_outcome review_run" where
  "submit_request W request L =
     run_then (result_target request L) (\<lambda>(armed, reviewed) L.
     run_then (parsed (assertFindingEvidence (rq_findings request) (rq_verdict request) reviewed) L) (\<lambda>_ L.
     case latestLensVerdict (reviewVerdicts L (ar_reviewId armed)) (rq_lens request) of
       Some existing \<Rightarrow>
         if lv_verdict existing = rq_verdict request
            \<and> canonicalFindings (lv_findings existing) = canonicalFindings (rq_findings request)
         then (L, Inr (resultView L armed (rq_lens request) (rq_verdict request) (lv_aggregate existing)
                         (lv_decisive existing) (lv_caught existing)))
         else (L, Inl (refuse Review_result_conflict (Names (lens_name (rq_lens request)) [ar_reviewId armed]) 409))
     | None \<Rightarrow> accept_result W armed request L))"

definition submitResult :: "review_world \<Rightarrow> json \<Rightarrow> ledger \<Rightarrow> result_outcome review_run" where
  "submitResult W value L = run_then (parsed (parseResultRequest value) L) (submit_request W)"

subsection \<open>Push-back\<close>

record pushback_outcome =
  po_reviewId :: string
  po_generation :: nat
  po_reason :: string
  po_by :: string

definition pushbackView :: "armed_review \<Rightarrow> ('a pushback_input_scheme) \<Rightarrow> pushback_outcome" where
  "pushbackView armed record' = \<lparr>po_reviewId = ar_reviewId armed, po_generation = pb_generation record',
     po_reason = pb_reason record', po_by = pb_by record'\<rparr>"

definition push_back :: "review_world \<Rightarrow> pushback_request \<Rightarrow> ledger \<Rightarrow> pushback_outcome review_run" where
  "push_back W request L =
     (case armedByBriefingSha L (pq_briefingSha256 request) (pq_repoPath request) of
        None \<Rightarrow> (L, Inl (refuse Review_not_commissioned (Names ''unarmed'' [pq_briefingSha256 request, pq_repoPath request]) 409))
      | Some armed \<Rightarrow>
          if map_option lv_aggregate (decisiveVerdict (reviewVerdicts L (ar_reviewId armed)) (ar_generation armed))
               = Some (Some Ready)
          then (L, Inl (refuse Review_already_ready (Names ''ready'' [ar_reviewId armed]) 409))
          else (case at_last (filter (\<lambda>r. pb_generation r = ar_generation armed) (reviewPushbacks L (ar_reviewId armed))) of
              Some existing \<Rightarrow>
                if pb_reason existing = pq_reason request then (L, Inr (pushbackView armed existing))
                else (L, Inl (refuse Review_pushback_conflict (Names ''pushed back'' [ar_reviewId armed]) 409))
            | None \<Rightarrow>
                (let record' = \<lparr>pb_reviewId = ar_reviewId armed, pb_briefingSha256 = ar_briefingSha256 armed,
                       pb_generation = ar_generation armed, pb_reason = pq_reason request, pb_by = pq_by request\<rparr> in
                 (appendCustomEvent (rw_env W) BRIEFING_REVIEW_PUSHBACK None None (pushback_payload record') L,
                  Inr (pushbackView armed record')))))"

definition pushback_review :: "review_world \<Rightarrow> json \<Rightarrow> ledger \<Rightarrow> pushback_outcome review_run" where
  "pushback_review W value L = run_then (parsed (parsePushbackRequest value) L) (push_back W)"

subsection \<open>Admission of a dispatch\<close>

record dispatch_claim =
  dc_jobId :: string
  dc_repoPath :: string
  dc_title :: string
  dc_briefing :: string
  dc_requested :: "requested_provenance option"

definition chainReviews :: "ledger \<Rightarrow> string \<Rightarrow> chain_review list" where
  "chainReviews L chainKey = List.map_filter (\<lambda>i. case latestArmed L i of
       None \<Rightarrow> None
     | Some armed \<Rightarrow> Some \<lparr>ch_reviewId = i, ch_tier = ar_tier armed, ch_round = ar_round armed,
         ch_verdict = Option.bind (decisiveVerdict (reviewVerdicts L i) (ar_generation armed)) lv_aggregate,
         ch_briefingSha256 = ar_briefingSha256 armed\<rparr>) (chain_order L chainKey)"

definition claim_view :: "review_world \<Rightarrow> dispatch_claim \<Rightarrow> ledger \<Rightarrow> gate_input" where
  "claim_view W claim L =
     (let ident = briefingReviewIdentity (rw_sha W) (dc_briefing claim) (dc_repoPath claim) (dc_title claim) Tier_low;
          exact = latestArmed L (id_reviewId ident) in
      \<lparr>gi_stage = rw_stage W, gi_briefing = dc_briefing claim, gi_repoPath = dc_repoPath claim, gi_title = dc_title claim,
       gi_jobId = dc_jobId claim, gi_requested = dc_requested claim, gi_exact = exact,
       gi_exactVerdict = Option.bind exact (\<lambda>e.
         Option.bind (decisiveVerdict (reviewVerdicts L (ar_reviewId e)) (ar_generation e)) lv_aggregate),
       gi_exactPushback = Option.bind exact (\<lambda>e.
         at_last (filter (\<lambda>r. pb_generation r = ar_generation e) (reviewPushbacks L (ar_reviewId e)))),
       gi_chain = chainReviews L (id_chainKey ident)\<rparr>)"

text \<open>\<open>None\<close>: the gate is off.\<close>

definition evaluateDispatch :: "review_world \<Rightarrow> dispatch_claim \<Rightarrow> ledger \<Rightarrow> review_gate_result option" where
  "evaluateDispatch W claim L =
     (if \<not> rw_enabled W then None else Some (briefingReviewGate (rw_sha W) (claim_view W claim L)))"

definition refusal_payload :: "gate_refusal \<Rightarrow> json" where
  "refusal_payload r = JObj [(''repo_path'', JStr (gr_repoPath r)), (''title'', JStr (gr_title r)),
     (''briefing_sha_256'', JStr (gr_briefingSha256 r)), (''job_id'', JStr (gr_jobId r)),
     (''tier'', JStr (tier_name (gr_tier r))), (''reason'', JStr (refusal_reason_name (gr_reason r)))]"

definition admitDispatch :: "review_world \<Rightarrow> dispatch_claim \<Rightarrow> ledger \<Rightarrow> review_provenance option review_run" where
  "admitDispatch W claim L = (case evaluateDispatch W claim L of
     None \<Rightarrow> (L, Inr None)
   | Some (Gate_admits p) \<Rightarrow> (L, Inr p)
   | Some (Gate_refuses e refusal) \<Rightarrow>
       ((case refusal of None \<Rightarrow> L
         | Some r \<Rightarrow> appendCustomEvent (rw_env W) BRIEFING_REVIEW_REFUSED (Some (dc_jobId claim)) None (refusal_payload r) L),
        Inl (Refused_review e)))"

end
