(* ===== verification/Briefing_Properties.thy ===== *)
theory Briefing_Properties
  imports Briefing_Review
begin

text \<open>
  What the briefing review guarantees. The durable facts of a ledger are three lists, the armed records, the lens
  verdicts and the push-backs; \<open>reviews_ok\<close> is the invariant that ties them together and every operation
  keeps it, so the bounded reads of the service are complete on every reachable ledger. On top of it: a review is
  decided once and READY only when every armed lens is ready, the gate admits an enforced tier only on such a
  review or a recorded push-back, a retried result converges, and a commission never lowers a review or
  passes the round cap.
\<close>

subsection \<open>The facts of a ledger\<close>

definition facts_of :: "string \<Rightarrow> (event \<Rightarrow> 'a option) \<Rightarrow> ledger \<Rightarrow> 'a list" where
  "facts_of kind read L = List.map_filter read (filter (\<lambda>e. 0 < er_seq e \<and> er_kind e = kind) (lg_events L))"

definition all_armed :: "ledger \<Rightarrow> armed_review list" where
  "all_armed = facts_of BRIEFING_REVIEW_ARMED readArmed"

definition all_verdicts :: "ledger \<Rightarrow> lens_verdict list" where
  "all_verdicts = facts_of BRIEFING_REVIEW_VERDICT readVerdict"

definition readable_log :: "ledger \<Rightarrow> bool" where
  "readable_log L \<longleftrightarrow> (\<forall>e\<in>set (lg_events L). 0 < er_seq e \<longrightarrow>
     (er_kind e = BRIEFING_REVIEW_ARMED \<longrightarrow> readArmed e \<noteq> None) \<and>
     (er_kind e = BRIEFING_REVIEW_VERDICT \<longrightarrow> readVerdict e \<noteq> None))"

lemma map_filter_simps2 [simp]:
  "List.map_filter f [] = []"
  "List.map_filter f (x # xs) = (case f x of None \<Rightarrow> List.map_filter f xs | Some y \<Rightarrow> y # List.map_filter f xs)"
  by (simp_all add: List.map_filter_def split: option.splits)

lemma map_filter_append [simp]: "List.map_filter f (xs @ ys) = List.map_filter f xs @ List.map_filter f ys"
  by (simp add: List.map_filter_def)

lemma map_filter_rev: "List.map_filter f (rev xs) = rev (List.map_filter f xs)"
  by (simp add: List.map_filter_def rev_map rev_filter)

lemma map_filter_length: "(\<And>x. x \<in> set xs \<Longrightarrow> f x \<noteq> None) \<Longrightarrow> length (List.map_filter f xs) = length xs"
  by (induction xs) (auto split: option.splits)

text \<open>Selecting by a payload field before reading is selecting by the record's field after it.\<close>

lemma map_filter_select:
  assumes "\<And>x y. f x = Some y \<Longrightarrow> P x \<longleftrightarrow> Q y"
  shows "List.map_filter f (filter P xs) = filter Q (List.map_filter f xs)"
  using assms by (induction xs) (auto split: option.splits)

lemma kind_events_window:
  assumes "plain_field key"
  shows "kind_events L kind desc n key v = take n
    (filter (\<lambda>e. payload_get (er_payload e) key = Some (JStr v))
      (filter (\<lambda>e. 0 < er_seq e \<and> er_kind e = kind) (if desc then rev (lg_events L) else lg_events L)))"
proof -
  have "filter (event_selected 0 \<lparr>ev_limit = Some n, ev_desc = desc, ev_kinds = [kind], ev_payload = Some (key, Some v, None)\<rparr>) xs
      = filter (\<lambda>e. payload_get (er_payload e) key = Some (JStr v)) (filter (\<lambda>e. 0 < er_seq e \<and> er_kind e = kind) xs)" for xs
    unfolding filter_filter by (rule filter_cong) (auto simp: event_selected_def)
  then show ?thesis using assms by (simp add: kind_events_def listEventsAfter_def or_else_def)
qed

lemma plain_fields [simp]:
  "plain_field ''review_id''" "plain_field ''chain_key''" "plain_field ''briefing_sha_256''"
  by (simp_all add: plain_field_def)

lemma payload_str_get: "payload_str p k = Some s \<longleftrightarrow> s \<noteq> [] \<and> payload_get p k = Some (JStr s)"
  by (auto simp: payload_str_def split: option.splits json.splits)

lemma readArmed_fields:
  assumes "readArmed e = Some r"
  shows "payload_get (er_payload e) ''review_id'' = Some (JStr (ar_reviewId r))"
    and "payload_get (er_payload e) ''chain_key'' = Some (JStr (ar_chainKey r))"
    and "payload_get (er_payload e) ''briefing_sha_256'' = Some (JStr (ar_briefingSha256 r))"
  using assms unfolding readArmed_def Let_def
  by (auto simp: payload_str_get split: option.split_asm json.split_asm if_split_asm prod.split_asm)

lemma readVerdict_fields:
  assumes "readVerdict e = Some v"
  shows "payload_get (er_payload e) ''review_id'' = Some (JStr (lv_reviewId v))"
  using assms unfolding readVerdict_def Let_def
  by (auto simp: payload_str_get split: option.split_asm json.split_asm if_split_asm prod.split_asm bool.split_asm)

subsection \<open>The readers over the facts\<close>

abbreviation armed_of :: "string \<Rightarrow> ledger \<Rightarrow> armed_review list" where
  "armed_of i L \<equiv> filter (\<lambda>r. ar_reviewId r = i) (all_armed L)"

abbreviation verdicts_of :: "string \<Rightarrow> ledger \<Rightarrow> lens_verdict list" where
  "verdicts_of i L \<equiv> filter (\<lambda>v. lv_reviewId v = i) (all_verdicts L)"

lemma read_selected:
  assumes "\<And>e r. read e = Some r \<Longrightarrow> payload_get (er_payload e) key = Some (JStr (fld r))"
  shows "List.map_filter read (filter (\<lambda>e. payload_get (er_payload e) key = Some (JStr v)) es)
    = filter (\<lambda>r. fld r = v) (List.map_filter read es)"
  by (rule map_filter_select) (use assms in auto)

lemma read_window:
  assumes fld: "\<And>e r. read e = Some r \<Longrightarrow> payload_get (er_payload e) key = Some (JStr (fld r))"
    and "plain_field key"
    and readable: "\<And>e. e \<in> set (lg_events L) \<Longrightarrow> 0 < er_seq e \<Longrightarrow> er_kind e = kind \<Longrightarrow> read e \<noteq> None"
    and small: "length (filter (\<lambda>r. fld r = v) (facts_of kind read L)) \<le> n"
  shows "List.map_filter read (kind_events L kind False n key v) = filter (\<lambda>r. fld r = v) (facts_of kind read L)"
proof -
  define es where "es = filter (\<lambda>e. payload_get (er_payload e) key = Some (JStr v))
    (filter (\<lambda>e. 0 < er_seq e \<and> er_kind e = kind) (lg_events L))"
  have all: "List.map_filter read es = filter (\<lambda>r. fld r = v) (facts_of kind read L)"
    unfolding es_def facts_of_def by (rule read_selected [OF fld])
  have "length (List.map_filter read es) = length es"
    by (rule map_filter_length) (use readable in \<open>auto simp: es_def\<close>)
  with small all have "take n es = es" by simp
  then show ?thesis using kind_events_window [OF assms(2)] all by (simp add: es_def)
qed

lemma latestArmed_facts:
  assumes "readable_log L" and "length (armed_of i L) \<le> 200"
  shows "armedGenerations L i = armed_of i L" and "latestArmed L i = at_last (armed_of i L)"
proof -
  show "armedGenerations L i = armed_of i L"
    unfolding armedGenerations_def all_armed_def
    by (rule read_window) (use assms in \<open>auto simp: readable_log_def all_armed_def dest: readArmed_fields\<close>)
  then show "latestArmed L i = at_last (armed_of i L)" by (simp add: latestArmed_def)
qed

lemma reviewVerdicts_facts:
  assumes "readable_log L" and "length (verdicts_of i L) \<le> 5000"
  shows "reviewVerdicts L i = verdicts_of i L"
  unfolding reviewVerdicts_def all_verdicts_def
  by (rule read_window) (use assms in \<open>auto simp: readable_log_def all_verdicts_def dest: readVerdict_fields\<close>)

lemma filter_prefix_head: "filter p (take n ys) = r # rest \<Longrightarrow> \<exists>rest'. filter p ys = r # rest'"
  by (metis append_Cons append_take_drop_id filter_append)

lemma map_filter_take: "\<exists>m. List.map_filter f (take n xs) = take m (List.map_filter f xs)"
proof -
  have "List.map_filter f xs = List.map_filter f (take n xs) @ List.map_filter f (drop n xs)"
    by (metis append_take_drop_id map_filter_append)
  then have "List.map_filter f (take n xs) = take (length (List.map_filter f (take n xs))) (List.map_filter f xs)"
    by simp
  then show ?thesis ..
qed

lemma at_last_rev: "rev xs = r # rest \<Longrightarrow> at_last xs = Some r"
  by (metis at_last_def last_rev list.distinct(1) list.sel(1) rev.simps(1) rev_rev_ident)

lemma at_last_SomeD: "at_last xs = Some x \<Longrightarrow> x \<in> set xs"
  by (auto simp: at_last_def split: if_splits)

lemma at_last_None [simp]: "at_last xs = None \<longleftrightarrow> xs = []"
  by (simp add: at_last_def)

lemma at_last_append [simp]: "at_last (xs @ [x]) = Some x" "at_last [x] = Some x"
  by (simp_all add: at_last_def)

text \<open>The newest record of a repository with a briefing digest, if the bounded read finds one.\<close>

lemma armedByBriefingSha_facts:
  assumes "armedByBriefingSha L sha repo = Some r"
  shows "at_last (filter (\<lambda>x. ar_briefingSha256 x = sha \<and> ar_repoPath x = repo) (all_armed L)) = Some r"
proof -
  define es where "es = filter (\<lambda>e. payload_get (er_payload e) ''briefing_sha_256'' = Some (JStr sha))
    (filter (\<lambda>e. 0 < er_seq e \<and> er_kind e = BRIEFING_REVIEW_ARMED) (rev (lg_events L)))"
  have "kind_events L BRIEFING_REVIEW_ARMED True 200 ''briefing_sha_256'' sha = take 200 es"
    by (simp add: kind_events_window es_def)
  moreover obtain m where "List.map_filter readArmed (take 200 es) = take m (List.map_filter readArmed es)"
    using map_filter_take by blast
  moreover have "List.map_filter readArmed es = filter (\<lambda>x. ar_briefingSha256 x = sha) (rev (all_armed L))"
    unfolding es_def all_armed_def facts_of_def rev_filter map_filter_rev [symmetric]
    by (rule read_selected) (rule readArmed_fields)
  ultimately have "filter (\<lambda>r. ar_repoPath r = repo) (take m (filter (\<lambda>x. ar_briefingSha256 x = sha) (rev (all_armed L)))) \<noteq> []
      \<and> hd (filter (\<lambda>r. ar_repoPath r = repo) (take m (filter (\<lambda>x. ar_briefingSha256 x = sha) (rev (all_armed L))))) = r"
    using assms by (auto simp: armedByBriefingSha_def split: list.splits)
  then obtain rest where
    "filter (\<lambda>r. ar_repoPath r = repo) (take m (filter (\<lambda>x. ar_briefingSha256 x = sha) (rev (all_armed L)))) = r # rest"
    by (metis list.collapse)
  then obtain rest' where
    "filter (\<lambda>r. ar_repoPath r = repo) (filter (\<lambda>x. ar_briefingSha256 x = sha) (rev (all_armed L))) = r # rest'"
    using filter_prefix_head by metis
  then have "rev (filter (\<lambda>x. ar_briefingSha256 x = sha \<and> ar_repoPath x = repo) (all_armed L)) = r # rest'"
    by (simp add: rev_filter)
  then show ?thesis by (rule at_last_rev)
qed

lemma reviewPushbacks_sound:
  "b \<in> set (reviewPushbacks L i) \<Longrightarrow> pb_reviewId b = i \<and> b \<in> set (facts_of BRIEFING_REVIEW_PUSHBACK readPushback L)"
proof -
  assume b: "b \<in> set (reviewPushbacks L i)"
  have fld: "readPushback e = Some r \<Longrightarrow> payload_get (er_payload e) ''review_id'' = Some (JStr (pb_reviewId r))" for e r
    unfolding readPushback_def Let_def
    by (auto simp: payload_str_get split: option.split_asm prod.split_asm)
  define es where "es = filter (\<lambda>e. payload_get (er_payload e) ''review_id'' = Some (JStr i))
    (filter (\<lambda>e. 0 < er_seq e \<and> er_kind e = BRIEFING_REVIEW_PUSHBACK) (lg_events L))"
  have "reviewPushbacks L i = List.map_filter readPushback (take 200 es)"
    by (simp add: reviewPushbacks_def kind_events_window es_def)
  moreover obtain m where "List.map_filter readPushback (take 200 es) = take m (List.map_filter readPushback es)"
    using map_filter_take by blast
  moreover have "List.map_filter readPushback es
      = filter (\<lambda>r. pb_reviewId r = i) (facts_of BRIEFING_REVIEW_PUSHBACK readPushback L)"
    unfolding es_def facts_of_def by (rule read_selected) (rule fld)
  ultimately have "reviewPushbacks L i
      = take m (filter (\<lambda>r. pb_reviewId r = i) (facts_of BRIEFING_REVIEW_PUSHBACK readPushback L))"
    by simp
  with b have "b \<in> set (filter (\<lambda>r. pb_reviewId r = i) (facts_of BRIEFING_REVIEW_PUSHBACK readPushback L))"
    by (metis in_set_takeD)
  then show ?thesis by simp
qed

subsection \<open>The invariant\<close>

definition same_review :: "armed_review \<Rightarrow> armed_review \<Rightarrow> bool" where
  "same_review r r' \<longleftrightarrow> ar_briefingSha256 r = ar_briefingSha256 r' \<and> ar_repoPath r = ar_repoPath r'
     \<and> ar_chainKey r = ar_chainKey r' \<and> ar_round r = ar_round r'"

definition raises :: "armed_review \<Rightarrow> armed_review \<Rightarrow> bool" where
  "raises r r' \<longleftrightarrow> tierRank (ar_tier r) < tierRank (ar_tier r') \<and> set (ar_lenses r) \<subseteq> set (ar_lenses r')
     \<and> same_review r r'"

text \<open>The generations of a review: numbered from one, each raising the one before, over at least the lenses of its tier.\<close>

definition generations_ok :: "armed_review list \<Rightarrow> bool" where
  "generations_ok rs \<longleftrightarrow> map ar_generation rs = [1..<Suc (length rs)] \<and> sorted_wrt raises rs"

definition armed_ok :: "armed_review list \<Rightarrow> bool" where
  "armed_ok A \<longleftrightarrow> (\<forall>i. generations_ok (filter (\<lambda>r. ar_reviewId r = i) A))
     \<and> (\<forall>r\<in>set A. readable_arm r \<and> set (TIER_LENSES (ar_tier r)) \<subseteq> set (ar_lenses r))"

definition verdict_sound :: "lens_verdict \<Rightarrow> bool" where
  "verdict_sound v \<longleftrightarrow> (lv_decisive v \<longleftrightarrow> lv_aggregate v \<noteq> None)
     \<and> (lv_aggregate v = Some Changes_needed \<longrightarrow> lv_verdict v = Changes_needed)
     \<and> (lv_verdict v = Ready \<longleftrightarrow> blockingFindings (lv_findings v) = 0)
     \<and> length (lv_findings v) \<le> BRIEFING_REVIEW_FINDINGS_MAX \<and> list_all finding_ok (lv_findings v)"

text \<open>A decisive verdict ends its review: it decides the newest generation and no other verdict decides.\<close>

definition decides :: "armed_review list \<Rightarrow> lens_verdict list \<Rightarrow> lens_verdict \<Rightarrow> bool" where
  "decides A V v \<longleftrightarrow> (\<forall>r\<in>set A. ar_reviewId r = lv_reviewId v \<longrightarrow> ar_generation r \<le> lv_generation v)
     \<and> (\<forall>w\<in>set V. lv_reviewId w = lv_reviewId v \<longrightarrow> lv_decisive w \<longrightarrow> w = v)
     \<and> (lv_aggregate v = Some Ready \<longrightarrow> (\<forall>r\<in>set A. ar_reviewId r = lv_reviewId v \<longrightarrow>
          (\<forall>l\<in>set (ar_lenses r). \<exists>w\<in>set V. lv_reviewId w = lv_reviewId v \<and> lv_lens w = l \<and> lv_verdict w = Ready)))"

definition verdicts_ok :: "armed_review list \<Rightarrow> lens_verdict list \<Rightarrow> bool" where
  "verdicts_ok A V \<longleftrightarrow> (\<forall>i. distinct (map lv_lens (filter (\<lambda>v. lv_reviewId v = i) V)))
     \<and> (\<forall>v\<in>set V. verdict_sound v \<and> (lv_decisive v \<longrightarrow> decides A V v)
          \<and> (\<exists>r\<in>set A. ar_reviewId r = lv_reviewId v \<and> ar_generation r = lv_generation v))"

definition reviews_ok :: "ledger \<Rightarrow> bool" where
  "reviews_ok L \<longleftrightarrow> readable_log L \<and> armed_ok (all_armed L) \<and> verdicts_ok (all_armed L) (all_verdicts L)"

subsection \<open>What the invariant bounds\<close>

lemma tierRank_simps [simp]: "tierRank Tier_low = 0" "tierRank Tier_medium = 1" "tierRank Tier_high = 2"
  by (simp_all add: tierRank_def BRIEFING_REVIEW_TIERS_def)

lemma tierRank_less: "tierRank t < 3"
  by (cases t) simp_all

lemma generations_bound: "generations_ok rs \<Longrightarrow> length rs \<le> 3"
proof -
  assume "generations_ok rs"
  then have s: "sorted_wrt (<) (map (tierRank \<circ> ar_tier) rs)"
    unfolding generations_ok_def sorted_wrt_map by (auto elim: sorted_wrt_mono_rel [rotated] simp: raises_def)
  have "length rs = card (set (map (tierRank \<circ> ar_tier) rs))"
    using s by (metis distinct_card length_map strict_sorted_iff)
  also have "\<dots> \<le> card {..<3::nat}" by (rule card_mono) (auto simp: tierRank_less)
  finally show ?thesis by simp
qed

lemma lens_UNIV: "set BRIEFING_REVIEW_LENSES = UNIV"
proof -
  have "l \<in> set BRIEFING_REVIEW_LENSES" for l by (cases l) (simp_all add: BRIEFING_REVIEW_LENSES_def)
  then show ?thesis by auto
qed

lemma lenses_bound: "distinct (map lv_lens vs) \<Longrightarrow> length vs \<le> 5"
proof -
  assume "distinct (map lv_lens vs)"
  then have "length vs = card (set (map lv_lens vs))" by (metis distinct_card length_map)
  also have "\<dots> \<le> card (set BRIEFING_REVIEW_LENSES)"
    by (rule card_mono) (simp, simp only: lens_UNIV subset_UNIV)
  also have "\<dots> \<le> length BRIEFING_REVIEW_LENSES" by (rule card_length)
  finally show ?thesis by (simp add: BRIEFING_REVIEW_LENSES_def)
qed

lemma reviews_ok_reads:
  assumes "reviews_ok L"
  shows "armedGenerations L i = armed_of i L" and "latestArmed L i = at_last (armed_of i L)"
    and "reviewVerdicts L i = verdicts_of i L"
proof -
  have "length (armed_of i L) \<le> 200"
    using assms generations_bound [of "armed_of i L"] by (force simp: reviews_ok_def armed_ok_def)
  then show "armedGenerations L i = armed_of i L" and "latestArmed L i = at_last (armed_of i L)"
    using latestArmed_facts assms by (auto simp: reviews_ok_def)
  have "length (verdicts_of i L) \<le> 5000"
    using assms lenses_bound [of "verdicts_of i L"] by (force simp: reviews_ok_def verdicts_ok_def)
  then show "reviewVerdicts L i = verdicts_of i L"
    using reviewVerdicts_facts assms by (auto simp: reviews_ok_def)
qed

lemma armed_okD:
  assumes "armed_ok A"
  shows "generations_ok (filter (\<lambda>r. ar_reviewId r = i) A)"
    and "r \<in> set A \<Longrightarrow> readable_arm r" and "r \<in> set A \<Longrightarrow> set (TIER_LENSES (ar_tier r)) \<subseteq> set (ar_lenses r)"
  using assms by (auto simp: armed_ok_def)

lemma verdicts_okD:
  assumes "verdicts_ok A V"
  shows "distinct (map lv_lens (filter (\<lambda>v. lv_reviewId v = i) V))"
    and "v \<in> set V \<Longrightarrow> verdict_sound v" and "v \<in> set V \<Longrightarrow> lv_decisive v \<Longrightarrow> decides A V v"
    and "v \<in> set V \<Longrightarrow> \<exists>r\<in>set A. ar_reviewId r = lv_reviewId v \<and> ar_generation r = lv_generation v"
  using assms by (auto simp: verdicts_ok_def)

text \<open>The last generation has the highest number and the most lenses.\<close>

lemma generations_last:
  assumes "generations_ok rs" and "at_last rs = Some r"
  shows "ar_generation r = length rs" and "x \<in> set rs \<Longrightarrow> ar_generation x \<le> ar_generation r"
    and "x \<in> set rs \<Longrightarrow> x = r \<or> raises x r"
proof -
  from assms(2) have ne: "rs \<noteq> []" and r: "r = last rs" by (auto simp: at_last_def split: if_splits)
  have gens: "map ar_generation rs = [1..<Suc (length rs)]" using assms(1) by (simp add: generations_ok_def)
  then have "last (map ar_generation rs) = length rs" using ne by (simp add: Suc_le_eq)
  then show n: "ar_generation r = length rs" using ne r by (simp add: last_map)
  show "x \<in> set rs \<Longrightarrow> ar_generation x \<le> ar_generation r"
  proof -
    assume "x \<in> set rs"
    then have "ar_generation x \<in> set (map ar_generation rs)" by simp
    then show ?thesis unfolding gens n by auto
  qed
  have split: "rs = butlast rs @ [r]" using ne r by simp
  then have "sorted_wrt raises (butlast rs @ [r])" using assms(1) by (simp add: generations_ok_def)
  moreover have "x \<in> set rs \<Longrightarrow> x \<in> set (butlast rs) \<or> x = r"
    using split by (metis Un_iff empty_iff empty_set set_ConsD set_append)
  ultimately show "x \<in> set rs \<Longrightarrow> x = r \<or> raises x r" by (auto simp: sorted_wrt_append)
qed

subsection \<open>What keeps it\<close>

lemma armed_ok_append:
  assumes "armed_ok A" and "readable_arm r" and "set (TIER_LENSES (ar_tier r)) \<subseteq> set (ar_lenses r)"
    and "ar_generation r = Suc (length (filter (\<lambda>x. ar_reviewId x = ar_reviewId r) A))"
    and "\<And>x. x \<in> set A \<Longrightarrow> ar_reviewId x = ar_reviewId r \<Longrightarrow> raises x r"
  shows "armed_ok (A @ [r])"
proof -
  have "generations_ok (filter (\<lambda>x. ar_reviewId x = i) (A @ [r]))" for i
    using armed_okD(1) [OF assms(1), of i] assms(4,5)
    by (cases "ar_reviewId r = i") (auto simp: generations_ok_def sorted_wrt_append)
  then show ?thesis using assms(1-3) by (auto simp: armed_ok_def)
qed

lemma verdicts_ok_arm:
  assumes "verdicts_ok A V" and "\<And>v. v \<in> set V \<Longrightarrow> lv_decisive v \<Longrightarrow> lv_reviewId v \<noteq> ar_reviewId r"
  shows "verdicts_ok (A @ [r]) V"
proof -
  have "decides (A @ [r]) V v" if "v \<in> set V" "lv_decisive v" for v
    using verdicts_okD(3) [OF assms(1) that] assms(2) [OF that] unfolding decides_def by auto
  then show ?thesis using assms(1) unfolding verdicts_ok_def by auto
qed

lemma verdicts_ok_append:
  assumes ok: "verdicts_ok A V" and "verdict_sound v"
    and "\<And>w. w \<in> set V \<Longrightarrow> lv_reviewId w = lv_reviewId v \<Longrightarrow> lv_lens w \<noteq> lv_lens v"
    and "\<And>w. w \<in> set V \<Longrightarrow> lv_reviewId w = lv_reviewId v \<Longrightarrow> lv_decisive w \<Longrightarrow> \<not> lv_decisive v"
    and "lv_decisive v \<Longrightarrow> decides A (V @ [v]) v"
    and "\<exists>r\<in>set A. ar_reviewId r = lv_reviewId v \<and> ar_generation r = lv_generation v"
  shows "verdicts_ok A (V @ [v])"
proof -
  have "distinct (map lv_lens (filter (\<lambda>w. lv_reviewId w = i) (V @ [v])))" for i
    using verdicts_okD(1) [OF ok, of i] by (auto, metis assms(3))
  moreover have "decides A (V @ [v]) w" if "w \<in> set V" "lv_decisive w" for w
    using verdicts_okD(3) [OF ok that] assms(4) [OF that(1) _ that(2)] unfolding decides_def by fastforce
  ultimately show ?thesis using ok assms(2,5,6) unfolding verdicts_ok_def by auto
qed

lemma appendCustomEvent_simps [simp]:
  "lg_jobs (appendCustomEvent E k j l p L) = lg_jobs L"
  "lg_obligations (appendCustomEvent E k j l p L) = lg_obligations L"
  "lg_pipeline (appendCustomEvent E k j l p L) = lg_pipeline L"
  "lg_seq (appendCustomEvent E k j l p L) = Suc (lg_seq L)"
  by (simp_all add: appendCustomEvent_def)

lemma getJob_append [simp]: "getJob (appendCustomEvent E k j l p L) i = getJob L i"
  by (simp add: getJob_def)

definition stamped :: "env \<Rightarrow> string \<Rightarrow> string option \<Rightarrow> string option \<Rightarrow> json \<Rightarrow> ledger \<Rightarrow> event" where
  "stamped E kind jobId lens payload L = \<lparr>er_seq = Suc (lg_seq L), er_ts = en_now E, er_kind = kind, er_agentId = None,
     er_jobId = jobId, er_roundId = None, er_lens = lens, er_payload = payload\<rparr>"

lemma stamped_simps [simp]:
  "er_seq (stamped E k j l p L) = Suc (lg_seq L)" "er_kind (stamped E k j l p L) = k"
  "er_payload (stamped E k j l p L) = p" "er_ts (stamped E k j l p L) = en_now E"
  by (simp_all add: stamped_def)

lemma append_events: "lg_events (appendCustomEvent E k j l p L) = lg_events L @ [stamped E k j l p L]"
  by (simp add: appendCustomEvent_def stamped_def)

lemma facts_append:
  "facts_of kind read (appendCustomEvent E k j l p L) = facts_of kind read L
     @ (if k = kind then (case read (stamped E k j l p L) of None \<Rightarrow> [] | Some r \<Rightarrow> [r]) else [])"
  by (simp add: facts_of_def append_events split: option.split)

lemma kinds_distinct [simp]:
  "BRIEFING_REVIEW_ARMED \<noteq> BRIEFING_REVIEW_VERDICT" "BRIEFING_REVIEW_VERDICT \<noteq> BRIEFING_REVIEW_ARMED"
  "BRIEFING_REVIEW_ARMED \<noteq> BRIEFING_REVIEW_PUSHBACK"
  "BRIEFING_REVIEW_PUSHBACK \<noteq> BRIEFING_REVIEW_VERDICT" "BRIEFING_REVIEW_PUSHBACK \<noteq> BRIEFING_REVIEW_ARMED"
  "BRIEFING_REVIEW_REFUSED \<noteq> BRIEFING_REVIEW_VERDICT" "BRIEFING_REVIEW_REFUSED \<noteq> BRIEFING_REVIEW_ARMED"
  by (simp_all add: BRIEFING_REVIEW_ARMED_def BRIEFING_REVIEW_VERDICT_def BRIEFING_REVIEW_PUSHBACK_def BRIEFING_REVIEW_REFUSED_def)

text \<open>Whatever writes no armed record and no verdict.\<close>

definition review_quiet :: "ledger \<Rightarrow> ledger \<Rightarrow> bool" where
  "review_quiet L L' \<longleftrightarrow> (\<exists>es. lg_events L' = lg_events L @ es
     \<and> list_all (\<lambda>e. er_kind e \<noteq> BRIEFING_REVIEW_ARMED \<and> er_kind e \<noteq> BRIEFING_REVIEW_VERDICT) es)"

lemma review_quiet_refl [simp]: "review_quiet L L"
  by (simp add: review_quiet_def)

lemma review_quiet_trans: "review_quiet L M \<Longrightarrow> review_quiet M N \<Longrightarrow> review_quiet L N"
  by (fastforce simp: review_quiet_def)

lemma review_quiet_append: "k \<noteq> BRIEFING_REVIEW_ARMED \<Longrightarrow> k \<noteq> BRIEFING_REVIEW_VERDICT \<Longrightarrow>
    review_quiet L (appendCustomEvent E k j l p L)"
  by (simp add: review_quiet_def append_events)

lemma quiet_facts:
  assumes "review_quiet L L'"
  shows "all_armed L' = all_armed L" and "all_verdicts L' = all_verdicts L" and "readable_log L \<Longrightarrow> readable_log L'"
proof -
  from assms obtain es where es: "lg_events L' = lg_events L @ es"
    and none: "\<And>e. e \<in> set es \<Longrightarrow> er_kind e \<noteq> BRIEFING_REVIEW_ARMED \<and> er_kind e \<noteq> BRIEFING_REVIEW_VERDICT"
    by (auto simp: review_quiet_def list_all_iff)
  have "filter (\<lambda>e. 0 < er_seq e \<and> er_kind e = BRIEFING_REVIEW_ARMED) es = []"
    and "filter (\<lambda>e. 0 < er_seq e \<and> er_kind e = BRIEFING_REVIEW_VERDICT) es = []"
    using none by (auto simp: filter_empty_conv)
  then show "all_armed L' = all_armed L" and "all_verdicts L' = all_verdicts L"
    by (simp_all add: all_armed_def all_verdicts_def facts_of_def es)
  show "readable_log L \<Longrightarrow> readable_log L'"
    using none by (auto simp: readable_log_def es)
qed

lemma quiet_ok: "reviews_ok L \<Longrightarrow> review_quiet L L' \<Longrightarrow> reviews_ok L'"
  by (simp add: reviews_ok_def quiet_facts)

subsection \<open>Commission\<close>

definition armed_record :: "armed_input \<Rightarrow> nat \<Rightarrow> string \<Rightarrow> armed_review" where
  "armed_record i seq ts = armed_input.extend (armed_input.truncate i) (armed_review.fields seq ts)"

lemma armed_record_simps [simp]:
  "ar_reviewId (armed_record i s t) = ar_reviewId i" "ar_chainKey (armed_record i s t) = ar_chainKey i"
  "ar_briefingSha256 (armed_record i s t) = ar_briefingSha256 i" "ar_repoPath (armed_record i s t) = ar_repoPath i"
  "ar_tier (armed_record i s t) = ar_tier i" "ar_round (armed_record i s t) = ar_round i"
  "ar_generation (armed_record i s t) = ar_generation i" "ar_lenses (armed_record i s t) = ar_lenses i"
  "readable_arm (armed_record i s t) = readable_arm i"
  by (simp_all add: armed_record_def armed_input.defs armed_review.defs readable_arm_def)

lemma arm_facts:
  assumes ok: "reviews_ok L" and r: "readable_arm i" and lenses: "set (TIER_LENSES (ar_tier i)) \<subseteq> set (ar_lenses i)"
    and gen: "ar_generation i = Suc (length (armed_of (ar_reviewId i) L))"
    and up: "\<And>x. x \<in> set (armed_of (ar_reviewId i) L) \<Longrightarrow> tierRank (ar_tier x) < tierRank (ar_tier i)
       \<and> set (ar_lenses x) \<subseteq> set (ar_lenses i) \<and> ar_briefingSha256 x = ar_briefingSha256 i \<and> ar_repoPath x = ar_repoPath i
       \<and> ar_chainKey x = ar_chainKey i \<and> ar_round x = ar_round i"
    and undecided: "\<And>v. v \<in> set (verdicts_of (ar_reviewId i) L) \<Longrightarrow> \<not> lv_decisive v"
  shows "\<exists>L' s t. arm W i L = (L', Inr (armed_record i s t)) \<and> reviews_ok L'
     \<and> all_armed L' = all_armed L @ [armed_record i s t] \<and> all_verdicts L' = all_verdicts L"
proof -
  define L' where "L' = appendCustomEvent (rw_env W) BRIEFING_REVIEW_ARMED None None (armed_payload i) L"
  define r' where "r' = armed_record i (Suc (lg_seq L)) (en_now (rw_env W))"
  have read: "readArmed (stamped (rw_env W) BRIEFING_REVIEW_ARMED None None (armed_payload i) L) = Some r'"
    using readArmed_written [OF r, of "stamped (rw_env W) BRIEFING_REVIEW_ARMED None None (armed_payload i) L"]
    by (simp add: r'_def armed_record_def)
  then have A: "all_armed L' = all_armed L @ [r']" and V: "all_verdicts L' = all_verdicts L"
    by (simp_all add: all_armed_def all_verdicts_def L'_def facts_append)
  have "readable_log L'"
    using ok read by (auto simp: reviews_ok_def readable_log_def L'_def append_events)
  moreover have "armed_ok (all_armed L @ [r'])"
    by (rule armed_ok_append) (use ok r lenses gen up in \<open>auto simp: reviews_ok_def r'_def raises_def same_review_def\<close>)
  moreover have "verdicts_ok (all_armed L @ [r']) (all_verdicts L)"
    by (rule verdicts_ok_arm) (use ok undecided in \<open>auto simp: reviews_ok_def r'_def\<close>)
  ultimately have ok': "reviews_ok L'" by (simp add: reviews_ok_def A V)
  then have "latestArmed L' (ar_reviewId i) = Some r'"
    unfolding reviews_ok_reads(2) [OF ok'] A by (simp add: r'_def)
  then have "arm W i L = (L', Inr r')" by (simp add: arm_def Let_def L'_def)
  with ok' A V show ?thesis unfolding r'_def by blast
qed

definition world_ok :: "(string \<Rightarrow> string) \<Rightarrow> review_world \<Rightarrow> bool" where
  "world_ok sha W \<longleftrightarrow> rw_sha W = sha \<and> (\<forall>s. sha s \<noteq> [])
     \<and> (\<forall>c L. review_quiet L (fst (rw_post W c L)) \<and> lg_jobs (fst (rw_post W c L)) = lg_jobs L)"

lemma run_then_simps [simp]:
  "run_then (L, Inl e) k = (L, Inl e)"
  "run_then (L, Inr x) k = k x L"
  by (simp_all add: run_then_def)

lemma canonical_filter: "canonical_lenses (filter P BRIEFING_REVIEW_LENSES)"
  unfolding canonical_lenses_def by (rule filter_cong) auto

lemma unionLenses_facts:
  "set (unionLenses a b) = set a \<union> set b" "canonical_lenses (unionLenses a b)"
  by (auto simp: unionLenses_def canonical_filter) (use lens_UNIV in auto)

lemma tier_lenses_canonical: "canonical_lenses (TIER_LENSES t)" "TIER_LENSES t \<noteq> []"
  by (cases t; simp add: canonical_lenses_def BRIEFING_REVIEW_LENSES_def)+

lemma bounded_text_nonempty: "bounded_text 1 n s \<Longrightarrow> s \<noteq> []"
  by (auto simp: bounded_text_def)

lemma parseCommission_fields:
  assumes "parseCommissionRequest v = Inr q"
  shows "cq_repoPath q \<noteq> []" and "cq_title q \<noteq> []"
proof -
  from assms obtain raw where repo: "\<exists>s. bounded_field raw ''repoPath'' 1 BRIEFING_REVIEW_REPO_PATH_MAX = Inr s \<and> cq_repoPath q = s"
    and title: "\<exists>s. bounded_field raw ''title'' 1 BRIEFING_REVIEW_TITLE_MAX = Inr s \<and> cq_title q = s"
    unfolding parseCommissionRequest_def
    by (elim attempt_InrE) (auto split: option.split_asm json.split_asm if_split_asm)
  then show "cq_repoPath q \<noteq> []" and "cq_title q \<noteq> []"
    using bounded_text_nonempty by (auto simp: review_parse)
qed

lemma length_first_seen: "length (first_seen xs) \<le> length xs"
  by (induction xs) (simp_all, meson le_trans length_filter_le)

lemma map_filter_shorter: "length (List.map_filter f xs) \<le> length xs"
  by (induction xs) (auto split: option.split)

lemma chain_order_bound: "length (chain_order L k) \<le> 500"
proof -
  have "length (armedChain L k) \<le> length (kind_events L BRIEFING_REVIEW_ARMED False 500 ''chain_key'' k)"
    unfolding armedChain_def by (rule map_filter_shorter)
  also have "\<dots> \<le> 500" by (simp add: kind_events_window)
  finally show ?thesis
    using length_first_seen [of "map ar_reviewId (armedChain L k)"] by (simp add: chain_order_def)
qed

lemma latest_facts:
  assumes ok: "reviews_ok L" and "latestArmed L i = Some e"
  shows "e \<in> set (all_armed L)" and "ar_reviewId e = i" and "ar_generation e = length (armed_of i L)"
    and "x \<in> set (armed_of i L) \<Longrightarrow> ar_generation x \<le> ar_generation e"
    and "x \<in> set (armed_of i L) \<Longrightarrow> x = e \<or> raises x e" and "ar_generation e \<le> 3"
proof -
  have last: "at_last (armed_of i L) = Some e" using assms reviews_ok_reads(2) by simp
  from at_last_SomeD [OF this] show "e \<in> set (all_armed L)" and "ar_reviewId e = i" by auto
  have gens: "generations_ok (armed_of i L)" using ok armed_okD(1) by (simp add: reviews_ok_def)
  show "ar_generation e = length (armed_of i L)" by (rule generations_last(1) [OF gens last])
  then show "ar_generation e \<le> 3" using generations_bound [OF gens] by simp
  show "x \<in> set (armed_of i L) \<Longrightarrow> ar_generation x \<le> ar_generation e" by (rule generations_last(2) [OF gens last])
  show "x \<in> set (armed_of i L) \<Longrightarrow> x = e \<or> raises x e" by (rule generations_last(3) [OF gens last])
qed

text \<open>The decisive verdict of the newest generation is the only one there can be.\<close>

lemma decisive_newest:
  assumes ok: "reviews_ok L" and e: "latestArmed L i = Some e" and v: "v \<in> set (verdicts_of i L)" "lv_decisive v"
  shows "lv_generation v = ar_generation e" and "decisiveVerdict (reviewVerdicts L i) (ar_generation e) = Some v"
proof -
  note facts = latest_facts [OF ok e]
  have vok: "verdicts_ok (all_armed L) (all_verdicts L)" using ok by (simp add: reviews_ok_def)
  from v(1) have vin: "v \<in> set (all_verdicts L)" and vid: "lv_reviewId v = i" by auto
  have d: "decides (all_armed L) (all_verdicts L) v" by (rule verdicts_okD(3) [OF vok vin v(2)])
  then have "ar_generation e \<le> lv_generation v" using facts(1,2) vid by (auto simp: decides_def)
  moreover obtain r where "r \<in> set (armed_of i L)" "ar_generation r = lv_generation v"
    using verdicts_okD(4) [OF vok vin] vid by auto
  ultimately show g: "lv_generation v = ar_generation e" using facts(4) [of r] by auto
  define F where "F = filter (\<lambda>v. lv_decisive v \<and> lv_generation v = ar_generation e) (verdicts_of i L)"
  have only: "w = v" if "w \<in> set F" for w
    using d that vid by (auto simp: decides_def F_def)
  have "v \<in> set F" using v g by (simp add: F_def)
  then have "F \<noteq> []" by (metis empty_iff empty_set)
  then have "at_last F = Some v" using only [OF last_in_set] by (simp add: at_last_def)
  then show "decisiveVerdict (reviewVerdicts L i) (ar_generation e) = Some v"
    by (simp only: reviews_ok_reads(3) [OF ok] decisiveVerdict_def F_def)
qed

lemma undecided_iff:
  assumes ok: "reviews_ok L" and e: "latestArmed L i = Some e"
  shows "decisiveVerdict (reviewVerdicts L i) (ar_generation e) = None \<longleftrightarrow> (\<forall>v\<in>set (verdicts_of i L). \<not> lv_decisive v)"
proof
  show "\<forall>v\<in>set (verdicts_of i L). \<not> lv_decisive v" if "decisiveVerdict (reviewVerdicts L i) (ar_generation e) = None"
    using that decisive_newest(2) [OF ok e] by auto
  show "decisiveVerdict (reviewVerdicts L i) (ar_generation e) = None" if "\<forall>v\<in>set (verdicts_of i L). \<not> lv_decisive v"
    using that by (auto simp: decisiveVerdict_def reviews_ok_reads(3) [OF ok] filter_empty_conv)
qed

text \<open>The outcome of the armed part of a commission.\<close>

definition arm_outcome :: "ledger \<Rightarrow> ledger \<Rightarrow> string \<Rightarrow> string \<Rightarrow> review_tier \<Rightarrow> armed_review \<Rightarrow> bool \<Rightarrow> bool" where
  "arm_outcome L L' i chain tier armed upgraded \<longleftrightarrow> reviews_ok L' \<and> all_verdicts L' = all_verdicts L
     \<and> latestArmed L' i = Some armed \<and> tierRank tier \<le> tierRank (ar_tier armed)
     \<and> (all_armed L' = all_armed L \<and> \<not> upgraded
        \<or> all_armed L' = all_armed L @ [armed] \<and> ar_tier armed = tier \<and> (\<forall>v\<in>set (verdicts_of i L). \<not> lv_decisive v)
          \<and> (upgraded \<longleftrightarrow> armed_of i L \<noteq> [])
          \<and> (armed_of i L = [] \<longrightarrow> trailingChangesNeeded L chain < BRIEFING_REVIEW_ROUND_CAP))"

lemma commission_existing_facts:
  assumes ok: "reviews_ok L" and w: "world_ok sha W" and e: "latestArmed L i = Some e"
  shows "commission_existing W q e L = (L, Inl (refuse Review_decided (Names ''decided'' [i]) 409))
    \<or> (\<exists>L' armed u. commission_existing W q e L = (L', Inr (armed, u)) \<and> arm_outcome L L' i chain (cq_tier q) armed u)"
proof -
  note facts = latest_facts [OF ok e]
  define decided where "decided = (decisiveVerdict (reviewVerdicts L i) (ar_generation e) \<noteq> None)"
  define r where "r = raised_arm (commission_identity W q) q e"
  consider "tierRank (cq_tier q) \<le> tierRank (ar_tier e)" | "tierRank (ar_tier e) < tierRank (cq_tier q)" decided
    | "tierRank (ar_tier e) < tierRank (cq_tier q)" "\<not> decided" by linarith
  then show ?thesis
  proof cases
    case 1
    then have "commission_existing W q e L = (L, Inr (e, False))" by (simp add: commission_existing_def Let_def)
    with 1 ok e show ?thesis by (auto simp: arm_outcome_def)
  next
    case 2
    then show ?thesis using facts(2) by (simp add: commission_existing_def Let_def decided_def)
  next
    case 3
    then have run: "commission_existing W q e L = run_then (arm W r L) (\<lambda>raised L. (L, Inr (raised, True)))"
      using facts(2) by (simp add: commission_existing_def Let_def decided_def r_def)
    have undecided: "\<forall>v\<in>set (verdicts_of i L). \<not> lv_decisive v"
      using 3(2) undecided_iff [OF ok e] by (simp add: decided_def)
    have readable: "readable_arm e" using ok facts(1) armed_okD(2) by (auto simp: reviews_ok_def)
    have "\<exists>L' s t. arm W r L = (L', Inr (armed_record r s t)) \<and> reviews_ok L'
        \<and> all_armed L' = all_armed L @ [armed_record r s t] \<and> all_verdicts L' = all_verdicts L"
    proof (rule arm_facts [OF ok])
      show "readable_arm r"
        using readable facts(6) w unionLenses_facts(1) [of "ar_lenses e" "TIER_LENSES (cq_tier q)"]
        by (auto simp: readable_arm_def r_def raised_arm_def unionLenses_facts(2) safe_count_def world_ok_def
            commission_identity_def briefingReviewIdentity_def)
      show "set (TIER_LENSES (ar_tier r)) \<subseteq> set (ar_lenses r)" by (simp add: r_def raised_arm_def unionLenses_facts)
      show "ar_generation r = Suc (length (armed_of (ar_reviewId r) L))" using facts(2,3) by (simp add: r_def raised_arm_def)
      show "\<not> lv_decisive v" if "v \<in> set (verdicts_of (ar_reviewId r) L)" for v
        using that undecided facts(2) by (simp add: r_def raised_arm_def)
      fix x assume "x \<in> set (armed_of (ar_reviewId r) L)"
      then have "x = e \<or> raises x e" using facts(2,5) by (simp add: r_def raised_arm_def)
      then show "tierRank (ar_tier x) < tierRank (ar_tier r) \<and> set (ar_lenses x) \<subseteq> set (ar_lenses r)
          \<and> ar_briefingSha256 x = ar_briefingSha256 r \<and> ar_repoPath x = ar_repoPath r
          \<and> ar_chainKey x = ar_chainKey r \<and> ar_round x = ar_round r"
        using 3(1) by (auto simp: r_def raised_arm_def unionLenses_facts raises_def same_review_def)
    qed
    then obtain L' s t where arm: "arm W r L = (L', Inr (armed_record r s t))" and ok': "reviews_ok L'"
      and A: "all_armed L' = all_armed L @ [armed_record r s t]" and V: "all_verdicts L' = all_verdicts L" by blast
    have "armed_of i L \<noteq> []" using facts(1,2) by (auto simp: filter_empty_conv)
    then have "arm_outcome L L' i chain (cq_tier q) (armed_record r s t) True"
      using ok' A V undecided facts(2) reviews_ok_reads(2) [OF ok', of i]
      by (simp add: arm_outcome_def r_def raised_arm_def)
    then show ?thesis using run arm by auto
  qed
qed

lemma commission_new_facts:
  assumes ok: "reviews_ok L" and w: "world_ok sha W" and q: "cq_repoPath q \<noteq> []" "cq_title q \<noteq> []"
    and i: "i = id_reviewId (commission_identity W q)" and chain: "chain = id_chainKey (commission_identity W q)"
    and none: "latestArmed L i = None"
  shows "(\<exists>d. commission_new W q L = (L, Inl (refuse Review_round_cap d 409))
        \<and> BRIEFING_REVIEW_ROUND_CAP \<le> trailingChangesNeeded L chain)
    \<or> (\<exists>L' armed. commission_new W q L = (L', Inr (armed, False)) \<and> arm_outcome L L' i chain (cq_tier q) armed False)"
proof (cases "BRIEFING_REVIEW_ROUND_CAP \<le> trailingChangesNeeded L chain")
  case True
  then show ?thesis by (simp add: commission_new_def Let_def chain) (rule exI, rule refl)
next
  case False
  define r where "r = first_arm W (commission_identity W q) q L"
  have empty: "armed_of i L = []" using none reviews_ok_reads(2) [OF ok] by simp
  have no_verdict: "verdicts_of i L = []"
  proof (rule ccontr)
    assume "verdicts_of i L \<noteq> []"
    then obtain v where "v \<in> set (all_verdicts L)" "lv_reviewId v = i" by (auto simp: filter_empty_conv)
    moreover have "verdicts_ok (all_armed L) (all_verdicts L)" using ok by (simp add: reviews_ok_def)
    ultimately show False using verdicts_okD(4) empty by (auto simp: filter_empty_conv)
  qed
  have rid: "ar_reviewId r = i" by (simp add: r_def first_arm_def i)
  have "\<exists>L' s t. arm W r L = (L', Inr (armed_record r s t)) \<and> reviews_ok L'
      \<and> all_armed L' = all_armed L @ [armed_record r s t] \<and> all_verdicts L' = all_verdicts L"
  proof (rule arm_facts [OF ok])
    show "readable_arm r"
      using w q chain_order_bound [of L "id_chainKey (commission_identity W q)"] tier_lenses_canonical
      by (simp add: readable_arm_def r_def first_arm_def safe_count_def world_ok_def
          commission_identity_def briefingReviewIdentity_def)
    show "set (TIER_LENSES (ar_tier r)) \<subseteq> set (ar_lenses r)" by (simp add: r_def first_arm_def)
    show "ar_generation r = Suc (length (armed_of (ar_reviewId r) L))"
      unfolding rid empty by (simp add: r_def first_arm_def)
  qed (simp_all add: rid empty no_verdict)
  then obtain L' s t where arm: "arm W r L = (L', Inr (armed_record r s t))" and ok': "reviews_ok L'"
    and A: "all_armed L' = all_armed L @ [armed_record r s t]" and V: "all_verdicts L' = all_verdicts L" by blast
  have "ar_tier r = cq_tier q" by (simp add: r_def first_arm_def)
  then have "arm_outcome L L' i chain (cq_tier q) (armed_record r s t) False"
    using ok' A V rid empty no_verdict False reviews_ok_reads(2) [OF ok', of i] by (simp add: arm_outcome_def)
  moreover have "commission_new W q L = run_then (arm W r L) (\<lambda>armed L. (L, Inr (armed, False)))"
    using False by (simp add: commission_new_def Let_def chain r_def)
  ultimately show ?thesis using arm by simp
qed

definition begin_outcome :: "review_world \<Rightarrow> json \<Rightarrow> ledger \<Rightarrow> ledger \<Rightarrow> review_failure + commission_plan \<Rightarrow> bool" where
  "begin_outcome W value L L' res = (case res of
     Inl _ \<Rightarrow> L' = L
   | Inr plan \<Rightarrow> \<exists>q. parseCommissionRequest value = Inr q \<and> cp_briefing plan = cq_briefing q \<and> rw_helper W = Inr (cp_helper plan)
       \<and> arm_outcome L L' (id_reviewId (commission_identity W q)) (id_chainKey (commission_identity W q)) (cq_tier q)
           (cp_armed plan) (cp_upgraded plan))"

lemma begin_facts:
  assumes ok: "reviews_ok L" and w: "world_ok sha W" and run: "begin_commission W value L = (L', res)"
  shows "begin_outcome W value L L' res"
proof (cases "rw_enabled W")
  case False
  with run show ?thesis by (auto simp: begin_commission_def begin_outcome_def)
next
  case on: True
  show ?thesis
  proof (cases "parseCommissionRequest value")
    case (Inl e)
    with run on show ?thesis by (auto simp: begin_commission_def begin_outcome_def parsed_def)
  next
    case q: (Inr q)
    show ?thesis
    proof (cases "rw_helper W")
      case (Inl e)
      with run on q show ?thesis by (auto simp: begin_commission_def begin_outcome_def parsed_def)
    next
      case h: (Inr helper)
      define i where "i = id_reviewId (commission_identity W q)"
      define chain where "chain = id_chainKey (commission_identity W q)"
      define body where "body = (case latestArmed L i of Some existing \<Rightarrow> commission_existing W q existing L
        | None \<Rightarrow> commission_new W q L)"
      have "(\<exists>e. body = (L, Inl e)) \<or> (\<exists>M armed u. body = (M, Inr (armed, u)) \<and> arm_outcome L M i chain (cq_tier q) armed u)"
        using commission_existing_facts [OF ok w] commission_new_facts [OF ok w parseCommission_fields [OF q] i_def chain_def]
        by (cases "latestArmed L i") (simp_all add: body_def, blast+)
      moreover have "(L', res) = run_then body (\<lambda>(armed, upgraded) L.
          (L, Inr \<lparr>cp_armed = armed, cp_briefing = cq_briefing q, cp_helper = helper, cp_upgraded = upgraded\<rparr>))"
        using run on q h by (simp add: begin_commission_def parsed_def body_def i_def)
      ultimately show ?thesis using q h by (auto simp: begin_outcome_def i_def chain_def)
    qed
  qed
qed

lemma begin_ok:
  assumes "reviews_ok L" and "world_ok sha W"
  shows "reviews_ok (fst (begin_commission W value L))"
  using begin_facts [OF assms, of "value"] assms(1)
  by (cases "begin_commission W value L") (auto simp: begin_outcome_def arm_outcome_def split: sum.splits)

subsection \<open>Results\<close>

lemma other_kinds [simp]:
  "''job.obligation-settled'' \<noteq> BRIEFING_REVIEW_ARMED" "''job.obligation-settled'' \<noteq> BRIEFING_REVIEW_VERDICT"
  "''notification.resolved'' \<noteq> BRIEFING_REVIEW_ARMED" "''notification.resolved'' \<noteq> BRIEFING_REVIEW_VERDICT"
  by (simp_all add: BRIEFING_REVIEW_ARMED_def BRIEFING_REVIEW_VERDICT_def)

lemma appendEvent_quiet: "k \<noteq> BRIEFING_REVIEW_ARMED \<Longrightarrow> k \<noteq> BRIEFING_REVIEW_VERDICT \<Longrightarrow> lg_events M = lg_events L \<Longrightarrow>
    review_quiet L (appendEvent E k a j p M)"
  by (simp add: review_quiet_def appendEvent_events)

lemma card_quiet: "answer_card E row L = Inr L' \<Longrightarrow> review_quiet L L'"
  by (auto simp: answer_card_def resolveReportHandbackCard_def resolveNotificationById_def attempt_Inr_iff Let_def
      intro!: appendEvent_quiet split: option.splits if_splits)

lemma settle_quiet:
  assumes "settleObligation E i s requestId L = Inr (L', x)"
  shows "review_quiet L L'"
proof -
  from settle_InrD [OF assms] obtain row where card: "answer_card E row (settle_write E row s L) = Inr L'" by blast
  have "review_quiet L (settle_write E row s L)"
    unfolding settle_write_def write_obligation_def by (rule appendEvent_quiet) simp_all
  then show ?thesis using card_quiet [OF card] by (rule review_quiet_trans)
qed

lemma settle_report_quiet: "review_quiet L (settleLensReport W jobId seq L)"
  by (auto simp: settleLensReport_def split: sum.split option.split if_split intro: settle_quiet)

lemma settle_report_jobs: "lg_jobs (settleLensReport W jobId seq L) = lg_jobs L"
proof -
  have "lg_jobs L' = lg_jobs L" if "settleObligation E i s requestId L = Inr (L', x)" for E i s requestId L' x
    using settle_InrD [OF that] answer_card_only by (fastforce simp: card_only_def settle_write_def)
  then show ?thesis by (simp add: settleLensReport_def split: sum.split option.split if_split prod.split)
qed

lemma at_last_filter: "at_last xs = Some x \<Longrightarrow> Q x \<Longrightarrow> at_last (filter Q xs) = Some x"
proof -
  assume "at_last xs = Some x" and Q: "Q x"
  then have "xs = butlast xs @ [x]" by (auto simp: at_last_def split: if_splits)
  then have "filter Q xs = filter Q (butlast xs) @ [x]" using Q by (metis filter.simps(1,2) filter_append)
  then show ?thesis by simp
qed

lemma sha_newest:
  assumes ok: "reviews_ok L" and r: "armedByBriefingSha L sha repo = Some r"
  shows "latestArmed L (ar_reviewId r) = Some r" and "ar_briefingSha256 r = sha" and "ar_repoPath r = repo"
proof -
  define P where "P = (\<lambda>x::armed_review. ar_briefingSha256 x = sha \<and> ar_repoPath x = repo)"
  define i where "i = ar_reviewId r"
  have last: "at_last (filter P (all_armed L)) = Some r" using armedByBriefingSha_facts [OF r] by (simp add: P_def)
  then have r_in: "r \<in> set (all_armed L)" and Pr: "P r" using at_last_SomeD by fastforce+
  then show "ar_briefingSha256 r = sha" and "ar_repoPath r = repo" by (simp_all add: P_def)
  have "r \<in> set (armed_of i L)" using r_in by (simp add: i_def)
  then obtain e where e: "latestArmed L i = Some e"
    by (metis at_last_None empty_iff empty_set not_None_eq reviews_ok_reads(2) [OF ok])
  have re: "r = e \<or> raises r e" by (rule latest_facts(5) [OF ok e]) (use r_in in \<open>simp add: i_def\<close>)
  have "P x" if "x \<in> set (armed_of i L)" for x
    using latest_facts(5) [OF ok e that] re Pr by (auto simp: P_def raises_def same_review_def)
  then have "filter (\<lambda>x. ar_reviewId x = i) (filter P (all_armed L)) = armed_of i L"
    unfolding filter_filter by (intro filter_cong) auto
  then have "at_last (armed_of i L) = Some r"
    using at_last_filter [OF last, of "\<lambda>x. ar_reviewId x = i"] by (simp add: i_def)
  then show "latestArmed L (ar_reviewId r) = Some r" by (simp add: reviews_ok_reads(2) [OF ok] i_def)
qed

definition verdict_record :: "verdict_input \<Rightarrow> nat \<Rightarrow> string \<Rightarrow> lens_verdict" where
  "verdict_record v seq ts = verdict_input.extend (verdict_input.truncate v) (lens_verdict.fields seq ts)"

lemma verdict_record_simps [simp]:
  "lv_reviewId (verdict_record v s t) = lv_reviewId v" "lv_lens (verdict_record v s t) = lv_lens v"
  "lv_verdict (verdict_record v s t) = lv_verdict v" "lv_findings (verdict_record v s t) = lv_findings v"
  "lv_generation (verdict_record v s t) = lv_generation v" "lv_decisive (verdict_record v s t) = lv_decisive v"
  "lv_aggregate (verdict_record v s t) = lv_aggregate v" "lv_caught (verdict_record v s t) = lv_caught v"
  by (simp_all add: verdict_record_def verdict_input.defs lens_verdict.defs)

lemma new_verdict_simps [simp]:
  "lv_reviewId (new_verdict L armed q) = ar_reviewId armed" "lv_chainKey (new_verdict L armed q) = ar_chainKey armed"
  "lv_briefingSha256 (new_verdict L armed q) = ar_briefingSha256 armed" "lv_lens (new_verdict L armed q) = rq_lens q"
  "lv_verdict (new_verdict L armed q) = rq_verdict q" "lv_findings (new_verdict L armed q) = rq_findings q"
  "lv_round (new_verdict L armed q) = ar_round armed" "lv_generation (new_verdict L armed q) = ar_generation armed"
  "lv_aggregate (new_verdict L armed q) = result_aggregate armed (reviewVerdicts L (ar_reviewId armed)) q"
  "lv_decisive (new_verdict L armed q) \<longleftrightarrow> result_aggregate armed (reviewVerdicts L (ar_reviewId armed)) q \<noteq> None"
  by (simp_all add: new_verdict_def Let_def)

lemma caught_bound:
  assumes "\<And>v. v \<in> set vs \<Longrightarrow> length (lv_findings v) \<le> 50"
  shows "caught_in vs \<le> 250"
proof -
  have "(case latestLensVerdict vs l of None \<Rightarrow> 0 | Some v \<Rightarrow> blockingFindings (lv_findings v)) \<le> 50" for l
  proof (cases "latestLensVerdict vs l")
    case (Some v)
    then have "v \<in> set vs" using at_last_SomeD by (fastforce simp: latestLensVerdict_def)
    from assms [OF this] have "blockingFindings (lv_findings v) \<le> 50"
      unfolding blockingFindings_def by (rule le_trans [OF length_filter_le])
    with Some show ?thesis by simp
  qed simp
  then have "caught_in vs \<le> sum_list (map (\<lambda>l. 50) BRIEFING_REVIEW_LENSES)"
    unfolding caught_in_def by (intro sum_list_mono)
  then show ?thesis by (simp add: BRIEFING_REVIEW_LENSES_def)
qed

lemma caughtByRevision_bound:
  assumes ok: "reviews_ok L"
  shows "caughtByRevision L chain i \<le> 250"
proof -
  have "caught_in (reviewVerdicts L j) \<le> 250" for j
    unfolding reviews_ok_reads(3) [OF ok]
    by (rule caught_bound)
       (use ok in \<open>auto simp: reviews_ok_def verdicts_ok_def verdict_sound_def BRIEFING_REVIEW_FINDINGS_MAX_def\<close>)
  then show ?thesis by (simp add: caughtByRevision_def Let_def)
qed

lemma latestLens_None: "latestLensVerdict vs l = None \<longleftrightarrow> (\<forall>v\<in>set vs. lv_lens v \<noteq> l)"
  by (simp add: latestLensVerdict_def filter_empty_conv)

lemma latestLens_Some: "latestLensVerdict vs l = Some v \<Longrightarrow> v \<in> set vs \<and> lv_lens v = l"
  using at_last_SomeD by (fastforce simp: latestLensVerdict_def)

lemma write_verdict_facts:
  assumes ok: "reviews_ok L" and a: "latestArmed L (ar_reviewId a) = Some a"
    and fresh: "latestLensVerdict (reviewVerdicts L (ar_reviewId a)) (rq_lens q) = None"
    and sev: "rq_verdict q = Ready \<longleftrightarrow> blockingFindings (rq_findings q) = 0"
    and fs: "list_all finding_ok (rq_findings q)" "length (rq_findings q) \<le> BRIEFING_REVIEW_FINDINGS_MAX"
  shows "\<exists>s t. reviews_ok (write_verdict W a q L) \<and> all_armed (write_verdict W a q L) = all_armed L
     \<and> all_verdicts (write_verdict W a q L) = all_verdicts L @ [verdict_record (new_verdict L a q) s t]"
proof -
  define i where "i = ar_reviewId a"
  define nv where "nv = new_verdict L a q"
  define L1 where "L1 = write_verdict W a q L"
  define e where "e = stamped (rw_env W) BRIEFING_REVIEW_VERDICT (Some (lensJobId i (rq_lens q))) (Some (lens_name (rq_lens q)))
    (verdict_payload nv) L"
  define v where "v = verdict_record nv (er_seq e) (er_ts e)"
  note facts = latest_facts [OF ok a]
  have reads: "reviewVerdicts L i = verdicts_of i L" by (rule reviews_ok_reads(3) [OF ok])
  have L1: "L1 = appendCustomEvent (rw_env W) BRIEFING_REVIEW_VERDICT (Some (lensJobId i (rq_lens q)))
      (Some (lens_name (rq_lens q))) (verdict_payload nv) L"
    by (simp add: L1_def write_verdict_def nv_def i_def)
  have "readable_arm a" using ok facts(1) armed_okD(2) by (auto simp: reviews_ok_def)
  moreover have "lv_caught nv \<le> 250" using caughtByRevision_bound [OF ok] by (simp add: nv_def new_verdict_def Let_def)
  moreover have "list_all (\<lambda>f. fi_code f \<noteq> []) (rq_findings q)"
    using fs(1) by (auto simp: list_all_iff finding_ok_def)
  ultimately have "readable_verdict nv"
    by (simp add: readable_verdict_def nv_def readable_arm_def safe_count_def)
  then have read: "readVerdict e = Some v"
    using readVerdict_written [of nv e] by (simp add: e_def v_def verdict_record_def)
  have A: "all_armed L1 = all_armed L" and V: "all_verdicts L1 = all_verdicts L @ [v]"
    using read by (simp_all add: all_armed_def all_verdicts_def L1 facts_append e_def)
  have "readable_log L1" using ok read by (auto simp: reviews_ok_def readable_log_def L1 append_events e_def)
  have vok: "verdicts_ok (all_armed L) (all_verdicts L)" using ok by (simp add: reviews_ok_def)
  have undecided: "\<not> lv_decisive w" if "lv_decisive v" "w \<in> set (verdicts_of i L)" for w
    using that undecided_iff [OF ok a] unfolding i_def [symmetric]
    by (auto simp: v_def nv_def i_def result_aggregate_def split: if_splits)
  have lens_ready: "\<exists>w\<in>set (all_verdicts L @ [v]). lv_reviewId w = i \<and> lv_lens w = l \<and> lv_verdict w = Ready"
    if "lv_aggregate v = Some Ready" and r: "r \<in> set (all_armed L)" "ar_reviewId r = i" and l: "l \<in> set (ar_lenses r)" for r l
  proof -
    have agg: "rq_verdict q = Ready"
      and every: "everyLensReady (verdicts_of i L) (filter (\<lambda>l. l \<noteq> rq_lens q) (ar_lenses a))"
      using that(1) by (auto simp: v_def nv_def result_aggregate_def reads i_def [symmetric] split: if_splits)
         (metis review_verdict.exhaust)
    have "l \<in> set (ar_lenses a)" using facts(5) [of r] r l by (auto simp: raises_def i_def)
    show ?thesis
    proof (cases "l = rq_lens q")
      case True
      then show ?thesis using agg by (auto simp: v_def nv_def i_def)
    next
      case False
      with every \<open>l \<in> set (ar_lenses a)\<close> obtain w where "latestLensVerdict (verdicts_of i L) l = Some w" "lv_verdict w = Ready"
        by (auto simp: everyLensReady_def list_all_iff)
      then show ?thesis using latestLens_Some by fastforce
    qed
  qed
  have vid: "lv_reviewId v = i" "lv_generation v = ar_generation a" by (simp_all add: v_def nv_def i_def)
  have "verdicts_ok (all_armed L) (all_verdicts L @ [v])"
  proof (rule verdicts_ok_append [OF vok])
    show "verdict_sound v"
      using sev fs by (auto simp: verdict_sound_def v_def nv_def result_aggregate_def split: if_splits)
    show "lv_lens w \<noteq> lv_lens v" if "w \<in> set (all_verdicts L)" "lv_reviewId w = lv_reviewId v" for w
      using that fresh by (auto simp: v_def nv_def latestLens_None reads [unfolded i_def])
    show "\<not> lv_decisive v" if "w \<in> set (all_verdicts L)" "lv_reviewId w = lv_reviewId v" "lv_decisive w" for w
      using that undecided [of w] vid by auto
    show "\<exists>r\<in>set (all_armed L). ar_reviewId r = lv_reviewId v \<and> ar_generation r = lv_generation v"
      using facts(1) by (auto simp: v_def nv_def)
    assume d: "lv_decisive v"
    show "decides (all_armed L) (all_verdicts L @ [v]) v"
      unfolding decides_def vid
      using facts(4) undecided [OF d] lens_ready by (auto simp: i_def)
  qed
  then have "reviews_ok L1" using ok \<open>readable_log L1\<close> by (simp add: reviews_ok_def A V)
  with A V show ?thesis unfolding L1_def v_def nv_def by blast
qed

lemma result_target_InrD:
  assumes "result_target q L = (M, Inr (a, reviewed))"
  shows "M = L" and "armedByBriefingSha L (rq_briefingSha256 q) (rq_repoPath q) = Some a" and "rq_lens q \<in> set (ar_lenses a)"
    and "rq_jobId q = lensJobId (ar_reviewId a) (rq_lens q)"
    and "\<exists>job. getJob L (lensJobId (ar_reviewId a) (rq_lens q)) = Some job
       \<and> reviewedBriefing (jb_briefing job) (ar_reviewId a) = Some reviewed"
  using assms by (auto simp: result_target_def Let_def split: option.split_asm if_split_asm)

text \<open>The announced verdict, then the settled report of the lens job.\<close>

definition announced :: "review_world \<Rightarrow> armed_review \<Rightarrow> result_request \<Rightarrow> ledger \<Rightarrow> unit review_run" where
  "announced W a q L = (case lv_aggregate (new_verdict L a q) of
     None \<Rightarrow> (write_verdict W a q L, Inr ())
   | Some g \<Rightarrow> announce W a g (lv_caught (new_verdict L a q)) (write_verdict W a q L))"

lemma accept_run:
  "accept_result W a q L = (case announced W a q L of
     (M, Inl e) \<Rightarrow> (M, Inl e)
   | (M, Inr u) \<Rightarrow>
       let L' = settleLensReport W (lensJobId (ar_reviewId a) (rq_lens q)) (lg_seq (write_verdict W a q L)) M in
       (L', Inr (resultView L' a (rq_lens q) (rq_verdict q) (lv_aggregate (new_verdict L a q))
          (lv_decisive (new_verdict L a q)) (lv_caught (new_verdict L a q)))))"
  by (simp only: accept_result_def announced_def run_then_def Let_def)

lemma announced_quiet:
  assumes "world_ok sha W"
  shows "review_quiet (write_verdict W a q L) (fst (announced W a q L))"
    and "lg_jobs (fst (announced W a q L)) = lg_jobs L"
proof -
  have post: "review_quiet M (fst (announce W a g c M)) \<and> lg_jobs (fst (announce W a g c M)) = lg_jobs M" for g c M
  proof -
    have "fst (announce W a g c M) = fst (rw_post W (announce_card M a g c) M)"
      by (simp add: announce_def split: prod.split sum.split)
    then show ?thesis using assms by (simp add: world_ok_def)
  qed
  have jobs: "lg_jobs (write_verdict W a q L) = lg_jobs L" by (simp add: write_verdict_def)
  show "review_quiet (write_verdict W a q L) (fst (announced W a q L))"
    unfolding announced_def by (cases "lv_aggregate (new_verdict L a q)") (simp_all del: new_verdict_simps add: post)
  show "lg_jobs (fst (announced W a q L)) = lg_jobs L"
    unfolding announced_def by (cases "lv_aggregate (new_verdict L a q)") (simp_all del: new_verdict_simps add: post jobs)
qed

lemma accept_quiet:
  assumes "world_ok sha W"
  shows "review_quiet (write_verdict W a q L) (fst (accept_result W a q L))"
    and "lg_jobs (fst (accept_result W a q L)) = lg_jobs L"
proof -
  obtain M r where an: "announced W a q L = (M, r)" by (cases "announced W a q L")
  have out: "fst (accept_result W a q L) = M \<or>
      (\<exists>jobId seq. fst (accept_result W a q L) = settleLensReport W jobId seq M)"
    unfolding accept_run an by (cases r) (auto simp: Let_def)
  note an_facts = announced_quiet [OF assms, of a q L, unfolded an, simplified]
  show "review_quiet (write_verdict W a q L) (fst (accept_result W a q L))"
    using out an_facts(1) review_quiet_trans [OF an_facts(1) settle_report_quiet] by auto
  show "lg_jobs (fst (accept_result W a q L)) = lg_jobs L"
    using out an_facts(2) by (auto simp: settle_report_jobs)
qed

text \<open>A result is refused, converges on the one its lens gave before, or is accepted.\<close>

definition converges :: "result_request \<Rightarrow> ledger \<Rightarrow> armed_review \<Rightarrow> string \<Rightarrow> lens_verdict \<Rightarrow> bool" where
  "converges q L a reviewed existing \<longleftrightarrow> result_target q L = (L, Inr (a, reviewed))
     \<and> assertFindingEvidence (rq_findings q) (rq_verdict q) reviewed = Inr ()
     \<and> latestLensVerdict (reviewVerdicts L (ar_reviewId a)) (rq_lens q) = Some existing
     \<and> lv_verdict existing = rq_verdict q
     \<and> canonicalFindings (lv_findings existing) = canonicalFindings (rq_findings q)"

lemma converges_result:
  "parseResultRequest json = Inr q \<Longrightarrow> converges q L a reviewed existing \<Longrightarrow>
   submitResult W json L = (L, Inr (resultView L a (rq_lens q) (rq_verdict q) (lv_aggregate existing)
     (lv_decisive existing) (lv_caught existing)))"
  by (simp add: submitResult_def parsed_def submit_request_def converges_def)

lemma submit_cases:
  assumes "submitResult W json L = (L', res)"
  obtains (refused) e where "L' = L" "res = Inl e"
  | (converged) q a reviewed existing where "parseResultRequest json = Inr q" "converges q L a reviewed existing" "L' = L"
  | (accepted) q a reviewed where "parseResultRequest json = Inr q" "result_target q L = (L, Inr (a, reviewed))"
      "assertFindingEvidence (rq_findings q) (rq_verdict q) reviewed = Inr ()"
      "latestLensVerdict (reviewVerdicts L (ar_reviewId a)) (rq_lens q) = None" "accept_result W a q L = (L', res)"
proof (cases "parseResultRequest json")
  case (Inl e)
  with assms have "L' = L \<and> (\<exists>e. res = Inl e)" by (auto simp: submitResult_def parsed_def)
  then show ?thesis using refused by blast
next
  case q: (Inr q)
  obtain M t where t: "result_target q L = (M, t)" by (cases "result_target q L")
  then have M: "M = L" by (simp add: result_target_def)
  show ?thesis
  proof (cases t)
    case (Inl e)
    with assms q t M have "L' = L \<and> (\<exists>e. res = Inl e)" by (auto simp: submitResult_def parsed_def submit_request_def)
    then show ?thesis using refused by blast
  next
    case (Inr ar)
    obtain a reviewed where ar: "ar = (a, reviewed)" by (cases ar)
    show ?thesis
    proof (cases "assertFindingEvidence (rq_findings q) (rq_verdict q) reviewed")
      case (Inl e)
      with assms q t M Inr ar have "L' = L \<and> (\<exists>e. res = Inl e)"
        by (auto simp: submitResult_def parsed_def submit_request_def)
      then show ?thesis using refused by blast
    next
      case ev: (Inr u)
      show ?thesis
      proof (cases "latestLensVerdict (reviewVerdicts L (ar_reviewId a)) (rq_lens q)")
        case None
        with assms q t M Inr ar ev show ?thesis
          by (intro accepted [of q a reviewed]) (simp_all add: submitResult_def parsed_def submit_request_def)
      next
        case (Some existing)
        show ?thesis
        proof (cases "converges q L a reviewed existing")
          case True
          with assms converges_result [OF q True, of W] q show ?thesis by (intro converged) simp_all
        next
          case False
          with assms q t M Inr ar ev Some have "L' = L \<and> (\<exists>e. res = Inl e)"
            by (auto simp: submitResult_def parsed_def submit_request_def converges_def split: if_split_asm)
          then show ?thesis using refused by blast
        qed
      qed
    qed
  qed
qed

lemma accepted_facts:
  assumes ok: "reviews_ok L" and q: "parseResultRequest json = Inr q" and t: "result_target q L = (L, Inr (a, reviewed))"
    and ev: "assertFindingEvidence (rq_findings q) (rq_verdict q) reviewed = Inr ()"
    and fresh: "latestLensVerdict (reviewVerdicts L (ar_reviewId a)) (rq_lens q) = None"
  shows "\<exists>s t. reviews_ok (write_verdict W a q L) \<and> all_armed (write_verdict W a q L) = all_armed L
     \<and> all_verdicts (write_verdict W a q L) = all_verdicts L @ [verdict_record (new_verdict L a q) s t]"
proof (rule write_verdict_facts [OF ok _ fresh])
  show "latestArmed L (ar_reviewId a) = Some a" by (rule sha_newest(1) [OF ok result_target_InrD(2) [OF t]])
  show "rq_verdict q = Ready \<longleftrightarrow> blockingFindings (rq_findings q) = 0"
    using ev evidence_iff by blast
  show "list_all finding_ok (rq_findings q)" and "length (rq_findings q) \<le> BRIEFING_REVIEW_FINDINGS_MAX"
    using parseResultRequest_ok [OF q] by (simp_all add: result_ok_def)
qed

lemma submit_ok:
  assumes ok: "reviews_ok L" and w: "world_ok sha W"
  shows "reviews_ok (fst (submitResult W json L))"
proof -
  obtain L' res where run: "submitResult W json L = (L', res)" by (cases "submitResult W json L")
  from run have "reviews_ok L'"
  proof (cases rule: submit_cases)
    case (refused e)
    with ok show ?thesis by simp
  next
    case converged
    with ok show ?thesis by simp
  next
    case (accepted q a reviewed)
    then show ?thesis
      using quiet_ok [OF _ accept_quiet(1) [OF w, of a q L]] accepted_facts [OF ok accepted(1-4), of W] by fastforce
  qed
  then show ?thesis by (simp add: run)
qed

lemma push_back_quiet: "review_quiet L (fst (pushback_review W json L))"
  by (simp add: pushback_review_def push_back_def parsed_def Let_def review_quiet_append
      split: sum.split option.split if_split)

lemma admit_quiet: "review_quiet L (fst (admitDispatch W claim L))"
  by (simp add: admitDispatch_def review_quiet_append split: option.split review_gate_result.split)

subsection \<open>Reachable ledgers\<close>

text \<open>
  The steps of the service over a ledger other parts write too: a commission up to its first await (what follows
  only reads and dispatches), a result, a push-back, an admission, refused or not, in any world; and whatever
  writes no armed record and no verdict.
\<close>

inductive review_step :: "(string \<Rightarrow> string) \<Rightarrow> ledger \<Rightarrow> ledger \<Rightarrow> bool" for sha :: "string \<Rightarrow> string" where
  commissioned: "world_ok sha W \<Longrightarrow> review_step sha L (fst (begin_commission W json L))"
| submitted: "world_ok sha W \<Longrightarrow> review_step sha L (fst (submitResult W json L))"
| pushed_back: "world_ok sha W \<Longrightarrow> review_step sha L (fst (pushback_review W json L))"
| asked: "world_ok sha W \<Longrightarrow> review_step sha L (fst (admitDispatch W claim L))"
| elsewhere: "review_quiet L L' \<Longrightarrow> review_step sha L L'"

definition no_reviews :: "ledger \<Rightarrow> bool" where
  "no_reviews L \<longleftrightarrow> (\<forall>e\<in>set (lg_events L). er_kind e \<noteq> BRIEFING_REVIEW_ARMED \<and> er_kind e \<noteq> BRIEFING_REVIEW_VERDICT)"

abbreviation reviews_reached :: "(string \<Rightarrow> string) \<Rightarrow> ledger \<Rightarrow> bool" where
  "reviews_reached sha \<equiv> reach no_reviews (review_step sha)"

lemma review_step_ok: "review_step sha L L' \<Longrightarrow> reviews_ok L \<Longrightarrow> reviews_ok L'"
  by (induction rule: review_step.induct)
     (simp_all add: begin_ok submit_ok quiet_ok [OF _ push_back_quiet] quiet_ok [OF _ admit_quiet] quiet_ok)

lemma no_reviews_ok: "no_reviews L \<Longrightarrow> reviews_ok L"
proof -
  assume none: "no_reviews L"
  then have "all_armed L = []" "all_verdicts L = []"
    by (auto simp: all_armed_def all_verdicts_def facts_of_def no_reviews_def filter_empty_conv
        intro!: arg_cong [of _ "[]" "List.map_filter _"])
  with none show ?thesis
    by (auto simp: reviews_ok_def readable_log_def no_reviews_def armed_ok_def verdicts_ok_def generations_ok_def)
qed

interpretation reviews: invariant_system no_reviews "review_step sha" reviews_ok for sha
  by unfold_locales (auto intro: no_reviews_ok review_step_ok)

text \<open>A whole commission is its armed part followed by what the dispatcher does.\<close>

lemma dispatch_each_steps:
  assumes "\<And>order M. review_quiet M (fst (rw_dispatch W order M))"
  shows "review_quiet L (fst (dispatch_each W a b h lenses d L))"
  using assms by (induction lenses arbitrary: d L)
    (auto split: prod.split sum.split intro: review_quiet_trans, metis fst_conv, metis fst_conv review_quiet_trans)

lemma commission_steps:
  assumes w: "world_ok sha W" and d: "\<And>order M. review_quiet M (fst (rw_dispatch W order M))"
  shows "(review_step sha)\<^sup>*\<^sup>* L (fst (commission_review W json L))"
proof -
  obtain M r where b: "begin_commission W json L = (M, r)" by (cases "begin_commission W json L")
  have first: "review_step sha L M" using commissioned [OF w, of L json] by (simp add: b)
  show ?thesis
  proof (cases r)
    case (Inl e)
    with first b show ?thesis by (simp add: commission_review_def r_into_rtranclp)
  next
    case (Inr plan)
    obtain N s where dl: "dispatchLenses W (cp_armed plan) (cp_briefing plan) (cp_helper plan) M = (N, s)"
      by (cases "dispatchLenses W (cp_armed plan) (cp_briefing plan) (cp_helper plan) M")
    have "review_quiet M N"
      using dispatch_each_steps [OF d, of M "cp_armed plan" "cp_briefing plan" "cp_helper plan" "ar_lenses (cp_armed plan)" False]
        dl by (simp add: dispatchLenses_def)
    then have "review_step sha M N" by (rule elsewhere)
    moreover have "fst (commission_review W json L) = N"
      using b Inr dl by (cases s) (simp_all add: commission_review_def)
    ultimately show ?thesis using first by (meson converse_rtranclp_into_rtranclp r_into_rtranclp)
  qed
qed

subsection \<open>Properties\<close>

lemma reads_in_facts:
  assumes "reviews_ok L"
  shows "r \<in> set (armedGenerations L i) \<longleftrightarrow> r \<in> set (all_armed L) \<and> ar_reviewId r = i"
    and "v \<in> set (reviewVerdicts L i) \<longleftrightarrow> v \<in> set (all_verdicts L) \<and> lv_reviewId v = i"
  by (auto simp: reviews_ok_reads [OF assms])

lemma ready_lenses:
  assumes ok: "reviews_ok L" and v: "v \<in> set (reviewVerdicts L i)" "lv_aggregate v = Some Ready"
    and r: "r \<in> set (armedGenerations L i)" and l: "l \<in> set (ar_lenses r)"
  shows "\<exists>w\<in>set (reviewVerdicts L i). lv_lens w = l \<and> lv_verdict w = Ready \<and> blockingFindings (lv_findings w) = 0"
proof -
  have vok: "verdicts_ok (all_armed L) (all_verdicts L)" using ok by (simp add: reviews_ok_def)
  have vin: "v \<in> set (all_verdicts L)" "lv_reviewId v = i" using v(1) reads_in_facts(2) [OF ok] by auto
  then have "decides (all_armed L) (all_verdicts L) v"
    using verdicts_okD(2,3) [OF vok vin(1)] v(2) by (simp add: verdict_sound_def)
  with v(2) r l vin(2) obtain w where w: "w \<in> set (all_verdicts L)" "lv_reviewId w = i" "lv_lens w = l" "lv_verdict w = Ready"
    by (simp add: decides_def reads_in_facts(1) [OF ok]) blast
  then have "blockingFindings (lv_findings w) = 0" using verdicts_okD(2) [OF vok w(1)] by (simp add: verdict_sound_def)
  with w reads_in_facts(2) [OF ok] show ?thesis by blast
qed

lemma one_decides:
  assumes ok: "reviews_ok L"
  shows "length (filter lv_decisive (reviewVerdicts L i)) \<le> 1"
proof -
  have vok: "verdicts_ok (all_armed L) (all_verdicts L)" using ok by (simp add: reviews_ok_def)
  have same: "v = w" if "v \<in> set (filter lv_decisive (verdicts_of i L))" "w \<in> set (filter lv_decisive (verdicts_of i L))" for v w
    using that verdicts_okD(3) [OF vok] by (auto simp: decides_def)
  have "distinct (verdicts_of i L)" using verdicts_okD(1) [OF vok, of i] by (simp add: distinct_map)
  then have "length (filter lv_decisive (verdicts_of i L)) = card (set (filter lv_decisive (verdicts_of i L)))"
    by (simp only: distinct_card distinct_filter)
  also have "\<dots> \<le> 1" by (rule card_le_Suc0_iff_eq [THEN iffD2, folded One_nat_def]) (use same in blast)+
  finally show ?thesis by (simp add: reviews_ok_reads(3) [OF ok])
qed

text \<open>C6. In every reachable ledger the generations of a review are numbered from one without a gap, at most three, each
  raising the tier over at least the lenses before; each lens has reported at most once and at most one verdict
  decides the review; and a READY decision means that every lens of every tier the review was armed at reported
  READY without a blocking finding.\<close>

theorem review_reachable:
  assumes "reviews_reached sha L"
  shows "map ar_generation (armedGenerations L i) = [1..<Suc (length (armedGenerations L i))]
    \<and> length (armedGenerations L i) \<le> 3 \<and> sorted_wrt raises (armedGenerations L i)
    \<and> distinct (map lv_lens (reviewVerdicts L i)) \<and> length (filter lv_decisive (reviewVerdicts L i)) \<le> 1
    \<and> (\<forall>v\<in>set (reviewVerdicts L i). lv_aggregate v = Some Ready \<longrightarrow>
        (\<forall>r\<in>set (armedGenerations L i). \<forall>l\<in>set (TIER_LENSES (ar_tier r)). \<exists>w\<in>set (reviewVerdicts L i).
           lv_lens w = l \<and> lv_verdict w = Ready \<and> blockingFindings (lv_findings w) = 0))"
proof -
  have ok: "reviews_ok L" by (rule reviews.reach_inv [OF assms])
  then have aok: "armed_ok (all_armed L)" and vok: "verdicts_ok (all_armed L) (all_verdicts L)"
    by (simp_all add: reviews_ok_def)
  have gens: "generations_ok (armedGenerations L i)"
    unfolding reviews_ok_reads(1) [OF ok] by (rule armed_okD(1) [OF aok])
  have lenses: "distinct (map lv_lens (reviewVerdicts L i))"
    unfolding reviews_ok_reads(3) [OF ok] by (rule verdicts_okD(1) [OF vok])
  have tier: "set (TIER_LENSES (ar_tier r)) \<subseteq> set (ar_lenses r)" if "r \<in> set (armedGenerations L i)" for r
    using that armed_okD(3) [OF aok] reads_in_facts(1) [OF ok] by blast
  have "\<exists>w\<in>set (reviewVerdicts L i). lv_lens w = l \<and> lv_verdict w = Ready \<and> blockingFindings (lv_findings w) = 0"
    if "v \<in> set (reviewVerdicts L i)" "lv_aggregate v = Some Ready" "r \<in> set (armedGenerations L i)"
      "l \<in> set (TIER_LENSES (ar_tier r))" for v r l
    using ready_lenses [OF ok that(1-3)] tier [OF that(3)] that(4) by blast
  with gens generations_bound [OF gens] lenses one_decides [OF ok] show ?thesis
    unfolding generations_ok_def by blast
qed

text \<open>What a step may add to the facts: no armed record of a decided review, and nothing is taken away.\<close>

definition facts_grow :: "ledger \<Rightarrow> ledger \<Rightarrow> bool" where
  "facts_grow L L' \<longleftrightarrow> (\<exists>A V. all_armed L' = all_armed L @ A \<and> all_verdicts L' = all_verdicts L @ V
     \<and> (\<forall>r\<in>set A. \<forall>v\<in>set (all_verdicts L). lv_reviewId v = ar_reviewId r \<longrightarrow> \<not> lv_decisive v))"

lemma quiet_grow: "review_quiet L L' \<Longrightarrow> facts_grow L L'"
  by (simp add: facts_grow_def quiet_facts)

lemma facts_grow_trans: "facts_grow L M \<Longrightarrow> facts_grow M N \<Longrightarrow> facts_grow L N"
proof -
  assume "facts_grow L M" and "facts_grow M N"
  then obtain A V B U where M: "all_armed M = all_armed L @ A" "all_verdicts M = all_verdicts L @ V"
      "\<forall>r\<in>set A. \<forall>v\<in>set (all_verdicts L). lv_reviewId v = ar_reviewId r \<longrightarrow> \<not> lv_decisive v"
    and N: "all_armed N = all_armed M @ B" "all_verdicts N = all_verdicts M @ U"
      "\<forall>r\<in>set B. \<forall>v\<in>set (all_verdicts M). lv_reviewId v = ar_reviewId r \<longrightarrow> \<not> lv_decisive v"
    unfolding facts_grow_def by blast
  have "\<forall>r\<in>set (A @ B). \<forall>v\<in>set (all_verdicts L). lv_reviewId v = ar_reviewId r \<longrightarrow> \<not> lv_decisive v"
    using M(2,3) N(3) by auto
  moreover have "all_armed N = all_armed L @ (A @ B)" and "all_verdicts N = all_verdicts L @ (V @ U)"
    using M(1,2) N(1,2) by simp_all
  ultimately show ?thesis unfolding facts_grow_def by blast
qed

lemma begin_grow:
  assumes ok: "reviews_ok L" and w: "world_ok sha W"
  shows "facts_grow L (fst (begin_commission W json L))"
proof -
  obtain L' res where run: "begin_commission W json L = (L', res)" by (cases "begin_commission W json L")
  have "facts_grow L L'"
  proof (cases res)
    case (Inl e)
    then show ?thesis using begin_facts [OF ok w run] quiet_grow [OF review_quiet_refl] by (simp add: begin_outcome_def)
  next
    case (Inr plan)
    then obtain q where out: "arm_outcome L L' (id_reviewId (commission_identity W q)) (id_chainKey (commission_identity W q))
        (cq_tier q) (cp_armed plan) (cp_upgraded plan)"
      using begin_facts [OF ok w run] by (auto simp: begin_outcome_def)
    then have "ar_reviewId (cp_armed plan) = id_reviewId (commission_identity W q)"
      using latest_facts(2) by (auto simp: arm_outcome_def)
    with out show ?thesis by (auto simp: arm_outcome_def facts_grow_def)
  qed
  then show ?thesis by (simp add: run)
qed

lemma submit_grow:
  assumes ok: "reviews_ok L" and w: "world_ok sha W"
  shows "facts_grow L (fst (submitResult W json L))"
proof -
  obtain L' res where run: "submitResult W json L = (L', res)" by (cases "submitResult W json L")
  from run have "facts_grow L L'"
  proof (cases rule: submit_cases)
    case (refused e)
    then show ?thesis by (simp add: facts_grow_def)
  next
    case converged
    then show ?thesis by (simp add: facts_grow_def)
  next
    case (accepted q a reviewed)
    have "facts_grow L (write_verdict W a q L)"
      using accepted_facts [OF ok accepted(1-4), of W] by (auto simp: facts_grow_def)
    then show ?thesis
      using quiet_grow [OF accept_quiet(1) [OF w, of a q L]] accepted(5) by (auto intro: facts_grow_trans)
  qed
  then show ?thesis by (simp add: run)
qed

lemma review_step_grow: "review_step sha L L' \<Longrightarrow> reviews_ok L \<Longrightarrow> facts_grow L L'"
  by (induction rule: review_step.induct)
     (simp_all add: begin_grow submit_grow quiet_grow [OF push_back_quiet] quiet_grow [OF admit_quiet] quiet_grow)

lemma review_steps_grow:
  assumes "(review_step sha)\<^sup>*\<^sup>* L L'" and "reviews_ok L"
  shows "facts_grow L L' \<and> reviews_ok L'"
  using assms
proof (induction rule: rtranclp_induct)
  case base
  then show ?case by (simp add: quiet_grow)
next
  case (step M N)
  then show ?case using review_step_grow review_step_ok facts_grow_trans by blast
qed

text \<open>C17. A decided review is final: whatever happens later, its decisive verdict stays the one the service reads, and
  the review is never armed again.\<close>

theorem review_final:
  assumes "reviews_reached sha L" and "(review_step sha)\<^sup>*\<^sup>* L L'"
    and v: "v \<in> set (reviewVerdicts L i)" "lv_decisive v"
  shows "decisiveVerdict (reviewVerdicts L' i) (lv_generation v) = Some v \<and> armedGenerations L' i = armedGenerations L i"
proof -
  have ok: "reviews_ok L" by (rule reviews.reach_inv [OF assms(1)])
  from review_steps_grow [OF assms(2) ok] obtain A V where A: "all_armed L' = all_armed L @ A"
    and V: "all_verdicts L' = all_verdicts L @ V" and ok': "reviews_ok L'"
    and closed: "\<forall>r\<in>set A. \<forall>v\<in>set (all_verdicts L). lv_reviewId v = ar_reviewId r \<longrightarrow> \<not> lv_decisive v"
    unfolding facts_grow_def by blast
  have vin: "v \<in> set (all_verdicts L)" "lv_reviewId v = i" using v(1) reads_in_facts(2) [OF ok] by auto
  then have "filter (\<lambda>r. ar_reviewId r = i) A = []" using closed v(2) by (auto simp: filter_empty_conv)
  then have same: "armed_of i L' = armed_of i L" by (simp add: A)
  have "verdicts_ok (all_armed L) (all_verdicts L)" using ok by (simp add: reviews_ok_def)
  then obtain r where "r \<in> set (armed_of i L')" using verdicts_okD(4) vin same by fastforce
  then obtain e where e: "latestArmed L' i = Some e"
    by (metis at_last_None empty_iff empty_set not_None_eq reviews_ok_reads(2) [OF ok'])
  have "v \<in> set (verdicts_of i L')" using vin by (simp add: V)
  with decisive_newest [OF ok' e this v(2)] same show ?thesis
    by (simp add: reviews_ok_reads(1) [OF ok] reviews_ok_reads(1) [OF ok'])
qed

lemma gate_admitted:
  assumes "briefingReviewGate sha g = Gate_admits p" and "gi_exact g = Some e" and "tierEnforcedAt (ar_tier e) (gi_stage g)"
  shows "gi_exactVerdict g = Some Ready \<and> p = Some (provenance_of e (Claimed Ready) None)
    \<or> (\<exists>b. gi_exactPushback g = Some b \<and> p = Some (provenance_of e Pushed_back (Some (pb_reason b))))"
proof (cases "gi_requested g")
  case (Some requested)
  with assms have "gi_exactVerdict g = Some (rp_verdict requested)" "rp_verdict requested \<noteq> Changes_needed"
    "p = Some (provenance_of e (Claimed (rp_verdict requested)) None)"
    by (auto simp: briefingReviewGate_def gate_requested_def Let_def refused_def split: if_split_asm)
  then show ?thesis by (cases "rp_verdict requested") auto
next
  case None
  have "gi_stage g \<noteq> Stage_1" using assms(3) by (auto simp: tierEnforcedAt_def)
  with None assms show ?thesis
    by (auto simp: briefingReviewGate_def gate_unrequested_def Let_def refused_def split: if_split_asm option.split_asm)
qed

text \<open>C4. At an enforced tier the gate admits a dispatch of a reviewed briefing only with provenance: either every lens
  of the tier reported READY without a blocking finding, or a push-back with its reason is on record for the
  newest generation. An admission writes nothing.\<close>

theorem gate_soundness:
  assumes "reviews_reached sha L" and "rw_enabled W"
    and exact: "latestArmed L (rw_sha W (dc_briefing claim @ nul @ dc_repoPath claim)) = Some exact"
    and enforced: "tierEnforcedAt (ar_tier exact) (rw_stage W)"
    and run: "admitDispatch W claim L = (L', Inr p)"
  shows "L' = L \<and> (\<exists>q. p = Some q \<and> pv_reviewId q = ar_reviewId exact \<and> pv_generation q = ar_generation exact
    \<and> (pv_verdict q = Claimed Ready
        \<and> (\<forall>l\<in>set (TIER_LENSES (ar_tier exact)). \<exists>v\<in>set (reviewVerdicts L (ar_reviewId exact)).
             lv_lens v = l \<and> lv_verdict v = Ready \<and> blockingFindings (lv_findings v) = 0)
      \<or> pv_verdict q = Pushed_back
        \<and> (\<exists>b\<in>set (reviewPushbacks L (ar_reviewId exact)). pb_generation b = ar_generation exact
             \<and> pv_pushbackReason q = Some (pb_reason b))))"
proof -
  have ok: "reviews_ok L" by (rule reviews.reach_inv [OF assms(1)])
  define i where "i = ar_reviewId exact"
  define g where "g = claim_view W claim L"
  from run assms(2) have admits: "briefingReviewGate (rw_sha W) g = Gate_admits p" and L': "L' = L"
    by (auto simp: admitDispatch_def evaluateDispatch_def g_def split: review_gate_result.split_asm)
  have ge: "gi_exact g = Some exact" and stage: "gi_stage g = rw_stage W"
    using exact by (simp_all add: g_def claim_view_def Let_def briefingReviewIdentity_def)
  have verdict: "gi_exactVerdict g = Option.bind (decisiveVerdict (reviewVerdicts L i) (ar_generation exact)) lv_aggregate"
    and push: "gi_exactPushback g = at_last (filter (\<lambda>r. pb_generation r = ar_generation exact) (reviewPushbacks L i))"
    using exact by (simp_all add: g_def claim_view_def Let_def briefingReviewIdentity_def i_def)
  have armed: "exact \<in> set (armedGenerations L i)"
    using latest_facts(1) [OF ok exact] by (simp add: reads_in_facts(1) [OF ok] i_def)
  from gate_admitted [OF admits ge] enforced stage
  consider "gi_exactVerdict g = Some Ready" "p = Some (provenance_of exact (Claimed Ready) None)"
    | b where "gi_exactPushback g = Some b" "p = Some (provenance_of exact Pushed_back (Some (pb_reason b)))" by auto
  then show ?thesis
  proof cases
    case 1
    then obtain v where v: "decisiveVerdict (reviewVerdicts L i) (ar_generation exact) = Some v" "lv_aggregate v = Some Ready"
      using verdict by (auto simp: bind_eq_Some_conv)
    then have "v \<in> set (reviewVerdicts L i)" using at_last_SomeD by (fastforce simp: decisiveVerdict_def)
    moreover have "set (TIER_LENSES (ar_tier exact)) \<subseteq> set (ar_lenses exact)"
      using ok armed armed_okD(3) reads_in_facts(1) [OF ok] by (auto simp: reviews_ok_def)
    ultimately have "\<forall>l\<in>set (TIER_LENSES (ar_tier exact)). \<exists>w\<in>set (reviewVerdicts L i).
        lv_lens w = l \<and> lv_verdict w = Ready \<and> blockingFindings (lv_findings w) = 0"
      using ready_lenses [OF ok _ v(2) armed] by blast
    with 1(2) L' show ?thesis by (simp add: provenance_of_def i_def)
  next
    case (2 b)
    then have "b \<in> set (filter (\<lambda>r. pb_generation r = ar_generation exact) (reviewPushbacks L i))"
      using push at_last_SomeD by metis
    with 2(2) L' show ?thesis by (auto simp: provenance_of_def i_def)
  qed
qed

lemma tier_lenses_mono: "tierRank t \<le> tierRank t' \<Longrightarrow> set (TIER_LENSES t) \<subseteq> set (TIER_LENSES t')"
  by (cases t; cases t') (simp_all add: BRIEFING_REVIEW_LENSES_def)

lemma latest_lenses:
  assumes ok: "reviews_ok L" and "latestArmed L i = Some e"
  shows "set (TIER_LENSES (ar_tier e)) \<subseteq> set (ar_lenses e)"
  using latest_facts(1) [OF assms] ok armed_okD(3) by (auto simp: reviews_ok_def)

text \<open>C19. A commission that is refused writes nothing. One that succeeds leaves its review at the requested tier or
  above with every lens of that tier armed; it keeps the generations there were or adds one to a review that is not
  decided; and a review of a new text is armed only while the chain's trailing requests for changes are below the cap.\<close>

theorem commission_rules:
  assumes "reviews_reached sha L" and "world_ok sha W" and "begin_commission W json L = (L', res)"
  shows "case res of
      Inl e \<Rightarrow> L' = L
    | Inr plan \<Rightarrow> \<exists>q. parseCommissionRequest json = Inr q \<and>
        (let i = id_reviewId (commission_identity W q); chain = id_chainKey (commission_identity W q) in
          latestArmed L' i = Some (cp_armed plan) \<and> tierRank (cq_tier q) \<le> tierRank (ar_tier (cp_armed plan))
          \<and> set (TIER_LENSES (cq_tier q)) \<subseteq> set (ar_lenses (cp_armed plan))
          \<and> (armedGenerations L' i = armedGenerations L i
             \<or> armedGenerations L' i = armedGenerations L i @ [cp_armed plan]
               \<and> list_all (\<lambda>v. \<not> lv_decisive v) (reviewVerdicts L i))
          \<and> (armedGenerations L i \<noteq> [] \<or> trailingChangesNeeded L chain < BRIEFING_REVIEW_ROUND_CAP))"
proof -
  have ok: "reviews_ok L" by (rule reviews.reach_inv [OF assms(1)])
  have out: "begin_outcome W json L L' res" by (rule begin_facts [OF ok assms(2,3)])
  show ?thesis
  proof (cases res)
    case (Inl e)
    with out show ?thesis by (simp add: begin_outcome_def)
  next
    case (Inr plan)
    with out obtain q where q: "parseCommissionRequest json = Inr q"
      and o: "arm_outcome L L' (id_reviewId (commission_identity W q)) (id_chainKey (commission_identity W q)) (cq_tier q)
          (cp_armed plan) (cp_upgraded plan)" by (auto simp: begin_outcome_def)
    define i where "i = id_reviewId (commission_identity W q)"
    note o = o [folded i_def, unfolded arm_outcome_def]
    have ok': "reviews_ok L'" and latest: "latestArmed L' i = Some (cp_armed plan)"
      and rank: "tierRank (cq_tier q) \<le> tierRank (ar_tier (cp_armed plan))" using o by blast+
    have lenses: "set (TIER_LENSES (cq_tier q)) \<subseteq> set (ar_lenses (cp_armed plan))"
      using latest_lenses [OF ok' latest] tier_lenses_mono [OF rank] by blast
    have armed: "cp_armed plan \<in> set (all_armed L')" "ar_reviewId (cp_armed plan) = i"
      using latest_facts(1,2) [OF ok' latest] by blast+
    have "all_armed L' = all_armed L \<or> all_armed L' = all_armed L @ [cp_armed plan]
        \<and> list_all (\<lambda>v. \<not> lv_decisive v) (verdicts_of i L)" using o by (auto simp: list_all_iff)
    then have grow: "armedGenerations L' i = armedGenerations L i
        \<or> armedGenerations L' i = armedGenerations L i @ [cp_armed plan] \<and> list_all (\<lambda>v. \<not> lv_decisive v) (reviewVerdicts L i)"
      unfolding reviews_ok_reads(1) [OF ok] reviews_ok_reads(1) [OF ok'] reviews_ok_reads(3) [OF ok]
      using armed(2) by auto
    have "armed_of i L \<noteq> [] \<or> trailingChangesNeeded L (id_chainKey (commission_identity W q)) < BRIEFING_REVIEW_ROUND_CAP"
      using o armed by (auto simp: filter_empty_conv)
    then show ?thesis
      using Inr q latest rank lenses grow unfolding i_def by (simp add: Let_def reviews_ok_reads(1) [OF ok])
  qed
qed

subsubsection \<open>Retries\<close>

lemma armedBySha_cong:
  assumes "filter (\<lambda>e. 0 < er_seq e \<and> er_kind e = BRIEFING_REVIEW_ARMED) (lg_events L')
    = filter (\<lambda>e. 0 < er_seq e \<and> er_kind e = BRIEFING_REVIEW_ARMED) (lg_events L)"
  shows "armedByBriefingSha L' sha repo = armedByBriefingSha L sha repo"
  using assms by (simp add: armedByBriefingSha_def kind_events_window rev_filter [symmetric])

lemma quiet_armed_events:
  "review_quiet L L' \<Longrightarrow> filter (\<lambda>e. 0 < er_seq e \<and> er_kind e = BRIEFING_REVIEW_ARMED) (lg_events L')
    = filter (\<lambda>e. 0 < er_seq e \<and> er_kind e = BRIEFING_REVIEW_ARMED) (lg_events L)"
  by (auto simp: review_quiet_def list_all_iff filter_empty_conv)

lemma accept_Inr:
  "accept_result W a q L = (L', Inr out) \<Longrightarrow> out = resultView L' a (rq_lens q) (rq_verdict q)
     (lv_aggregate (new_verdict L a q)) (lv_decisive (new_verdict L a q)) (lv_caught (new_verdict L a q))"
  unfolding accept_run by (auto simp: Let_def simp del: new_verdict_simps split: prod.split_asm sum.split_asm)

lemma accepted_reads:
  assumes ok: "reviews_ok L" and w: "world_ok sha W" and q: "parseResultRequest json = Inr q"
    and t: "result_target q L = (L, Inr (a, reviewed))"
    and ev: "assertFindingEvidence (rq_findings q) (rq_verdict q) reviewed = Inr ()"
    and fresh: "latestLensVerdict (reviewVerdicts L (ar_reviewId a)) (rq_lens q) = None"
    and run: "accept_result W a q L = (L', res)"
  shows "\<exists>s d. latestLensVerdict (reviewVerdicts L' (ar_reviewId a)) (rq_lens q) = Some (verdict_record (new_verdict L a q) s d)"
    and "result_target q L' = (L', Inr (a, reviewed))"
proof -
  from accepted_facts [OF ok q t ev fresh, of W] obtain s d where ok1: "reviews_ok (write_verdict W a q L)"
    and V: "all_verdicts (write_verdict W a q L) = all_verdicts L @ [verdict_record (new_verdict L a q) s d]" by blast
  have quiet: "review_quiet (write_verdict W a q L) L'" and jobs: "lg_jobs L' = lg_jobs L"
    using accept_quiet [OF w, of a q L] run by simp_all
  have ok': "reviews_ok L'" by (rule quiet_ok [OF ok1 quiet])
  have "latestLensVerdict (reviewVerdicts L' (ar_reviewId a)) (rq_lens q) = Some (verdict_record (new_verdict L a q) s d)"
    unfolding reviews_ok_reads(3) [OF ok'] quiet_facts(2) [OF quiet] V by (simp add: latestLensVerdict_def)
  then show "\<exists>s d. latestLensVerdict (reviewVerdicts L' (ar_reviewId a)) (rq_lens q) = Some (verdict_record (new_verdict L a q) s d)"
    by blast
  have "filter (\<lambda>e. 0 < er_seq e \<and> er_kind e = BRIEFING_REVIEW_ARMED) (lg_events L')
      = filter (\<lambda>e. 0 < er_seq e \<and> er_kind e = BRIEFING_REVIEW_ARMED) (lg_events L)"
    unfolding quiet_armed_events [OF quiet] by (simp add: write_verdict_def append_events)
  then have "armedByBriefingSha L' (rq_briefingSha256 q) (rq_repoPath q) = armedByBriefingSha L (rq_briefingSha256 q) (rq_repoPath q)"
    by (rule armedBySha_cong)
  moreover have "getJob L' j = getJob L j" for j by (simp add: getJob_def jobs)
  ultimately show "result_target q L' = (L', Inr (a, reviewed))"
    using t by (simp add: result_target_def Let_def cong: option.case_cong if_cong)
qed

text \<open>C20. A lens result that was accepted can be sent again at any time before something else happens: the retry, in
  any world, returns the same outcome and writes nothing.\<close>

theorem result_retry:
  assumes "reviews_reached sha L" and "world_ok sha W" and run: "submitResult W json L = (L', Inr out)"
  shows "submitResult W' json L' = (L', Inr out)"
proof -
  have ok: "reviews_ok L" by (rule reviews.reach_inv [OF assms(1)])
  from run show ?thesis
  proof (cases rule: submit_cases)
    case (refused e)
    then show ?thesis by simp
  next
    case (converged q a reviewed existing)
    then show ?thesis using run converges_result [OF converged(1,2)] by simp
  next
    case (accepted q a reviewed)
    from accepted_reads [OF ok assms(2) accepted] obtain s d where
      lens: "latestLensVerdict (reviewVerdicts L' (ar_reviewId a)) (rq_lens q) = Some (verdict_record (new_verdict L a q) s d)"
      and t': "result_target q L' = (L', Inr (a, reviewed))" by blast
    have "submitResult W' json L' = (L', Inr (resultView L' a (rq_lens q) (rq_verdict q) (lv_aggregate (new_verdict L a q))
        (lv_decisive (new_verdict L a q)) (lv_caught (new_verdict L a q))))"
      using accepted(1,3) lens t' by (simp add: submitResult_def submit_request_def parsed_def del: new_verdict_simps(9,10))
    then show ?thesis using accept_Inr [OF accepted(5)] by simp
  qed
qed

subsubsection \<open>Evidence\<close>

lemma join_lines_split:
  "join_lines (xs @ m # ys) = concat (map (\<lambda>l. l @ [newline]) xs) @ m @ concat (map ((#) newline) ys)"
proof (induction xs)
  case Nil
  show ?case by (induction ys arbitrary: m) simp_all
next
  case (Cons x xs)
  then show ?case by (cases xs) simp_all
qed

lemma plain_digits: "CHR ''<'' \<notin> set (nat_str n)"
proof (induction n rule: nat_str.induct)
  case (1 n)
  have digit: "char_of (48 + m) \<noteq> CHR ''<''" if "m < 10" for m :: nat
  proof
    assume "char_of (48 + m) = CHR ''<''"
    then have "(of_char (char_of (48 + m) :: char) :: nat) = of_char (CHR ''<'')" by simp
    with that show False by (simp add: of_char_of take_bit_eq_mod)
  qed
  show ?case
    by (subst nat_str.simps) (use 1 digit [of n] digit [of "n mod 10"] in \<open>auto\<close>)
qed

lemma lens_head_plain:
  assumes "CHR ''<'' \<notin> set (ar_reviewId a)" and "CHR ''<'' \<notin> set (ar_commissionKey a)"
    and "CHR ''<'' \<notin> set (ar_briefingSha256 a)" and "CHR ''<'' \<notin> set (ar_repoPath a)"
  shows "CHR ''<'' \<notin> set (concat (map (\<lambda>l. l @ [newline]) (lens_head a lens)))"
proof -
  have "CHR ''<'' \<notin> set (lens_name lens)" by (cases lens) simp_all
  moreover have "CHR ''<'' \<notin> set (take 32 (ar_reviewId a))" using assms(1) by (metis in_set_takeD)
  ultimately show ?thesis
    using assms plain_digits by (simp add: lens_head_def newline_def lensJobId_def BRIEFING_REVIEW_JOB_PREFIX_def)
qed

text \<open>A lens job's briefing gives back exactly the briefing under review.\<close>

lemma lens_briefing_reviewed:
  assumes "CHR ''<'' \<notin> set (ar_reviewId a)" and "CHR ''<'' \<notin> set (ar_commissionKey a)"
    and "CHR ''<'' \<notin> set (ar_briefingSha256 a)" and "CHR ''<'' \<notin> set (ar_repoPath a)"
    and "\<not> sublist (close_marker (ar_reviewId a)) (concat (map ((#) newline) (lens_tail W a lens h)))"
  shows "reviewedBriefing (Some (do_briefing (lens_order W a b h lens))) (ar_reviewId a) = Some b"
  unfolding lens_order_def dispatch_order.simps lensBriefing_def join_lines_split
  by (rule reviewed_between [OF lens_head_plain [OF assms(1-4)] assms(1,5)])

text \<open>C18. When the job of a lens holds the briefing its commission dispatched, an accepted result is about that very text:
  every finding quotes the reviewed briefing within the bounds, the verdict is READY exactly when no finding blocks,
  and the ledger then holds it as the lens's verdict. Two things the code does not check are assumed of the texts
  around the briefing (\<open>plain\<close>, \<open>tail\<close>): no \<open><\<close> in the ids and the repository path printed before it, and no close
  marker of this review in what the helper prints behind it; either could shift the markers the code searches for.\<close>

theorem accepted_evidence:
  assumes "reviews_reached sha L" and "world_ok sha W" and run: "submitResult W json L = (L', Inr out)"
    and "parseResultRequest json = Inr q" and "getJob L (rq_jobId q) = Some job"
    and job: "jb_briefing job = Some (do_briefing (lens_order W0 a b h (rq_lens q)))"
    and a: "armedByBriefingSha L (rq_briefingSha256 q) (rq_repoPath q) = Some a'" "ar_reviewId a' = ar_reviewId a"
    and plain: "CHR ''<'' \<notin> set (ar_reviewId a @ ar_commissionKey a @ ar_briefingSha256 a @ ar_repoPath a)"
    and tail: "\<not> sublist (close_marker (ar_reviewId a)) (concat (map ((#) newline) (lens_tail W0 a (rq_lens q) h)))"
  shows "list_all (evidence_ok b) (rq_findings q) \<and> (rq_verdict q = Ready \<longleftrightarrow> blockingFindings (rq_findings q) = 0)
    \<and> (\<exists>v. latestLensVerdict (reviewVerdicts L' (ar_reviewId a)) (rq_lens q) = Some v \<and> lv_verdict v = rq_verdict q
         \<and> canonicalFindings (lv_findings v) = canonicalFindings (rq_findings q))"
proof -
  have ok: "reviews_ok L" by (rule reviews.reach_inv [OF assms(1)])
  have reviewed: "r = b \<and> c = a'" if "result_target q L = (L, Inr (c, r))" for c r
  proof -
    from result_target_InrD [OF that] a(1) have c: "c = a'" by simp
    with result_target_InrD(4,5) [OF that] assms(5) job a(2)
    have "reviewedBriefing (Some (do_briefing (lens_order W0 a b h (rq_lens q)))) (ar_reviewId a) = Some r" by auto
    then show ?thesis using lens_briefing_reviewed [of a W0 "rq_lens q" h b] plain tail c by simp
  qed
  from run show ?thesis
  proof (cases rule: submit_cases)
    case (refused e)
    then show ?thesis by simp
  next
    case (converged q' c r existing)
    then have "q' = q" using assms(4) by simp
    with converged(2) have t: "result_target q L = (L, Inr (c, r))" by (simp add: converges_def)
    show ?thesis
      using converged \<open>q' = q\<close> reviewed [OF t] a(2) by (auto simp: converges_def evidence_iff)
  next
    case (accepted q' c r)
    then have q': "q' = q" using assms(4) by simp
    note rc = reviewed [OF accepted(2) [unfolded q']]
    from accepted_reads(1) [OF ok assms(2) accepted] obtain s d where
      "latestLensVerdict (reviewVerdicts L' (ar_reviewId c)) (rq_lens q) = Some (verdict_record (new_verdict L c q) s d)"
      unfolding q' by blast
    then show ?thesis using accepted(3) rc a(2) unfolding q' by (simp add: evidence_iff)
  qed
qed

subsection \<open>A review, step by step\<close>

text \<open>A digest that tells texts apart by the parity of their length, a dispatcher and a notification center that write nothing.\<close>

definition sample_sha :: "string \<Rightarrow> string" where
  "sample_sha s = replicate 64 (if even (length s) then CHR ''0'' else CHR ''1'')"

definition sample_helper :: review_helper where
  "sample_helper = \<lparr>hp_packageId = ''gc'', hp_sha256 = ''00'', hp_preamble = ''Rules'', hp_lensSection = lens_name\<rparr>"

definition sample_review_world :: review_world where
  "sample_review_world = \<lparr>rw_enabled = True, rw_stage = Stage_auto, rw_sha = sample_sha, rw_stringify = (\<lambda>_. ''body''),
     rw_env = sample_env, rw_helper = Inr sample_helper, rw_apiBase = None, rw_headSha = (\<lambda>_. None),
     rw_dispatch = (\<lambda>_ L. (L, Inr ())), rw_post = (\<lambda>_ L. (L, Inr ()))\<rparr>"

definition sample_text :: string where "sample_text = ''Build the parser.''"

definition sample_commission :: json where
  "sample_commission = JObj [(''repoPath'', JStr ''/r''), (''title'', JStr ''T''), (''briefing'', JStr sample_text),
     (''tier'', JStr ''medium''), (''justification'', JStr ''risky'')]"

definition sample_request :: result_request where
  "sample_request = \<lparr>rq_repoPath = ''/r'', rq_briefingSha256 = sample_sha sample_text,
     rq_jobId = lensJobId (sample_sha (sample_text @ nul @ ''/r'')) Lens_stranger, rq_lens = Lens_stranger, rq_verdict = Changes_needed,
     rq_findings = [\<lparr>fi_code = ''vague'', fi_severity = Sev_blocking, fi_evidence = ''the parser'', fi_whyItBlocks = ''which''\<rparr>]\<rparr>"

definition sample_review :: string where "sample_review = sample_sha (sample_text @ nul @ ''/r'')"

definition commissioned_ledger :: ledger where
  "commissioned_ledger = fst (begin_commission sample_review_world sample_commission empty_ledger)"

definition sample_arm :: armed_input where
  "sample_arm = \<lparr>ar_reviewId = sample_review, ar_commissionKey = sample_sha (sample_text @ nul @ ''/r'' @ nul @ ''medium''),
     ar_chainKey = sample_sha (''/r'' @ nul @ ''T''), ar_briefingSha256 = sample_sha sample_text, ar_repoPath = ''/r'',
     ar_title = ''T'', ar_tier = Tier_medium, ar_justification = ''risky'', ar_round = 1, ar_generation = 1,
     ar_lenses = [Lens_stranger, Lens_acceptance, Lens_verification], ar_headSha = None, ar_upgradedFrom = None\<rparr>"

definition sample_armed :: armed_review where
  "sample_armed = armed_record sample_arm 1 (en_now sample_env)"

text \<open>The job of the first lens, as its commission orders it.\<close>

definition sample_lens_job :: job_record where
  "sample_lens_job = \<lparr>jb_id = rq_jobId sample_request, jb_repo = ''/r'', jb_title = ''lens'', jb_displayName = None,
     jb_deliverable = Some ''investigation'', jb_commissioner = None, jb_targetRef = None, jb_targetSha = None,
     jb_parentJobId = None, jb_status = Dispatched, jb_baseBranch = None, jb_prUrl = None, jb_note = None,
     jb_briefing = Some (do_briefing (lens_order sample_review_world sample_armed sample_text sample_helper Lens_stranger)),
     jb_createdAt = ''now'', jb_updatedAt = ''now''\<rparr>"

definition dispatched_ledger :: ledger where
  "dispatched_ledger = commissioned_ledger\<lparr>lg_jobs := [sample_lens_job]\<rparr>"

definition decided_ledger :: ledger where
  "decided_ledger = fst (submitResult sample_review_world (result_json sample_request) dispatched_ledger)"

lemma sample_world_ok: "world_ok sample_sha sample_review_world"
  by (simp add: world_ok_def sample_review_world_def sample_sha_def)

lemma commissioned_reached: "reviews_reached sample_sha commissioned_ledger"
proof -
  have "reviews_reached sample_sha empty_ledger" by (rule reach_init) (simp add: no_reviews_def empty_ledger_def)
  then show ?thesis
    unfolding commissioned_ledger_def by (rule reach_step) (rule commissioned [OF sample_world_ok])
qed

lemma dispatched_reached: "reviews_reached sample_sha dispatched_ledger"
  by (rule reach_step [OF commissioned_reached elsewhere]) (simp add: dispatched_ledger_def review_quiet_def)

lemma decided_reached: "reviews_reached sample_sha decided_ledger"
  unfolding decided_ledger_def by (rule reach_step [OF dispatched_reached submitted [OF sample_world_ok]])

lemma js_trim_id: "s \<noteq> [] \<Longrightarrow> \<not> js_space (hd s) \<Longrightarrow> \<not> js_space (last s) \<Longrightarrow> js_trim s = s"
proof -
  assume "s \<noteq> []" and "\<not> js_space (hd s)" and "\<not> js_space (last s)"
  then have "dropWhile js_space s = s" and "dropWhile js_space (rev s) = rev s"
    by (simp_all add: dropWhile_eq_self_iff hd_rev)
  then show ?thesis by (simp add: js_trim_def)
qed

lemma sample_sha_hex: "sha256_hex (sample_sha s)"
  by (simp add: sha256_hex_def sample_sha_def list_all_iff less_eq_char_def)

lemma sample_parsed: "parseResultRequest (result_json sample_request) = Inr sample_request"
  by (rule parseResultRequest_encode)
     (simp add: result_ok_def sample_request_def sample_sha_hex bounded_text_def js_trim_id js_space_def lensJobId_def
       BRIEFING_REVIEW_JOB_PREFIX_def BRIEFING_REVIEW_REPO_PATH_MAX_def BRIEFING_REVIEW_FINDINGS_MAX_def finding_ok_def
       BRIEFING_REVIEW_CODE_MAX_def BRIEFING_REVIEW_WHY_MAX_def finding_code_text_def)

definition sample_commission_request :: commission_request where
  "sample_commission_request = \<lparr>cq_repoPath = ''/r'', cq_title = ''T'', cq_briefing = sample_text, cq_tier = Tier_medium,
     cq_justification = ''risky''\<rparr>"

lemma sample_commission_parsed: "parseCommissionRequest sample_commission = Inr sample_commission_request"
  by (simp add: parseCommissionRequest_def sample_commission_def record_of_def exactFields_def bounded_field_def
      js_trim_id js_space_def BRIEFING_REVIEW_REPO_PATH_MAX_def BRIEFING_REVIEW_TITLE_MAX_def
      BRIEFING_REVIEW_JUSTIFICATION_MAX_def BRIEFING_REVIEW_MAX_BRIEFING_BYTES_def sample_text_def byteLength_def
      isBriefingReviewTier_def named_def BRIEFING_REVIEW_TIERS_def sample_commission_request_def)

lemma empty_reads [simp]:
  "kind_events empty_ledger kind desc n ''review_id'' v = []" "kind_events empty_ledger kind desc n ''chain_key'' v = []"
  by (cases desc; simp add: kind_events_window empty_ledger_def)+

lemma sample_readable: "readable_arm sample_arm"
  by (simp add: readable_arm_def sample_arm_def sample_review_def sample_sha_def safe_count_def canonical_lenses_def
      BRIEFING_REVIEW_LENSES_def)

lemma sample_begun:
  "begin_commission sample_review_world sample_commission empty_ledger = (commissioned_ledger,
     Inr \<lparr>cp_armed = sample_armed, cp_briefing = sample_text, cp_helper = sample_helper, cp_upgraded = False\<rparr>)"
  "commissioned_ledger = appendCustomEvent sample_env BRIEFING_REVIEW_ARMED None None (armed_payload sample_arm) empty_ledger"
proof -
  define W where "W = sample_review_world"
  define M where "M = appendCustomEvent sample_env BRIEFING_REVIEW_ARMED None None (armed_payload sample_arm) empty_ledger"
  have ident: "first_arm W (commission_identity W sample_commission_request) sample_commission_request empty_ledger = sample_arm"
    by (simp add: first_arm_def commission_identity_def sample_commission_request_def sample_arm_def briefingReviewIdentity_def
        W_def sample_review_world_def sample_review_def chain_order_def armedChain_def)
  have "\<exists>L' s t. arm W sample_arm empty_ledger = (L', Inr (armed_record sample_arm s t)) \<and> reviews_ok L'
     \<and> all_armed L' = all_armed empty_ledger @ [armed_record sample_arm s t] \<and> all_verdicts L' = all_verdicts empty_ledger"
  proof (rule arm_facts)
    show "reviews_ok empty_ledger" by (rule no_reviews_ok) (simp add: no_reviews_def empty_ledger_def)
    show "readable_arm sample_arm" by (rule sample_readable)
  qed (simp_all add: sample_arm_def all_armed_def all_verdicts_def facts_of_def empty_ledger_def)
  then obtain L' s t where arm: "arm W sample_arm empty_ledger = (L', Inr (armed_record sample_arm s t))"
    and A: "all_armed L' = [armed_record sample_arm s t]" and ok': "reviews_ok L'"
    by (auto simp: all_armed_def facts_of_def empty_ledger_def)
  have L': "L' = M"
    using arm by (simp add: arm_def Let_def M_def W_def sample_review_world_def split: option.split_asm)
  have "readArmed (stamped sample_env BRIEFING_REVIEW_ARMED None None (armed_payload sample_arm) empty_ledger) = Some sample_armed"
    using readArmed_written [OF sample_readable, of "stamped sample_env BRIEFING_REVIEW_ARMED None None (armed_payload sample_arm) empty_ledger"]
    by (simp add: sample_armed_def armed_record_def empty_ledger_def)
  then have "all_armed M = [sample_armed]"
    by (simp add: M_def all_armed_def facts_append) (simp add: facts_of_def empty_ledger_def)
  then have armed: "armed_record sample_arm s t = sample_armed" using A L' by simp
  have on: "rw_enabled W" and helper: "rw_helper W = Inr sample_helper" by (simp_all add: W_def sample_review_world_def)
  have none: "latestArmed empty_ledger i = None" for i by (simp add: latestArmed_def armedGenerations_def at_last_def)
  have "trailingChangesNeeded empty_ledger k = 0" for k
    by (simp add: trailingChangesNeeded_def chain_order_def armedChain_def)
  then have "commission_new W sample_commission_request empty_ledger = (M, Inr (sample_armed, False))"
    using arm L' armed ident by (simp add: commission_new_def Let_def BRIEFING_REVIEW_ROUND_CAP_def)
  then have "begin_commission W sample_commission empty_ledger = (M,
      Inr \<lparr>cp_armed = sample_armed, cp_briefing = sample_text, cp_helper = sample_helper, cp_upgraded = False\<rparr>)"
    by (simp add: begin_commission_def on helper none parsed_def sample_commission_parsed)
       (simp add: sample_commission_request_def)
  then show "begin_commission sample_review_world sample_commission empty_ledger = (commissioned_ledger,
     Inr \<lparr>cp_armed = sample_armed, cp_briefing = sample_text, cp_helper = sample_helper, cp_upgraded = False\<rparr>)"
    and "commissioned_ledger = appendCustomEvent sample_env BRIEFING_REVIEW_ARMED None None (armed_payload sample_arm) empty_ledger"
    by (simp_all add: commissioned_ledger_def W_def M_def)
qed

lemma sample_read: "readArmed (stamped sample_env BRIEFING_REVIEW_ARMED None None (armed_payload sample_arm) empty_ledger) = Some sample_armed"
  using readArmed_written [OF sample_readable, of "stamped sample_env BRIEFING_REVIEW_ARMED None None (armed_payload sample_arm) empty_ledger"]
  by (simp add: sample_armed_def armed_record_def empty_ledger_def)

lemma dispatched_events:
  "lg_events dispatched_ledger = [stamped sample_env BRIEFING_REVIEW_ARMED None None (armed_payload sample_arm) empty_ledger]"
  by (simp add: dispatched_ledger_def sample_begun(2) append_events) (simp add: empty_ledger_def)

lemma dispatched_facts:
  "all_armed dispatched_ledger = [sample_armed]" "all_verdicts dispatched_ledger = []"
  "armedByBriefingSha dispatched_ledger (sample_sha sample_text) ''/r'' = Some sample_armed"
proof -
  show "all_armed dispatched_ledger = [sample_armed]" and "all_verdicts dispatched_ledger = []"
    by (simp_all add: all_armed_def all_verdicts_def facts_of_def dispatched_events sample_read)
  have "payload_get (armed_payload sample_arm) ''briefing_sha_256'' = Some (JStr (sample_sha sample_text))"
    using readArmed_fields(3) [OF sample_read] by (simp add: sample_armed_def sample_arm_def)
  moreover have "ar_repoPath sample_armed = ''/r''" by (simp add: sample_armed_def sample_arm_def)
  ultimately show "armedByBriefingSha dispatched_ledger (sample_sha sample_text) ''/r'' = Some sample_armed"
    by (simp add: armedByBriefingSha_def kind_events_window dispatched_events sample_read)
qed

lemma sample_armed_simps [simp]:
  "ar_reviewId sample_armed = sample_review" "ar_lenses sample_armed = [Lens_stranger, Lens_acceptance, Lens_verification]"
  "ar_generation sample_armed = 1" "ar_tier sample_armed = Tier_medium" "ar_repoPath sample_armed = ''/r''"
  "ar_briefingSha256 sample_armed = sample_sha sample_text"
  "ar_commissionKey sample_armed = sample_sha (sample_text @ nul @ ''/r'' @ nul @ ''medium'')"
  by (simp_all add: sample_armed_def sample_arm_def armed_record_def armed_input.defs armed_review.defs)

lemma sample_sha_plain: "CHR ''<'' \<notin> set (sample_sha s)"
  by (simp add: sample_sha_def)

lemma sample_plain:
  "CHR ''<'' \<notin> set (ar_reviewId sample_armed @ ar_commissionKey sample_armed @ ar_briefingSha256 sample_armed @ ar_repoPath sample_armed)"
  using sample_sha_plain by (simp add: sample_review_def)

lemma sample_tail:
  "\<not> sublist (close_marker (ar_reviewId sample_armed))
     (concat (map ((#) newline) (lens_tail sample_review_world sample_armed Lens_stranger sample_helper)))"
  by code_simp

lemma dispatched_job: "getJob dispatched_ledger (rq_jobId sample_request) = Some sample_lens_job"
  by (simp add: getJob_def row_find_def dispatched_ledger_def sample_lens_job_def)

lemma sample_target: "result_target sample_request dispatched_ledger = (dispatched_ledger, Inr (sample_armed, sample_text))"
proof -
  have q: "rq_jobId sample_request = lensJobId sample_review Lens_stranger" "rq_lens sample_request = Lens_stranger"
    "rq_briefingSha256 sample_request = sample_sha sample_text" "rq_repoPath sample_request = ''/r''"
    by (simp_all add: sample_request_def sample_review_def)
  have "reviewedBriefing (jb_briefing sample_lens_job) sample_review = Some sample_text"
    using lens_briefing_reviewed [of sample_armed sample_review_world Lens_stranger sample_helper sample_text] sample_plain sample_tail
    by (simp add: sample_lens_job_def)
  then show ?thesis
    using dispatched_job by (simp add: result_target_def Let_def dispatched_facts(3) q)
qed

lemma sample_evidence: "assertFindingEvidence (rq_findings sample_request) (rq_verdict sample_request) sample_text = Inr ()"
proof -
  have "trim_end ''the parser'' = ''the parser''" by (simp add: trim_end_def js_space_def)
  moreover have "js_trim sample_text = ''Build '' @ ''the parser'' @ ''.''" by (simp add: sample_text_def js_trim_id js_space_def)
  then have "sublist ''the parser'' (js_trim sample_text)" by (simp only: sublist_appendI)
  ultimately show ?thesis
    by (simp add: evidence_iff evidence_ok_def sample_request_def blockingFindings_def BRIEFING_REVIEW_EVIDENCE_MIN_def
        BRIEFING_REVIEW_EVIDENCE_MAX_def)
qed

lemma dispatched_ok: "reviews_ok dispatched_ledger"
  by (rule reviews.reach_inv [OF dispatched_reached])

lemma dispatched_verdicts: "reviewVerdicts dispatched_ledger i = []"
  by (simp add: reviews_ok_reads(3) [OF dispatched_ok] dispatched_facts(2))

lemma silent_accept: "\<exists>L' out. accept_result sample_review_world a q L = (L', Inr out)"
  by (simp add: accept_run announced_def announce_def sample_review_world_def Let_def split: option.split)

lemma decided_run:
  "\<exists>out. submitResult sample_review_world (result_json sample_request) dispatched_ledger = (decided_ledger, Inr out)
     \<and> accept_result sample_review_world sample_armed sample_request dispatched_ledger = (decided_ledger, Inr out)"
proof -
  obtain L' out where "accept_result sample_review_world sample_armed sample_request dispatched_ledger = (L', Inr out)"
    using silent_accept by blast
  then show ?thesis
    using sample_target sample_evidence
    by (simp add: decided_ledger_def submitResult_def submit_request_def parsed_def sample_parsed dispatched_verdicts
        latestLensVerdict_def at_last_def)
qed

text \<open>The single request for changes decides the review.\<close>

lemma decided_verdict:
  "\<exists>v. v \<in> set (reviewVerdicts decided_ledger sample_review) \<and> lv_decisive v \<and> lv_generation v = 1"
proof -
  from decided_run obtain out where
    run: "accept_result sample_review_world sample_armed sample_request dispatched_ledger = (decided_ledger, Inr out)" by blast
  have fresh: "latestLensVerdict (reviewVerdicts dispatched_ledger (ar_reviewId sample_armed)) (rq_lens sample_request) = None"
    by (simp add: dispatched_verdicts latestLensVerdict_def at_last_def)
  from accepted_reads(1) [OF dispatched_ok sample_world_ok sample_parsed sample_target sample_evidence fresh run]
  obtain s d where "latestLensVerdict (reviewVerdicts decided_ledger sample_review) (rq_lens sample_request)
      = Some (verdict_record (new_verdict dispatched_ledger sample_armed sample_request) s d)" by auto
  from latestLens_Some [OF this] show ?thesis
    by (intro exI [of _ "verdict_record (new_verdict dispatched_ledger sample_armed sample_request) s d"])
       (simp add: result_aggregate_def dispatched_verdicts decisiveVerdict_def at_last_def sample_request_def)
qed

theorem review_reachable_witness:
  "length (armedGenerations decided_ledger sample_review) \<le> 3 \<and> reviewVerdicts decided_ledger sample_review \<noteq> []
    \<and> length (filter lv_decisive (reviewVerdicts decided_ledger sample_review)) \<le> 1"
  using review_reachable [OF decided_reached, of sample_review] decided_verdict by auto

theorem review_final_witness:
  "\<exists>v\<in>set (reviewVerdicts decided_ledger sample_review). lv_decisive v \<and>
     decisiveVerdict (reviewVerdicts (fst (begin_commission sample_review_world sample_commission decided_ledger)) sample_review)
       (lv_generation v) = Some v"
proof -
  obtain v where v: "v \<in> set (reviewVerdicts decided_ledger sample_review)" "lv_decisive v"
    using decided_verdict by blast
  have "(review_step sample_sha)\<^sup>*\<^sup>* decided_ledger (fst (begin_commission sample_review_world sample_commission decided_ledger))"
    by (rule r_into_rtranclp) (rule commissioned [OF sample_world_ok])
  from review_final [OF decided_reached this v] v show ?thesis by blast
qed

theorem commission_rules_witness:
  "latestArmed commissioned_ledger sample_review = Some sample_armed
    \<and> set (TIER_LENSES Tier_medium) \<subseteq> set (ar_lenses sample_armed)"
proof -
  have "reviews_reached sample_sha empty_ledger" by (rule reach_init) (simp add: no_reviews_def empty_ledger_def)
  from commission_rules [OF this sample_world_ok sample_begun(1)] show ?thesis
    by (simp add: sample_commission_parsed Let_def commission_identity_def briefingReviewIdentity_def
        sample_commission_request_def sample_review_world_def sample_review_def)
qed

theorem result_retry_witness:
  "\<exists>out. submitResult sample_review_world (result_json sample_request) dispatched_ledger = (decided_ledger, Inr out)
    \<and> submitResult sample_review_world (result_json sample_request) decided_ledger = (decided_ledger, Inr out)"
  using decided_run result_retry [OF dispatched_reached sample_world_ok] by blast

theorem accepted_evidence_witness:
  "list_all (evidence_ok sample_text) (rq_findings sample_request) \<and> rq_findings sample_request \<noteq> []"
proof -
  obtain out where run: "submitResult sample_review_world (result_json sample_request) dispatched_ledger = (decided_ledger, Inr out)"
    using decided_run by blast
  have q: "rq_lens sample_request = Lens_stranger" by (simp add: sample_request_def)
  have job: "jb_briefing sample_lens_job
      = Some (do_briefing (lens_order sample_review_world sample_armed sample_text sample_helper (rq_lens sample_request)))"
    by (simp add: sample_lens_job_def q)
  have a: "armedByBriefingSha dispatched_ledger (rq_briefingSha256 sample_request) (rq_repoPath sample_request) = Some sample_armed"
    using dispatched_facts(3) by (simp add: sample_request_def)
  from accepted_evidence [OF dispatched_reached sample_world_ok run sample_parsed dispatched_job job a refl sample_plain
      sample_tail [folded q]]
  show ?thesis by (simp add: sample_request_def)
qed

subsubsection \<open>A push-back at the gate\<close>

definition sample_pushback :: pushback_request where
  "sample_pushback = \<lparr>pq_repoPath = ''/r'', pq_briefingSha256 = sample_sha sample_text, pq_reason = ''ship it'', pq_by = ''gru''\<rparr>"

definition sample_pushback_json :: json where
  "sample_pushback_json = JObj [(''repoPath'', JStr ''/r''), (''briefingSha256'', JStr (sample_sha sample_text)),
     (''reason'', JStr ''ship it''), (''by'', JStr ''gru'')]"

definition sample_claim :: dispatch_claim where
  "sample_claim = \<lparr>dc_jobId = ''j-1'', dc_repoPath = ''/r'', dc_title = ''T'', dc_briefing = sample_text, dc_requested = None\<rparr>"

definition pushed_ledger :: ledger where
  "pushed_ledger = fst (pushback_review sample_review_world sample_pushback_json dispatched_ledger)"

lemma pushed_reached: "reviews_reached sample_sha pushed_ledger"
  unfolding pushed_ledger_def by (rule reach_step [OF dispatched_reached pushed_back [OF sample_world_ok]])

lemma pushed_reads:
  "latestArmed pushed_ledger sample_review = Some sample_armed" "reviewVerdicts pushed_ledger i = []"
  "\<exists>b. reviewPushbacks pushed_ledger sample_review = [b] \<and> pb_generation b = 1"
proof -
  define b where "b = \<lparr>pb_reviewId = sample_review, pb_briefingSha256 = sample_sha sample_text, pb_generation = 1,
    pb_reason = ''ship it'', pb_by = ''gru''\<rparr>"
  define e where "e = stamped sample_env BRIEFING_REVIEW_PUSHBACK None None (pushback_payload b) dispatched_ledger"
  have parsed: "parsePushbackRequest sample_pushback_json = Inr sample_pushback"
    by (simp add: parsePushbackRequest_def sample_pushback_json_def record_of_def exactFields_def bounded_field_def digest_field_def
        sample_sha_hex js_trim_id js_space_def BRIEFING_REVIEW_REPO_PATH_MAX_def BRIEFING_REVIEW_PUSHBACK_REASON_MAX_def
        sample_pushback_def)
  have empty: "reviewPushbacks dispatched_ledger i = []" for i
    by (simp add: reviewPushbacks_def kind_events_window dispatched_events)
  have pushed: "pushed_ledger = appendCustomEvent sample_env BRIEFING_REVIEW_PUSHBACK None None (pushback_payload b) dispatched_ledger"
    using dispatched_facts(3)
    by (simp add: pushed_ledger_def pushback_review_def parsed_def parsed push_back_def sample_pushback_def dispatched_verdicts
        decisiveVerdict_def at_last_def empty Let_def b_def sample_review_world_def)
  have quiet: "review_quiet dispatched_ledger pushed_ledger" unfolding pushed by (rule review_quiet_append) simp_all
  have ok: "reviews_ok pushed_ledger" by (rule reviews.reach_inv [OF pushed_reached])
  show "latestArmed pushed_ledger sample_review = Some sample_armed"
    by (simp add: reviews_ok_reads(2) [OF ok] quiet_facts(1) [OF quiet] dispatched_facts(1))
  show "reviewVerdicts pushed_ledger i = []"
    by (simp add: reviews_ok_reads(3) [OF ok] quiet_facts(2) [OF quiet] dispatched_facts(2))
  have read: "readPushback e = Some (pushback_input.extend (pushback_input.truncate b) (pushback_event.fields (er_seq e) (er_ts e)))"
    by (rule readPushback_written) (simp_all add: b_def e_def sample_review_def sample_sha_def safe_count_def)
  have "payload_get (pushback_payload b) ''review_id'' = Some (JStr sample_review)"
    by (simp add: pushback_payload_def payload_get_def b_def)
  then have "reviewPushbacks pushed_ledger sample_review
      = [pushback_input.extend (pushback_input.truncate b) (pushback_event.fields (er_seq e) (er_ts e))]"
    using read by (simp add: reviewPushbacks_def kind_events_window pushed append_events dispatched_events e_def)
  then show "\<exists>b. reviewPushbacks pushed_ledger sample_review = [b] \<and> pb_generation b = 1"
    by (simp add: b_def pushback_input.defs pushback_event.defs)
qed

theorem gate_soundness_witness:
  "\<exists>p. admitDispatch sample_review_world sample_claim pushed_ledger = (pushed_ledger, Inr (Some p)) \<and> pv_verdict p = Pushed_back"
proof -
  have id: "id_reviewId (briefingReviewIdentity (rw_sha sample_review_world) sample_text ''/r'' ''T'' Tier_low) = sample_review"
    by (simp add: briefingReviewIdentity_def sample_review_def sample_review_world_def)
  obtain b where b: "reviewPushbacks pushed_ledger sample_review = [b]" "pb_generation b = 1" using pushed_reads(3) by blast
  have on: "rw_enabled sample_review_world" "rw_stage sample_review_world = Stage_auto"
    by (simp_all add: sample_review_world_def)
  have run: "admitDispatch sample_review_world sample_claim pushed_ledger
      = (pushed_ledger, Inr (Some (provenance_of sample_armed Pushed_back (Some (pb_reason b)))))"
    by (simp add: admitDispatch_def evaluateDispatch_def on claim_view_def sample_claim_def id Let_def pushed_reads(1,2) b
        decisiveVerdict_def at_last_def briefingReviewGate_def gate_unrequested_def)
  have exact: "latestArmed pushed_ledger (rw_sha sample_review_world (dc_briefing sample_claim @ nul @ dc_repoPath sample_claim))
      = Some sample_armed"
    using pushed_reads(1) by (simp add: sample_claim_def sample_review_def sample_review_world_def)
  have "tierEnforcedAt (ar_tier sample_armed) (rw_stage sample_review_world)" by (simp add: on tierEnforcedAt_def)
  from gate_soundness [OF pushed_reached on(1) exact this run] run show ?thesis by (auto simp: provenance_of_def)
qed

end
