(* ===== verification/Spec2Isabelle.thy ===== *)
theory Spec2Isabelle
  imports Obligation_Properties Retry Provider_Classify Resident_Budget Consumer_Pass Briefing_Properties
begin

text \<open>
  A model of the core of gru-command, a service that lets one person direct many coding agents. Work is accepted
  into a durable queue, admitted when capacity allows, run by agents, and whatever blocks a job becomes a
  recorded debt (an obligation) that must be settled with evidence. The development covers the parts that
  decide this: the ledger's state machines and stores, the queue's consumer, and the admission and retry
  controls of the runtime.

  \<^bold>\<open>Parts, theories and files\<close> (under \<^verbatim>\<open>src/src\<close>)

  \<^item> \<open>Prelude\<close>: what the sources use of TypeScript and SQLite, with the generic lemmas, the collections
    \<open>row_simps\<close> and \<open>res_splits\<close>, and the locale \<open>invariant_system\<close>.
  \<^item> \<open>Job_States\<close> (\<^verbatim>\<open>ledger/states.ts\<close>): the transition tables of jobs, rounds, lenses and obligations.
  \<^item> \<open>Pipeline_Domain\<close> (\<^verbatim>\<open>ledger/pipeline.ts\<close>): entries of the work queue, their codecs, the prerequisite graph,
    and the evaluator that says why an entry waits.
  \<^item> \<open>Obligation_Domain\<close> (\<^verbatim>\<open>ledger/obligations.ts\<close>), \<open>Notification_Domain\<close> (\<^verbatim>\<open>ledger/notification-decision.ts\<close>): blockers,
    actions, authority, settlements, claims, receipts and owner decisions, with every parser and encoder.
  \<^item> \<open>Ledger\<close> (\<^verbatim>\<open>ledger/api.ts\<close>): the tables, transactions, the event log, jobs and their creation.
  \<^item> \<open>Pipeline_Store\<close> (\<^verbatim>\<open>ledger/api.ts\<close>, \<open>enqueuePipelineEntry\<close> to \<open>pipelineBoardView\<close>): the durable queue.
  \<^item> \<open>Obligation_Store\<close>, \<open>Obligation_Lifecycle\<close> (\<^verbatim>\<open>ledger/api.ts\<close>, \<open>getObligation\<close> to \<open>supersedeReportObligation\<close>,
    \<open>setJobStatus\<close>): the obligation rows and the operations that move a job and its obligations together;
    \<open>Obligation_Properties\<close> states what they guarantee.
  \<^item> \<open>Admission\<close>: the contract of the runtime's admission queues, an abstract FIFO queue and the locales
    \<open>fifo_admission\<close> and \<open>bounded_admission\<close>; interpreted on \<open>Pacing_Gate\<close> (\<^verbatim>\<open>runtime/pacing.ts\<close>: caps on
    concurrent turns) and on \<open>Resident_Budget\<close> (\<^verbatim>\<open>runtime/resident-budget.ts\<close>: permits of resident workers).
  \<^item> \<open>Retry\<close> (\<^verbatim>\<open>runtime/pacing.ts\<close>, \<^verbatim>\<open>runtime/rate-limit-retry.ts\<close>, \<^verbatim>\<open>chat/spawn-backoff.ts\<close>): the rate-limit
    signature, delay ladder, retry loop and spawn gate; \<open>Provider_Classify\<close>
    (\<^verbatim>\<open>provider-recovery/classify.ts\<close>): which rejections may become an automatic wait.
  \<^item> \<open>Pipeline_Consumer\<close> (\<^verbatim>\<open>dispatch/pipeline.ts\<close>): the service that admits queue entries through the dispatcher;
    \<open>Consumer_Pass\<close> states what it guarantees.
  \<^item> \<open>Briefing_Types\<close> (\<^verbatim>\<open>dispatch/briefing-review/types.ts\<close>): the vocabulary of briefing reviews, its request parsers and
    the exactness of cited evidence; \<open>Briefing_Events\<close> (\<^verbatim>\<open>briefing-review/events.ts\<close>): armed reviews, verdicts and
    push-backs as ledger events, and the bounded reads over them; \<open>Briefing_Review\<close> (\<^verbatim>\<open>briefing-review/gate.ts\<close>,
    \<^verbatim>\<open>briefing-review/service.ts\<close>): the gate of a dispatch, and the commission, result and push-back handlers;
    \<open>Briefing_Properties\<close> states what they guarantee.

  \<^bold>\<open>How they interact.\<close> The consumer reads the queue of \<open>Pipeline_Store\<close> with the evaluator of
  \<open>Pipeline_Domain\<close>, takes and resolves claims there, blocks an interrupted job through \<open>setJobStatus\<close> of
  \<open>Obligation_Lifecycle\<close> (which opens an obligation), and reads the view of the resident budget. The stores
  share one \<open>ledger\<close> record and append to one event log; the bus delivers those events to the consumer. The
  retry loop takes its signature and delays from the pacing policy. The briefing reviews live in the same event
  log: an accepted lens result settles the report obligation of its job in \<open>Obligation_Store\<close>, and
  \<open>evaluateDispatch\<close> is the gate that the consumer's world calls before it dispatches.

  \<^bold>\<open>How the state corresponds.\<close> A table is a list of rows in rowid order, read and written by key; rows are never
  deleted, so a rowid is a position. A throwing function returns \<open>Inl\<close> of its error; an operation that throws
  in a transaction leaves the ledger as it was. A class is a record of its fields and one function per method.
  In the concurrent parts a promise is a ticket, a lease or permit the closure that gives it back; what is
  awaited is a step of its own, or (the consumer's dispatch) a function of the world that returns the
  ledger the wait ends in.

  \<^bold>\<open>What the lemmas show.\<close> Domain theories: the codecs round-trip, the evaluator is exact, and the two cycle searches
  decide reachability. Stores: one-step machines (\<open>entry_step\<close>, \<open>debt_step\<close>) that every operation follows,
  lifted by \<open>invariant_system\<close> to every reachable ledger, and for obligations a refinement to the set of owed
  incidents; a claim and a settlement are characterised exactly (\<open>claim_exclusive\<close>, \<open>settlement_needs_proof\<close>). Admission
  queues: the permits in use never exceed the cap, nobody is overtaken, a freed slot goes to the first turn that can be
  recorded, and reclaim takes the longest idle worker by its own record. Parsers and classifier: \<open>request_types\<close> and
  \<open>rejection_fails_to_owner\<close> state exactly what is accepted. Consumer: the
  ways its steps are composed keep a relation on ledgers (locales \<open>queue_relation\<close>, \<open>claim_relation\<close>,
  \<open>prelude_relation\<close>, interpreted on the queue's changes, on ``only this entry'' and on the holds); from them
  follow the chain of a pass's dispatches (\<open>call_chain\<close>: nothing twice, each in turn, claimed and admitted by the gate in
  the very ledger of its call), what an attempt leaves behind, and that a pass ends. Briefing reviews: the invariant \<open>reviews_ok\<close> of every reachable ledger says that the facts
  recovered from the event log form generations (three at most), verdicts (one per lens) and push-backs; it is
  what makes the bounded reads of the code exact, and from it follow that the gate is sound, that a decision is
  final, that a repeated result changes nothing, and that accepted evidence stands in the briefing.

  \<^bold>\<open>Fuel and termination.\<close> The cycle searches, the retry loop and the budget's drain are \<open>function\<close>s with a measure. The
  paging loop's fuel is one more than the table (proved enough); the regex star's is the rest of the
  input; the consumer's admission loop and its run loops take fuel, and one turn more than the queue has
  entries is proved enough for a pass when dispatching leaves the queue rows alone. A run of passes has no
  bound in the code: each pass may publish the event that triggers the next.

  \<^bold>\<open>Abstractions.\<close> Strings are code units below 256. JSON columns are trees: the text layer of \<open>JSON\<close> is not
  modelled. Numbers are rationals or integers; double rounding and NaN are not modelled, nor the order of
  records that JavaScript sorts by an inconsistent comparator. One clock reading serves one ledger
  operation. \<open>Date.parse\<close>, \<open>toISOString\<close>, \<open>sha256\<close>, \<open>localeCompare\<close>, \<open>JSON.parse\<close> and configured
  regular expressions are parameters. Message texts are constructors of the error and reason types. The
  live-work and candidate-delivery reads and the completion of a gate duty are functions of the
  environment, as are dispatch, the review gate, storage failures and the budget's view for the consumer. A
  synchronous callback into the pacing gate from its own recorder or from a \<open>queued\<close> callback is not modelled. A plan is
  compared as a value where the code compares \<open>JSON.stringify\<close> texts, which also tell the order of keys apart. The
  consumer's \<open>schedule\<close> marks a pass as pending and the run is a step of its own, so the pass that the code starts
  within boot reconciliation comes after it here. The store does not check the event number a caller says it observed, nor
  does the model (\<open>blocked_job_owes\<close>). For briefing reviews the lens
  dispatch, the posted card, the helper package, the head of a repository and \<open>JSON.stringify\<close> are fields of
  \<open>review_world\<close>; the payload filter of an event read compares string members.

  \<^bold>\<open>Not modelled.\<close> Older schemas and migrations; the head guard of \<open>appendEvent\<close> for settled directives; agents, rounds, lenses
  and worktrees of the ledger; notifications beyond the cards that obligations answer; owner approvals,
  closeouts, mailbox and decision memory; the board counts and the helper package of briefing reviews; the dispatcher, its drivers and reviews (\<^verbatim>\<open>dispatch/service.ts\<close>,
  \<^verbatim>\<open>dispatch/perkins.ts\<close>, \<^verbatim>\<open>dispatch/silas-driver.ts\<close> and others), which orchestrate processes, Git hosts and
  models; the supervisor, the worktree manager and the review sandbox, which are file system and process
  control; HTTP and chat servers, the command line, configuration reading and the web client.
\<close>

end
